(* ===== verification/Zp_Prelude.thy ===== *)
theory Zp_Prelude
  imports Main "HOL-Library.Word" "HOL-Library.Char_ord" "HOL-Library.List_Lexorder"
    "HOL-Library.Sublist" "HOL-Library.Code_Target_Nat"
begin

text \<open>
  What every component shares: the machine integers of the target (LP64: \<open>int\<close> has 32 bits,
  \<open>long\<close> and \<open>size_t\<close> 64), C strings as \<^typ>\<open>string\<close> (a list of bytes; a NUL byte ends
  a C string, a file's contents may hold any byte), and the part of the C library the sources
  call on them: \<open>strtol\<close>, \<open>strtoul\<close>, \<open>strtok_r\<close>, \<open>strrchr\<close>, \<open>strstr\<close>,
  \<open>fgets\<close> and the number conversions of \<open>printf\<close>.  The lemmas read back what the
  printers write; the collections \<open>cnum\<close> and \<open>cstring\<close> carry them to the components.
\<close>

named_theorems cnum "ranges and conversions of C integers"
named_theorems cstring "C string and stream functions"

unbundle bit_operations_syntax

section \<open>Machine integers\<close>

type_synonym u32 = "32 word"
type_synonym u64 = "64 word"

definition INT_MAX :: int where "INT_MAX = 2147483647"
definition INT_MIN :: int where "INT_MIN = - 2147483648"
definition LONG_MAX :: int where "LONG_MAX = 9223372036854775807"
definition LONG_MIN :: int where "LONG_MIN = - 9223372036854775808"
definition ULONG_MAX :: int where "ULONG_MAX = 18446744073709551615"

lemmas c_limits = INT_MAX_def INT_MIN_def LONG_MAX_def LONG_MIN_def ULONG_MAX_def

definition long_range :: "int \<Rightarrow> bool" where
  "long_range v \<longleftrightarrow> LONG_MIN \<le> v \<and> v \<le> LONG_MAX"

text \<open>Conversion of a \<open>long\<close> to \<open>int\<close> keeps the low 32 bits, read as two's complement.\<close>

definition to_int :: "int \<Rightarrow> int" where
  "to_int v = (v + 2147483648) mod 4294967296 - 2147483648"

lemma to_int_id [cnum]: "INT_MIN \<le> v \<Longrightarrow> v \<le> INT_MAX \<Longrightarrow> to_int v = v"
  by (simp add: to_int_def c_limits mod_pos_pos_trivial)

lemma to_int_range [cnum]: "INT_MIN \<le> to_int v \<and> to_int v \<le> INT_MAX"
proof -
  have "0 \<le> (v + 2147483648) mod 4294967296" "(v + 2147483648) mod 4294967296 < 4294967296"
    by simp_all
  then show ?thesis by (simp add: to_int_def c_limits)
qed

section \<open>Characters and number conversions\<close>

definition nul :: char where "nul = CHR 0x00"
definition tab :: char where "tab = CHR 0x09"
definition newline :: char where "newline = CHR 0x0A"
definition creturn :: char where "creturn = CHR 0x0D"
definition slash :: char where "slash = CHR ''/''"

lemmas c_chars = nul_def tab_def newline_def creturn_def slash_def

definition c_isspace :: "char \<Rightarrow> bool" where
  "c_isspace c \<longleftrightarrow> c \<in> {CHR '' '', CHR 0x09, CHR 0x0A, CHR 0x0B, CHR 0x0C, CHR 0x0D}"

text \<open>Digits: bases up to 10 for reading, up to 16 (lower case) for printing.\<close>

definition digit_char :: "nat \<Rightarrow> char" where
  "digit_char d = char_of (if d < 10 then 48 + d else 87 + d)"

definition is_digit :: "nat \<Rightarrow> char \<Rightarrow> bool" where
  "is_digit b c \<longleftrightarrow> 48 \<le> (of_char c :: nat) \<and> (of_char c :: nat) < 48 + b"

definition digit_of :: "char \<Rightarrow> nat" where
  "digit_of c = of_char c - 48"

function render_nat :: "nat \<Rightarrow> nat \<Rightarrow> string" where
  "render_nat b n =
     (if b < 2 \<or> n < b then [digit_char n]
      else render_nat b (n div b) @ [digit_char (n mod b)])"
  by pat_completeness auto
termination
  by (relation "measure snd") auto

declare render_nat.simps [simp del]

definition render_int :: "int \<Rightarrow> string" where
  "render_int v = (if v < 0 then CHR ''-'' # render_nat 10 (nat (- v)) else render_nat 10 (nat v))"

definition parse_nat :: "nat \<Rightarrow> string \<Rightarrow> nat" where
  "parse_nat b s = foldl (\<lambda>a c. a * b + digit_of c) 0 s"

lemma of_char_digit: "d < 10 \<Longrightarrow> (of_char (digit_char d) :: nat) = 48 + d"
  by (simp add: digit_char_def)

lemma digit_of_char [simp]: "d < 10 \<Longrightarrow> digit_of (digit_char d) = d"
  by (simp add: digit_of_def of_char_digit)

lemma is_digit_char: "d < b \<Longrightarrow> b \<le> 10 \<Longrightarrow> is_digit b (digit_char d)"
  by (simp add: is_digit_def of_char_digit)

lemma parse_nat_snoc: "parse_nat b (s @ [c]) = parse_nat b s * b + digit_of c"
  by (simp add: parse_nat_def)

lemma parse_render_nat [cnum]:
  assumes "2 \<le> b" "b \<le> 10"
  shows "parse_nat b (render_nat b n) = n"
  using assms
proof (induction b n rule: render_nat.induct)
  case (1 b n)
  show ?case
  proof (cases "n < b")
    case True
    with 1 show ?thesis
      by (simp add: render_nat.simps [of b n] parse_nat_def)
  next
    case False
    with 1 have "n mod b < 10" by (meson less_le_trans mod_less_divisor not_less order_less_le_trans zero_less_numeral)
    with False 1 show ?thesis
      by (simp add: render_nat.simps [of b n] parse_nat_snoc)
  qed
qed

lemma render_nat_digits [cnum]:
  assumes "2 \<le> b" "b \<le> 10"
  shows "list_all (is_digit b) (render_nat b n)"
  using assms
proof (induction b n rule: render_nat.induct)
  case (1 b n)
  then show ?case
    by (cases "n < b") (auto simp: render_nat.simps [of b n] is_digit_char)
qed

lemma render_nat_nonempty [simp]: "render_nat b n \<noteq> []"
  by (subst render_nat.simps) simp

lemma render_nat_inj: "2 \<le> b \<Longrightarrow> b \<le> 10 \<Longrightarrow> render_nat b m = render_nat b n \<longleftrightarrow> m = n"
  by (metis parse_render_nat)

lemma digit_range: "is_digit b c \<Longrightarrow> b \<le> 10 \<Longrightarrow> 48 \<le> (of_char c :: nat) \<and> (of_char c :: nat) < 58"
  by (simp add: is_digit_def)

lemma digit_not_special:
  assumes "is_digit b c" "b \<le> 10"
  shows "\<not> c_isspace c" "c \<noteq> CHR ''-''" "c \<noteq> CHR ''+''" "c \<noteq> tab" "c \<noteq> newline"
    "c \<noteq> nul" "c \<noteq> CHR ''#''" "c \<noteq> CHR '' ''"
  using digit_range [OF assms] by (auto simp: c_isspace_def c_chars)

text \<open>How long a rendered number can be.\<close>

lemma render_nat_length:
  assumes "2 \<le> b" "0 < k" "n < b ^ k"
  shows "length (render_nat b n) \<le> k"
  using assms
proof (induction k arbitrary: n)
  case 0
  then show ?case by simp
next
  case (Suc k)
  show ?case
  proof (cases "n < b")
    case True
    then show ?thesis by (simp add: render_nat.simps [of b n])
  next
    case False
    with Suc.prems have k: "0 < k" by (cases k) auto
    from Suc.prems have "n < b ^ k * b" by (simp add: mult.commute)
    then have "n div b < b ^ k" by (rule less_mult_imp_div_less)
    with k Suc.prems(1) have "length (render_nat b (n div b)) \<le> k"
      using Suc.IH by blast
    with False Suc.prems(1) show ?thesis by (simp add: render_nat.simps [of b n])
  qed
qed

lemma render_int_length: "long_range v \<Longrightarrow> length (render_int v) \<le> 20"
proof -
  assume r: "long_range v"
  have "nat (- v) < 10 ^ 19" "nat v < 10 ^ 19"
    using r by (auto simp: long_range_def c_limits)
  then have "length (render_nat 10 (nat (- v))) \<le> 19" "length (render_nat 10 (nat v)) \<le> 19"
    using render_nat_length [of 10 19] by simp_all
  then show ?thesis by (simp add: render_int_def)
qed

text \<open>Two lower-case hexadecimal digits (\<open>%02x\<close> of a byte).\<close>

definition hex_byte :: "char \<Rightarrow> string" where
  "hex_byte c = [digit_char (of_char c div 16), digit_char (of_char c mod 16)]"

section \<open>Strings\<close>

text \<open>The C string that starts a byte sequence.\<close>

definition cstr :: "string \<Rightarrow> string" where
  "cstr s = takeWhile (\<lambda>c. c \<noteq> nul) s"

lemma cstr_id [cstring]: "nul \<notin> set s \<Longrightarrow> cstr s = s"
  by (auto simp: cstr_def takeWhile_eq_all_conv)

lemma nul_notin_cstr [simp]: "nul \<notin> set (cstr s)"
  by (auto simp: cstr_def dest: set_takeWhileD)

text \<open>\<open>strrchr (s, '/')\<close>: the part before and the part after the last slash.\<close>

definition strrchr :: "char \<Rightarrow> string \<Rightarrow> (string \<times> string) option" where
  "strrchr c s =
     (if c \<in> set s
      then Some (rev (tl (dropWhile (\<lambda>x. x \<noteq> c) (rev s))), rev (takeWhile (\<lambda>x. x \<noteq> c) (rev s)))
      else None)"

lemma strrchr_Some:
  assumes "strrchr c s = Some (a, b)"
  shows "s = a @ c # b \<and> c \<notin> set b"
proof -
  let ?r = "rev s" and ?P = "\<lambda>x. x \<noteq> c"
  from assms have c: "c \<in> set s" and ab: "a = rev (tl (dropWhile ?P ?r))" "b = rev (takeWhile ?P ?r)"
    by (auto simp: strrchr_def split: if_splits)
  from c have ne: "dropWhile ?P ?r \<noteq> []" by (auto simp: dropWhile_eq_Nil_conv)
  have "hd (dropWhile ?P ?r) = c" using hd_dropWhile [OF ne] by simp
  with ne have d: "dropWhile ?P ?r = c # tl (dropWhile ?P ?r)"
    by (cases "dropWhile ?P ?r") simp_all
  have "?r = takeWhile ?P ?r @ dropWhile ?P ?r" by simp
  with d have "?r = takeWhile ?P ?r @ c # tl (dropWhile ?P ?r)" by simp
  then have "s = rev (takeWhile ?P ?r @ c # tl (dropWhile ?P ?r))"
    by (subst rev_swap [symmetric])
  moreover have "c \<notin> set (takeWhile ?P ?r)" by (auto dest: set_takeWhileD)
  ultimately show ?thesis by (simp add: ab)
qed

lemma strrchr_None: "strrchr c s = None \<longleftrightarrow> c \<notin> set s"
  by (simp add: strrchr_def)

lemma strrchr_append [cstring]: "c \<notin> set b \<Longrightarrow> strrchr c (a @ c # b) = Some (a, b)"
  by (auto simp: strrchr_def takeWhile_append dropWhile_append dropWhile_eq_Nil_conv
      takeWhile_eq_all_conv)

lemma strrchr_shorter: "strrchr c s = Some (a, b) \<Longrightarrow> length a < length s"
  by (auto dest: strrchr_Some)

text \<open>\<open>strstr\<close> as a test, and the suffix test of the sources.\<close>

definition strstr :: "string \<Rightarrow> string \<Rightarrow> bool" where
  "strstr s t \<longleftrightarrow> (\<exists>i \<in> set [0..<Suc (length s)]. take (length t) (drop i s) = t)"

definition has_suffix :: "string \<Rightarrow> string \<Rightarrow> bool" where
  "has_suffix t s \<longleftrightarrow> length t \<le> length s \<and> drop (length s - length t) s = t"

lemma has_suffix_iff: "has_suffix t s \<longleftrightarrow> (\<exists>u. s = u @ t)"
proof
  assume "has_suffix t s"
  then have "s = take (length s - length t) s @ t"
    by (metis append_take_drop_id has_suffix_def)
  then show "\<exists>u. s = u @ t" by blast
qed (auto simp: has_suffix_def)

text \<open>\<open>strncmp (s, t, strlen t) == 0\<close>.\<close>

definition starts_with :: "string \<Rightarrow> string \<Rightarrow> bool" where
  "starts_with t s \<longleftrightarrow> take (length t) s = t"

lemma starts_with_append [simp]: "starts_with t (t @ s)"
  by (simp add: starts_with_def)

end
