(* ===== verification/Zp_Clib.thy ===== *)
theory Zp_Clib
  imports Zp_Prelude
begin

text \<open>
  The stateful part of the C string library that the sources rely on: number scanning with
  \<open>strtol\<close> and \<open>strtoul\<close>, tokens with \<open>strtok_r\<close>, and reading a text file line by
  line through a fixed buffer with \<open>fgets\<close> (a line longer than the buffer arrives in
  pieces, as in C).  The lemmas say what each reads back of a record that was printed with
  tabs between its fields and a newline at its end.
\<close>

section \<open>strtol and strtoul\<close>

fun c_sign :: "string \<Rightarrow> bool \<times> string" where
  "c_sign [] = (False, [])"
| "c_sign (c # s) = (if c = CHR ''-'' then (True, s) else if c = CHR ''+'' then (False, s)
                     else (False, c # s))"

text \<open>Value, the rest from the end pointer on, and whether the value was out of range.\<close>

definition strtol :: "nat \<Rightarrow> string \<Rightarrow> int \<times> string \<times> bool" where
  "strtol b s =
     (let (neg, u) = c_sign (dropWhile c_isspace s);
          ds = takeWhile (is_digit b) u;
          rest = dropWhile (is_digit b) u;
          v = (if neg then - int (parse_nat b ds) else int (parse_nat b ds))
      in if ds = [] then (0, s, False)
         else if LONG_MAX < v then (LONG_MAX, rest, True)
         else if v < LONG_MIN then (LONG_MIN, rest, True)
         else (v, rest, False))"

definition strtoul :: "nat \<Rightarrow> string \<Rightarrow> u64" where
  "strtoul b s =
     (let (neg, u) = c_sign (dropWhile c_isspace s);
          v = int (parse_nat b (takeWhile (is_digit b) u))
      in if ULONG_MAX < v then word_of_int ULONG_MAX
         else if neg then word_of_int (- v) else word_of_int v)"

definition no_digit_first :: "nat \<Rightarrow> string \<Rightarrow> bool" where
  "no_digit_first b r \<longleftrightarrow> (r = [] \<or> \<not> is_digit b (hd r))"

lemma takeWhile_digits [cstring]:
  assumes "list_all (is_digit b) ds" "no_digit_first b r"
  shows "takeWhile (is_digit b) (ds @ r) = ds" "dropWhile (is_digit b) (ds @ r) = r"
proof -
  have r: "takeWhile (is_digit b) r = []" "dropWhile (is_digit b) r = r"
    using assms(2) by (cases r; simp add: no_digit_first_def)+
  show "takeWhile (is_digit b) (ds @ r) = ds"
    using assms(1) r by (induction ds) simp_all
  show "dropWhile (is_digit b) (ds @ r) = r"
    using assms(1) r by (induction ds) simp_all
qed

lemma no_digit_first_Nil [simp]: "no_digit_first b []"
  by (simp add: no_digit_first_def)

lemma skip_space_digits:
  assumes "b \<le> 10" "list_all (is_digit b) ds" "ds \<noteq> []"
  shows "dropWhile c_isspace (ds @ r) = ds @ r" "c_sign (ds @ r) = (False, ds @ r)"
proof -
  from assms obtain c cs where ds: "ds = c # cs" and c: "is_digit b c" by (cases ds) auto
  from c assms(1) have "\<not> c_isspace c" "c \<noteq> CHR ''-''" "c \<noteq> CHR ''+''"
    by (auto dest: digit_not_special)
  then show "dropWhile c_isspace (ds @ r) = ds @ r" "c_sign (ds @ r) = (False, ds @ r)"
    by (simp_all add: ds)
qed

lemma c_sign_length: "c_sign t = (neg, u) \<Longrightarrow> length u \<le> length t"
  by (cases t) (auto split: if_splits)

lemma minus_not_space [simp]: "\<not> c_isspace (CHR ''-'')"
  by (simp add: c_isspace_def)

lemma strtol_digits:
  assumes "b \<le> 10" "list_all (is_digit b) ds" "ds \<noteq> []" "no_digit_first b r"
    "int (parse_nat b ds) \<le> LONG_MAX"
  shows "strtol b (ds @ r) = (int (parse_nat b ds), r, False)"
  using assms
  by (simp add: strtol_def skip_space_digits takeWhile_digits c_limits)

lemma strtol_minus_digits:
  assumes "b \<le> 10" "list_all (is_digit b) ds" "ds \<noteq> []" "no_digit_first b r"
    "LONG_MIN \<le> - int (parse_nat b ds)"
  shows "strtol b (CHR ''-'' # ds @ r) = (- int (parse_nat b ds), r, False)"
  using assms
  by (simp add: strtol_def takeWhile_digits c_limits)

lemma strtol_render_nat [cnum]:
  assumes "2 \<le> b" "b \<le> 10" "no_digit_first b r" "int n \<le> LONG_MAX"
  shows "strtol b (render_nat b n @ r) = (int n, r, False)"
  using strtol_digits [of b "render_nat b n" r] assms
  by (simp add: render_nat_digits parse_render_nat)

lemma strtol_render_int [cnum]:
  assumes "no_digit_first 10 r" "long_range v"
  shows "strtol 10 (render_int v @ r) = (v, r, False)"
proof (cases "v < 0")
  case True
  with assms show ?thesis
    using strtol_minus_digits [of 10 "render_nat 10 (nat (- v))" r]
    by (simp add: render_int_def long_range_def render_nat_digits parse_render_nat)
next
  case False
  with assms show ?thesis
    by (simp add: render_int_def long_range_def strtol_render_nat)
qed

lemma strtoul_render_nat [cnum]:
  assumes "no_digit_first 10 r"
  shows "strtoul 10 (render_nat 10 (unat (x :: u64)) @ r) = x"
proof -
  have "int (unat x) \<le> ULONG_MAX"
    using unsigned_less [of x, where ?'a = int] by (simp add: c_limits)
  moreover have "word_of_int (int (unat x)) = x" by simp
  ultimately show ?thesis
    using assms
    by (simp add: strtoul_def skip_space_digits [of 10] takeWhile_digits render_nat_digits
        parse_render_nat not_less)
qed

lemma strtol_end_shorter:
  "strtol b s = (v, e, r) \<Longrightarrow> e = s \<or> length e < length s"
proof -
  assume a: "strtol b s = (v, e, r)"
  obtain neg u where u: "c_sign (dropWhile c_isspace s) = (neg, u)" by fastforce
  have "length u \<le> length (dropWhile c_isspace s)"
    using u by (rule c_sign_length)
  then have le: "length u \<le> length s" using length_dropWhile_le [of c_isspace s] by linarith
  have "takeWhile (is_digit b) u \<noteq> [] \<Longrightarrow> length (dropWhile (is_digit b) u) < length u"
    by (cases u) (auto simp: less_Suc_eq_le length_dropWhile_le split: if_splits)
  with a u le show ?thesis
    by (auto simp: strtol_def Let_def split: if_splits)
qed

section \<open>Tokens\<close>

text \<open>The tokens that repeated calls of \<open>strtok_r\<close> with one set of delimiters return.\<close>

function strtoks :: "char \<Rightarrow> string \<Rightarrow> string list" where
  "strtoks d s =
     (case dropWhile (\<lambda>c. c = d) s of
        [] \<Rightarrow> []
      | c # r \<Rightarrow> takeWhile (\<lambda>x. x \<noteq> d) (c # r) # strtoks d (dropWhile (\<lambda>x. x \<noteq> d) (c # r)))"
  by pat_completeness auto
termination
proof (relation "measure (\<lambda>(d, s). length s)")
  fix d :: char and s c r
  assume a: "dropWhile (\<lambda>c. c = d) s = c # r"
  then have "c \<noteq> d" using hd_dropWhile [of "\<lambda>c. c = d" s] by auto
  then have "length (dropWhile (\<lambda>x. x \<noteq> d) (c # r)) \<le> length r"
    by (simp add: length_dropWhile_le)
  also have "length r < length s"
    using a length_dropWhile_le [of "\<lambda>c. c = d" s] by simp
  finally show "((d, dropWhile (\<lambda>x. x \<noteq> d) (c # r)), (d, s)) \<in> measure (\<lambda>(d, s). length s)"
    by simp
qed simp

declare strtoks.simps [simp del]

lemma strtoks_Nil [cstring]: "strtoks d [] = []"
  by (simp add: strtoks.simps [of d])

lemma strtoks_delim [cstring]: "strtoks d (d # s) = strtoks d s"
  by (simp add: strtoks.simps [of d "d # s"] strtoks.simps [of d s])

lemma strtoks_word [cstring]:
  assumes "t \<noteq> []" "d \<notin> set t" "s = [] \<or> hd s = d"
  shows "strtoks d (t @ s) = t # strtoks d s"
proof -
  from assms have h: "hd t \<noteq> d" by (cases t) auto
  then have "dropWhile (\<lambda>c. c = d) (t @ s) = t @ s"
    using assms(1) by (cases t) auto
  moreover have "takeWhile (\<lambda>x. x \<noteq> d) (t @ s) = t" "dropWhile (\<lambda>x. x \<noteq> d) (t @ s) = s"
    using assms by (cases s; auto simp: takeWhile_append dropWhile_append takeWhile_eq_all_conv)+
  ultimately show ?thesis
    using assms(1) by (subst strtoks.simps) (cases t; simp)
qed

text \<open>Fields printed with a tab between them are read back as they were.\<close>

fun tabbed :: "string list \<Rightarrow> string" where
  "tabbed [] = []"
| "tabbed [f] = f"
| "tabbed (f # g # fs) = f @ tab # tabbed (g # fs)"

definition field_ok :: "char \<Rightarrow> string \<Rightarrow> bool" where
  "field_ok d f \<longleftrightarrow> f \<noteq> [] \<and> d \<notin> set f"

lemma strtoks_tabbed [cstring]:
  "list_all (field_ok tab) fs \<Longrightarrow> strtoks tab (tabbed fs) = fs"
proof (induction fs rule: tabbed.induct)
  case (2 f)
  then show ?case using strtoks_word [of f tab "[]"] by (simp add: field_ok_def strtoks_Nil)
next
  case (3 f g fs)
  then show ?case
    using strtoks_word [of f tab "tab # tabbed (g # fs)"] by (simp add: field_ok_def strtoks_delim)
qed (simp add: strtoks_Nil)

lemma in_tabbed: "c \<noteq> tab \<Longrightarrow> c \<in> set (tabbed fs) \<longleftrightarrow> (\<exists>f \<in> set fs. c \<in> set f)"
  by (induction fs rule: tabbed.induct) auto

lemma length_tabbed: "length (tabbed fs) = (\<Sum>f \<leftarrow> fs. length f) + (length fs - 1)"
  by (induction fs rule: tabbed.induct) auto

lemma newline_not_tab [simp]: "newline \<noteq> tab" "nul \<noteq> tab"
  by (simp_all add: c_chars)

lemma field_ok_render_nat [cnum]: "2 \<le> b \<Longrightarrow> b \<le> 10 \<Longrightarrow> field_ok tab (render_nat b n)"
  using render_nat_digits [of b n] digit_not_special(4) [of b tab]
  by (auto simp: field_ok_def list_all_iff)

lemma field_ok_render_int [cnum]: "field_ok tab (render_int v)"
  using field_ok_render_nat [of 10] by (auto simp: render_int_def field_ok_def c_chars)

lemma render_no_char [cnum]:
  "2 \<le> b \<Longrightarrow> b \<le> 10 \<Longrightarrow> newline \<notin> set (render_nat b n)"
  "2 \<le> b \<Longrightarrow> b \<le> 10 \<Longrightarrow> nul \<notin> set (render_nat b n)"
  "newline \<notin> set (render_int v)" "nul \<notin> set (render_int v)"
  using render_nat_digits [of b n] render_nat_digits [of 10 "nat v"]
    render_nat_digits [of 10 "nat (- v)"]
  by (auto simp: render_int_def list_all_iff c_chars is_digit_def split: if_splits)

section \<open>Reading lines through a buffer\<close>

text \<open>One call of \<open>fgets\<close> on a buffer of \<open>n\<close> bytes: at most \<open>n - 1\<close> bytes, up to
  and with the first newline.\<close>

fun fgets_take :: "nat \<Rightarrow> string \<Rightarrow> string \<times> string" where
  "fgets_take 0 s = ([], s)"
| "fgets_take (Suc n) [] = ([], [])"
| "fgets_take (Suc n) (c # s) =
     (if c = newline then ([c], s) else let (l, r) = fgets_take n s in (c # l, r))"

lemma fgets_take_code [code]:
  "fgets_take n s =
     (if n = 0 then ([], s)
      else case s of [] \<Rightarrow> ([], [])
           | c # t \<Rightarrow> if c = newline then ([c], t) else let (l, r) = fgets_take (n - 1) t in (c # l, r))"
  by (cases n; cases s) (simp_all add: Let_def split: prod.splits)

definition fgets :: "nat \<Rightarrow> string \<Rightarrow> (string \<times> string) option" where
  "fgets n s = (if s = [] \<or> n < 2 then None else Some (fgets_take (n - 1) s))"

lemma fgets_take_append: "fgets_take n s = (l, r) \<Longrightarrow> s = l @ r"
  by (induction n s arbitrary: l r rule: fgets_take.induct) (auto split: if_splits prod.splits)

lemma fgets_take_nonempty: "fgets_take (Suc n) (c # s) = (l, r) \<Longrightarrow> l \<noteq> []"
  by (auto split: if_splits prod.splits)

lemma fgets_shorter: "fgets n s = Some (l, r) \<Longrightarrow> length r < length s"
proof -
  assume a: "fgets n s = Some (l, r)"
  then have "s \<noteq> []" "2 \<le> n" "fgets_take (n - 1) s = (l, r)"
    by (auto simp: fgets_def split: if_splits)
  obtain c t where "s = c # t" using \<open>s \<noteq> []\<close> by (cases s) auto
  moreover obtain m where "n - 1 = Suc m" using \<open>2 \<le> n\<close> by (cases "n - 1") auto
  moreover note \<open>fgets_take (n - 1) s = (l, r)\<close>
  ultimately have "l \<noteq> []" "s = l @ r"
    using fgets_take_nonempty [of m c t l r] fgets_take_append [of "n - 1" s l r] by auto
  then show ?thesis by simp
qed

lemma fgets_take_line:
  assumes "newline \<notin> set l" "length l < n"
  shows "fgets_take n (l @ newline # r) = (l @ [newline], r)"
  using assms
proof (induction l arbitrary: n)
  case Nil
  then show ?case by (cases n) auto
next
  case (Cons c l)
  then show ?case by (cases n) auto
qed

lemma fgets_line [cstring]:
  assumes "newline \<notin> set l" "length l + 1 < n"
  shows "fgets n (l @ newline # r) = Some (l @ [newline], r)"
  using assms fgets_take_line [of l "n - 1" r] by (auto simp: fgets_def)

text \<open>The buffers a loop \<open>while (fgets (...))\<close> sees, as C strings.\<close>

function fgets_all :: "nat \<Rightarrow> string \<Rightarrow> string list" where
  "fgets_all n s =
     (case fgets n s of None \<Rightarrow> [] | Some (l, r) \<Rightarrow> cstr l # fgets_all n r)"
  by pat_completeness auto
termination
  by (relation "measure (\<lambda>(n, s). length s)") (auto dest: fgets_shorter)

declare fgets_all.simps [simp del]

definition line_ok :: "nat \<Rightarrow> string \<Rightarrow> bool" where
  "line_ok n l \<longleftrightarrow> newline \<notin> set l \<and> nul \<notin> set l \<and> length l + 1 < n"

lemma fgets_all_line [cstring]:
  assumes "line_ok n l"
  shows "fgets_all n (l @ newline # s) = (l @ [newline]) # fgets_all n s"
proof -
  from assms have "cstr (l @ [newline]) = l @ [newline]"
    by (intro cstr_id) (auto simp: line_ok_def c_chars)
  with assms show ?thesis
    by (subst fgets_all.simps) (simp add: fgets_line line_ok_def)
qed

lemma fgets_all_Nil [cstring]: "fgets_all n [] = []"
  by (subst fgets_all.simps) (simp add: fgets_def)

lemma fgets_all_lines [cstring]:
  "list_all (line_ok n) ls \<Longrightarrow>
     fgets_all n (concat (map (\<lambda>l. l @ [newline]) ls)) = map (\<lambda>l. l @ [newline]) ls"
  by (induction ls) (simp_all add: fgets_all_Nil fgets_all_line)

text \<open>\<open>if (nl = strchr (line, newline)) *nl = 0\<close>\<close>

definition chomp :: "string \<Rightarrow> string" where
  "chomp l = takeWhile (\<lambda>c. c \<noteq> newline) l"

lemma chomp_line [cstring]: "newline \<notin> set l \<Longrightarrow> chomp (l @ [newline]) = l"
  by (auto simp: chomp_def takeWhile_append takeWhile_eq_all_conv)

end
