(* ===== verification/Zp_World.thy ===== *)
theory Zp_World
  imports Zp_Clib
begin

text \<open>
  The process and the operating system as the module sees them: file metadata (\<open>struct
  stat\<close>), the file system as the answers its calls give, shell parameters, the allocator, and
  the two output channels (standard output and \<open>zwarnnam\<close> diagnostics).  A failing call
  answers with its \<open>errno\<close>.  The calls of the module that change this state (\<open>mkdir\<close>,
  \<open>open\<close> with \<open>O_CREAT\<close>, \<open>fchmod\<close>, \<open>ftruncate\<close>, \<open>unlink\<close>, \<open>rename\<close> and
  writing a stream) are functions from a world to a world.  Paths are strings: two strings that
  name one file are two entries.
\<close>

section \<open>File metadata\<close>

text \<open>No file has a negative size.\<close>

record stat =
  st_dev :: u64
  st_ino :: u64
  st_mode :: u32
  st_nlink :: u64
  st_uid :: u32
  st_gid :: u32
  st_size :: nat
  st_mtime :: int
  st_ctime :: int

text \<open>The mode bits, in decimal: \<open>S_IFMT\<close> is octal 170000, \<open>S_ISVTX\<close> octal 1000.\<close>

definition S_IFMT :: u32 where "S_IFMT = 61440"
definition S_IFDIR :: u32 where "S_IFDIR = 16384"
definition S_IFREG :: u32 where "S_IFREG = 32768"
definition S_IFLNK :: u32 where "S_IFLNK = 40960"
definition S_ISVTX :: u32 where "S_ISVTX = 512"
definition S_IWGRP :: u32 where "S_IWGRP = 16"
definition S_IWOTH :: u32 where "S_IWOTH = 2"
definition MODE_BITS :: u32 where "MODE_BITS = 4095"

lemmas mode_consts = S_IFMT_def S_IFDIR_def S_IFREG_def S_IFLNK_def S_ISVTX_def S_IWGRP_def
  S_IWOTH_def MODE_BITS_def

definition S_ISDIR :: "u32 \<Rightarrow> bool" where "S_ISDIR m \<longleftrightarrow> m AND S_IFMT = S_IFDIR"
definition S_ISREG :: "u32 \<Rightarrow> bool" where "S_ISREG m \<longleftrightarrow> m AND S_IFMT = S_IFREG"
definition S_ISLNK :: "u32 \<Rightarrow> bool" where "S_ISLNK m \<longleftrightarrow> m AND S_IFMT = S_IFLNK"

text \<open>A permission bit tested as C does: a non-zero conjunction.\<close>

definition has_bit :: "u32 \<Rightarrow> u32 \<Rightarrow> bool" where "has_bit m b \<longleftrightarrow> m AND b \<noteq> 0"

definition ENOENT :: nat where "ENOENT = 2"
definition EIO :: nat where "EIO = 5"
definition EAGAIN :: nat where "EAGAIN = 11"
definition ENOMEM :: nat where "ENOMEM = 12"
definition EINVAL :: nat where "EINVAL = 22"
definition ENOSPC :: nat where "ENOSPC = 28"
definition ENAMETOOLONG :: nat where "ENAMETOOLONG = 36"
definition ELOOP :: nat where "ELOOP = 40"
definition EOVERFLOW :: nat where "EOVERFLOW = 75"

lemmas errno_consts = ENOENT_def EIO_def EAGAIN_def ENOMEM_def EINVAL_def ENOSPC_def ENAMETOOLONG_def ELOOP_def
  EOVERFLOW_def

definition PATH_MAX :: nat where "PATH_MAX = 4096"

definition F_OK :: nat where "F_OK = 0"
definition W_OK :: nat where "W_OK = 2"
definition R_OK :: nat where "R_OK = 4"

section \<open>The world\<close>

text \<open>
  The calls that write a shell parameter.  The parameter table belongs to zsh; what the module
  asks of it is kept as the sequence of its calls.  \<open>setsparam\<close> takes over the string it is given:
  with \<open>Set_scalar\<close> it gets one of its own, with \<open>Lend_scalar\<close> a buffer that the caller goes on
  using and frees; the text is what the buffer holds at the call, and what the parameter holds
  later is not said.
\<close>

datatype pcall =
    Unset_param string
  | Set_array string "string list"
  | Set_scalar string string
  | Lend_scalar string string

text \<open>
  \<open>w_stat\<close>, \<open>w_lstat\<close>: metadata of a path; \<open>w_dir\<close>: the names \<open>readdir\<close> yields, in
  its order, and the \<open>errno\<close> it ends with (0 at the end of the directory); \<open>w_data\<close>: the
  bytes read through the path; \<open>w_access\<close>: does \<open>access\<close> succeed for the mode bits.
  \<open>w_fresh\<close> is the metadata of the node the kernel would create
  at a path.  \<open>w_out_room\<close> is how many more bytes standard output takes and \<open>w_room\<close> how many a
  file takes, if bounded.  \<open>w_realpath\<close> resolves a path; \<open>w_mkstemp\<close> is the name a template
  is given.  \<open>w_reads\<close> is what the n-th \<open>read\<close> of a
  file answers: an \<open>errno\<close>, or the number of bytes the kernel is ready to transfer;
  \<open>w_mmap_ok\<close> is whether mapping it succeeds.  \<open>w_err\<close> is the text on standard error and
  \<open>w_pcalls\<close> the parameter calls made; \<open>w_execs\<close> are the command lines handed to
  \<open>execstring\<close>.  \<open>w_garbage\<close> is what two uninitialised members of a structure hold that is made
  for a path.  The fields ending in \<open>_err\<close> are the \<open>errno\<close> of a call, 0 where it
  succeeds.
\<close>

record world =
  w_stat :: "string \<Rightarrow> nat + stat"
  w_lstat :: "string \<Rightarrow> nat + stat"
  w_dir :: "string \<Rightarrow> nat + (string list \<times> nat)"
  w_data :: "string \<Rightarrow> nat + string"
  w_access :: "string \<Rightarrow> nat \<Rightarrow> bool"
  w_fresh :: "string \<Rightarrow> stat"
  w_mkdir_err :: "string \<Rightarrow> nat"
  w_open_err :: "string \<Rightarrow> nat"
  w_fchmod_err :: "string \<Rightarrow> nat"
  w_trunc_err :: "string \<Rightarrow> nat"
  w_fdopen_err :: "string \<Rightarrow> nat"
  w_unlink_err :: "string \<Rightarrow> nat"
  w_rename_err :: "string \<Rightarrow> nat"
  w_read_err :: "string \<Rightarrow> nat"
  w_close_err :: "string \<Rightarrow> nat"
  w_reads :: "string \<Rightarrow> nat \<Rightarrow> nat + nat"
  w_mmap_ok :: "string \<Rightarrow> bool"
  w_realpath :: "string \<Rightarrow> nat + string"
  w_mkstemp :: "string \<Rightarrow> nat + string"
  w_room :: "string \<Rightarrow> nat option"
  w_umask :: u32
  w_now :: int
  w_euid :: u32
  w_sparam :: "string \<Rightarrow> string option"
  w_aparam :: "string \<Rightarrow> string list option"
  w_alloc :: "nat \<Rightarrow> bool"
  w_garbage :: "string \<Rightarrow> int \<times> int"
  w_strerror :: "nat \<Rightarrow> string"
  w_isatty :: bool
  w_codeset :: "string option"
  w_icons_cached :: int
  w_exe_owner :: "u32"
  w_out :: string
  w_out_room :: "nat option"
  w_flush_ok :: bool
  w_warn :: "string list"
  w_err :: string
  w_pcalls :: "pcall list"
  w_execs :: "string list"

text \<open>A process with no files, no parameters and an allocator that never fails.\<close>

definition world0 :: world where
  "world0 =
     \<lparr>w_stat = (\<lambda>_. Inl ENOENT), w_lstat = (\<lambda>_. Inl ENOENT), w_dir = (\<lambda>_. Inl ENOENT),
      w_data = (\<lambda>_. Inl ENOENT), w_access = (\<lambda>_ _. False),
      w_fresh = (\<lambda>_. \<lparr>st_dev = 1, st_ino = 1, st_mode = 0, st_nlink = 1, st_uid = 1000,
                 st_gid = 1000, st_size = 0, st_mtime = 0, st_ctime = 0\<rparr>),
      w_mkdir_err = (\<lambda>_. 0), w_open_err = (\<lambda>_. 0), w_fchmod_err = (\<lambda>_. 0),
      w_trunc_err = (\<lambda>_. 0), w_fdopen_err = (\<lambda>_. 0), w_unlink_err = (\<lambda>_. 0),
      w_rename_err = (\<lambda>_. 0), w_read_err = (\<lambda>_. 0), w_close_err = (\<lambda>_. 0),
      w_reads = (\<lambda>_ _. Inr 4096), w_mmap_ok = (\<lambda>_. True), w_realpath = Inr,
      w_mkstemp = (\<lambda>t. Inr (take (length t - 6) t @ ''a1b2c3'')), w_room = (\<lambda>_. None),
      w_umask = 18, w_now = 0, w_euid = 1000, w_sparam = (\<lambda>_. None), w_aparam = (\<lambda>_. None),
      w_alloc = (\<lambda>_. True), w_garbage = (\<lambda>_. (-1, -1)), w_strerror = (\<lambda>_. ''error''), w_isatty = False,
      w_codeset = None, w_icons_cached = -1, w_exe_owner = - 1, w_out = [], w_out_room = None,
      w_flush_ok = True, w_warn = [], w_err = [], w_pcalls = [], w_execs = []\<rparr>"

text \<open>The allocator grants every request.\<close>

definition mem_ok :: "'a world_scheme \<Rightarrow> bool" where
  "mem_ok w \<longleftrightarrow> (\<forall>n. w_alloc w n)"

lemma mem_okD [dest]: "mem_ok w \<Longrightarrow> w_alloc w n"
  by (simp add: mem_ok_def)

lemma mem_ok_world0 [simp]: "mem_ok world0"
  by (simp add: mem_ok_def world0_def)

section \<open>Output\<close>

definition emit :: "string \<Rightarrow> 'a world_scheme \<Rightarrow> 'a world_scheme" where
  "emit s w = w\<lparr>w_out := w_out w @ s\<rparr>"

text \<open>A checked write: what does not fit is lost and the write reports failure (\<open>Inl\<close>).\<close>

definition try_emit :: "string \<Rightarrow> 'a world_scheme \<Rightarrow> 'a world_scheme + 'a world_scheme" where
  "try_emit s w =
     (case w_out_room w of
        None \<Rightarrow> Inr (emit s w)
      | Some n \<Rightarrow>
          if length s \<le> n then Inr ((emit s w)\<lparr>w_out_room := Some (n - length s)\<rparr>)
          else Inl ((emit (take n s) w)\<lparr>w_out_room := Some 0\<rparr>))"

text \<open>\<open>zwarnnam (nam, ...)\<close> prints the name, a colon and the message.\<close>

definition zwarnnam :: "string \<Rightarrow> string \<Rightarrow> 'a world_scheme \<Rightarrow> 'a world_scheme" where
  "zwarnnam nam msg w = w\<lparr>w_warn := w_warn w @ [nam @ '': '' @ msg]\<rparr>"

definition emit_err :: "string \<Rightarrow> 'a world_scheme \<Rightarrow> 'a world_scheme" where
  "emit_err s w = w\<lparr>w_err := w_err w @ s\<rparr>"

text \<open>\<open>execstring (cmd, ...)\<close>: zsh runs the command line; the module only hands it over.\<close>

definition execstring :: "string \<Rightarrow> 'a world_scheme \<Rightarrow> 'a world_scheme" where
  "execstring cmd w = w\<lparr>w_execs := w_execs w @ [cmd]\<rparr>"

lemma w_execs_execstring [simp]: "w_execs (execstring cmd w) = w_execs w @ [cmd]"
  by (simp add: execstring_def)

section \<open>Shell parameters\<close>

definition pcall_do :: "pcall \<Rightarrow> 'a world_scheme \<Rightarrow> 'a world_scheme" where
  "pcall_do c w = w\<lparr>w_pcalls := w_pcalls w @ [c]\<rparr>"

definition unsetparam :: "string \<Rightarrow> 'a world_scheme \<Rightarrow> 'a world_scheme" where
  "unsetparam n = pcall_do (Unset_param n)"

definition setaparam :: "string \<Rightarrow> string list \<Rightarrow> 'a world_scheme \<Rightarrow> 'a world_scheme" where
  "setaparam n vs = pcall_do (Set_array n vs)"

definition setsparam :: "string \<Rightarrow> string \<Rightarrow> 'a world_scheme \<Rightarrow> 'a world_scheme" where
  "setsparam n v = pcall_do (Set_scalar n v)"

text \<open>\<open>snprintf (indexed, sizeof indexed, "%s[%d]", outname, idx)\<close> into 256 bytes.\<close>

definition indexed :: "string \<Rightarrow> nat \<Rightarrow> string" where
  "indexed outname idx = take 255 (outname @ ''['' @ render_nat 10 idx @ '']'')"

text \<open>The calls that give an array its elements from an index on.\<close>

fun element_calls :: "string \<Rightarrow> nat \<Rightarrow> string list \<Rightarrow> pcall list" where
  "element_calls outname idx [] = []"
| "element_calls outname idx (v # vs) =
     Set_scalar (indexed outname idx) v # element_calls outname (Suc idx) vs"

lemma pcalls_simps [simp]:
  "w_pcalls (unsetparam n w) = w_pcalls w @ [Unset_param n]"
  "w_pcalls (setaparam n vs w) = w_pcalls w @ [Set_array n vs]"
  "w_pcalls (setsparam n v w) = w_pcalls w @ [Set_scalar n v]"
  "w_pcalls (pcall_do c w) = w_pcalls w @ [c]"
  "w_pcalls (zwarnnam nam m w) = w_pcalls w" "w_pcalls (emit s w) = w_pcalls w"
  "w_pcalls (emit_err s w) = w_pcalls w" "w_pcalls (execstring cmd w) = w_pcalls w"
  "w_execs (unsetparam n w) = w_execs w" "w_execs (setaparam n vs w) = w_execs w"
  "w_execs (setsparam n v w) = w_execs w"
  by (simp_all add: unsetparam_def setaparam_def setsparam_def pcall_do_def zwarnnam_def emit_def
      emit_err_def execstring_def)

lemma pcall_do_fields [simp]:
  "w_stat (pcall_do c w) = w_stat w" "w_lstat (pcall_do c w) = w_lstat w"
  "w_dir (pcall_do c w) = w_dir w" "w_data (pcall_do c w) = w_data w"
  "w_alloc (pcall_do c w) = w_alloc w" "w_sparam (pcall_do c w) = w_sparam w"
  "w_aparam (pcall_do c w) = w_aparam w" "w_warn (pcall_do c w) = w_warn w"
  "w_reads (pcall_do c w) = w_reads w" "w_mmap_ok (pcall_do c w) = w_mmap_ok w"
  by (simp_all add: pcall_do_def)

lemmas param_fields [simp] =
  pcall_do_fields [of "Unset_param n" for n, folded unsetparam_def]
  pcall_do_fields [of "Set_array n vs" for n vs, folded setaparam_def]
  pcall_do_fields [of "Set_scalar n v" for n v, folded setsparam_def]

text \<open>Parameter calls and output leave the file system and the allocator alone.\<close>

definition same_system :: "'a world_scheme \<Rightarrow> 'a world_scheme \<Rightarrow> bool" where
  "same_system w w' \<longleftrightarrow>
     w_stat w' = w_stat w \<and> w_lstat w' = w_lstat w \<and> w_dir w' = w_dir w \<and> w_data w' = w_data w \<and>
     w_alloc w' = w_alloc w \<and> w_reads w' = w_reads w \<and> w_mmap_ok w' = w_mmap_ok w \<and>
     w_aparam w' = w_aparam w \<and> w_sparam w' = w_sparam w \<and> w_strerror w' = w_strerror w \<and>
     w_realpath w' = w_realpath w \<and> w_access w' = w_access w"

lemma same_system_refl [simp]: "same_system w w"
  by (simp add: same_system_def)

lemma same_system_trans: "same_system u v \<Longrightarrow> same_system v w \<Longrightarrow> same_system u w"
  by (simp add: same_system_def)

lemma same_system_calls [simp]:
  "same_system w (pcall_do c w)" "same_system w (unsetparam n w)" "same_system w (setaparam n vs w)"
  "same_system w (setsparam n v w)" "same_system w (zwarnnam nam m w)" "same_system w (emit s w)"
  "same_system w (emit_err s w)"
  by (simp_all add: same_system_def pcall_do_def unsetparam_def setaparam_def setsparam_def
      zwarnnam_def emit_def emit_err_def)

lemma same_system_fields:
  "same_system w w' \<Longrightarrow> w_stat w' = w_stat w" "same_system w w' \<Longrightarrow> w_lstat w' = w_lstat w"
  "same_system w w' \<Longrightarrow> w_alloc w' = w_alloc w" "same_system w w' \<Longrightarrow> mem_ok w' = mem_ok w"
  "same_system w w' \<Longrightarrow> w_dir w' = w_dir w" "same_system w w' \<Longrightarrow> w_data w' = w_data w"
  by (simp_all add: same_system_def mem_ok_def)

section \<open>Calls that change the file system\<close>

definition set_node :: "string \<Rightarrow> stat \<Rightarrow> 'a world_scheme \<Rightarrow> 'a world_scheme" where
  "set_node p st w =
     w\<lparr>w_stat := (w_stat w)(p := Inr st), w_lstat := (w_lstat w)(p := Inr st)\<rparr>"

definition sys_mkdir :: "string \<Rightarrow> u32 \<Rightarrow> 'a world_scheme \<Rightarrow> nat + 'a world_scheme" where
  "sys_mkdir p mode w =
     (if w_mkdir_err w p \<noteq> 0 then Inl (w_mkdir_err w p)
      else Inr ((set_node p ((w_fresh w p)\<lparr>st_mode := S_IFDIR OR (mode AND NOT (w_umask w))\<rparr>) w)
                \<lparr>w_dir := (w_dir w)(p := Inr ([], 0))\<rparr>))"

text \<open>\<open>open (p, O_WRONLY | O_CREAT | O_CLOEXEC | O_NOFOLLOW, mode)\<close>\<close>

definition sys_open_create :: "string \<Rightarrow> u32 \<Rightarrow> 'a world_scheme \<Rightarrow> nat + 'a world_scheme" where
  "sys_open_create p mode w =
     (case w_lstat w p of
        Inr st \<Rightarrow> if S_ISLNK (st_mode st) then Inl ELOOP
                  else if w_open_err w p \<noteq> 0 then Inl (w_open_err w p) else Inr w
      | Inl e \<Rightarrow> if w_open_err w p \<noteq> 0 then Inl (w_open_err w p)
                 else if e \<noteq> ENOENT then Inl e
                 else Inr ((set_node p ((w_fresh w p)\<lparr>st_mode := S_IFREG OR (mode AND NOT (w_umask w)),
                              st_size := 0\<rparr>) w)\<lparr>w_data := (w_data w)(p := Inr [])\<rparr>))"

definition sys_fchmod :: "string \<Rightarrow> u32 \<Rightarrow> 'a world_scheme \<Rightarrow> nat + 'a world_scheme" where
  "sys_fchmod p mode w =
     (if w_fchmod_err w p \<noteq> 0 then Inl (w_fchmod_err w p)
      else Inr (case w_stat w p of
                  Inr st \<Rightarrow> set_node p (st\<lparr>st_mode := (st_mode st AND S_IFMT) OR (mode AND MODE_BITS)\<rparr>) w
                | Inl _ \<Rightarrow> w))"

definition set_data :: "string \<Rightarrow> string \<Rightarrow> 'a world_scheme \<Rightarrow> 'a world_scheme" where
  "set_data p s w =
     (case w_stat w p of
        Inr st \<Rightarrow> set_node p (st\<lparr>st_size := length s, st_mtime := w_now w\<rparr>) w
      | Inl _ \<Rightarrow> w)\<lparr>w_data := (w_data w)(p := Inr s)\<rparr>"

text \<open>A stream over a truncated file, closed: what does not fit is lost.  The sources that ignore
  write errors of such a stream use it alone.\<close>

definition write_file :: "string \<Rightarrow> string \<Rightarrow> 'a world_scheme \<Rightarrow> 'a world_scheme" where
  "write_file p s w = set_data p (case w_room w p of None \<Rightarrow> s | Some n \<Rightarrow> take n s) w"

definition sys_ftruncate0 :: "string \<Rightarrow> 'a world_scheme \<Rightarrow> nat + 'a world_scheme" where
  "sys_ftruncate0 p w =
     (if w_trunc_err w p \<noteq> 0 then Inl (w_trunc_err w p) else Inr (set_data p [] w))"

definition sys_unlink :: "string \<Rightarrow> 'a world_scheme \<Rightarrow> nat + 'a world_scheme" where
  "sys_unlink p w =
     (case w_lstat w p of
        Inl e \<Rightarrow> Inl e
      | Inr _ \<Rightarrow> if w_unlink_err w p \<noteq> 0 then Inl (w_unlink_err w p)
                 else Inr (w\<lparr>w_stat := (w_stat w)(p := Inl ENOENT),
                             w_lstat := (w_lstat w)(p := Inl ENOENT),
                             w_data := (w_data w)(p := Inl ENOENT)\<rparr>))"

text \<open>\<open>mkstemp (template)\<close>: a new file of mode 0600 under the name the kernel picks.\<close>

definition sys_mkstemp :: "string \<Rightarrow> 'a world_scheme \<Rightarrow> nat + (string \<times> 'a world_scheme)" where
  "sys_mkstemp template w =
     (case w_mkstemp w template of
        Inl e \<Rightarrow> Inl e
      | Inr p \<Rightarrow>
          Inr (p, (set_node p ((w_fresh w p)\<lparr>st_mode := S_IFREG OR 384, st_size := 0\<rparr>) w)
                    \<lparr>w_data := (w_data w)(p := Inr [])\<rparr>))"

text \<open>\<open>rename (p, q)\<close>: the node and its bytes move to the new name in one step.\<close>

definition sys_rename :: "string \<Rightarrow> string \<Rightarrow> 'a world_scheme \<Rightarrow> nat + 'a world_scheme" where
  "sys_rename p q w =
     (case w_lstat w p of
        Inl e \<Rightarrow> Inl e
      | Inr _ \<Rightarrow>
          if w_rename_err w p \<noteq> 0 then Inl (w_rename_err w p)
          else if p = q then Inr w
          else Inr (w\<lparr>w_stat := (w_stat w)(q := w_stat w p, p := Inl ENOENT),
                      w_lstat := (w_lstat w)(q := w_lstat w p, p := Inl ENOENT),
                      w_data := (w_data w)(q := w_data w p, p := Inl ENOENT)\<rparr>))"

section \<open>Frame facts\<close>

text \<open>What a call at one path leaves as it was.\<close>

definition same_except :: "string \<Rightarrow> 'a world_scheme \<Rightarrow> 'a world_scheme \<Rightarrow> bool" where
  "same_except p w w' \<longleftrightarrow>
     (\<forall>q. q \<noteq> p \<longrightarrow> w_stat w' q = w_stat w q \<and> w_lstat w' q = w_lstat w q \<and>
          w_dir w' q = w_dir w q \<and> w_data w' q = w_data w q) \<and>
     w_sparam w' = w_sparam w \<and> w_aparam w' = w_aparam w \<and> w_alloc w' = w_alloc w \<and>
     w_euid w' = w_euid w \<and> w_room w' = w_room w \<and> w_exe_owner w' = w_exe_owner w"

lemma same_except_refl [simp]: "same_except p w w"
  by (simp add: same_except_def)

lemma same_except_trans: "same_except p u v \<Longrightarrow> same_except p v w \<Longrightarrow> same_except p u w"
  by (simp add: same_except_def)

lemma same_exceptD:
  assumes "same_except p w w'"
  shows "q \<noteq> p \<Longrightarrow> w_stat w' q = w_stat w q" "q \<noteq> p \<Longrightarrow> w_lstat w' q = w_lstat w q"
    "q \<noteq> p \<Longrightarrow> w_dir w' q = w_dir w q" "q \<noteq> p \<Longrightarrow> w_data w' q = w_data w q"
    "w_sparam w' = w_sparam w" "w_aparam w' = w_aparam w" "w_alloc w' = w_alloc w"
    "w_euid w' = w_euid w" "w_room w' = w_room w" "w_exe_owner w' = w_exe_owner w"
  using assms by (auto simp: same_except_def)

lemma same_except_emit [simp]: "same_except p w (emit s w)"
  by (simp add: same_except_def emit_def)

lemma same_except_zwarnnam [simp]: "same_except p w (zwarnnam n m w)"
  by (simp add: same_except_def zwarnnam_def)

lemma same_except_set_node [simp]: "same_except p w (set_node p st w)"
  by (simp add: same_except_def set_node_def)

lemma same_except_set_data [simp]: "same_except p w (set_data p s w)"
  by (auto simp: same_except_def set_data_def set_node_def split: sum.splits)

lemma same_except_open: "sys_open_create p m w = Inr w' \<Longrightarrow> same_except p w w'"
  by (auto simp: sys_open_create_def same_except_def set_node_def split: sum.splits if_splits)

lemma same_except_fchmod: "sys_fchmod p m w = Inr w' \<Longrightarrow> same_except p w w'"
  by (auto simp: sys_fchmod_def same_except_def set_node_def split: sum.splits if_splits)

lemma same_except_truncate: "sys_ftruncate0 p w = Inr w' \<Longrightarrow> same_except p w w'"
  by (auto simp: sys_ftruncate0_def split: if_splits)

lemma same_except_unlink: "sys_unlink p w = Inr w' \<Longrightarrow> same_except p w w'"
  by (auto simp: sys_unlink_def same_except_def split: sum.splits if_splits)

lemma same_except_write_file [simp]: "same_except p w (write_file p s w)"
  by (simp add: write_file_def)

lemma same_except_mkdir: "sys_mkdir p m w = Inr w' \<Longrightarrow> same_except p w w'"
  by (auto simp: sys_mkdir_def same_except_def set_node_def split: if_splits)

lemma write_file_data: "w_room w p = None \<Longrightarrow> w_data (write_file p s w) p = Inr s"
  by (simp add: write_file_def set_data_def split: sum.splits)

lemma set_data_data [simp]: "w_data (set_data p s w) p = Inr s"
  by (simp add: set_data_def split: sum.splits)

lemma w_out_emit [simp]: "w_out (emit s w) = w_out w @ s"
  by (simp add: emit_def)

section \<open>Time stamps\<close>

text \<open>A \<open>time_t\<close> has 64 bits; the model keeps times as integers, and no call leaves the range.\<close>

definition times_fit :: "'w world_scheme \<Rightarrow> bool" where
  "times_fit w \<longleftrightarrow>
     (\<forall>q st. w_stat w q = Inr st \<or> w_lstat w q = Inr st \<longrightarrow> long_range (st_mtime st) \<and> long_range (st_ctime st)) \<and>
     (\<forall>q. long_range (st_mtime (w_fresh w q)) \<and> long_range (st_ctime (w_fresh w q))) \<and>
     long_range (w_now w)"

named_theorems times

lemma times_set_node [times]:
  "times_fit w \<Longrightarrow> long_range (st_mtime st) \<Longrightarrow> long_range (st_ctime st) \<Longrightarrow> times_fit (set_node p st w)"
  by (auto simp: times_fit_def set_node_def)

lemma times_stat: "times_fit w \<Longrightarrow> w_stat w q = Inr st \<Longrightarrow> long_range (st_mtime st) \<and> long_range (st_ctime st)"
  by (auto simp: times_fit_def)

lemma times_data [simp]: "times_fit (w\<lparr>w_data := d\<rparr>) = times_fit w" "times_fit (w\<lparr>w_dir := e\<rparr>) = times_fit w"
  by (simp_all add: times_fit_def)

lemma times_mkdir [times]: "sys_mkdir p m w = Inr w' \<Longrightarrow> times_fit w \<Longrightarrow> times_fit w'"
  by (auto simp: sys_mkdir_def split: if_splits intro!: times_set_node) (auto simp: times_fit_def)

lemma times_open [times]: "sys_open_create p m w = Inr w' \<Longrightarrow> times_fit w \<Longrightarrow> times_fit w'"
  by (auto simp: sys_open_create_def split: if_splits sum.splits intro!: times_set_node) (auto simp: times_fit_def)

lemma times_fchmod [times]: "sys_fchmod p m w = Inr w' \<Longrightarrow> times_fit w \<Longrightarrow> times_fit w'"
  by (auto simp: sys_fchmod_def split: if_splits sum.splits intro!: times_set_node dest: times_stat)

lemma times_set_data [times]: "times_fit w \<Longrightarrow> times_fit (set_data p s w)"
  by (auto simp: set_data_def split: sum.splits intro!: times_set_node dest: times_stat) (auto simp: times_fit_def)

lemma times_truncate [times]: "sys_ftruncate0 p w = Inr w' \<Longrightarrow> times_fit w \<Longrightarrow> times_fit w'"
  by (auto simp: sys_ftruncate0_def split: if_splits intro: times_set_data)

lemma times_unlink [times]: "sys_unlink p w = Inr w' \<Longrightarrow> times_fit w \<Longrightarrow> times_fit w'"
  by (auto simp: sys_unlink_def times_fit_def split: if_splits sum.splits)

lemma times_write_file [times]: "times_fit w \<Longrightarrow> times_fit (write_file p s w)"
  by (simp add: write_file_def times_set_data)

lemma times_emit [simp]: "times_fit (emit s w) = times_fit w"
  by (simp add: times_fit_def emit_def)

lemma times_zwarnnam [simp]: "times_fit (zwarnnam n m w) = times_fit w"
  by (simp add: times_fit_def zwarnnam_def)

lemma mkdir_out: "sys_mkdir p m w = Inr w' \<Longrightarrow> w_out w' = w_out w"
  by (auto simp: sys_mkdir_def set_node_def split: sum.splits if_splits)

lemma unlink_out: "sys_unlink p w = Inr w' \<Longrightarrow> w_out w' = w_out w"
  by (auto simp: sys_unlink_def split: sum.splits if_splits)

lemma set_data_out [simp]: "w_out (set_data p s w) = w_out w" "w_out (write_file p s w) = w_out w"
  by (auto simp: write_file_def set_data_def set_node_def split: sum.splits)

end
