(* ===== verification/Zp_Utils.thy ===== *)
theory Zp_Utils
  imports Zp_World
begin

text \<open>
  \<open>src/core/utils.c\<close>: the option scanners over an argument vector (a list of C strings), the
  strict number parser, the string duplicators, and opening a file for a truncating write without
  following symbolic links.
\<close>

section \<open>Option scanning\<close>

text \<open>\<open>zp_has_option\<close>: is the letter one of the short options before \<open>--\<close>?\<close>

fun zp_has_option :: "string list \<Rightarrow> char \<Rightarrow> bool" where
  "zp_has_option [] opt = False"
| "zp_has_option (s # argv) opt =
     (case s of
        [] \<Rightarrow> zp_has_option argv opt
      | c # flags \<Rightarrow>
          if c = CHR ''-'' then
            if flags = ''-'' then False
            else if opt \<in> set flags then True else zp_has_option argv opt
          else zp_has_option argv opt)"

text \<open>
  \<open>zp_take_opt_with_arg\<close>: the return code, the argument cursor afterwards and the argument
  written, if any.
\<close>

definition zp_take_opt_with_arg :: "string list \<Rightarrow> char \<Rightarrow> int \<times> string list \<times> string option" where
  "zp_take_opt_with_arg argv opt =
     (case argv of
        (c0 # c1 # rest) # args \<Rightarrow>
          if c0 \<noteq> CHR ''-'' then (0, argv, None)
          else if c1 = CHR ''-'' \<and> rest = [] then (0, argv, None)
          else if c1 \<noteq> opt then (0, argv, None)
          else if rest \<noteq> [] then (1, args, Some rest)
          else (case args of
                  [] \<Rightarrow> (-1, argv, None)
                | a # args' \<Rightarrow> (1, args', Some a))
      | _ \<Rightarrow> (0, argv, None))"

section \<open>Numbers\<close>

text \<open>\<open>zp_parse_long\<close>: \<open>None\<close> is the return value -1, which leaves the output untouched.\<close>

definition zp_parse_long :: "string option \<Rightarrow> int option" where
  "zp_parse_long s =
     (case s of
        None \<Rightarrow> None
      | Some [] \<Rightarrow> None
      | Some (c # t) \<Rightarrow>
          if c_isspace c then None
          else let (v, rest, erange) = strtol 10 (c # t)
               in if rest = c # t \<or> rest \<noteq> [] \<or> erange then None else Some v)"

section \<open>Duplicating strings\<close>

text \<open>The length is an \<open>unsigned\<close>, so it is taken modulo \<open>2^32\<close>.\<close>

definition my_ztrdup_glen :: "string option \<Rightarrow> (string \<times> nat) option" where
  "my_ztrdup_glen s =
     (case s of
        None \<Rightarrow> None
      | Some t \<Rightarrow> let n = length t mod 4294967296 in Some (take n t, n))"

text \<open>\<open>unmetafy\<close> belongs to zsh and is a parameter.\<close>

definition zp_unmetafy_zalloc ::
    "(string \<Rightarrow> string) \<Rightarrow> 'a world_scheme \<Rightarrow> string option \<Rightarrow> (string \<times> nat) option" where
  "zp_unmetafy_zalloc unmetafy w to_copy =
     (case my_ztrdup_glen to_copy of
        None \<Rightarrow> None
      | Some (work, _) \<Rightarrow>
          let u = unmetafy work
          in if w_alloc w (length u + 1) then Some (u, length u) else None)"

section \<open>Opening for writing\<close>

text \<open>
  \<open>zp_fopen_write_nofollow\<close>: the stream is named by its path.  Each step can fail; what the
  earlier steps did to the file remains.
\<close>

definition zp_fopen_write_nofollow ::
    "string \<Rightarrow> u32 \<Rightarrow> bool \<Rightarrow> 'a world_scheme \<Rightarrow> (nat + string) \<times> 'a world_scheme" where
  "zp_fopen_write_nofollow path create_mode enforce_mode w =
     (case sys_open_create path create_mode w of
        Inl e \<Rightarrow> (Inl e, w)
      | Inr w1 \<Rightarrow>
          (case (if enforce_mode then sys_fchmod path create_mode w1 else Inr w1) of
             Inl e \<Rightarrow> (Inl e, w1)
           | Inr w2 \<Rightarrow>
               (case sys_ftruncate0 path w2 of
                  Inl e \<Rightarrow> (Inl e, w2)
                | Inr w3 \<Rightarrow>
                    if w_fdopen_err w3 path \<noteq> 0 then (Inl (w_fdopen_err w3 path), w3)
                    else (Inr path, w3))))"

section \<open>Lemmas\<close>

text \<open>The two shapes an option with an argument has on the command line.\<close>

definition opt_consumed :: "char \<Rightarrow> string \<Rightarrow> string list \<Rightarrow> bool" where
  "opt_consumed opt a used \<longleftrightarrow>
     (used = [CHR ''-'' # opt # a] \<and> a \<noteq> []) \<or> (used = [[CHR ''-'', opt], a] \<and> opt \<noteq> CHR ''-'')"

lemma opt_consumed_shapes:
  "(\<exists>used. argv = used @ argv' \<and> opt_consumed opt a used) \<longleftrightarrow>
     (argv = (CHR ''-'' # opt # a) # argv' \<and> a \<noteq> []) \<or>
     (argv = [CHR ''-'', opt] # a # argv' \<and> opt \<noteq> CHR ''-'')"
  unfolding opt_consumed_def by (auto intro: exI [of _ "[_]"] exI [of _ "[_, _]"])

lemma take_opt_one:
  "zp_take_opt_with_arg argv opt = (1, argv', Some a) \<longleftrightarrow>
     (argv = (CHR ''-'' # opt # a) # argv' \<and> a \<noteq> []) \<or>
     (argv = [CHR ''-'', opt] # a # argv' \<and> opt \<noteq> CHR ''-'')"
proof (cases argv)
  case (Cons s args)
  then show ?thesis
    by (cases s; cases "tl s"; cases args)
      (auto simp: zp_take_opt_with_arg_def split: if_splits)
qed (simp add: zp_take_opt_with_arg_def)

lemma take_opt_missing:
  "fst (zp_take_opt_with_arg argv opt) = -1 \<longleftrightarrow> argv = [[CHR ''-'', opt]] \<and> opt \<noteq> CHR ''-''"
proof (cases argv)
  case (Cons s args)
  then show ?thesis
    by (cases s; cases "tl s"; cases args)
      (auto simp: zp_take_opt_with_arg_def split: if_splits)
qed (simp add: zp_take_opt_with_arg_def)

lemma zp_take_opt_step:
  "zp_take_opt_with_arg argv opt = (rc, argv', out) \<Longrightarrow>
     rc \<in> {-1, 0, 1} \<and> (rc = 1 \<longleftrightarrow> out \<noteq> None) \<and> (rc \<noteq> 1 \<longrightarrow> argv' = argv) \<and>
     (rc = 1 \<longrightarrow> length argv' < length argv)"
  by (auto simp: zp_take_opt_with_arg_def split: list.splits if_splits)

lemma sign_digits_strtol:
  assumes "c_sign s = (neg, ds)" "s \<noteq> []" "\<not> c_isspace (hd s)"
  shows "strtol 10 s =
    (let v = (if neg then - int (parse_nat 10 (takeWhile (is_digit 10) ds))
              else int (parse_nat 10 (takeWhile (is_digit 10) ds)));
         rest = dropWhile (is_digit 10) ds
     in if takeWhile (is_digit 10) ds = [] then (0, s, False)
        else if LONG_MAX < v then (LONG_MAX, rest, True)
        else if v < LONG_MIN then (LONG_MIN, rest, True)
        else (v, rest, False))"
proof -
  have "dropWhile c_isspace s = s" using assms(2,3) by (cases s) auto
  then show ?thesis using assms(1) by (simp add: strtol_def Let_def)
qed

text \<open>An optional sign and at least one digit, nothing else, with the value in range.\<close>

definition decimal_long :: "string \<Rightarrow> int \<Rightarrow> bool" where
  "decimal_long s v \<longleftrightarrow>
     (let (neg, ds) = c_sign s
      in ds \<noteq> [] \<and> list_all (is_digit 10) ds \<and> long_range v \<and>
         v = (if neg then - int (parse_nat 10 ds) else int (parse_nat 10 ds)))"

lemma all_digits_takeWhile: "dropWhile P ds = [] \<longleftrightarrow> list_all P ds"
  by (auto simp: dropWhile_eq_Nil_conv list_all_iff)

lemma list_all_takeWhile: "list_all P ds \<Longrightarrow> takeWhile P ds = ds"
  by (auto simp: takeWhile_eq_all_conv list_all_iff)

lemma parse_long_iff: "zp_parse_long (Some s) = Some v \<longleftrightarrow> decimal_long s v"
proof (cases "s = [] \<or> c_isspace (hd s)")
  case True
  have "\<not> decimal_long s v"
  proof (cases s)
    case (Cons c t)
    with True have "c_isspace c" by simp
    moreover from this have "c_sign s = (False, c # t)" using Cons by (auto simp: c_isspace_def)
    ultimately show ?thesis
      using Cons digit_not_special(1) [of 10 c] by (auto simp: decimal_long_def)
  qed (simp add: decimal_long_def)
  with True show ?thesis by (auto simp: zp_parse_long_def split: list.splits)
next
  case False
  then obtain c t where s: "s = c # t" and c: "\<not> c_isspace c" by (cases s) auto
  obtain neg ds where ds: "c_sign s = (neg, ds)" by fastforce
  show ?thesis
  proof (cases "ds \<noteq> [] \<and> list_all (is_digit 10) ds")
    case True
    then have tw: "takeWhile (is_digit 10) ds = ds" and dw: "dropWhile (is_digit 10) ds = []"
      by (simp_all add: list_all_takeWhile, simp add: list_all_iff)
    define v0 where "v0 = (if neg then - int (parse_nat 10 ds) else int (parse_nat 10 ds))"
    have "strtol 10 s = (if LONG_MAX < v0 then (LONG_MAX, [], True)
        else if v0 < LONG_MIN then (LONG_MIN, [], True) else (v0, [], False))"
      using sign_digits_strtol [OF ds] s c True
      by (simp only: tw dw Let_def v0_def [symmetric]) simp
    then have "zp_parse_long (Some s) = (if long_range v0 then Some v0 else None)"
      using s c by (auto simp: zp_parse_long_def long_range_def)
    moreover have "decimal_long s v \<longleftrightarrow> long_range v0 \<and> v = v0"
      using True ds by (auto simp: decimal_long_def v0_def)
    ultimately show ?thesis by auto
  next
    case bad: False
    then have "takeWhile (is_digit 10) ds = [] \<or> dropWhile (is_digit 10) ds \<noteq> []"
      by (auto simp: list_all_iff)
    then have "zp_parse_long (Some s) = None"
      using sign_digits_strtol [OF ds] s c by (auto simp: zp_parse_long_def Let_def)
    moreover have "\<not> decimal_long s v" using bad ds by (auto simp: decimal_long_def)
    ultimately show ?thesis by simp
  qed
qed

lemma parse_long_render [cnum]: "long_range v \<Longrightarrow> zp_parse_long (Some (render_int v)) = Some v"
  unfolding parse_long_iff
  using render_nat_digits [of 10] skip_space_digits(2) [of 10 "render_nat 10 (nat v)" "[]"]
  by (auto simp: decimal_long_def render_int_def parse_render_nat)

lemma fopen_same_except:
  "zp_fopen_write_nofollow p m b w = (r, w') \<Longrightarrow> same_except p w w'"
  by (auto simp: zp_fopen_write_nofollow_def split: sum.splits if_splits
      dest!: same_except_open same_except_fchmod same_except_truncate intro: same_except_trans)

lemma times_fopen [times]: "zp_fopen_write_nofollow p m b w = (r, w') \<Longrightarrow> times_fit w \<Longrightarrow> times_fit w'"
  by (auto simp: zp_fopen_write_nofollow_def split: sum.splits if_splits
      dest!: times_open times_fchmod times_truncate)

lemma fopen_out: "zp_fopen_write_nofollow p m b w = (r, w') \<Longrightarrow> w_out w' = w_out w"
  by (auto simp: zp_fopen_write_nofollow_def sys_open_create_def sys_fchmod_def sys_ftruncate0_def
      set_node_def set_data_def Let_def split: sum.splits if_splits)

lemma fopen_Inr:
  "zp_fopen_write_nofollow p m b w = (Inr f, w') \<Longrightarrow> f = p \<and> w_data w' p = Inr []"
  by (auto simp: zp_fopen_write_nofollow_def sys_ftruncate0_def split: sum.splits if_splits)

text \<open>What the file system answers about a path that is no symbolic link.\<close>

definition fs_coherent :: "'a world_scheme \<Rightarrow> string \<Rightarrow> bool" where
  "fs_coherent w p \<longleftrightarrow>
     (\<forall>st. w_lstat w p = Inr st \<longrightarrow> \<not> S_ISLNK (st_mode st) \<longrightarrow> w_stat w p = Inr st)"

lemma mode_and_or: "((a AND S_IFMT) OR (m AND MODE_BITS)) AND MODE_BITS = m AND MODE_BITS"
  for a m :: u32
proof -
  have "S_IFMT AND MODE_BITS = 0" by (simp add: mode_consts)
  then have "((a AND S_IFMT) AND MODE_BITS) = 0" by (simp add: and.assoc)
  then show ?thesis by (simp add: bit.conj_disj_distrib2 and.assoc)
qed

lemma fopen_mode:
  assumes "zp_fopen_write_nofollow p m True w = (Inr f, w')" "fs_coherent w p"
  shows "\<exists>st. w_stat w' p = Inr st \<and> st_mode st AND MODE_BITS = m AND MODE_BITS"
proof -
  from assms(1) obtain w1 w2 where o1: "sys_open_create p m w = Inr w1"
    and c: "sys_fchmod p m w1 = Inr w2" and t: "sys_ftruncate0 p w2 = Inr w'"
    by (auto simp: zp_fopen_write_nofollow_def split: sum.splits if_splits)
  have "\<exists>st. w_stat w1 p = Inr st"
    using o1 assms(2)
    by (auto simp: sys_open_create_def fs_coherent_def set_node_def split: sum.splits if_splits)
  with c have "\<exists>st. w_stat w2 p = Inr st \<and> st_mode st AND MODE_BITS = m AND MODE_BITS"
    by (auto simp: sys_fchmod_def set_node_def mode_and_or split: if_splits)
  with t show ?thesis
    by (auto simp: sys_ftruncate0_def set_data_def set_node_def split: if_splits)
qed

lemma fopen_link:
  "w_lstat w p = Inr st \<Longrightarrow> S_ISLNK (st_mode st) \<Longrightarrow>
     zp_fopen_write_nofollow p m b w = (Inl ELOOP, w)"
  by (simp add: zp_fopen_write_nofollow_def sys_open_create_def)

lemma fopen_fail_data:
  assumes "zp_fopen_write_nofollow p m b w = (Inl e, w')" "w_lstat w p = Inr st"
    "w_fdopen_err w p = 0"
  shows "w_data w' p = w_data w p"
  using assms
  by (auto simp: zp_fopen_write_nofollow_def sys_open_create_def sys_fchmod_def sys_ftruncate0_def
      set_node_def set_data_def split: sum.splits if_splits)

lemma fopen_fail_absent:
  assumes "zp_fopen_write_nofollow p m b w = (Inl e', w')" "w_lstat w p = Inl e"
  shows "w' = w \<or> e = ENOENT \<and> w_data w' p = Inr []"
proof (cases "sys_open_create p m w")
  case (Inr w1)
  with assms(2) have w1: "e = ENOENT" "w_data w1 p = Inr []"
    by (auto simp: sys_open_create_def split: if_splits)
  have c: "w_data w2 p = Inr []" if "sys_fchmod p m w1 = Inr w2" for w2
    using that w1(2) by (auto simp: sys_fchmod_def set_node_def split: if_splits sum.splits)
  show ?thesis
    using assms(1) Inr w1 c
    by (auto simp: zp_fopen_write_nofollow_def sys_ftruncate0_def set_data_def
        split: sum.splits if_splits)
qed (use assms in \<open>simp add: zp_fopen_write_nofollow_def\<close>)

section \<open>Properties\<close>


definition world_link :: world where
  "world_link = world0\<lparr>w_lstat := (\<lambda>_. Inr ((w_fresh world0 [])\<lparr>st_mode := S_IFLNK\<rparr>))\<rparr>"


text \<open>
  The strict number parser accepts exactly an optional sign followed by at least one decimal
  digit and nothing else, with a value in the range of long, and returns that value; every long
  that is printed in decimal is read back.
\<close>

theorem zp_parse_long_exact:
  "(zp_parse_long (Some s) = Some v \<longleftrightarrow> decimal_long s v) \<and>
   zp_parse_long None = None \<and>
   (LONG_MIN \<le> n \<and> n \<le> LONG_MAX \<longrightarrow> zp_parse_long (Some (render_int n)) = Some n)"
  using parse_long_iff [of s v] parse_long_render [of n]
  by (auto simp: long_range_def zp_parse_long_def)

theorem zp_parse_long_exact_witness:
  "zp_parse_long (Some ''-17'') = Some (- 17) \<and> zp_parse_long (Some '' 17'') = None \<and>
   zp_parse_long (Some ''9223372036854775808'') = None \<and> LONG_MIN \<le> 5 \<and> (5::int) \<le> LONG_MAX \<and>
   zp_parse_long (Some (render_int 5)) = Some 5"
proof -
  have d: "decimal_long ''-17'' (- 17)" "\<not> decimal_long '' 17'' v"
    "\<not> decimal_long ''9223372036854775808'' v" for v
    by (auto simp: decimal_long_def is_digit_def parse_nat_def digit_of_def long_range_def c_limits)
  have "zp_parse_long (Some ''-17'') = Some (- 17)"
    using zp_parse_long_exact [of "''-17''" "- 17" 0] d(1) by blast
  moreover have "zp_parse_long (Some '' 17'') = None"
  proof (cases "zp_parse_long (Some '' 17'')")
    case (Some v)
    with zp_parse_long_exact [of "'' 17''" v 0] d(2) show ?thesis by blast
  qed
  moreover have "zp_parse_long (Some ''9223372036854775808'') = None"
  proof (cases "zp_parse_long (Some ''9223372036854775808'')")
    case (Some v)
    with zp_parse_long_exact [of "''9223372036854775808''" v 0] d(3) show ?thesis by blast
  qed
  moreover have "LONG_MIN \<le> 5 \<and> (5::int) \<le> LONG_MAX" by (simp add: c_limits)
  ultimately show ?thesis using zp_parse_long_exact [of "[]" 0 5] by blast
qed

text \<open>
  Taking an option with its argument: code 1 exactly when the vector starts with the attached
  form or the separate form, and then that form is consumed and its argument returned; code -1
  exactly when the option is last without an argument; otherwise 0, and the cursor stays where it
  was.
\<close>

theorem zp_take_opt_with_arg_spec:
  "(zp_take_opt_with_arg argv opt = (1, argv', Some a) \<longleftrightarrow>
      (\<exists>used. argv = used @ argv' \<and> opt_consumed opt a used)) \<and>
   (fst (zp_take_opt_with_arg argv opt) = -1 \<longleftrightarrow>
      argv = [[CHR ''-'', opt]] \<and> opt \<noteq> CHR ''-'') \<and>
   (fst (zp_take_opt_with_arg argv opt) \<noteq> 1 \<longrightarrow>
      snd (zp_take_opt_with_arg argv opt) = (argv, None))"
proof (intro conjI)
  show "zp_take_opt_with_arg argv opt = (1, argv', Some a) \<longleftrightarrow>
      (\<exists>used. argv = used @ argv' \<and> opt_consumed opt a used)"
    unfolding opt_consumed_shapes by (rule take_opt_one)
  show "fst (zp_take_opt_with_arg argv opt) = -1 \<longleftrightarrow>
      argv = [[CHR ''-'', opt]] \<and> opt \<noteq> CHR ''-''"
    by (rule take_opt_missing)
  show "fst (zp_take_opt_with_arg argv opt) \<noteq> 1 \<longrightarrow>
      snd (zp_take_opt_with_arg argv opt) = (argv, None)"
    by (cases "zp_take_opt_with_arg argv opt") (auto dest: zp_take_opt_step)
qed

theorem zp_take_opt_with_arg_spec_witness:
  "zp_take_opt_with_arg [''-f'', ''size'', ''out''] CHR ''f'' = (1, [''out''], Some ''size'') \<and>
   fst (zp_take_opt_with_arg [''-L''] CHR ''f'') \<noteq> 1 \<and>
   snd (zp_take_opt_with_arg [''-L''] CHR ''f'') = ([''-L''], None)"
proof -
  have "\<exists>used. [''-f'', ''size'', ''out''] = used @ [''out''] \<and> opt_consumed CHR ''f'' ''size'' used"
    by (rule exI [of _ "[''-f'', ''size'']"]) (simp add: opt_consumed_def)
  moreover have "fst (zp_take_opt_with_arg [''-L''] CHR ''f'') \<noteq> 1"
    by (simp add: zp_take_opt_with_arg_def)
  ultimately show ?thesis
    using zp_take_opt_with_arg_spec [of "[''-f'', ''size'', ''out'']" "CHR ''f''" "[''out'']" "''size''"]
      zp_take_opt_with_arg_spec [of "[''-L'']" "CHR ''f''" "[]" "[]"] by blast
qed

end
