(* ===== verification/Zp_Fs.thy ===== *)
theory Zp_Fs
  imports Zp_Utils
begin

text \<open>
  \<open>src/core/fs.c\<close>: the file system commands.  \<open>metafy\<close> and \<open>unmetafy\<close> belong to zsh and
  are arguments.  \<^const>\<open>None\<close> is a fault: the C code would leave an object (the 512-byte
  record buffer of path-stat, a parameter's array after it was unset) or release memory with the
  wrong call.  An allocation the source does not check succeeds, as zsh's \<open>zalloc\<close> ends the
  process otherwise.
\<close>

section \<open>path-stat\<close>

text \<open>\<open>off += snprintf (buf + off, (int)sizeof(buf) - off, ...)\<close>: the text in the buffer and
  \<open>off\<close>, which counts what did not fit too.\<close>

definition buf_put :: "string \<Rightarrow> string \<times> int \<Rightarrow> (string \<times> int) option" where
  "buf_put piece b =
     (case b of (t, off) \<Rightarrow>
        if off < 0 \<or> 512 < off then None
        else Some (t @ take (nat (511 - off)) piece,
                   off + (if int (length piece) \<le> INT_MAX then int (length piece) else -1)))"

fun buf_puts :: "string list \<Rightarrow> string \<times> int \<Rightarrow> (string \<times> int) option" where
  "buf_puts [] b = Some b"
| "buf_puts (p # ps) b = (case buf_put p b of None \<Rightarrow> None | Some b' \<Rightarrow> buf_puts ps b')"

definition type_char :: "u32 \<Rightarrow> char" where
  "type_char m =
     (if S_ISREG m then CHR ''f'' else if S_ISDIR m then CHR ''d''
      else if S_ISLNK m then CHR ''l'' else CHR ''?'')"

definition want :: "string option \<Rightarrow> string \<Rightarrow> bool" where
  "want flds k = (case flds of None \<Rightarrow> True | Some f \<Rightarrow> strstr f k)"

text \<open>The pieces printed for a path, in order.\<close>

definition stat_pieces :: "string option \<Rightarrow> string \<Rightarrow> nat + stat \<Rightarrow> string list" where
  "stat_pieces flds p_in res =
     (case res of
        Inr st \<Rightarrow>
          [''path='' @ cstr p_in] @
          (if want flds ''type'' then ['',type='' @ [type_char (st_mode st)]] else []) @
          (if want flds ''size'' then ['',size='' @ render_int (int (st_size st))] else []) @
          (if want flds ''mode'' then ['',mode='' @ render_nat 8 (unat (st_mode st AND MODE_BITS))] else []) @
          (if want flds ''mtime'' then ['',mtime='' @ render_int (st_mtime st)] else []) @
          (if want flds ''uid'' then ['',uid='' @ render_int (uint (st_uid st))] else []) @
          (if want flds ''gid'' then ['',gid='' @ render_int (uint (st_gid st))] else []) @
          (if want flds ''ino'' then ['',ino='' @ render_int (sint (st_ino st))] else []) @
          (if want flds ''nlink'' then ['',nlink='' @ render_int (sint (st_nlink st))] else [])
      | Inl e \<Rightarrow>
          [''path='' @ cstr p_in] @
          (if want flds ''type'' then ['',type='' @ ''?''] else []) @
          ['',errno='' @ render_int (int e)])"

definition stat_record :: "string option \<Rightarrow> string \<Rightarrow> nat + stat \<Rightarrow> string option" where
  "stat_record flds p_in res = map_option fst (buf_puts (stat_pieces flds p_in res) ([], 0))"

fun pathstat_loop ::
    "(string \<Rightarrow> string) \<Rightarrow> (string \<Rightarrow> string) \<Rightarrow> string \<Rightarrow> string \<Rightarrow> bool \<Rightarrow> string option \<Rightarrow>
     nat \<Rightarrow> string list \<Rightarrow> 'w world_scheme \<Rightarrow> (int \<times> 'w world_scheme) option" where
  "pathstat_loop metafy unmetafy nam outname follow flds idx [] w = Some (0, w)"
| "pathstat_loop metafy unmetafy nam outname follow flds idx (p # ps) w =
     (case zp_unmetafy_zalloc unmetafy w (Some p) of
        None \<Rightarrow> Some (1, zwarnnam nam ''oom'' w)
      | Some (p_in, _) \<Rightarrow>
          (case stat_record flds p_in ((if follow then w_stat w else w_lstat w) (cstr p_in)) of
             None \<Rightarrow> None
           | Some t \<Rightarrow>
               pathstat_loop metafy unmetafy nam outname follow flds (Suc idx) ps
                 (setsparam (indexed outname idx) (metafy t) w)))"

text \<open>\<open>getaparam\<close> hands out the array the parameter owns, so unsetting the input ends its life
  while the loop still reads it.\<close>

definition zp_pathstat_core ::
    "(string \<Rightarrow> string) \<Rightarrow> (string \<Rightarrow> string) \<Rightarrow> string \<Rightarrow> string \<Rightarrow> string \<Rightarrow> bool \<Rightarrow>
     string option \<Rightarrow> 'w world_scheme \<Rightarrow> (int \<times> 'w world_scheme) option" where
  "zp_pathstat_core metafy unmetafy nam outname inname follow flds w =
     (case w_aparam w inname of
        None \<Rightarrow> Some (1, zwarnnam nam (inname @ '': input must be an indexed array'') w)
      | Some inarr \<Rightarrow>
          if outname = inname then None
          else pathstat_loop metafy unmetafy nam outname follow flds 1 inarr
                 (setaparam outname [] (unsetparam outname w)))"

section \<open>The directory cache\<close>

text \<open>\<open>zp_fs_cache_enabled\<close>\<close>

definition zp_fs_cache_enabled :: "'w world_scheme \<Rightarrow> bool" where
  "zp_fs_cache_enabled w =
     (case w_sparam w ''ZPMOD_FS_CACHE'' of Some (c # _) \<Rightarrow> c \<noteq> CHR ''0'' | _ \<Rightarrow> False)"

record zp_fs_cache_entry =
  ce_dev :: u64
  ce_ino :: u64
  ce_mtime :: int
  ce_size :: int
  ce_is_dir :: bool
  ce_dir_entries :: "string option"

definition ZP_FS_CACHE_MAX :: nat where "ZP_FS_CACHE_MAX = 64"

text \<open>The static array and its count.  The blank entry is a zeroed slot.\<close>

record fs_cache =
  zp_fs_cache :: "zp_fs_cache_entry list"
  zp_fs_cache_count :: nat

definition fs_cache0 :: fs_cache where
  "fs_cache0 =
     \<lparr>zp_fs_cache = replicate ZP_FS_CACHE_MAX
        \<lparr>ce_dev = 0, ce_ino = 0, ce_mtime = 0, ce_size = 0, ce_is_dir = False, ce_dir_entries = None\<rparr>,
      zp_fs_cache_count = 0\<rparr>"

definition entry_matches :: "stat \<Rightarrow> zp_fs_cache_entry \<Rightarrow> bool" where
  "entry_matches st e \<longleftrightarrow> ce_is_dir e \<and> ce_dev e = st_dev st \<and> ce_ino e = st_ino st \<and>
     ce_mtime e = st_mtime st \<and> ce_size e = int (st_size st)"

fun lookup_from :: "stat \<Rightarrow> nat \<Rightarrow> zp_fs_cache_entry list \<Rightarrow> nat option" where
  "lookup_from st i [] = None"
| "lookup_from st i (e # es) = (if entry_matches st e then Some i else lookup_from st (Suc i) es)"

text \<open>\<^const>\<open>None\<close> is the return value 0.\<close>

definition zp_fs_cache_lookup :: "stat \<Rightarrow> fs_cache \<Rightarrow> nat option" where
  "zp_fs_cache_lookup st c = lookup_from st 0 (take (zp_fs_cache_count c) (zp_fs_cache c))"

definition cache_entry :: "stat \<Rightarrow> string option \<Rightarrow> zp_fs_cache_entry" where
  "cache_entry st serialized =
     \<lparr>ce_dev = st_dev st, ce_ino = st_ino st, ce_mtime = st_mtime st, ce_size = int (st_size st),
      ce_is_dir = True, ce_dir_entries = serialized\<rparr>"

text \<open>The shifting loop \<open>for (i = 1; i < MAX; ++i) cache[i - 1] = cache[i]\<close>.\<close>

definition shift_slots :: "'e list \<Rightarrow> 'e list" where
  "shift_slots xs = foldl (\<lambda>ys i. ys[i - 1 := ys ! i]) xs [1..<ZP_FS_CACHE_MAX]"

definition zp_fs_cache_insert_dir :: "stat \<Rightarrow> string option \<Rightarrow> fs_cache \<Rightarrow> nat \<times> fs_cache" where
  "zp_fs_cache_insert_dir st serialized c =
     (if zp_fs_cache_count c < ZP_FS_CACHE_MAX then
        (zp_fs_cache_count c,
         \<lparr>zp_fs_cache = (zp_fs_cache c)[zp_fs_cache_count c := cache_entry st serialized],
          zp_fs_cache_count = zp_fs_cache_count c + 1\<rparr>)
      else
        (ZP_FS_CACHE_MAX - 1,
         c\<lparr>zp_fs_cache := (shift_slots (zp_fs_cache c))[ZP_FS_CACHE_MAX - 1 := cache_entry st serialized]\<rparr>))"

section \<open>path-warmup\<close>

definition X_BITS :: u32 where "X_BITS = 73"

text \<open>\<open>snprintf (full, PATH_MAX, "%s/%s", dir, name)\<close>, when it fits.\<close>

definition joined :: "string \<Rightarrow> string \<Rightarrow> string option" where
  "joined dir name =
     (let full = dir @ slash # name in if PATH_MAX \<le> length full then None else Some full)"

definition is_hidden :: "string \<Rightarrow> bool" where
  "is_hidden name \<longleftrightarrow> (case name of c # _ \<Rightarrow> c = CHR ''.'' | [] \<Rightarrow> False)"

definition touched :: "'w world_scheme \<Rightarrow> string \<Rightarrow> string \<Rightarrow> bool" where
  "touched w dir name \<longleftrightarrow>
     \<not> is_hidden name \<and>
     (case joined dir name of
        None \<Rightarrow> False
      | Some full \<Rightarrow>
          (case w_stat w full of
             Inr st \<Rightarrow> S_ISREG (st_mode st) \<and> has_bit (st_mode st) X_BITS
           | Inl _ \<Rightarrow> False))"

definition warm_dir :: "'w world_scheme \<Rightarrow> string \<Rightarrow> nat" where
  "warm_dir w dir =
     (if dir = [] then 0
      else case w_dir w dir of
             Inl _ \<Rightarrow> 0
           | Inr (names, _) \<Rightarrow> length (filter (touched w dir) names))"

definition valid_dir :: "'w world_scheme \<Rightarrow> string \<Rightarrow> bool" where
  "valid_dir w dir \<longleftrightarrow>
     dir \<noteq> [] \<and> (case w_stat w dir of Inr st \<Rightarrow> S_ISDIR (st_mode st) | Inl _ \<Rightarrow> False)"

definition prune_line :: "bool \<Rightarrow> string \<Rightarrow> string" where
  "prune_line dry_run dir =
     ''zpmod: path-warmup '' @ (if dry_run then ''would prune'' else ''pruning'') @
     '' missing directory: '' @ dir @ [newline]"

definition prune_path :: "bool \<Rightarrow> bool \<Rightarrow> string list \<Rightarrow> 'w world_scheme \<Rightarrow> 'w world_scheme" where
  "prune_path quiet dry_run p w =
     (let valid = filter (valid_dir w) p;
          w1 = (if quiet then w
                else emit_err (concat (map (prune_line dry_run)
                       (filter (\<lambda>d. d \<noteq> [] \<and> \<not> valid_dir w d) p))) w)
      in if \<not> dry_run \<and> length valid < length p then setaparam ''path'' valid w1 else w1)"

definition zp_path_warmup_core :: "bool \<Rightarrow> bool \<Rightarrow> bool \<Rightarrow> 'w world_scheme \<Rightarrow> int \<times> 'w world_scheme" where
  "zp_path_warmup_core quiet prune_missing dry_run w =
     (case w_aparam w ''path'' of
        None \<Rightarrow> (0, w)
      | Some [] \<Rightarrow> (0, w)
      | Some p \<Rightarrow>
          let w1 = (if quiet then w
                    else emit_err (''zpmod: path-warmup scanning '' @ render_nat 10 (length p) @
                           '' directories...'' @ [newline]) w);
              total = sum_list (map (warm_dir w1) p);
              w2 = (if prune_missing then prune_path quiet dry_run p w1 else w1);
              w3 = (if quiet then w2
                    else emit_err (''zpmod: path-warmup touched '' @ render_nat 10 total @
                           '' executables.'' @ [newline]) w2)
          in (to_int (int total), w3))"

section \<open>dir-list\<close>

text \<open>The tests one entry must pass; \<open>udir\<close> is the directory as a C string.\<close>

definition listed :: "bool \<Rightarrow> bool \<Rightarrow> bool \<Rightarrow> 'w world_scheme \<Rightarrow> string \<Rightarrow> string \<Rightarrow> bool" where
  "listed inc_all only_dirs only_files w udir name \<longleftrightarrow>
     (inc_all \<or> \<not> is_hidden name) \<and>
     (case joined udir name of
        None \<Rightarrow> False
      | Some full \<Rightarrow>
          (case w_lstat w full of
             Inl _ \<Rightarrow> False
           | Inr st \<Rightarrow> (only_dirs \<longrightarrow> S_ISDIR (st_mode st)) \<and> (only_files \<longrightarrow> S_ISREG (st_mode st))))"

fun dirlist_loop ::
    "(string \<Rightarrow> string) \<Rightarrow> string \<Rightarrow> bool \<Rightarrow> bool \<Rightarrow> bool \<Rightarrow> string \<Rightarrow> nat \<Rightarrow> string list \<Rightarrow>
     'w world_scheme \<Rightarrow> 'w world_scheme" where
  "dirlist_loop metafy outname inc_all only_dirs only_files udir idx [] w = w"
| "dirlist_loop metafy outname inc_all only_dirs only_files udir idx (name # names) w =
     (if listed inc_all only_dirs only_files w udir name
      then dirlist_loop metafy outname inc_all only_dirs only_files udir (Suc idx) names
             (setsparam (indexed outname idx) (metafy name) w)
      else dirlist_loop metafy outname inc_all only_dirs only_files udir idx names w)"

definition zp_dirlist_core ::
    "(string \<Rightarrow> string) \<Rightarrow> (string \<Rightarrow> string) \<Rightarrow> string \<Rightarrow> string \<Rightarrow> string \<Rightarrow> bool \<Rightarrow> bool \<Rightarrow> bool \<Rightarrow>
     'w world_scheme \<Rightarrow> int \<times> 'w world_scheme" where
  "zp_dirlist_core metafy unmetafy nam outname dir inc_all only_dirs only_files w =
     (case zp_unmetafy_zalloc unmetafy w (Some dir) of
        None \<Rightarrow> (1, zwarnnam nam ''oom'' w)
      | Some (u, _) \<Rightarrow>
          (case w_dir w (cstr u) of
             Inl e \<Rightarrow> (1, zwarnnam nam (dir @ '': '' @ w_strerror w e) w)
           | Inr (names, _) \<Rightarrow>
               (0, dirlist_loop metafy outname inc_all only_dirs only_files (cstr u) 1 names
                     (setaparam outname [] (unsetparam outname w)))))"

section \<open>Lemmas on path-stat\<close>

lemma buf_puts_fit:
  "0 \<le> off \<Longrightarrow> off + int (length (concat ps)) \<le> 511 \<Longrightarrow>
     buf_puts ps (t, off) = Some (t @ concat ps, off + int (length (concat ps)))"
proof (induction ps arbitrary: t off)
  case (Cons p ps)
  from Cons.prems have "buf_put p (t, off) = Some (t @ p, off + int (length p))"
    by (simp add: buf_put_def c_limits)
  with Cons show ?case by simp
qed simp

lemma buf_puts_append:
  "buf_puts (ps @ qs) b = (case buf_puts ps b of None \<Rightarrow> None | Some b' \<Rightarrow> buf_puts qs b')"
  by (induction ps b rule: buf_puts.induct) (auto split: option.splits)

lemma buf_puts_overflow:
  "off < 0 \<or> 512 < off \<Longrightarrow> ps \<noteq> [] \<Longrightarrow> buf_puts ps (t, off) = None"
  by (cases ps) (auto simp: buf_put_def)

text \<open>Metadata whose numbers have the width of the C types, and an \<open>errno\<close>.\<close>

definition stat_fits :: "nat + stat \<Rightarrow> bool" where
  "stat_fits res \<longleftrightarrow>
     (case res of Inl e \<Rightarrow> e < 10 ^ 10 | Inr st \<Rightarrow> long_range (int (st_size st)) \<and> long_range (st_mtime st))"

lemma render_uint32_length: "length (render_int (uint x)) \<le> 10" for x :: u32
proof -
  have "uint x < 10 ^ 10" using uint_bounded [of x] by simp
  then have "nat (uint x) < 10 ^ 10" by (subst nat_less_iff) simp_all
  then show ?thesis using render_nat_length [of 10 10 "nat (uint x)"] by (simp add: render_int_def)
qed

lemma long_range_sint: "long_range (sint x)" for x :: u64
  using sint_ge [of x] sint_lt [of x] by (simp add: long_range_def c_limits)

lemma mode_octal_length: "length (render_nat 8 (unat (m AND MODE_BITS))) \<le> 4" for m :: u32
proof -
  have "m AND MODE_BITS \<le> MODE_BITS" by (rule word_and_le1)
  then have "unat (m AND MODE_BITS) \<le> 4095" by (simp add: word_le_nat_alt MODE_BITS_def)
  then show ?thesis by (intro render_nat_length) simp_all
qed

lemma stat_pieces_length:
  assumes "stat_fits res"
  shows "length (concat (stat_pieces flds p res)) \<le> length (cstr p) + 157"
proof (cases res)
  case (Inl e)
  then have "length (render_nat 10 e) \<le> 10" using assms render_nat_length [of 10 10 e] by (simp add: stat_fits_def)
  then show ?thesis by (simp add: Inl stat_pieces_def render_int_def)
next
  case (Inr st)
  then have "length (render_int (int (st_size st))) \<le> 20" "length (render_int (st_mtime st)) \<le> 20"
    using assms render_int_length by (simp_all add: stat_fits_def)
  moreover have "length (render_int (sint (st_ino st))) \<le> 20" "length (render_int (sint (st_nlink st))) \<le> 20"
    using render_int_length long_range_sint by blast+
  ultimately show ?thesis
    using render_uint32_length [of "st_uid st"] render_uint32_length [of "st_gid st"] mode_octal_length [of "st_mode st"]
    by (simp add: Inr stat_pieces_def)
qed

text \<open>The record of a path, with nothing cut off.\<close>

definition whole_record :: "string option \<Rightarrow> string \<Rightarrow> nat + stat \<Rightarrow> string" where
  "whole_record flds p res = concat (stat_pieces flds p res)"

lemma stat_record_whole:
  assumes "stat_fits res" "length (cstr p) \<le> 354"
  shows "stat_record flds p res = Some (whole_record flds p res)"
  using buf_puts_fit [of 0 "stat_pieces flds p res" "[]"] stat_pieces_length [OF assms(1), of flds p] assms(2)
  by (simp add: stat_record_def whole_record_def)

lemma stat_record_long:
  assumes "508 \<le> length (cstr p)" "2 \<le> length (stat_pieces flds p res)"
  shows "stat_record flds p res = None"
proof -
  obtain q qs where "stat_pieces flds p res = (''path='' @ cstr p) # q # qs"
    using assms(2) by (cases "stat_pieces flds p res"; cases "tl (stat_pieces flds p res)")
      (auto simp: stat_pieces_def split: sum.splits)
  then show ?thesis
    using assms(1) by (auto simp: stat_record_def buf_put_def c_limits)
qed

lemma unmetafy_ok:
  "mem_ok w \<Longrightarrow> zp_unmetafy_zalloc unmetafy w (Some p) =
     Some (unmetafy (take (length p mod 4294967296) p), length (unmetafy (take (length p mod 4294967296) p)))"
  by (auto simp: zp_unmetafy_zalloc_def my_ztrdup_glen_def Let_def)

text \<open>The path the kernel is asked about.\<close>

definition sys_path :: "(string \<Rightarrow> string) \<Rightarrow> string \<Rightarrow> string" where
  "sys_path unmetafy p = cstr (unmetafy (take (length p mod 4294967296) p))"

definition answer :: "bool \<Rightarrow> 'w world_scheme \<Rightarrow> string \<Rightarrow> nat + stat" where
  "answer follow w = (if follow then w_stat w else w_lstat w)"

lemma answer_same [simp]: "same_system w w' \<Longrightarrow> answer follow w' = answer follow w"
  by (simp add: answer_def same_system_def)

lemma answer_setsparam [simp]:
  "answer follow (setsparam n v w) = answer follow w" "answer follow (setaparam n vs w) = answer follow w"
  "answer follow (unsetparam n w) = answer follow w"
  by (simp_all add: answer_def setsparam_def setaparam_def unsetparam_def pcall_do_def)

lemma mem_ok_calls [simp]:
  "mem_ok (setsparam n v w) = mem_ok w" "mem_ok (setaparam n vs w) = mem_ok w"
  "mem_ok (unsetparam n w) = mem_ok w" "mem_ok (emit s w) = mem_ok w" "mem_ok (emit_err s w) = mem_ok w"
  by (simp_all add: mem_ok_def setsparam_def setaparam_def unsetparam_def pcall_do_def emit_def emit_err_def)

lemma whole_record_cstr: "whole_record flds (cstr p) res = whole_record flds p res"
  by (simp add: whole_record_def stat_pieces_def cstring split: sum.splits)

lemma pathstat_loop_result:
  assumes "mem_ok w"
    "\<forall>p \<in> set ps. length (sys_path unmetafy p) \<le> 354 \<and> stat_fits (answer follow w (sys_path unmetafy p))"
  shows "\<exists>w'. pathstat_loop metafy unmetafy nam outname follow flds idx ps w = Some (0, w') \<and>
    w_pcalls w' = w_pcalls w @ element_calls outname idx
      (map (\<lambda>p. metafy (whole_record flds (sys_path unmetafy p) (answer follow w (sys_path unmetafy p)))) ps)"
  using assms
proof (induction ps arbitrary: idx w)
  case (Cons p ps)
  let ?u = "unmetafy (take (length p mod 4294967296) p)"
  let ?t = "whole_record flds ?u (answer follow w (cstr ?u))"
  have "stat_record flds ?u (answer follow w (cstr ?u)) = Some ?t"
    using Cons.prems(2) by (intro stat_record_whole) (simp_all add: sys_path_def)
  then have step: "pathstat_loop metafy unmetafy nam outname follow flds idx (p # ps) w =
      pathstat_loop metafy unmetafy nam outname follow flds (Suc idx) ps
        (setsparam (indexed outname idx) (metafy ?t) w)"
    using unmetafy_ok [OF Cons.prems(1), of unmetafy p] by (simp add: answer_def)
  show ?case
    unfolding step
    using Cons.prems Cons.IH [of "setsparam (indexed outname idx) (metafy ?t) w" "Suc idx"]
    by (simp add: sys_path_def whole_record_cstr)
qed simp

lemma pathstat_loop_long:
  assumes "mem_ok w" "p \<in> set ps" "508 \<le> length (sys_path unmetafy p)"
    "flds = None \<or> isl (answer follow w (sys_path unmetafy p))"
  shows "pathstat_loop metafy unmetafy nam outname follow flds idx ps w = None"
  using assms
proof (induction ps arbitrary: idx w)
  case (Cons q ps)
  let ?u = "unmetafy (take (length q mod 4294967296) q)"
  have step: "pathstat_loop metafy unmetafy nam outname follow flds idx (q # ps) w =
      (case stat_record flds ?u (answer follow w (cstr ?u)) of None \<Rightarrow> None
       | Some t \<Rightarrow> pathstat_loop metafy unmetafy nam outname follow flds (Suc idx) ps
           (setsparam (indexed outname idx) (metafy t) w))"
    using unmetafy_ok [OF Cons.prems(1), of unmetafy q] by (simp add: answer_def)
  show ?case
  proof (cases "q = p")
    case True
    have "2 \<le> length (stat_pieces flds ?u (answer follow w (cstr ?u)))"
      using Cons.prems(4) True
      by (cases "answer follow w (cstr ?u)") (auto simp: stat_pieces_def want_def sys_path_def)
    then have "stat_record flds ?u (answer follow w (cstr ?u)) = None"
      using Cons.prems(3) True by (intro stat_record_long) (simp_all add: sys_path_def)
    then show ?thesis unfolding step by simp
  next
    case False
    then have "pathstat_loop metafy unmetafy nam outname follow flds (Suc idx) ps
        (setsparam (indexed outname idx) (metafy t) w) = None" for t
      using Cons.prems by (intro Cons.IH) auto
    then show ?thesis unfolding step by (simp split: option.splits)
  qed
qed simp

section \<open>Lemmas on the directory cache\<close>

lemma shift_prefix:
  assumes "k < length xs"
  shows "foldl (\<lambda>ys i. ys[i - 1 := ys ! i]) xs [1..<Suc k] = take k (tl xs) @ drop k xs"
  using assms
proof (induction k)
  case (Suc k)
  let ?ys = "take k (tl xs) @ drop k xs"
  have nth: "?ys ! Suc k = tl xs ! k"
    using Suc.prems by (simp add: nth_append nth_tl)
  have "drop k xs = xs ! k # drop (Suc k) xs" using Suc.prems by (simp add: Cons_nth_drop_Suc)
  then have "?ys[k := tl xs ! k] = take k (tl xs) @ tl xs ! k # drop (Suc k) xs"
    using Suc.prems by (simp add: list_update_append)
  also have "\<dots> = take (Suc k) (tl xs) @ drop (Suc k) xs"
    using Suc.prems by (simp add: take_Suc_conv_app_nth)
  finally show ?case using Suc nth by simp
qed simp

lemma shift_all:
  assumes "length xs = n" "0 < n"
  shows "foldl (\<lambda>ys i. ys[i - 1 := ys ! i]) xs [1..<n] = tl xs @ [last xs]"
proof -
  obtain zs z where xs: "xs = zs @ [z]" using assms by (cases xs rule: rev_cases) auto
  then have "n = Suc (length zs)" using assms by simp
  then show ?thesis using shift_prefix [of "length zs" xs] xs by (cases zs) simp_all
qed

text \<open>The live entries, and the queue they implement.\<close>

definition live :: "fs_cache \<Rightarrow> zp_fs_cache_entry list" where
  "live c = take (zp_fs_cache_count c) (zp_fs_cache c)"

definition cache_ok :: "fs_cache \<Rightarrow> bool" where
  "cache_ok c \<longleftrightarrow> length (zp_fs_cache c) = ZP_FS_CACHE_MAX \<and> zp_fs_cache_count c \<le> ZP_FS_CACHE_MAX"

definition fifo_put :: "nat \<Rightarrow> 'e \<Rightarrow> 'e list \<Rightarrow> 'e list" where
  "fifo_put n e q = (if length q < n then q @ [e] else tl q @ [e])"

lemma max_pos: "0 < ZP_FS_CACHE_MAX"
  by (simp add: ZP_FS_CACHE_MAX_def)

lemma cache_insert:
  assumes "cache_ok c" "zp_fs_cache_insert_dir st s c = (i, c')"
  shows "cache_ok c'" "live c' = fifo_put ZP_FS_CACHE_MAX (cache_entry st s) (live c)"
    "Suc i = length (live c')"
proof -
  let ?n = "ZP_FS_CACHE_MAX"
  have l: "length (zp_fs_cache c) = ?n" "zp_fs_cache_count c \<le> ?n" using assms(1) by (simp_all add: cache_ok_def)
  have "cache_ok c' \<and> live c' = fifo_put ?n (cache_entry st s) (live c) \<and> Suc i = length (live c')"
  proof (cases "zp_fs_cache_count c < ?n")
    case True
    with assms(2) have r: "i = zp_fs_cache_count c"
      "c' = \<lparr>zp_fs_cache = (zp_fs_cache c)[i := cache_entry st s], zp_fs_cache_count = i + 1\<rparr>"
      by (auto simp: zp_fs_cache_insert_dir_def)
    from True l r show ?thesis
      by (simp add: cache_ok_def live_def fifo_put_def take_update_swap take_Suc_conv_app_nth
          list_update_append)
  next
    case False
    then have full: "zp_fs_cache_count c = ?n" using l by simp
    let ?xs = "zp_fs_cache c"
    have "shift_slots ?xs = tl ?xs @ [last ?xs]"
      unfolding shift_slots_def using l max_pos by (intro shift_all)
    moreover have "length (tl ?xs) = ?n - 1" using l by simp
    ultimately have "(shift_slots ?xs)[?n - 1 := cache_entry st s] = tl ?xs @ [cache_entry st s]"
      by (metis list_update_length)
    then have c': "i = ?n - 1" "c' = c\<lparr>zp_fs_cache := tl ?xs @ [cache_entry st s]\<rparr>"
      using False assms(2) by (simp_all add: zp_fs_cache_insert_dir_def)
    then show ?thesis using full l max_pos
      by (simp add: cache_ok_def live_def fifo_put_def)
  qed
  then show "cache_ok c'" "live c' = fifo_put ?n (cache_entry st s) (live c)"
    "Suc i = length (live c')" by simp_all
qed

lemma cache_ok_empty: "cache_ok fs_cache0" "live fs_cache0 = []"
  by (simp_all add: cache_ok_def live_def fs_cache0_def)

lemma lookup_from_first:
  "lookup_from st i es = Some j \<longleftrightarrow>
     i \<le> j \<and> j - i < length es \<and> entry_matches st (es ! (j - i)) \<and>
     (\<forall>k < j - i. \<not> entry_matches st (es ! k))"
proof (induction st i es rule: lookup_from.induct)
  case (2 st i e es)
  show ?case
  proof (cases "entry_matches st e")
    case True
    then show ?thesis by (cases "j - i") auto
  next
    case False
    then show ?thesis
      using 2 by (cases "j - i") (auto simp: nth_Cons' less_Suc_eq_0_disj Suc_le_eq diff_Suc split: nat.splits)
  qed
qed simp

text \<open>A bounded queue keeps the last elements put in.\<close>

lemma fifo_last:
  assumes "0 < n"
  shows "foldl (\<lambda>q e. fifo_put n e q) [] es = drop (length es - n) es"
proof (induction es rule: rev_induct)
  case (snoc e es)
  show ?case
  proof (cases "length es < n")
    case True
    then have "foldl (\<lambda>q e. fifo_put n e q) [] es = es" using snoc by simp
    with True show ?thesis by (simp add: fifo_put_def [of n e es])
  next
    case False
    then have "Suc (length es) - n = Suc (length es - n)" by simp
    moreover have "length (drop (length es - n) es) = n" using False by simp
    ultimately show ?thesis using snoc assms
      by (simp add: fifo_put_def [of n e "drop (length es - n) es"] drop_Suc tl_drop)
  qed
qed simp

definition insert_all :: "(stat \<times> string option) list \<Rightarrow> fs_cache \<Rightarrow> fs_cache" where
  "insert_all rs c = foldl (\<lambda>c (st, s). snd (zp_fs_cache_insert_dir st s c)) c rs"

lemma insert_all_live:
  "cache_ok (insert_all rs fs_cache0) \<and>
   live (insert_all rs fs_cache0) =
     foldl (\<lambda>q e. fifo_put ZP_FS_CACHE_MAX e q) [] (map (\<lambda>(st, s). cache_entry st s) rs)"
proof (induction rs rule: rev_induct)
  case Nil
  then show ?case by (simp add: insert_all_def cache_ok_empty)
next
  case (snoc r rs)
  obtain st s where r: "r = (st, s)" by fastforce
  obtain i c' where "zp_fs_cache_insert_dir st s (insert_all rs fs_cache0) = (i, c')" by fastforce
  with snoc cache_insert [of "insert_all rs fs_cache0" st s i c'] show ?case
    by (simp add: r insert_all_def)
qed

section \<open>Lemmas on path-warmup and dir-list\<close>

lemma valid_dir_same [simp]:
  "valid_dir (emit_err s w) = valid_dir w" "valid_dir (setaparam n vs w) = valid_dir w"
  by (auto simp: fun_eq_iff valid_dir_def emit_err_def setaparam_def pcall_do_def)

lemma valid_dir_system: "same_system w w' \<Longrightarrow> valid_dir w' = valid_dir w"
  by (intro ext) (simp add: valid_dir_def same_system_fields)

lemma prune_path_effect:
  "w_pcalls (prune_path quiet dry_run p w) = w_pcalls w @
     (if \<not> dry_run \<and> (\<exists>d \<in> set p. \<not> valid_dir w d)
      then [Set_array ''path'' (filter (valid_dir w) p)] else [])"
  "same_system w (prune_path quiet dry_run p w)"
  "quiet \<Longrightarrow> w_err (prune_path quiet dry_run p w) = w_err w"
proof -
  have "length (filter (valid_dir w) p) < length p \<longleftrightarrow> (\<exists>d \<in> set p. \<not> valid_dir w d)"
    by (metis filter_True length_filter_less less_irrefl)
  then show "w_pcalls (prune_path quiet dry_run p w) = w_pcalls w @
     (if \<not> dry_run \<and> (\<exists>d \<in> set p. \<not> valid_dir w d)
      then [Set_array ''path'' (filter (valid_dir w) p)] else [])"
    by (simp add: prune_path_def Let_def)
qed (auto simp: prune_path_def Let_def setaparam_def pcall_do_def same_system_def emit_err_def)

lemma warmup_effect:
  assumes "w_aparam w ''path'' = Some p"
  shows "w_pcalls (snd (zp_path_warmup_core quiet prune dry_run w)) = w_pcalls w @
      (if prune \<and> \<not> dry_run \<and> (\<exists>d \<in> set p. \<not> valid_dir w d)
       then [Set_array ''path'' (filter (valid_dir w) p)] else [])"
    "same_system w (snd (zp_path_warmup_core quiet prune dry_run w))"
    "quiet \<Longrightarrow> w_err (snd (zp_path_warmup_core quiet prune dry_run w)) = w_err w"
proof -
  obtain d ds where p: "p = d # ds \<or> p = []" by (cases p) auto
  show "w_pcalls (snd (zp_path_warmup_core quiet prune dry_run w)) = w_pcalls w @
      (if prune \<and> \<not> dry_run \<and> (\<exists>d \<in> set p. \<not> valid_dir w d)
       then [Set_array ''path'' (filter (valid_dir w) p)] else [])"
    using assms p by (cases quiet) (auto simp: zp_path_warmup_core_def Let_def prune_path_effect(1))
  show "same_system w (snd (zp_path_warmup_core quiet prune dry_run w))"
    using assms p
    by (auto simp: zp_path_warmup_core_def Let_def intro!: same_system_trans [OF _ same_system_calls(7)]
        prune_path_effect(2) intro: same_system_trans [OF same_system_calls(7) prune_path_effect(2)])
  show "quiet \<Longrightarrow> w_err (snd (zp_path_warmup_core quiet prune dry_run w)) = w_err w"
    using assms p by (auto simp: zp_path_warmup_core_def Let_def prune_path_effect(3))
qed

lemma warmup_count:
  assumes "w_aparam w ''path'' = Some p" "int (sum_list (map (warm_dir w) p)) \<le> INT_MAX"
  shows "fst (zp_path_warmup_core quiet prune dry_run w) = int (sum_list (map (warm_dir w) p))"
proof -
  have t: "touched (w\<lparr>w_err := s\<rparr>) = touched w" for s
    by (intro ext) (simp add: touched_def split: option.splits)
  have "warm_dir (emit_err s w) = warm_dir w" for s
    by (intro ext) (simp add: warm_dir_def emit_err_def t split: sum.splits)
  with assms show ?thesis
    by (cases p) (simp_all add: zp_path_warmup_core_def Let_def to_int_id c_limits)
qed

lemma listed_same:
  "listed a d f (setsparam n v w) u = listed a d f w u" "listed a d f (setaparam n vs w) u = listed a d f w u"
  "listed a d f (unsetparam n w) u = listed a d f w u"
  by (auto simp: fun_eq_iff listed_def setsparam_def setaparam_def unsetparam_def pcall_do_def
      split: sum.splits option.splits)

lemma dirlist_loop_calls:
  "w_pcalls (dirlist_loop metafy outname a d f u idx names w) =
     w_pcalls w @ element_calls outname idx (map metafy (filter (listed a d f w u) names))"
  by (induction metafy outname a d f u idx names w rule: dirlist_loop.induct) (simp_all add: listed_same)

lemma listed_iff:
  "listed a d f w u name \<longleftrightarrow>
     (a \<or> \<not> is_hidden name) \<and> length u + 1 + length name < PATH_MAX \<and>
     (\<exists>st. w_lstat w (u @ slash # name) = Inr st \<and>
        (d \<longrightarrow> S_ISDIR (st_mode st)) \<and> (f \<longrightarrow> S_ISREG (st_mode st)))"
  by (auto simp: listed_def joined_def Let_def split: sum.splits option.splits)

section \<open>Properties\<close>

text \<open>
  What a record says of a path, independent of how it is put together: the documented fields in
  their order, and what each value must read back as.  \<open>ino\<close> and \<open>nlink\<close> are cast to long.
\<close>

definition documented_fields :: "string list" where
  "documented_fields = [''type'', ''size'', ''mode'', ''mtime'', ''uid'', ''gid'', ''ino'', ''nlink'']"

fun tells :: "stat \<Rightarrow> string \<times> string \<Rightarrow> bool" where
  "tells st (k, v) \<longleftrightarrow>
     (if k = ''type'' then
        (\<exists>c. v = [c] \<and> (c = CHR ''f'' \<longleftrightarrow> S_ISREG (st_mode st)) \<and> (c = CHR ''d'' \<longleftrightarrow> S_ISDIR (st_mode st)) \<and>
             (c = CHR ''l'' \<longleftrightarrow> S_ISLNK (st_mode st)))
      else if k = ''mode'' then strtol 8 v = (uint (st_mode st AND 4095), [], False)
      else if k = ''size'' then strtol 10 v = (int (st_size st), [], False)
      else if k = ''mtime'' then strtol 10 v = (st_mtime st, [], False)
      else if k = ''uid'' then strtol 10 v = (uint (st_uid st), [], False)
      else if k = ''gid'' then strtol 10 v = (uint (st_gid st), [], False)
      else if k = ''ino'' then strtol 10 v = (sint (st_ino st), [], False)
      else k = ''nlink'' \<and> strtol 10 v = (sint (st_nlink st), [], False))"

text \<open>The record of a path: \<open>path=\<close> and the path, then the wanted fields for one that exists; for
  one that does not, its \<open>errno\<close>, after an unknown type when that is wanted.\<close>

definition record_tells :: "string option \<Rightarrow> string \<Rightarrow> nat + stat \<Rightarrow> string \<Rightarrow> bool" where
  "record_tells flds p res r \<longleftrightarrow>
     (let wanted = (\<lambda>k. case flds of None \<Rightarrow> True | Some f \<Rightarrow> strstr f k) in
      case res of
        Inr st \<Rightarrow> (\<exists>kvs. r = ''path='' @ p @ concat (map (\<lambda>(k, v). '','' @ k @ ''='' @ v) kvs) \<and>
                     map fst kvs = filter wanted documented_fields \<and> (\<forall>kv \<in> set kvs. tells st kv))
      | Inl e \<Rightarrow> (\<exists>v. r = ''path='' @ p @ (if wanted ''type'' then '',type=?'' else []) @ '',errno='' @ v \<and>
                     strtol 10 v = (int e, [], False)))"

lemma type_char_tells: "tells st (''type'', [type_char (st_mode st)])"
  by (auto simp: type_char_def S_ISREG_def S_ISDIR_def S_ISLNK_def mode_consts)

lemma uid_long: "long_range (uint x)" for x :: u32
proof -
  have "0 \<le> uint x" by simp
  then have "- 9223372036854775808 \<le> uint x" by linarith
  with uint_bounded [of x] show ?thesis by (simp add: long_range_def c_limits)
qed

lemma whole_record_tells:
  assumes "stat_fits res" "cstr p = p"
  shows "record_tells flds p res (whole_record flds p res)"
proof (cases res)
  case (Inl e)
  then have "strtol 10 (render_int (int e)) = (int e, [], False)"
    using assms(1) strtol_render_int [of "[]" "int e"] by (simp add: stat_fits_def long_range_def c_limits)
  then show ?thesis using Inl assms(2)
    by (auto simp: record_tells_def whole_record_def stat_pieces_def want_def)
next
  case (Inr st)
  let ?v = "\<lambda>k. if k = ''type'' then [type_char (st_mode st)]
     else if k = ''mode'' then render_nat 8 (unat (st_mode st AND MODE_BITS))
     else if k = ''size'' then render_int (int (st_size st)) else if k = ''mtime'' then render_int (st_mtime st)
     else if k = ''uid'' then render_int (uint (st_uid st)) else if k = ''gid'' then render_int (uint (st_gid st))
     else if k = ''ino'' then render_int (sint (st_ino st)) else render_int (sint (st_nlink st))"
  let ?kvs = "map (\<lambda>k. (k, ?v k)) (filter (want flds) documented_fields)"
  have l: "strtol 10 (render_int v) = (v, [], False)" if "long_range v" for v
    using strtol_render_int [of "[]" v] that by simp
  have m: "strtol 8 (render_nat 8 (unat (st_mode st AND MODE_BITS))) = (uint (st_mode st AND 4095), [], False)"
    using strtol_render_nat [of 8 "[]" "unat (st_mode st AND MODE_BITS)"]
      uint_bounded [of "st_mode st AND 4095"]
    by (simp add: MODE_BITS_def c_limits)
  have "\<forall>kv \<in> set ?kvs. tells st kv"
    using assms(1) Inr type_char_tells [of st] l m uid_long long_range_sint
    by (auto simp: documented_fields_def stat_fits_def)
  moreover have "whole_record flds p res = ''path='' @ p @ concat (map (\<lambda>(k, v). '','' @ k @ ''='' @ v) ?kvs)"
    using assms(2) Inr by (simp add: whole_record_def stat_pieces_def documented_fields_def)
  moreover have "map fst ?kvs = filter (want flds) documented_fields" by (simp add: comp_def)
  moreover have "want flds = (\<lambda>k. case flds of None \<Rightarrow> True | Some f \<Rightarrow> strstr f k)"
    by (intro ext) (simp add: want_def)
  ultimately have "\<exists>kvs. whole_record flds p res = ''path='' @ p @ concat (map (\<lambda>(k, v). '','' @ k @ ''='' @ v) kvs) \<and>
      map fst kvs = filter (\<lambda>k. case flds of None \<Rightarrow> True | Some f \<Rightarrow> strstr f k) documented_fields \<and>
      (\<forall>kv \<in> set kvs. tells st kv)"
    by (intro exI [of _ ?kvs]) simp
  then show ?thesis unfolding record_tells_def Let_def Inr sum.case .
qed

text \<open>
  C27: path-stat, given an indexed array other than its output, unsets the output, makes it an empty
  array and then gives it one element per input path, in order: a record, complete and not cut off,
  that holds the path and exactly the wanted fields in the documented order, each value of which
  reads back as that field of the path's metadata (permissions in octal, the rest in decimal).  The
  record of a path that cannot be examined holds its \<open>errno\<close> and no field but an unknown type.  It
  answers 0.  Paths have at most 354 bytes.  A record of a path that exists carries no \<open>errno\<close> field,
  whereas \<open>docs/reference/builtins.md\<close> shows \<open>errno=0\<close> at its end.
\<close>

theorem pathstat_records:
  assumes "mem_ok w" "w_aparam w inname = Some ps" "outname \<noteq> inname"
    "\<forall>p \<in> set ps. length (sys_path unmetafy p) \<le> 354 \<and> stat_fits (answer follow w (sys_path unmetafy p))"
  shows "\<exists>w' recs. zp_pathstat_core metafy unmetafy nam outname inname follow flds w = Some (0, w') \<and>
    w_pcalls w' = w_pcalls w @ [Unset_param outname, Set_array outname []] @
      element_calls outname 1 (map metafy recs) \<and>
    list_all2 (\<lambda>p r. record_tells flds (sys_path unmetafy p) (answer follow w (sys_path unmetafy p)) r) ps recs"
proof -
  let ?rec = "\<lambda>p. whole_record flds (sys_path unmetafy p) (answer follow w (sys_path unmetafy p))"
  have "record_tells flds (sys_path unmetafy p) (answer follow w (sys_path unmetafy p)) (?rec p)"
    if "p \<in> set ps" for p
    using that assms(4) by (intro whole_record_tells) (simp_all add: sys_path_def cstring)
  then have "list_all2 (\<lambda>p r. record_tells flds (sys_path unmetafy p) (answer follow w (sys_path unmetafy p)) r)
      ps (map ?rec ps)"
    by (simp add: list_all2_conv_all_nth)
  moreover obtain w' where "pathstat_loop metafy unmetafy nam outname follow flds 1 ps
      (setaparam outname [] (unsetparam outname w)) = Some (0, w')"
    "w_pcalls w' = w_pcalls w @ [Unset_param outname, Set_array outname []] @
       element_calls outname 1 (map metafy (map ?rec ps))"
    using pathstat_loop_result [of "setaparam outname [] (unsetparam outname w)" ps unmetafy follow metafy
        nam outname flds 1] assms(1,4) by (auto simp: comp_def)
  ultimately show ?thesis
    using assms(2,3) by (intro exI [of _ w'] exI [of _ "map ?rec ps"]) (simp add: zp_pathstat_core_def)
qed

definition world_file :: world where
  "world_file = world0\<lparr>w_stat := (\<lambda>_. Inr ((w_fresh world0 [])\<lparr>st_mode := S_IFREG, st_size := 7\<rparr>)),
     w_aparam := [''in'' \<mapsto> [''/etc/hosts'']]\<rparr>"

theorem pathstat_records_witness:
  "\<exists>w' v. zp_pathstat_core id id ''p'' ''out'' ''in'' True (Some ''size'') world_file = Some (0, w') \<and>
     w_pcalls w' = [Unset_param ''out'', Set_array ''out'' [],
       Set_scalar ''out[1]'' (''path=/etc/hosts,size='' @ v)] \<and> strtol 10 v = (7, [], False)"
proof -
  have s: "sys_path id ''/etc/hosts'' = ''/etc/hosts''" by code_simp
  have i: "indexed ''out'' 1 = ''out[1]''" by code_simp
  have f: "filter (strstr ''size'') documented_fields = [''size'']" by code_simp
  let ?st = "(w_fresh world0 [])\<lparr>st_mode := S_IFREG, st_size := 7\<rparr>"
  have w: "mem_ok world_file" "w_aparam world_file ''in'' = Some [''/etc/hosts'']" "w_pcalls world_file = []"
    "answer True world_file p = Inr ?st" for p
    by (simp_all add: world_file_def mem_ok_def world0_def answer_def)
  have "stat_fits (Inr ?st)" by (simp add: stat_fits_def long_range_def c_limits world0_def)
  with pathstat_records [OF w(1,2), of "''out''" id True id "''p''" "Some ''size''"]
  obtain w' recs where r: "zp_pathstat_core id id ''p'' ''out'' ''in'' True (Some ''size'') world_file = Some (0, w')"
    "w_pcalls w' = [Unset_param ''out'', Set_array ''out'' []] @ element_calls ''out'' 1 recs"
    "list_all2 (\<lambda>p r. record_tells (Some ''size'') (sys_path id p) (Inr ?st) r) [''/etc/hosts''] recs"
    by (simp only: w(3,4) append_Nil list.map_id s list.set ball_simps list_all2_Cons1 list_all2_Nil) auto
  from r(3) obtain r1 where r1: "recs = [r1]" "record_tells (Some ''size'') ''/etc/hosts'' (Inr ?st) r1"
    by (auto simp: list_all2_Cons1 s)
  from r1(2) obtain v where "r1 = ''path=/etc/hosts,size='' @ v" "strtol 10 v = (7, [], False)"
    by (auto simp: record_tells_def f)
  with r(1,2) r1(1) i show ?thesis by auto
qed

text \<open>
  With no field filter, or with a path the kernel refuses, path-stat leaves its 512-byte
  record buffer as soon as one input path has 508 bytes or more: \<open>off\<close> passes the end of the
  buffer and the next \<open>snprintf\<close> is given a negative size.
\<close>

theorem pathstat_long_path_faults:
  assumes "mem_ok w" "w_aparam w inname = Some ps" "p \<in> set ps" "508 \<le> length (sys_path unmetafy p)"
    "flds = None \<or> isl (answer follow w (sys_path unmetafy p))"
  shows "zp_pathstat_core metafy unmetafy nam outname inname follow flds w = None"
  using assms pathstat_loop_long [of "setaparam outname [] (unsetparam outname w)" p ps unmetafy flds follow]
  by (simp add: zp_pathstat_core_def)

theorem pathstat_long_path_faults_witness:
  "let w = world0\<lparr>w_aparam := [''in'' \<mapsto> [replicate 508 (CHR ''a'')]]\<rparr>
   in zp_pathstat_core id id ''p'' ''out'' ''in'' True None w = None"
proof -
  define p where "p = replicate 508 (CHR ''a'')"
  have "sys_path id p = p" by (simp add: p_def sys_path_def cstr_id c_chars)
  moreover have "length p = 508" by (simp add: p_def)
  moreover have "mem_ok (world0\<lparr>w_aparam := a\<rparr>)" for a by (simp add: mem_ok_def world0_def)
  ultimately show ?thesis
    unfolding Let_def p_def [symmetric] by (intro pathstat_long_path_faults [where p = p and ps = "[p]"]) simp_all
qed

text \<open>
  C22: The 64-slot directory cache refines a bounded queue: after any sequence of insertions its
  live entries are the last 64 inserted, in order (the shifting loop loses and duplicates
  nothing), and a lookup returns the first of them with the identity asked for.
\<close>

theorem fs_cache_refines_fifo:
  "live (insert_all rs fs_cache0) =
     drop (length rs - ZP_FS_CACHE_MAX) (map (\<lambda>(st, s). cache_entry st s) rs) \<and>
   (zp_fs_cache_lookup st (insert_all rs fs_cache0) = Some i \<longleftrightarrow>
      i < length (live (insert_all rs fs_cache0)) \<and>
      entry_matches st (live (insert_all rs fs_cache0) ! i) \<and>
      (\<forall>k < i. \<not> entry_matches st (live (insert_all rs fs_cache0) ! k)))"
proof
  show "live (insert_all rs fs_cache0) =
     drop (length rs - ZP_FS_CACHE_MAX) (map (\<lambda>(st, s). cache_entry st s) rs)"
    using insert_all_live [of rs] fifo_last [OF max_pos, of "map (\<lambda>(st, s). cache_entry st s) rs"] by simp
  show "zp_fs_cache_lookup st (insert_all rs fs_cache0) = Some i \<longleftrightarrow>
      i < length (live (insert_all rs fs_cache0)) \<and>
      entry_matches st (live (insert_all rs fs_cache0) ! i) \<and>
      (\<forall>k < i. \<not> entry_matches st (live (insert_all rs fs_cache0) ! k))"
    unfolding zp_fs_cache_lookup_def live_def [symmetric] lookup_from_first by simp
qed

text \<open>65 directories are one too many: the first is gone, and the second is found in slot 0.\<close>

definition some_dir :: "nat \<Rightarrow> stat" where
  "some_dir i = (w_fresh world0 [])\<lparr>st_ino := of_nat i\<rparr>"

theorem fs_cache_refines_fifo_witness:
  "live (insert_all (map (\<lambda>i. (some_dir i, None)) [0..<65]) fs_cache0) =
     map (\<lambda>i. cache_entry (some_dir i) None) [1..<65] \<and>
   zp_fs_cache_lookup (some_dir 1) (insert_all (map (\<lambda>i. (some_dir i, None)) [0..<65]) fs_cache0) = Some 0"
proof -
  let ?rs = "map (\<lambda>i. (some_dir i, None)) [0..<65]"
  have live: "live (insert_all ?rs fs_cache0) = map (\<lambda>i. cache_entry (some_dir i) None) [1..<65]"
    using fs_cache_refines_fifo [of ?rs "some_dir 1" 0]
    by (simp add: ZP_FS_CACHE_MAX_def drop_map drop_upt comp_def del: upt_Suc)
  have "entry_matches (some_dir 1) (cache_entry (some_dir 1) None)"
    by (simp add: entry_matches_def cache_entry_def)
  moreover have "live (insert_all ?rs fs_cache0) ! 0 = cache_entry (some_dir 1) None"
    "0 < length (live (insert_all ?rs fs_cache0))"
    unfolding live by (simp_all del: upt_Suc)
  ultimately have "zp_fs_cache_lookup (some_dir 1) (insert_all ?rs fs_cache0) = Some 0"
    using fs_cache_refines_fifo [of ?rs "some_dir 1" 0] by (metis not_less_zero)
  with live show ?thesis by simp
qed

text \<open>
  What a directory of the search path counts for: the names it lists that do not begin with a dot,
  make a path shorter than PATH_MAX and lead to a regular file that somebody may execute (the bits
  0111).  An empty entry and a directory that cannot be opened count for nothing.
\<close>

definition executables :: "'w world_scheme \<Rightarrow> string \<Rightarrow> string list" where
  "executables w d =
     (case w_dir w d of
        Inl _ \<Rightarrow> []
      | Inr (names, _) \<Rightarrow>
          filter (\<lambda>name. d \<noteq> [] \<and> take 1 name \<noteq> ''.'' \<and> length d + 1 + length name < 4096 \<and>
             (\<exists>st. w_stat w (d @ ''/'' @ name) = Inr st \<and> st_mode st AND S_IFMT = S_IFREG \<and>
                st_mode st AND 73 \<noteq> 0)) names)"

lemma touched_iff:
  "touched w d name \<longleftrightarrow> take 1 name \<noteq> ''.'' \<and> length d + 1 + length name < 4096 \<and>
     (\<exists>st. w_stat w (d @ ''/'' @ name) = Inr st \<and> st_mode st AND S_IFMT = S_IFREG \<and> st_mode st AND 73 \<noteq> 0)"
  by (cases name) (auto simp: touched_def is_hidden_def joined_def Let_def slash_def PATH_MAX_def S_ISREG_def
      has_bit_def X_BITS_def split: sum.splits)

lemma warm_dir_executables: "warm_dir w d = length (executables w d)"
  by (auto simp: warm_dir_def executables_def touched_iff [abs_def] split: sum.splits)

text \<open>
  C32: path-warmup answers the number of names, over the entries of path, that lead to an executable
  regular file (hidden names and paths beyond PATH_MAX aside), and writes at most one parameter: with
  pruning asked for and no dry run, and only when some entry of path is no directory, path becomes its
  existing directories in order.  A second run on that path changes nothing.  The comment in
  \<open>zpmod_fs.h\<close> and \<open>docs/reference/cli.md\<close> still call the pruning a no-op.
\<close>

theorem path_warmup_prunes_once:
  assumes "w_aparam w ''path'' = Some p" "int (\<Sum>d\<leftarrow>p. length (executables w d)) \<le> INT_MAX"
  shows "let valid = (\<lambda>d. d \<noteq> [] \<and> (\<exists>st. w_stat w d = Inr st \<and> S_ISDIR (st_mode st)));
             (n, w') = zp_path_warmup_core quiet prune dry_run w;
             w2 = w'\<lparr>w_aparam := (w_aparam w')(''path'' := Some (filter valid p))\<rparr>
         in n = int (\<Sum>d\<leftarrow>p. length (executables w d)) \<and> same_system w w' \<and>
            w_pcalls w' = w_pcalls w @
              (if prune \<and> \<not> dry_run \<and> (\<exists>d \<in> set p. \<not> valid d) then [Set_array ''path'' (filter valid p)]
               else []) \<and>
            w_pcalls (snd (zp_path_warmup_core quiet' prune' dry_run' w2)) = w_pcalls w2"
proof -
  obtain n w' where r: "zp_path_warmup_core quiet prune dry_run w = (n, w')" by fastforce
  have v: "(\<lambda>d. d \<noteq> [] \<and> (\<exists>st. w_stat w d = Inr st \<and> S_ISDIR (st_mode st))) = valid_dir w"
    by (auto simp: fun_eq_iff valid_dir_def split: sum.splits)
  let ?w2 = "w'\<lparr>w_aparam := (w_aparam w')(''path'' := Some (filter (valid_dir w) p))\<rparr>"
  have s: "same_system w w'" using warmup_effect(2) [OF assms(1), of quiet prune dry_run] r by simp
  then have "valid_dir ?w2 = valid_dir w"
    by (auto simp: fun_eq_iff valid_dir_def same_system_def split: sum.splits)
  then have q: "w_pcalls (snd (zp_path_warmup_core quiet' prune' dry_run' ?w2)) = w_pcalls ?w2"
    using warmup_effect(1) [of ?w2 "filter (valid_dir w) p" quiet' prune' dry_run'] by auto
  have "n = int (\<Sum>d\<leftarrow>p. length (executables w d))"
    using warmup_count [OF assms(1), of quiet prune dry_run] assms(2) r
    by (simp add: warm_dir_executables [abs_def])
  then show ?thesis
    using s q warmup_effect(1) [OF assms(1), of quiet prune dry_run] r by (simp add: Let_def v)
qed

text \<open>One directory with an executable, a hidden name and a plain file, and one that is gone.\<close>

definition world_path :: world where
  "world_path = world0\<lparr>w_aparam := [''path'' \<mapsto> [''/gone'', ''/b'']],
     w_dir := (\<lambda>p. if p = ''/b'' then Inr ([''.'', ''ls'', ''txt''], 0) else Inl ENOENT),
     w_stat := (\<lambda>p. if p = ''/b'' then Inr ((w_fresh world0 [])\<lparr>st_mode := S_IFDIR\<rparr>)
                    else if p = ''/b/ls'' then Inr ((w_fresh world0 [])\<lparr>st_mode := S_IFREG OR 493\<rparr>)
                    else if p = ''/b/txt'' then Inr ((w_fresh world0 [])\<lparr>st_mode := S_IFREG OR 420\<rparr>)
                    else Inl ENOENT)\<rparr>"

theorem path_warmup_prunes_once_witness:
  "fst (zp_path_warmup_core True True False world_path) = 1 \<and>
   w_pcalls (snd (zp_path_warmup_core True True False world_path)) = [Set_array ''path'' [''/b'']]"
proof -
  have e: "executables world_path ''/gone'' = []" "executables world_path ''/b'' = [''ls'']"
    by (simp_all add: executables_def world_path_def mode_consts)
  have d: "S_ISDIR S_IFDIR" by (simp add: S_ISDIR_def mode_consts)
  have p: "w_aparam world_path ''path'' = Some [''/gone'', ''/b'']" by (simp add: world_path_def)
  have "int (\<Sum>d\<leftarrow>[''/gone'', ''/b'']. length (executables world_path d)) \<le> INT_MAX"
    by (simp add: e c_limits)
  from path_warmup_prunes_once [OF p this, of True True False True True False] show ?thesis
    by (simp add: Let_def e split: prod.splits) (simp add: world_path_def world0_def d)
qed

text \<open>
  C28: dir-list on a readable directory unsets the output, makes it an empty array and gives it, in
  directory order, exactly the names that exist, pass the hidden, directory and file filters and
  make a path shorter than PATH_MAX; on a directory that cannot be opened it reports the errno,
  answers 1 and leaves every parameter alone.
\<close>

theorem dirlist_exact:
  assumes "mem_ok w"
  shows "case w_dir w (sys_path unmetafy dir) of
      Inl e \<Rightarrow> zp_dirlist_core metafy unmetafy nam outname dir inc_all only_dirs only_files w =
                 (1, zwarnnam nam (dir @ '': '' @ w_strerror w e) w)
    | Inr (names, _) \<Rightarrow>
        (\<exists>w'. zp_dirlist_core metafy unmetafy nam outname dir inc_all only_dirs only_files w = (0, w') \<and>
           w_pcalls w' = w_pcalls w @ [Unset_param outname, Set_array outname []] @
             element_calls outname 1 (map metafy (filter
               (\<lambda>name. (inc_all \<or> \<not> is_hidden name) \<and>
                  length (sys_path unmetafy dir) + 1 + length name < PATH_MAX \<and>
                  (\<exists>st. w_lstat w (sys_path unmetafy dir @ slash # name) = Inr st \<and>
                     (only_dirs \<longrightarrow> S_ISDIR (st_mode st)) \<and> (only_files \<longrightarrow> S_ISREG (st_mode st))))
               names)))"
  using unmetafy_ok [OF assms, of unmetafy dir]
  by (auto simp: zp_dirlist_core_def sys_path_def dirlist_loop_calls listed_same listed_iff [abs_def] split: sum.splits)

definition world_dir :: world where
  "world_dir = world0\<lparr>w_dir := (\<lambda>p. if p = ''d'' then Inr ([''.'', ''x'', ''y''], 0) else Inl ENOENT),
     w_lstat := (\<lambda>p. if p = ''d/y'' then Inl ENOENT else Inr ((w_fresh world0 [])\<lparr>st_mode := S_IFREG\<rparr>))\<rparr>"

theorem dirlist_exact_witness:
  "\<exists>w'. zp_dirlist_core id id ''l'' ''out'' ''d'' False False True world_dir = (0, w') \<and>
     w_pcalls w' = [Unset_param ''out'', Set_array ''out'' [], Set_scalar ''out[1]'' ''x'']"
proof -
  have s: "sys_path id ''d'' = ''d''" and i: "indexed ''out'' 1 = ''out[1]''"
    and h: "is_hidden ''.''" "\<not> is_hidden ''x''" "S_ISREG S_IFREG" by code_simp+
  have w: "mem_ok world_dir" "w_dir world_dir ''d'' = Inr ([''.'', ''x'', ''y''], 0)" "w_pcalls world_dir = []"
    "w_lstat world_dir ''d/y'' = Inl ENOENT"
    "w_lstat world_dir ''d/x'' = Inr ((w_fresh world0 [])\<lparr>st_mode := S_IFREG\<rparr>)"
    by (simp_all add: world_dir_def mem_ok_def world0_def)
  show ?thesis
    using dirlist_exact [OF w(1), where metafy = id and unmetafy = id and dir = "''d''" and nam = "''l''" and
      outname = "''out''" and inc_all = False and only_dirs = False and only_files = True] i h
    by (simp add: s w PATH_MAX_def slash_def)
qed

end
