(* ===== verification/Zp_Readfile.thy ===== *)
theory Zp_Readfile
  imports Zp_Fs
begin

text \<open>
  \<open>zp_readfile_core\<close> of \<open>src/core/fs.c\<close>: a file's bytes, mapped or read in a loop with a
  doubling buffer, become one scalar or an array of records.  How many bytes each \<open>read\<close>
  transfers is the kernel's choice (\<^const>\<open>w_reads\<close>).  \<^const>\<open>None\<close> is a fault: touching a page
  beyond the end of a mapped file, a negative record length, or releasing a buffer with the call
  of the other kind.
\<close>

section \<open>Reading\<close>

datatype buf_kind = Mapped | Heap

text \<open>The pages of a mapping: bytes after the end of the file read as zero up to the end of its
  last page, and fault after it.\<close>

definition mapped_bytes :: "string \<Rightarrow> nat \<Rightarrow> string option" where
  "mapped_bytes data sz =
     (if sz \<le> (length data + 4095) div 4096 * 4096
      then Some (take sz (data @ replicate (sz - length data) nul)) else None)"

text \<open>How much one \<open>read\<close> transfers: nothing only without room or at the end of the file.\<close>

definition transferred :: "nat \<Rightarrow> nat \<Rightarrow> nat \<Rightarrow> nat" where
  "transferred k room left = min (max 1 k) (min room left)"

lemma transferred_bounds:
  "transferred k room left \<le> room" "transferred k room left \<le> left"
  "transferred k room left = 0 \<longleftrightarrow> room = 0 \<or> left = 0"
  "0 < transferred k room left \<longleftrightarrow> 0 < room \<and> 0 < left"
  by (auto simp: transferred_def min_def max_def)

datatype read_result = Read_done string nat | Read_oom | Read_failed nat

text \<open>The loop \<open>while ((rd = read (fd, buf + off, cap - off)) > 0)\<close>: \<open>buf\<close> holds the \<open>off\<close>
  bytes read, \<open>rest\<close> is what the file still has.\<close>

function read_loop ::
    "'w world_scheme \<Rightarrow> string \<Rightarrow> nat \<Rightarrow> nat \<Rightarrow> string \<Rightarrow> string \<Rightarrow> read_result" where
  "read_loop w p i cap buf rest =
     (case w_reads w p i of
        Inl e \<Rightarrow> Read_failed e
      | Inr k \<Rightarrow>
          let n = transferred k (cap - length buf) (length rest);
              buf' = buf @ take n rest
          in if n = 0 then Read_done buf cap
             else if length buf' = cap then
               if w_alloc w (cap * 2) then read_loop w p (Suc i) (cap * 2) buf' (drop n rest)
               else Read_oom
             else read_loop w p (Suc i) cap buf' (drop n rest))"
  by pat_completeness auto
termination
  by (relation "measure (\<lambda>(w, p, i, cap, buf, rest). length rest)") (auto simp: transferred_bounds intro!: diff_less)

declare read_loop.simps [simp del]

text \<open>\<open>cap = sz ? sz + 1 : 4096\<close>\<close>

definition first_cap :: "nat \<Rightarrow> nat" where
  "first_cap sz = (if sz \<noteq> 0 then sz + 1 else 4096)"

section \<open>Splitting\<close>

text \<open>\<open>metafy (s, (int)length, META_DUP)\<close>\<close>

definition metafied :: "(string \<Rightarrow> string) \<Rightarrow> string \<Rightarrow> string option" where
  "metafied metafy s =
     (let len = to_int (int (length s)) in if len < 0 then None else Some (metafy (take (nat len) s)))"

text \<open>The records; \<open>cur\<close> is the part of the current one already seen.  A carriage return as the
  delimiter takes a line feed after it along.\<close>

fun split_from :: "char \<Rightarrow> string \<Rightarrow> string \<Rightarrow> string list" where
  "split_from d cur [] = (if cur = [] then [] else [cur])"
| "split_from d cur (c # cs) =
     (if c = d then
        cur # split_from d [] (if d = creturn \<and> cs \<noteq> [] \<and> hd cs = newline then tl cs else cs)
      else split_from d (cur @ [c]) cs)"

definition split_records :: "char \<Rightarrow> string \<Rightarrow> string list" where
  "split_records d s = split_from d [] s"

fun store_records ::
    "(string \<Rightarrow> string) \<Rightarrow> string \<Rightarrow> nat \<Rightarrow> string list \<Rightarrow> 'w world_scheme \<Rightarrow> 'w world_scheme option" where
  "store_records metafy outname idx [] w = Some w"
| "store_records metafy outname idx (r # rs) w =
     (case metafied metafy r of
        None \<Rightarrow> None
      | Some v \<Rightarrow> store_records metafy outname (Suc idx) rs (setsparam (indexed outname idx) v w))"

section \<open>The command\<close>

text \<open>\<open>munmap\<close> when \<open>use_mmap && cap == sz\<close>, \<open>zfree\<close> otherwise.\<close>

definition released :: "buf_kind \<Rightarrow> bool \<Rightarrow> nat \<Rightarrow> nat \<Rightarrow> bool" where
  "released k use_mmap cap sz \<longleftrightarrow> k = (if use_mmap \<and> cap = sz then Mapped else Heap)"

definition finish_read ::
    "(string \<Rightarrow> string) \<Rightarrow> string \<Rightarrow> bool \<Rightarrow> bool \<Rightarrow> int \<Rightarrow> buf_kind \<Rightarrow> string \<Rightarrow> nat \<Rightarrow>
     'w world_scheme \<Rightarrow> (int \<times> 'w world_scheme) option" where
  "finish_read metafy outname use_mmap split delim k buf cap w =
     (let w1 = unsetparam outname w;
          stored = (if \<not> split then map_option (\<lambda>v. setsparam outname v w1) (metafied metafy buf)
                    else store_records metafy outname 1
                           (split_records (char_of (nat (delim mod 256))) buf) (setaparam outname [] w1))
      in case stored of
           None \<Rightarrow> None
         | Some w2 \<Rightarrow> if released k use_mmap cap (length buf) then Some (0, w2) else None)"

definition zp_readfile_core ::
    "(string \<Rightarrow> string) \<Rightarrow> (string \<Rightarrow> string) \<Rightarrow> string \<Rightarrow> string \<Rightarrow> string \<Rightarrow> bool \<Rightarrow> bool \<Rightarrow>
     int \<Rightarrow> 'w world_scheme \<Rightarrow> (int \<times> 'w world_scheme) option" where
  "zp_readfile_core metafy unmetafy nam outname path use_mmap split delim w =
     (case zp_unmetafy_zalloc unmetafy w (Some path) of
        None \<Rightarrow> Some (1, zwarnnam nam ''oom'' w)
      | Some (u, _) \<Rightarrow>
          (case w_data w (cstr u) of
             Inl e \<Rightarrow> Some (1, zwarnnam nam (path @ '': '' @ w_strerror w e) w)
           | Inr data \<Rightarrow>
               (case w_stat w (cstr u) of
                  Inl e \<Rightarrow> Some (1, zwarnnam nam (path @ '': '' @ w_strerror w e) w)
                | Inr st \<Rightarrow>
                    let sz = st_size st
                    in if use_mmap \<and> 0 < sz \<and> w_mmap_ok w (cstr u) then
                         (case mapped_bytes data sz of
                            None \<Rightarrow> None
                          | Some buf \<Rightarrow> finish_read metafy outname use_mmap split delim Mapped buf sz w)
                       else if \<not> w_alloc w (first_cap sz) then
                         Some (1, zwarnnam nam (''oom: '' @ w_strerror w ENOMEM) w)
                       else
                         (case read_loop w (cstr u) 0 (first_cap sz) [] data of
                            Read_failed e \<Rightarrow> Some (1, zwarnnam nam (path @ '': '' @ w_strerror w e) w)
                          | Read_oom \<Rightarrow> Some (1, zwarnnam nam (''oom: '' @ w_strerror w ENOMEM) w)
                          | Read_done buf cap \<Rightarrow>
                              finish_read metafy outname use_mmap split delim Heap buf cap w))))"

section \<open>Lemmas\<close>

text \<open>Whatever the kernel transfers at a time, the loop ends with the whole file, in a buffer with
  room to spare.\<close>

lemma read_loop_step:
  assumes "w_reads w p i = Inr k" "n = transferred k (cap - length buf) (length rest)"
  shows "n = 0 \<Longrightarrow> read_loop w p i cap buf rest = Read_done buf cap"
    "0 < n \<Longrightarrow> w_alloc w (cap * 2) \<or> length (buf @ take n rest) \<noteq> cap \<Longrightarrow>
       read_loop w p i cap buf rest =
       read_loop w p (Suc i) (if length (buf @ take n rest) = cap then cap * 2 else cap)
         (buf @ take n rest) (drop n rest)"
    "0 < n \<Longrightarrow> \<not> w_alloc w (cap * 2) \<Longrightarrow> length (buf @ take n rest) = cap \<Longrightarrow>
       read_loop w p i cap buf rest = Read_oom"
proof -
  have unf: "read_loop w p i cap buf rest =
      (if n = 0 then Read_done buf cap
       else if length (buf @ take n rest) = cap then
         if w_alloc w (cap * 2) then read_loop w p (Suc i) (cap * 2) (buf @ take n rest) (drop n rest)
         else Read_oom
       else read_loop w p (Suc i) cap (buf @ take n rest) (drop n rest))"
    by (subst read_loop.simps) (simp only: assms Let_def sum.case)
  show "n = 0 \<Longrightarrow> read_loop w p i cap buf rest = Read_done buf cap"
    unfolding unf by simp
  show "0 < n \<Longrightarrow> w_alloc w (cap * 2) \<or> length (buf @ take n rest) \<noteq> cap \<Longrightarrow>
       read_loop w p i cap buf rest =
       read_loop w p (Suc i) (if length (buf @ take n rest) = cap then cap * 2 else cap)
         (buf @ take n rest) (drop n rest)"
    unfolding unf by (simp only: split: if_split) blast
  show "0 < n \<Longrightarrow> \<not> w_alloc w (cap * 2) \<Longrightarrow> length (buf @ take n rest) = cap \<Longrightarrow>
       read_loop w p i cap buf rest = Read_oom"
    unfolding unf by simp
qed

lemma read_loop_done:
  assumes "length buf < cap" "\<And>n. w_alloc w n" "\<forall>i. \<not> isl (w_reads w p i)"
  shows "\<exists>cap'. read_loop w p i cap buf rest = Read_done (buf @ rest) cap' \<and> length (buf @ rest) < cap'"
  using assms(1)
proof (induction "length rest" arbitrary: i cap buf rest rule: less_induct)
  case less
  obtain k where k: "w_reads w p i = Inr k" using assms(3) by (metis sum.collapse(2))
  define n where "n = transferred k (cap - length buf) (length rest)"
  note step = read_loop_step [OF k n_def]
  show ?case
  proof (cases "n = 0")
    case True
    then have "rest = []" using transferred_bounds(3) [of k "cap - length buf" "length rest"] less.prems
      by (simp add: n_def)
    then show ?thesis using step(1) True less.prems by simp
  next
    case False
    let ?cap = "if length (buf @ take n rest) = cap then cap * 2 else cap"
    have n: "n \<le> cap - length buf" "n \<le> length rest" by (simp_all add: n_def transferred_bounds)
    then have "length (drop n rest) < length rest" "length (buf @ take n rest) < ?cap"
      using False less.prems by auto
    from less.hyps [OF this, of "Suc i"] step(2) False assms(2) show ?thesis by simp
  qed
qed

lemma read_loop_room:
  assumes "length buf < cap" "read_loop w p i cap buf rest = Read_done buf' cap'"
  shows "length buf' < cap' \<and> length buf' \<le> length buf + length rest"
  using assms
proof (induction "length rest" arbitrary: i cap buf rest rule: less_induct)
  case less
  show ?case
  proof (cases "w_reads w p i")
    case (Inl e)
    then show ?thesis using less.prems(2) by (simp add: read_loop.simps [of w p i])
  next
    case (Inr k)
    define n where "n = transferred k (cap - length buf) (length rest)"
    note step = read_loop_step [OF Inr n_def]
    let ?cap = "if length (buf @ take n rest) = cap then cap * 2 else cap"
    have n: "n \<le> cap - length buf" "n \<le> length rest" by (simp_all add: n_def transferred_bounds)
    show ?thesis
    proof (cases "0 < n \<and> (w_alloc w (cap * 2) \<or> length (buf @ take n rest) \<noteq> cap)")
      case True
      then have "length (drop n rest) < length rest" "length (buf @ take n rest) < ?cap"
        using n less.prems(1) by auto
      from less.hyps [OF this, of "Suc i"] step(2) True less.prems(2) n(2) show ?thesis by simp
    next
      case False
      then show ?thesis using step(1,3) less.prems by auto
    qed
  qed
qed

lemma metafied_ok: "int (length s) \<le> INT_MAX \<Longrightarrow> metafied metafy s = Some (metafy s)"
  using to_int_id [of "int (length s)"] by (simp add: metafied_def Let_def c_limits)

lemma split_from_length: "r \<in> set (split_from d cur s) \<Longrightarrow> length r \<le> length cur + length s"
proof (induction d cur s rule: split_from.induct)
  case (2 d cur c cs)
  show ?case
  proof (cases "c = d")
    case True
    let ?cs = "if d = creturn \<and> cs \<noteq> [] \<and> hd cs = newline then tl cs else cs"
    have "length ?cs \<le> length cs" by simp
    with True 2 show ?thesis by fastforce
  next
    case False
    with 2 show ?thesis by fastforce
  qed
qed (auto split: if_splits)

lemma store_records_calls:
  assumes "\<forall>r \<in> set rs. int (length r) \<le> INT_MAX"
  shows "\<exists>w'. store_records metafy outname idx rs w = Some w' \<and>
    w_pcalls w' = w_pcalls w @ element_calls outname idx (map metafy rs)"
  using assms
proof (induction rs arbitrary: idx w)
  case (Cons r rs)
  then show ?case
    using Cons.IH [of "Suc idx" "setsparam (indexed outname idx) (metafy r) w"]
    by (simp add: metafied_ok)
qed simp

text \<open>The parameter calls that hand over the bytes \<open>data\<close>.\<close>

definition handed_over :: "(string \<Rightarrow> string) \<Rightarrow> string \<Rightarrow> bool \<Rightarrow> int \<Rightarrow> string \<Rightarrow> pcall list" where
  "handed_over metafy outname split delim data =
     Unset_param outname #
     (if split then Set_array outname [] # element_calls outname 1
        (map metafy (split_records (char_of (nat (delim mod 256))) data))
      else [Set_scalar outname (metafy data)])"

lemma finish_read_result:
  assumes "int (length buf) \<le> INT_MAX" "released k use_mmap cap (length buf)"
  shows "\<exists>w'. finish_read metafy outname use_mmap split delim k buf cap w = Some (0, w') \<and>
    w_pcalls w' = w_pcalls w @ handed_over metafy outname split delim buf"
proof (cases split)
  case True
  let ?rs = "split_records (char_of (nat (delim mod 256))) buf"
  have "\<forall>r \<in> set ?rs. int (length r) \<le> INT_MAX"
    using assms(1) split_from_length by (fastforce simp: split_records_def)
  from store_records_calls [OF this, of metafy outname 1 "setaparam outname [] (unsetparam outname w)"]
  show ?thesis using True assms(2) by (auto simp: finish_read_def handed_over_def)
next
  case False
  then show ?thesis using assms by (simp add: finish_read_def handed_over_def metafied_ok)
qed

lemma mapped_exact: "mapped_bytes data (length data) = Some data"
proof -
  have "length data \<le> (length data + 4095) div 4096 * 4096"
    using div_mult_mod_eq [of "length data + 4095" 4096] mod_less_divisor [of 4096 "length data + 4095"]
    by linarith
  then show ?thesis by (simp add: mapped_bytes_def)
qed

lemma readfile_result:
  assumes "mem_ok w" "w_data w (sys_path unmetafy path) = Inr data"
    "w_stat w (sys_path unmetafy path) = Inr st" "\<forall>i. \<not> isl (w_reads w (sys_path unmetafy path) i)"
    "use_mmap \<longrightarrow> st_size st = length data" "int (length data) \<le> INT_MAX"
  shows "\<exists>w'. zp_readfile_core metafy unmetafy nam outname path use_mmap split delim w = Some (0, w') \<and>
    w_pcalls w' = w_pcalls w @ handed_over metafy outname split delim data"
proof -
  let ?u = "sys_path unmetafy path" and ?sz = "st_size st"
  obtain u n where u: "zp_unmetafy_zalloc unmetafy w (Some path) = Some (u, n)" "cstr u = ?u"
    using unmetafy_ok [OF assms(1), of unmetafy path] by (simp add: sys_path_def)
  show ?thesis
  proof (cases "use_mmap \<and> 0 < ?sz \<and> w_mmap_ok w ?u")
    case True
    then have sz: "?sz = length data" using assms(5) by simp
    with True u assms(2,3) have "zp_readfile_core metafy unmetafy nam outname path use_mmap split delim w =
        finish_read metafy outname use_mmap split delim Mapped data ?sz w"
      by (simp add: zp_readfile_core_def mapped_exact)
    then show ?thesis
      using finish_read_result [OF assms(6), of Mapped use_mmap ?sz metafy outname split delim w] True sz
      by (simp add: released_def)
  next
    case False
    obtain cap where r: "read_loop w ?u 0 (first_cap ?sz) [] data = Read_done data cap" "length data < cap"
    proof -
      have "length [] < first_cap ?sz" by (simp add: first_cap_def)
      from read_loop_done [OF this, of w ?u 0 data] assms(1,4) that show thesis by auto
    qed
    have "zp_readfile_core metafy unmetafy nam outname path use_mmap split delim w =
        finish_read metafy outname use_mmap split delim Heap data cap w"
      using False u assms(1,2,3) r(1) by (auto simp: zp_readfile_core_def Let_def)
    then show ?thesis
      using finish_read_result [OF assms(6), of Heap use_mmap cap metafy outname split delim w] r(2)
      by (simp add: released_def)
  qed
qed

section \<open>Lemmas on splitting\<close>

lemma split_from_field:
  "d \<notin> set r \<Longrightarrow> split_from d cur (r @ s) = split_from d (cur @ r) s"
  by (induction r arbitrary: cur) auto

lemma split_step:
  assumes "d \<notin> set r" "\<not> (d = creturn \<and> s \<noteq> [] \<and> hd s = newline)"
  shows "split_records d (r @ d # s) = r # split_records d s"
proof -
  have "split_from d [] (r @ d # s) = split_from d r (d # s)"
    using split_from_field [OF assms(1), of "[]"] by simp
  also have "\<dots> = r # split_from d [] (if d = creturn \<and> s \<noteq> [] \<and> hd s = newline then tl s else s)"
    by simp
  finally show ?thesis unfolding split_records_def if_not_P [OF assms(2)] .
qed

lemma split_terminated:
  assumes "\<forall>r \<in> set rs. d \<notin> set r" "d = creturn \<longrightarrow> (\<forall>r \<in> set rs. r = [] \<or> hd r \<noteq> newline)"
    "d = creturn \<longrightarrow> t = [] \<or> hd t \<noteq> newline"
  shows "split_records d (concat (map (\<lambda>r. r @ [d]) rs) @ t) = rs @ split_records d t"
  using assms(1,2)
proof (induction rs)
  case (Cons r rs)
  let ?s = "concat (map (\<lambda>r. r @ [d]) rs) @ t"
  have "\<not> (d = creturn \<and> ?s \<noteq> [] \<and> hd ?s = newline)"
  proof (cases rs)
    case Nil
    then show ?thesis using assms(3) by simp
  next
    case (Cons q qs)
    then show ?thesis using Cons.prems(2) by (cases q) (auto simp: c_chars)
  qed
  with Cons split_step [of d r ?s] show ?case by simp
qed simp

lemma split_crlf:
  assumes "\<forall>r \<in> set rs. creturn \<notin> set r"
  shows "split_records creturn (concat (map (\<lambda>r. r @ [creturn, newline]) rs)) = rs"
  using assms
  by (induction rs) (simp_all add: split_records_def split_from_field)

lemma split_plain: "d \<notin> set t \<Longrightarrow> split_records d t = (if t = [] then [] else [t])"
  using split_from_field [of d t "[]" "[]"] by (simp add: split_records_def)

text \<open>No byte is lost: the records, each ended by the delimiter, are the input.\<close>

lemma split_from_lossless:
  assumes "d \<noteq> creturn"
  shows "concat (map (\<lambda>r. r @ [d]) (split_from d cur s)) =
    (if cur @ s = [] \<or> (s \<noteq> [] \<and> last s = d) then cur @ s else cur @ s @ [d])"
  using assms by (induction d cur s rule: split_from.induct) auto

section \<open>Lemmas on errors\<close>

lemma finish_read_ok:
  "finish_read metafy outname use_mmap split delim k buf cap w = Some (rc, w') \<Longrightarrow> rc = 0"
  by (auto simp: finish_read_def Let_def split: if_splits option.splits)

text \<open>Every failure is a diagnostic and the code 1, with nothing else changed.\<close>

lemma readfile_failure:
  assumes "zp_readfile_core metafy unmetafy nam outname path use_mmap split delim w = Some (rc, w')"
  shows "rc = 0 \<or> rc = 1 \<and> (\<exists>msg. w' = zwarnnam nam msg w)"
  using assms
  by (auto simp: zp_readfile_core_def Let_def dest: finish_read_ok
      split: option.splits sum.splits if_splits read_result.splits)

text \<open>The three ways the loop can end: with the whole file and room to spare, without memory, or with
  the first read that failed.\<close>

lemma read_loop_outcome:
  assumes "length buf < cap"
  shows "case read_loop w p i cap buf rest of
      Read_done buf' cap' \<Rightarrow> buf' = buf @ rest \<and> length buf' < cap'
    | Read_oom \<Rightarrow> (\<exists>n. \<not> w_alloc w n)
    | Read_failed e \<Rightarrow> (\<exists>i' \<ge> i. w_reads w p i' = Inl e \<and> (\<forall>j. i \<le> j \<and> j < i' \<longrightarrow> \<not> isl (w_reads w p j)))"
  using assms
proof (induction "length rest" arbitrary: i cap buf rest rule: less_induct)
  case less
  show ?case
  proof (cases "w_reads w p i")
    case (Inl e)
    then have "read_loop w p i cap buf rest = Read_failed e" by (simp add: read_loop.simps [of w p i])
    then show ?thesis using Inl by (auto intro: exI [of _ i])
  next
    case (Inr k)
    define n where "n = transferred k (cap - length buf) (length rest)"
    note step = read_loop_step [OF Inr n_def]
    let ?cap = "if length (buf @ take n rest) = cap then cap * 2 else cap"
    have n: "n \<le> cap - length buf" "n \<le> length rest" by (simp_all add: n_def transferred_bounds)
    consider (eof) "n = 0" | (oom) "0 < n" "\<not> w_alloc w (cap * 2)" "length (buf @ take n rest) = cap"
      | (go) "0 < n" "w_alloc w (cap * 2) \<or> length (buf @ take n rest) \<noteq> cap" by blast
    then show ?thesis
    proof cases
      case eof
      then have "rest = []" using transferred_bounds(3) [of k "cap - length buf" "length rest"] less.prems
        by (simp add: n_def)
      then show ?thesis using step(1) eof less.prems by simp
    next
      case oom
      then show ?thesis using step(3) by auto
    next
      case go
      then have "length (drop n rest) < length rest" "length (buf @ take n rest) < ?cap"
        using n less.prems by auto
      note ih = less.hyps [OF this, of "Suc i"]
      define r where "r = read_loop w p (Suc i) ?cap (buf @ take n rest) (drop n rest)"
      have r: "read_loop w p i cap buf rest = r" using step(2) [OF go] by (simp only: r_def)
      have app: "(buf @ take n rest) @ drop n rest = buf @ rest" by simp
      show ?thesis
      proof (cases r)
        case (Read_failed e)
        with ih obtain i' where i': "Suc i \<le> i'" "w_reads w p i' = Inl e"
          "\<forall>j. Suc i \<le> j \<and> j < i' \<longrightarrow> \<not> isl (w_reads w p j)"
          unfolding r_def [symmetric] by auto
        have "\<forall>j. i \<le> j \<and> j < i' \<longrightarrow> \<not> isl (w_reads w p j)"
          using i'(3) Inr by (metis isl_def le_antisym not_less_eq_eq old.sum.distinct(2))
        then show ?thesis unfolding r Read_failed read_result.case
          using i'(1,2) by (intro exI [of _ i']) auto
      next
        case (Read_done buf' cap')
        show ?thesis
          using ih [folded r_def] unfolding r Read_done read_result.case app .
      next
        case Read_oom
        with ih show ?thesis unfolding r r_def [symmetric] by simp
      qed
    qed
  qed
qed

text \<open>How much at most the reads before the \<open>i\<close>-th transfer.\<close>

definition read_before :: "'w world_scheme \<Rightarrow> string \<Rightarrow> nat \<Rightarrow> nat \<Rightarrow> nat" where
  "read_before w p i n = (\<Sum>j\<leftarrow>[i..<i + n]. case w_reads w p j of Inr k \<Rightarrow> max 1 k | Inl _ \<Rightarrow> 0)"

lemma read_before_Suc:
  "w_reads w p i = Inr k \<Longrightarrow> read_before w p i (Suc n) = max 1 k + read_before w p (Suc i) n"
proof -
  have "[i..<i + Suc n] = i # [Suc i..<Suc i + n]" by (simp add: upt_conv_Cons)
  then show "w_reads w p i = Inr k \<Longrightarrow> ?thesis" by (simp add: read_before_def del: upt_Suc)
qed

lemma read_loop_fails:
  assumes "length buf < cap" "\<And>n. w_alloc w n" "\<forall>j<n. \<not> isl (w_reads w p (i + j))"
    "w_reads w p (i + n) = Inl e" "read_before w p i n \<le> length rest"
  shows "read_loop w p i cap buf rest = Read_failed e"
  using assms(1,3-5)
proof (induction n arbitrary: i cap buf rest)
  case 0
  then show ?case by (simp add: read_loop.simps [of w p i])
next
  case (Suc n)
  obtain k where k: "w_reads w p i = Inr k"
    using Suc.prems(2) by (metis add_0_right sum.collapse(2) zero_less_Suc)
  define m where "m = transferred k (cap - length buf) (length rest)"
  have b: "max 1 k + read_before w p (Suc i) n \<le> length rest"
    using Suc.prems(4) read_before_Suc [OF k] by simp
  then have m: "0 < m" "m \<le> max 1 k" "m \<le> cap - length buf" "m \<le> length rest"
    using Suc.prems(1) by (auto simp: m_def transferred_def)
  let ?cap = "if length (buf @ take m rest) = cap then cap * 2 else cap"
  have "read_loop w p (Suc i) ?cap (buf @ take m rest) (drop m rest) = Read_failed e"
  proof (rule Suc.IH)
    show "length (buf @ take m rest) < ?cap" using m Suc.prems(1) by auto
    show "\<forall>j<n. \<not> isl (w_reads w p (Suc i + j))" using Suc.prems(2) by auto
    show "w_reads w p (Suc i + n) = Inl e" using Suc.prems(3) by simp
    show "read_before w p (Suc i) n \<le> length (drop m rest)" using b m(2) by simp
  qed
  then show ?case using read_loop_step(2) [OF k m_def m(1)] assms(2) by simp
qed

text \<open>The end of a run that opened and examined the file and did not map it.\<close>

lemma readfile_unmapped:
  assumes "zp_unmetafy_zalloc unmetafy w (Some path) = Some (u, n)" "w_data w (cstr u) = Inr data"
    "w_stat w (cstr u) = Inr st" "\<not> (use_mmap \<and> 0 < st_size st \<and> w_mmap_ok w (cstr u))"
    "w_alloc w (first_cap (st_size st))"
  shows "zp_readfile_core metafy unmetafy nam outname path use_mmap split delim w =
    (case read_loop w (cstr u) 0 (first_cap (st_size st)) [] data of
       Read_failed e \<Rightarrow> Some (1, zwarnnam nam (path @ '': '' @ w_strerror w e) w)
     | Read_oom \<Rightarrow> Some (1, zwarnnam nam (''oom: '' @ w_strerror w ENOMEM) w)
     | Read_done buf cap \<Rightarrow> finish_read metafy outname use_mmap split delim Heap buf cap w)"
  using assms by (auto simp: zp_readfile_core_def Let_def)

lemma readfile_first_refused:
  assumes "zp_unmetafy_zalloc unmetafy w (Some path) = Some (u, n)" "w_data w (cstr u) = Inr data"
    "w_stat w (cstr u) = Inr st" "\<not> (use_mmap \<and> 0 < st_size st \<and> w_mmap_ok w (cstr u))"
    "\<not> w_alloc w (first_cap (st_size st))"
  shows "zp_readfile_core metafy unmetafy nam outname path use_mmap split delim w =
    Some (1, zwarnnam nam (''oom: '' @ w_strerror w ENOMEM) w)"
  using assms by (auto simp: zp_readfile_core_def Let_def)

lemma readfile_read_error:
  assumes "zp_unmetafy_zalloc unmetafy w (Some path) = Some (u, n)" "w_data w (cstr u) = Inr data"
    "w_stat w (cstr u) = Inr st" "\<not> (use_mmap \<and> 0 < st_size st \<and> w_mmap_ok w (cstr u))"
    "mem_ok w" "\<forall>j<i. \<not> isl (w_reads w (cstr u) j)" "w_reads w (cstr u) i = Inl e"
    "read_before w (cstr u) 0 i \<le> length data"
  shows "zp_readfile_core metafy unmetafy nam outname path use_mmap split delim w =
    Some (1, zwarnnam nam (path @ '': '' @ w_strerror w e) w)"
proof -
  have "read_loop w (cstr u) 0 (first_cap (st_size st)) [] data = Read_failed e"
    using assms(5-8) by (intro read_loop_fails [where n = i]) (simp_all add: first_cap_def mem_okD)
  then show ?thesis using readfile_unmapped [OF assms(1-4)] mem_okD [OF assms(5)] by simp
qed

lemma readfile_unmapped_ends:
  assumes "zp_unmetafy_zalloc unmetafy w (Some path) = Some (u, n)" "w_data w (cstr u) = Inr data"
    "w_stat w (cstr u) = Inr st" "\<not> (use_mmap \<and> 0 < st_size st \<and> w_mmap_ok w (cstr u))"
    "int (length data) \<le> INT_MAX"
  shows "(\<exists>w'. zp_readfile_core metafy unmetafy nam outname path use_mmap split delim w = Some (0, w') \<and>
           w_pcalls w' = w_pcalls w @ handed_over metafy outname split delim data) \<or>
     (\<exists>m. \<not> w_alloc w m) \<and>
       zp_readfile_core metafy unmetafy nam outname path use_mmap split delim w =
         Some (1, zwarnnam nam (''oom: '' @ w_strerror w ENOMEM) w) \<or>
     (\<exists>i e. w_reads w (cstr u) i = Inl e \<and> (\<forall>j<i. \<not> isl (w_reads w (cstr u) j)) \<and>
       zp_readfile_core metafy unmetafy nam outname path use_mmap split delim w =
         Some (1, zwarnnam nam (path @ '': '' @ w_strerror w e) w))"
proof (cases "w_alloc w (first_cap (st_size st))")
  case False
  then show ?thesis using assms(1-4) by (auto simp: zp_readfile_core_def Let_def)
next
  case True
  let ?r = "read_loop w (cstr u) 0 (first_cap (st_size st)) [] data"
  note core = readfile_unmapped [OF assms(1-4) True, of metafy nam outname split delim]
  have "length [] < first_cap (st_size st)" by (simp add: first_cap_def)
  note ends = read_loop_outcome [OF this, where w = w and p = "cstr u" and i = 0 and rest = data]
  show ?thesis
  proof (cases ?r)
    case (Read_done buf cap)
    with ends have "buf = data" "length data < cap" by auto
    then show ?thesis
      using finish_read_result [OF assms(5), of Heap use_mmap cap metafy outname split delim w]
      by (simp add: core Read_done released_def)
  qed (use ends in \<open>auto simp: core\<close>)
qed

section \<open>Properties\<close>

text \<open>
  C21: read-file hands over exactly the bytes of the file, whether it maps the file or reads it, and
  however many bytes each read transfers: as one scalar, or as one array element per record.  The
  buffer is always released with the call that matches its kind, since the read loop never leaves a
  heap buffer exactly full.
\<close>

theorem readfile_whole_file:
  assumes "mem_ok w" "w_data w (sys_path unmetafy path) = Inr data"
    "w_stat w (sys_path unmetafy path) = Inr st" "\<forall>i. \<not> isl (w_reads w (sys_path unmetafy path) i)"
    "use_mmap \<longrightarrow> st_size st = length data" "int (length data) \<le> INT_MAX"
  shows "\<exists>w'. zp_readfile_core metafy unmetafy nam outname path use_mmap split delim w = Some (0, w') \<and>
    w_pcalls w' = w_pcalls w @ Unset_param outname #
      (if split then Set_array outname [] # element_calls outname 1
         (map metafy (split_records (char_of (nat (delim mod 256))) data))
       else [Set_scalar outname (metafy data)])"
  using readfile_result [OF assms, of metafy nam outname split delim] by (simp add: handed_over_def)

definition world_text :: world where
  "world_text = world0\<lparr>w_data := (\<lambda>_. Inr ''a:bc''), w_reads := (\<lambda>_ i. Inr (i mod 3)),
     w_stat := (\<lambda>_. Inr ((w_fresh world0 [])\<lparr>st_mode := S_IFREG, st_size := 2\<rparr>))\<rparr>"

theorem readfile_whole_file_witness:
  "\<exists>w'. zp_readfile_core id id ''r'' ''out'' ''f'' False True 58 world_text = Some (0, w') \<and>
     w_pcalls w' = [Unset_param ''out'', Set_array ''out'' [], Set_scalar ''out[1]'' ''a'',
       Set_scalar ''out[2]'' ''bc'']"
proof -
  have i: "indexed ''out'' 1 = ''out[1]''" "indexed ''out'' (Suc 1) = ''out[2]''"
    and s: "split_records (char_of (58::nat)) ''a:bc'' = [''a'', ''bc'']" by code_simp+
  have w: "mem_ok world_text" "w_data world_text p = Inr ''a:bc''" "\<forall>i. \<not> isl (w_reads world_text p i)"
    "w_stat world_text p = Inr ((w_fresh world0 [])\<lparr>st_mode := S_IFREG, st_size := 2\<rparr>)"
    "w_pcalls world_text = []" for p
    by (simp_all add: world_text_def mem_ok_def world0_def)
  show ?thesis
    using readfile_whole_file [where metafy = id and nam = "''r''" and outname = "''out''" and
      unmetafy = id and path = "''f''" and use_mmap = False and split = True and delim = 58,
      OF w(1,2,4,3)] i
    by (simp add: s w c_limits)
qed

text \<open>
  Splitting inverts joining: records without the delimiter, each ended by it (and the last
  possibly not), come back as they were, also with carriage return and line feed as the end of
  line.  Nothing is lost: ending each record with the delimiter gives the input back, up to a missing last
  delimiter.
\<close>

theorem split_records_roundtrip:
  "((\<forall>r \<in> set rs. d \<notin> set r) \<and> d \<notin> set t \<and>
      (d = creturn \<longrightarrow> (\<forall>r \<in> set (t # rs). r = [] \<or> hd r \<noteq> newline)) \<longrightarrow>
    split_records d (concat (map (\<lambda>r. r @ [d]) rs) @ t) = rs @ (if t = [] then [] else [t])) \<and>
   ((\<forall>r \<in> set rs. creturn \<notin> set r) \<longrightarrow>
    split_records creturn (concat (map (\<lambda>r. r @ [creturn, newline]) rs)) = rs) \<and>
   (d \<noteq> creturn \<longrightarrow>
    concat (map (\<lambda>r. r @ [d]) (split_records d s)) = (if s = [] \<or> last s = d then s else s @ [d]))"
proof (intro conjI impI)
  assume a: "(\<forall>r \<in> set rs. d \<notin> set r) \<and> d \<notin> set t \<and>
      (d = creturn \<longrightarrow> (\<forall>r \<in> set (t # rs). r = [] \<or> hd r \<noteq> newline))"
  then show "split_records d (concat (map (\<lambda>r. r @ [d]) rs) @ t) = rs @ (if t = [] then [] else [t])"
    using split_terminated [of rs d t] split_plain [of d t] by simp
next
  assume "d \<noteq> creturn"
  then show "concat (map (\<lambda>r. r @ [d]) (split_records d s)) = (if s = [] \<or> last s = d then s else s @ [d])"
    using split_from_lossless [of d "[]" s] by (auto simp: split_records_def)
qed (rule split_crlf)

theorem split_records_roundtrip_witness:
  "split_records newline (concat (map (\<lambda>r. r @ [newline]) [''a'', ''b'']) @ ''c'') = [''a'', ''b'', ''c''] \<and>
   split_records creturn (concat (map (\<lambda>r. r @ [creturn, newline]) [''a'', ''b''])) = [''a'', ''b'']"
  using split_records_roundtrip [of "[''a'', ''b'']" newline "''c''" "[]"]
  by (simp add: c_chars)

text \<open>
  C34: read-file answers 0, or 1 with exactly one diagnostic and every parameter as it was.  Each step
  that fails is reported: a path that cannot be copied as \<open>oom\<close>, a file that cannot be opened or
  examined with the path and its \<open>errno\<close>, a buffer that is refused with the text of ENOMEM.  When the
  file is not mapped, exactly three ends are possible: the whole file is handed over; memory
  was refused; or a read failed and the \<open>errno\<close> of the first failing one is reported.  So a read error
  never passes as a shorter file, and it is reported with certainty when there is memory and the
  reads before it do not reach the end of the file.
\<close>

theorem readfile_errors:
  "let run = zp_readfile_core metafy unmetafy nam outname path use_mmap split delim w;
       fails = (\<lambda>msg. Some (1, zwarnnam nam msg w))
   in (\<forall>rc w'. run = Some (rc, w') \<longrightarrow>
         rc = 0 \<or> rc = 1 \<and> w_pcalls w' = w_pcalls w \<and> (\<exists>msg. w' = zwarnnam nam msg w)) \<and>
      (case zp_unmetafy_zalloc unmetafy w (Some path) of
         None \<Rightarrow> run = fails ''oom''
       | Some (u, _) \<Rightarrow>
          (case (w_data w (cstr u), w_stat w (cstr u)) of
             (Inl e, _) \<Rightarrow> run = fails (path @ '': '' @ w_strerror w e)
           | (Inr data, Inl e) \<Rightarrow> run = fails (path @ '': '' @ w_strerror w e)
           | (Inr data, Inr st) \<Rightarrow>
              \<not> (use_mmap \<and> 0 < st_size st \<and> w_mmap_ok w (cstr u)) \<longrightarrow>
              (\<not> w_alloc w (first_cap (st_size st)) \<longrightarrow> run = fails (''oom: '' @ w_strerror w ENOMEM)) \<and>
              (\<forall>i e. mem_ok w \<and> (\<forall>j<i. \<not> isl (w_reads w (cstr u) j)) \<and> w_reads w (cstr u) i = Inl e \<and>
                 read_before w (cstr u) 0 i \<le> length data \<longrightarrow>
                 run = fails (path @ '': '' @ w_strerror w e)) \<and>
              (int (length data) \<le> INT_MAX \<longrightarrow>
                 (\<exists>w'. run = Some (0, w') \<and>
                    w_pcalls w' = w_pcalls w @ handed_over metafy outname split delim data) \<or>
                 (\<exists>m. \<not> w_alloc w m) \<and> run = fails (''oom: '' @ w_strerror w ENOMEM) \<or>
                 (\<exists>i e. w_reads w (cstr u) i = Inl e \<and> (\<forall>j<i. \<not> isl (w_reads w (cstr u) j)) \<and>
                    run = fails (path @ '': '' @ w_strerror w e)))))"
proof -
  let ?run = "zp_readfile_core metafy unmetafy nam outname path use_mmap split delim w"
  let ?ends = "\<lambda>u data st. \<not> (use_mmap \<and> 0 < st_size st \<and> w_mmap_ok w (cstr u)) \<longrightarrow>
    (\<not> w_alloc w (first_cap (st_size st)) \<longrightarrow> ?run = Some (1, zwarnnam nam (''oom: '' @ w_strerror w ENOMEM) w)) \<and>
    (\<forall>i e. mem_ok w \<and> (\<forall>j<i. \<not> isl (w_reads w (cstr u) j)) \<and> w_reads w (cstr u) i = Inl e \<and>
       read_before w (cstr u) 0 i \<le> length data \<longrightarrow>
       ?run = Some (1, zwarnnam nam (path @ '': '' @ w_strerror w e) w)) \<and>
    (int (length data) \<le> INT_MAX \<longrightarrow>
       (\<exists>w'. ?run = Some (0, w') \<and>
          w_pcalls w' = w_pcalls w @ handed_over metafy outname split delim data) \<or>
       (\<exists>m. \<not> w_alloc w m) \<and> ?run = Some (1, zwarnnam nam (''oom: '' @ w_strerror w ENOMEM) w) \<or>
       (\<exists>i e. w_reads w (cstr u) i = Inl e \<and> (\<forall>j<i. \<not> isl (w_reads w (cstr u) j)) \<and>
          ?run = Some (1, zwarnnam nam (path @ '': '' @ w_strerror w e) w)))"
  have "rc = 0 \<or> rc = 1 \<and> w_pcalls w' = w_pcalls w \<and> (\<exists>msg. w' = zwarnnam nam msg w)"
    if "?run = Some (rc, w')" for rc w'
    using readfile_failure [OF that] by auto
  moreover have "case zp_unmetafy_zalloc unmetafy w (Some path) of
       None \<Rightarrow> ?run = Some (1, zwarnnam nam ''oom'' w)
     | Some (u, _) \<Rightarrow>
        (case (w_data w (cstr u), w_stat w (cstr u)) of
             (Inl e, _) \<Rightarrow> ?run = Some (1, zwarnnam nam (path @ '': '' @ w_strerror w e) w)
           | (Inr data, Inl e) \<Rightarrow> ?run = Some (1, zwarnnam nam (path @ '': '' @ w_strerror w e) w)
           | (Inr data, Inr st) \<Rightarrow> ?ends u data st)"
  proof (cases "zp_unmetafy_zalloc unmetafy w (Some path)")
    case (Some un)
    obtain u n where u: "zp_unmetafy_zalloc unmetafy w (Some path) = Some (u, n)"
      using Some by (cases un) simp
    show ?thesis
    proof (cases "\<exists>data st. w_data w (cstr u) = Inr data \<and> w_stat w (cstr u) = Inr st")
      case True
      then obtain data st where d: "w_data w (cstr u) = Inr data" "w_stat w (cstr u) = Inr st" by blast
      have "?ends u data st"
        using readfile_first_refused [OF u d] readfile_read_error [OF u d] readfile_unmapped_ends [OF u d]
        by (intro impI conjI allI) (blast | simp)+
      then show ?thesis unfolding u option.case prod.case d sum.case .
    qed (auto simp: u zp_readfile_core_def split: sum.split)
  qed (simp add: zp_readfile_core_def)
  ultimately show ?thesis unfolding Let_def by (intro conjI allI impI)
qed

text \<open>The second read of a file of six bytes fails.\<close>

definition world_broken :: world where
  "world_broken = world0\<lparr>w_data := (\<lambda>_. Inr ''abcdef''), w_strerror := (\<lambda>e. if e = 5 then ''I/O error'' else ''error''),
     w_reads := (\<lambda>_ i. if i = 0 then Inr 3 else Inl 5),
     w_stat := (\<lambda>_. Inr ((w_fresh world0 [])\<lparr>st_mode := S_IFREG, st_size := 6\<rparr>))\<rparr>"

theorem readfile_errors_witness:
  "zp_readfile_core id id ''r'' ''out'' ''f'' False False 10 world_broken =
     Some (1, zwarnnam ''r'' ''f: I/O error'' world_broken)"
proof -
  have m: "mem_ok world_broken" by (simp add: world_broken_def mem_ok_def world0_def)
  have z: "zp_unmetafy_zalloc id world_broken (Some ''f'') = Some (''f'', 1)" "cstr ''f'' = ''f''"
    using unmetafy_ok [OF m, of id "''f''"] by (simp_all add: cstr_id c_chars)
  have w: "w_data world_broken p = Inr ''abcdef''" "w_strerror world_broken 5 = ''I/O error''"
    "w_stat world_broken p = Inr ((w_fresh world0 [])\<lparr>st_mode := S_IFREG, st_size := 6\<rparr>)"
    "w_reads world_broken p 0 = Inr 3" "w_reads world_broken p 1 = Inl 5" for p
    by (simp_all add: world_broken_def)
  have r: "read_before world_broken ''f'' 0 1 \<le> length ''abcdef''" by (simp add: read_before_def w)
  have g: "\<forall>j<1. \<not> isl (w_reads world_broken ''f'' j)" by (simp add: w)
  have "\<forall>i e. mem_ok world_broken \<and> (\<forall>j<i. \<not> isl (w_reads world_broken ''f'' j)) \<and>
      w_reads world_broken ''f'' i = Inl e \<and> read_before world_broken ''f'' 0 i \<le> length ''abcdef'' \<longrightarrow>
      zp_readfile_core id id ''r'' ''out'' ''f'' False False 10 world_broken =
        Some (1, zwarnnam ''r'' (''f'' @ '': '' @ w_strerror world_broken e) world_broken)"
    using readfile_errors [where metafy = id and unmetafy = id and nam = "''r''" and outname = "''out''"
      and path = "''f''" and use_mmap = False and split = False and delim = 10 and w = world_broken]
    unfolding Let_def z option.case prod.case sum.case w(1,3) by blast
  from this [rule_format, of 1 5] m g r show ?thesis by (simp only: w) simp
qed

end
