(* ===== verification/Zp_Emoji.thy ===== *)
theory Zp_Emoji
  imports Zp_World
begin

text \<open>
  \<open>src/core/emoji.c\<close>: whether icons are printed, decided once from the parameter
  \<open>ZPMOD_ICONS\<close>, the terminal and the character set of the locale, and cached in a static
  variable (\<open>w_icons_cached\<close>, -1 until the first call).
\<close>

text \<open>The decision that the first call makes.\<close>

definition icons_decision :: "'a world_scheme \<Rightarrow> int" where
  "icons_decision w =
     (let env = w_sparam w ''ZPMOD_ICONS'';
          from_locale =
            (if \<not> w_isatty w then 0
             else case w_codeset w of
                    None \<Rightarrow> 0
                  | Some cs \<Rightarrow>
                      if strstr cs ''UTF-8'' \<or> strstr cs ''utf8'' \<or> strstr cs ''UTF8'' then 1 else 0)
      in case env of
           None \<Rightarrow> from_locale
         | Some e \<Rightarrow>
             if e = ''0'' \<or> e = ''false'' \<or> e = ''off'' then 0
             else if e = ''1'' \<or> e = ''true'' \<or> e = ''on'' then 1
             else from_locale)"

definition zp_icons_enabled :: "'a world_scheme \<Rightarrow> int \<times> 'a world_scheme" where
  "zp_icons_enabled w =
     (if w_icons_cached w \<noteq> -1 then (w_icons_cached w, w)
      else (icons_decision w, w\<lparr>w_icons_cached := icons_decision w\<rparr>))"

definition zp_icon :: "string \<Rightarrow> 'a world_scheme \<Rightarrow> string \<times> 'a world_scheme" where
  "zp_icon s w = (let (on, w') = zp_icons_enabled w in (if on \<noteq> 0 then s else [], w'))"

text \<open>The icons of the messages, as UTF-8 bytes.\<close>

definition icon_cross :: string where "icon_cross = [CHR 0xE2, CHR 0x9D, CHR 0x8C, CHR '' '']"
definition icon_cycle :: string where
  "icon_cycle = [CHR 0xF0, CHR 0x9F, CHR 0x94, CHR 0x84, CHR '' '']"
definition icon_lock :: string where
  "icon_lock = [CHR 0xF0, CHR 0x9F, CHR 0x94, CHR 0x90, CHR '' '']"
definition icon_timer :: string where
  "icon_timer = [CHR 0xE2, CHR 0x8F, CHR 0xB1, CHR 0xEF, CHR 0xB8, CHR 0x8F, CHR '' '']"

text \<open>A diagnostic that starts with an icon.\<close>

definition warn_icon :: "string \<Rightarrow> string \<Rightarrow> string \<Rightarrow> 'a world_scheme \<Rightarrow> 'a world_scheme" where
  "warn_icon nam icon msg w = (let (ic, w') = zp_icon icon w in zwarnnam nam (ic @ msg) w')"

definition emit_icon :: "string \<Rightarrow> string \<Rightarrow> 'a world_scheme \<Rightarrow> 'a world_scheme" where
  "emit_icon icon msg w = (let (ic, w') = zp_icon icon w in emit (ic @ msg) w')"

text \<open>What the icon of a message is: a function of the world it is asked in.\<close>

definition icon_text :: "string \<Rightarrow> 'a world_scheme \<Rightarrow> string" where
  "icon_text s w = fst (zp_icon s w)"

lemma icons_decision_01: "icons_decision w \<in> {0, 1}"
  by (auto simp: icons_decision_def Let_def split: option.splits)

lemma zp_icon_state:
  "snd (zp_icon s w) = w\<lparr>w_icons_cached := fst (zp_icons_enabled w)\<rparr>"
  by (simp add: zp_icon_def zp_icons_enabled_def Let_def)

lemma same_except_icon: "same_except p w (snd (zp_icon s w))"
  by (simp add: zp_icon_state same_except_def)

lemma same_except_warn_icon [simp]: "same_except p w (warn_icon n i m w)"
proof -
  have "warn_icon n i m w = zwarnnam n (fst (zp_icon i w) @ m) (snd (zp_icon i w))"
    by (simp add: warn_icon_def split_beta)
  then show ?thesis using same_except_icon same_except_trans by (metis same_except_zwarnnam)
qed

lemma warn_icon_out [simp]: "w_out (warn_icon nam ic m w) = w_out w"
  by (simp add: warn_icon_def zwarnnam_def zp_icon_state split_beta)

lemma times_icon [simp]: "times_fit (snd (zp_icon i w)) = times_fit w"
  by (simp add: zp_icon_state times_fit_def)

lemma times_warn_icon [simp]: "times_fit (warn_icon n i m w) = times_fit w"
  by (simp add: warn_icon_def split_beta)

lemma emit_icon_eq: "emit_icon i m w = emit (icon_text i w @ m) (snd (zp_icon i w))"
  by (simp add: emit_icon_def icon_text_def split_beta)

lemma same_except_emit_icon [simp]: "same_except p w (emit_icon i m w)"
  unfolding emit_icon_eq using same_except_icon same_except_trans by (metis same_except_emit)

lemma out_warn_icon [simp]: "w_out (warn_icon n i m w) = w_out w"
  by (simp add: warn_icon_def zwarnnam_def split_beta zp_icon_state)

lemma out_emit_icon [simp]: "w_out (emit_icon i m w) = w_out w @ icon_text i w @ m"
  by (simp add: emit_icon_eq zp_icon_state)

text \<open>
  The icon decision is made once: the first call answers from the parameter, which overrides
  terminal and locale in both directions, and every later call answers the same whatever the
  parameter, the terminal and the locale have become; it changes nothing but the cache.
\<close>

theorem zp_icons_decided_once:
  assumes "w_icons_cached w = -1" "zp_icons_enabled w = (r, w1)"
    "w_icons_cached w2 = w_icons_cached w1"
  shows "r \<in> {0, 1} \<and> zp_icons_enabled w2 = (r, w2) \<and> w1 = w\<lparr>w_icons_cached := r\<rparr> \<and>
    (w_sparam w ''ZPMOD_ICONS'' = Some ''off'' \<longrightarrow> r = 0) \<and>
    (w_sparam w ''ZPMOD_ICONS'' = Some ''on'' \<longrightarrow> r = 1) \<and>
    (w_sparam w ''ZPMOD_ICONS'' = None \<and> \<not> w_isatty w \<longrightarrow> r = 0)"
proof -
  have r: "r = icons_decision w" "w1 = w\<lparr>w_icons_cached := r\<rparr>"
    using assms(1,2) by (auto simp: zp_icons_enabled_def)
  then have "r \<in> {0, 1}" using icons_decision_01 by blast
  moreover from this have "w_icons_cached w1 = r" "r \<noteq> -1" using r(2) by auto
  moreover have "zp_icons_enabled w2 = (r, w2)"
    using assms(3) calculation by (simp add: zp_icons_enabled_def)
  ultimately show ?thesis
    using r by (auto simp: icons_decision_def)
qed

theorem zp_icons_decided_once_witness:
  "\<exists>w1. zp_icons_enabled world0 = (0, w1) \<and> zp_icons_enabled (w1\<lparr>w_isatty := True\<rparr>) =
     (0, w1\<lparr>w_isatty := True\<rparr>)"
proof -
  obtain r w1 where e: "zp_icons_enabled world0 = (r, w1)" by fastforce
  have c: "w_icons_cached world0 = -1" "w_sparam world0 ''ZPMOD_ICONS'' = None" "\<not> w_isatty world0"
    by (simp_all add: world0_def)
  have "w_icons_cached (w1\<lparr>w_isatty := True\<rparr>) = w_icons_cached w1" by simp
  from zp_icons_decided_once [OF c(1) e this] c(2,3) e show ?thesis by auto
qed

end
