(* ===== verification/Zp_Readarray.thy ===== *)
theory Zp_Readarray
  imports Zp_Utils Zp_Emoji
begin

text \<open>
  \<open>src/builtins/zpreadarray.c\<close>: records read from a descriptor become the elements of an array.
  A record that ends with a line feed is read with \<open>getline\<close>, any other one character by
  character into a buffer that doubles.  \<open>descr\<close> is what a descriptor yields up to its end, and
  \<open>have_getline\<close> is the configuration \<open>HAVE_GETLINE\<close>.  \<^const>\<open>None\<close> is a fault: a remainder
  by zero or an index beyond the range of int.
\<close>

section \<open>Options\<close>

text \<open>zsh's \<open>OPT_ISSET\<close> and \<open>OPT_ARG\<close>: an option is absent, or present with or without an
  argument.\<close>

type_synonym options = "char \<Rightarrow> string option option"

definition opt_isset :: "options \<Rightarrow> char \<Rightarrow> bool" where
  "opt_isset ops c \<longleftrightarrow> ops c \<noteq> None"

definition opt_arg :: "options \<Rightarrow> char \<Rightarrow> string option" where
  "opt_arg ops c = (case ops c of Some a \<Rightarrow> a | None \<Rightarrow> None)"

text \<open>\<open>atoi\<close>\<close>

definition atoi :: "string \<Rightarrow> int" where
  "atoi s = to_int (fst (strtol 10 s))"

text \<open>A \<open>char\<close> is signed on the target.\<close>

definition schar :: "char \<Rightarrow> int" where
  "schar c = (let n = int (of_char c) in if n < 128 then n else n - 256)"

record ra_opts =
  ra_delim :: int
  ra_to_copy :: int
  ra_start_at :: int
  ra_skip_first :: int
  ra_remdel :: bool
  ra_quantum :: int
  ra_callback :: "string option"

definition number_opt :: "options \<Rightarrow> char \<Rightarrow> int \<Rightarrow> int" where
  "number_opt ops c d =
     (if opt_isset ops c then (case opt_arg ops c of Some s \<Rightarrow> atoi s | None \<Rightarrow> d) else d)"

definition ra_options :: "options \<Rightarrow> string option \<Rightarrow> ra_opts" where
  "ra_options ops callback =
     \<lparr>ra_delim = (if opt_isset ops CHR ''d''
                  then (case opt_arg ops CHR ''d'' of
                          Some s \<Rightarrow> (case s of [] \<Rightarrow> 0 | c # _ \<Rightarrow> schar c) | None \<Rightarrow> 10) else 10),
      ra_to_copy = number_opt ops CHR ''n'' 0, ra_start_at = number_opt ops CHR ''O'' 1,
      ra_skip_first = number_opt ops CHR ''s'' 0, ra_remdel = opt_isset ops CHR ''t'',
      ra_quantum = number_opt ops CHR ''c'' 5000, ra_callback = callback\<rparr>"

section \<open>Storing\<close>

definition indexed_at :: "string \<Rightarrow> int \<Rightarrow> string" where
  "indexed_at name index = take 255 (name @ ''['' @ render_int index @ '']'')"

text \<open>One record at an index: \<open>setsparam\<close> is handed the reader's own buffer, which the next record
  overwrites and which is freed in the end.  The callback runs after every \<open>quantum\<close> records.\<close>

definition store_record :: "ra_opts \<Rightarrow> string \<Rightarrow> int \<Rightarrow> string \<Rightarrow> 'w world_scheme \<Rightarrow> 'w world_scheme option" where
  "store_record o1 name index line w =
     (let w1 = pcall_do (Lend_scalar (indexed_at name index) (cstr line)) w
      in case ra_callback o1 of
           None \<Rightarrow> Some w1
         | Some cb \<Rightarrow>
             if ra_quantum o1 = 0 then None
             else if ra_quantum o1 dvd (index - ra_start_at o1 + 1) then Some (execstring cb w1)
             else Some w1)"

definition enough :: "ra_opts \<Rightarrow> int \<Rightarrow> bool" where
  "enough o1 index \<longleftrightarrow> 0 < ra_to_copy o1 \<and> ra_to_copy o1 \<le> index - ra_start_at o1"

section \<open>Reading lines\<close>

text \<open>The lines of \<open>getline\<close>, each with its line feed; the last may lack it.\<close>

fun getlines :: "string \<Rightarrow> string \<Rightarrow> string list" where
  "getlines cur [] = (if cur = [] then [] else [cur])"
| "getlines cur (c # s) =
     (if c = newline then (cur @ [c]) # getlines [] s else getlines (cur @ [c]) s)"

definition strip_end :: "ra_opts \<Rightarrow> string \<Rightarrow> string" where
  "strip_end o1 line =
     (if ra_remdel o1 \<and> line \<noteq> [] \<and> last line = newline then butlast line else line)"

fun line_loop ::
    "ra_opts \<Rightarrow> string \<Rightarrow> int \<Rightarrow> int \<Rightarrow> string list \<Rightarrow> 'w world_scheme \<Rightarrow> 'w world_scheme option" where
  "line_loop o1 name skip index [] w = Some w"
| "line_loop o1 name skip index (line # lines) w =
     (if 0 < skip then line_loop o1 name (skip - 1) index lines w
      else if enough o1 index then Some w
      else case store_record o1 name index (strip_end o1 line) w of
             None \<Rightarrow> None
           | Some w' \<Rightarrow>
               if index = INT_MAX then None else line_loop o1 name skip (index + 1) lines w')"

section \<open>Reading to a delimiter\<close>

text \<open>\<open>buf\<close> holds the \<open>sz\<close> bytes of the current record, \<open>cap\<close> is the size of its block.  The
  loop that runs out of memory leaves with a diagnostic only.\<close>

fun delim_loop ::
    "ra_opts \<Rightarrow> string \<Rightarrow> string \<Rightarrow> int \<Rightarrow> int \<Rightarrow> string \<Rightarrow> nat \<Rightarrow> string \<Rightarrow> 'w world_scheme \<Rightarrow>
     'w world_scheme option" where
  "delim_loop o1 nam name skip index buf cap [] w =
     Some (if buf \<noteq> [] \<and> (ra_to_copy o1 = 0 \<or> index - ra_start_at o1 < ra_to_copy o1)
           then pcall_do (Lend_scalar (indexed_at name index) (cstr buf)) w else w)"
| "delim_loop o1 nam name skip index buf cap (c # s) w =
     (let is_delim = (int (of_char c) = ra_delim o1)
      in if 0 < skip \<and> is_delim then delim_loop o1 nam name (skip - 1) index [] cap s w
         else
           let grow = (cap \<le> length buf + 1); ncap = (if grow then cap * 2 else cap)
           in if grow \<and> \<not> w_alloc w ncap then Some (zwarnnam nam ''157: Out of memory'' w)
              else if is_delim then
                if enough o1 index then Some w
                else (case store_record o1 name index (if ra_remdel o1 then buf else buf @ [c]) w of
                        None \<Rightarrow> None
                      | Some w' \<Rightarrow>
                          if index = INT_MAX then None
                          else delim_loop o1 nam name skip (index + 1) [] ncap s w')
              else delim_loop o1 nam name skip index (buf @ [c]) ncap s w)"

definition read_records ::
    "ra_opts \<Rightarrow> string \<Rightarrow> string \<Rightarrow> string \<Rightarrow> 'w world_scheme \<Rightarrow> 'w world_scheme option" where
  "read_records o1 nam name s w =
     (if ra_delim o1 = 10 then
        line_loop o1 name (ra_skip_first o1) (ra_start_at o1) (getlines [] s) w
      else if \<not> w_alloc w 1024 then Some (zwarnnam nam ''143: Out of memory'' w)
      else delim_loop o1 nam name (ra_skip_first o1) (ra_start_at o1) [] 1024 s w)"

section \<open>The builtin\<close>

definition ra_source :: "options \<Rightarrow> string + int" where
  "ra_source ops =
     (if opt_isset ops CHR ''u'' then
        (case opt_arg ops CHR ''u'' of
           None \<Rightarrow> Inr 0
         | Some s \<Rightarrow>
             (case zp_parse_long (Some s) of
                None \<Rightarrow> Inl (''invalid file descriptor: '' @ s)
              | Some fd \<Rightarrow> if fd < 0 \<or> INT_MAX < fd then Inl (''invalid file descriptor: '' @ s) else Inr fd))
      else Inr 0)"

definition bin_zpreadarray ::
    "bool \<Rightarrow> (int \<Rightarrow> nat + string) \<Rightarrow> string \<Rightarrow> string list \<Rightarrow> options \<Rightarrow> 'w world_scheme \<Rightarrow>
     (int \<times> 'w world_scheme) option" where
  "bin_zpreadarray have_getline descr nam argv ops w =
     (case ra_source ops of
        Inl msg \<Rightarrow> Some (1, zwarnnam nam msg w)
      | Inr srcfd \<Rightarrow>
          (case argv of
             [] \<Rightarrow> Some (1, zwarnnam nam ''48: Name of the output array is required, aborting'' w)
           | [oarr_name] \<Rightarrow>
               let w1 = (if \<not> opt_isset ops CHR ''O''
                         then setaparam oarr_name [] (unsetparam oarr_name w) else w)
               in (case descr srcfd of
                     Inl e \<Rightarrow> Some (1, zwarnnam nam (''line 77: couldn't open descriptor '' @
                                render_int srcfd @ '': '' @ w_strerror w1 e) w1)
                   | Inr s \<Rightarrow>
                       if have_getline then
                         map_option (Pair 0) (read_records
                           (ra_options ops (if opt_isset ops CHR ''C'' then opt_arg ops CHR ''C'' else None))
                           nam oarr_name s w1)
                       else Some (0, w1))
           | _ \<Rightarrow> Some (1, zwarnnam nam
                    ''60: Extra arguments detected, only one argument is needed, see -h, aborting'' w)))"

text \<open>\<open>zpreadarray_usage\<close>: the icon is the UTF-8 inbox tray.\<close>

definition icon_inbox :: string where
  "icon_inbox = [CHR 0xF0, CHR 0x9F, CHR 0x93, CHR 0xA5, CHR '' '']"

definition zpreadarray_usage :: "'w world_scheme \<Rightarrow> 'w world_scheme" where
  "zpreadarray_usage w =
     (let (ic, w1) = zp_icon icon_inbox w
      in emit (ic @ ''Usage: zpreadarray [-d delim] [-n count] [-O origin] [-s count] '' @
           ''[-t] [-u fd] [-C callback] [-c quantum] array'' @ [newline] @
           ''Read records from standard input (or -u fd) into the named array.'' @ [newline]) w1)"

section \<open>Lemmas\<close>

text \<open>The records that end with the delimiter, and what is left after the last of them.\<close>

fun terminated :: "char \<Rightarrow> string \<Rightarrow> string \<Rightarrow> string list \<times> string" where
  "terminated d cur [] = ([], cur)"
| "terminated d cur (c # s) =
     (if c = d then (let (rs, tail) = terminated d [] s in (cur # rs, tail))
      else terminated d (cur @ [c]) s)"

text \<open>The elements they make: without the delimiter if asked for, then the rest.\<close>

definition elements :: "bool \<Rightarrow> char \<Rightarrow> string list \<times> string \<Rightarrow> string list" where
  "elements remdel d p =
     map (\<lambda>r. if remdel then r else r @ [d]) (fst p) @ (if snd p = [] then [] else [snd p])"

fun element_calls_at :: "string \<Rightarrow> int \<Rightarrow> string list \<Rightarrow> pcall list" where
  "element_calls_at name index [] = []"
| "element_calls_at name index (v # vs) =
     Lend_scalar (indexed_at name index) v # element_calls_at name (index + 1) vs"

text \<open>How many are stored from an index on.\<close>

definition cut_at :: "ra_opts \<Rightarrow> int \<Rightarrow> 'e list \<Rightarrow> 'e list" where
  "cut_at o1 index xs =
     (if ra_to_copy o1 \<le> 0 then xs else take (nat (ra_to_copy o1 - (index - ra_start_at o1))) xs)"

lemma cut_at_enough: "enough o1 index \<Longrightarrow> cut_at o1 index xs = []"
  by (simp add: enough_def cut_at_def)

lemma cut_at_Cons:
  assumes "\<not> enough o1 index"
  shows "cut_at o1 index (x # xs) = x # cut_at o1 (index + 1) xs"
proof (cases "ra_to_copy o1 \<le> 0")
  case False
  let ?k = "ra_to_copy o1 - (index - ra_start_at o1)"
  have "0 < ?k" using False assms by (simp add: enough_def)
  then have "nat ?k = Suc (nat (?k - 1))" by simp
  moreover have "?k - 1 = ra_to_copy o1 - (index + 1 - ra_start_at o1)" by simp
  ultimately have "nat ?k = Suc (nat (ra_to_copy o1 - (index + 1 - ra_start_at o1)))" by metis
  with False show ?thesis by (simp only: cut_at_def if_False take_Suc_Cons)
qed (simp add: cut_at_def)

lemma cut_at_Nil [simp]: "cut_at o1 index [] = []"
  by (simp add: cut_at_def)

lemma getlines_terminated:
  "getlines cur s = elements False newline (terminated newline cur s)"
proof (induction cur s rule: getlines.induct)
  case (2 cur c s)
  then show ?case by (auto simp: elements_def split: prod.splits)
qed (simp add: elements_def)

lemma terminated_tail: "d \<notin> set cur \<Longrightarrow> d \<notin> set (snd (terminated d cur s))"
  by (induction d cur s rule: terminated.induct) (auto simp: Let_def split: prod.splits)

lemma strip_elements:
  "map (strip_end o1) (elements False newline (terminated newline [] s)) =
     elements (ra_remdel o1) newline (terminated newline [] s)"
proof -
  have keep: "strip_end o1 t = t" if "newline \<notin> set t" for t
    using that last_in_set unfolding strip_end_def by metis
  have tail: "strip_end o1 (snd (terminated newline [] s)) = snd (terminated newline [] s)"
    by (rule keep, rule terminated_tail) simp
  have "strip_end o1 (r @ [newline]) = (if ra_remdel o1 then r else r @ [newline])" for r
    by (simp add: strip_end_def)
  with tail show ?thesis by (simp add: elements_def)
qed

lemma line_loop_result:
  assumes "ra_callback o1 = None" "index + int (length lines) \<le> INT_MAX"
  shows "\<exists>w'. line_loop o1 name skip index lines w = Some w' \<and>
    w_pcalls w' = w_pcalls w @ element_calls_at name index
      (map cstr (cut_at o1 index (map (strip_end o1) (drop (nat skip) lines))))"
  using assms(2)
proof (induction lines arbitrary: skip index w)
  case (Cons line lines)
  show ?case
  proof (cases "0 < skip")
    case True
    then have "drop (nat skip) (line # lines) = drop (nat (skip - 1)) lines"
      by (simp add: drop_Cons' nat_diff_distrib)
    with True Cons.IH [of index "skip - 1" w] Cons.prems show ?thesis by simp
  next
    case False
    show ?thesis
    proof (cases "enough o1 index")
      case True
      with False show ?thesis by (simp add: cut_at_enough)
    next
      case go: False
      let ?w = "pcall_do (Lend_scalar (indexed_at name index) (cstr (strip_end o1 line))) w"
      have "line_loop o1 name skip index (line # lines) w = line_loop o1 name skip (index + 1) lines ?w"
        using False go Cons.prems assms(1) by (simp add: store_record_def)
      with False go Cons.IH [of "index + 1" skip ?w] Cons.prems show ?thesis by (simp add: cut_at_Cons)
    qed
  qed
qed simp

lemma delim_loop_result:
  assumes "ra_callback o1 = None" "\<And>n. w_alloc w n" "ra_delim o1 = int (of_char d)" "0 \<le> ra_to_copy o1"
    "index + int (length (elements True d (terminated d buf s))) \<le> INT_MAX"
    "skip \<le> int (length (fst (terminated d buf s)))"
  shows "\<exists>w'. delim_loop o1 nam name skip index buf cap s w = Some w' \<and>
    w_pcalls w' = w_pcalls w @ element_calls_at name index
      (map cstr (cut_at o1 index (drop (nat skip) (elements (ra_remdel o1) d (terminated d buf s)))))"
  using assms(2,5,6)
proof (induction s arbitrary: skip index buf cap w)
  case Nil
  then show ?case using assms(4)
    by (auto simp: elements_def cut_at_def take_Cons')
next
  case (Cons c s)
  have del: "int (of_char c) = ra_delim o1 \<longleftrightarrow> c = d" using assms(3) by simp
  show ?case
  proof (cases "c = d")
    case nod: False
    have "delim_loop o1 nam name skip index buf cap (c # s) w =
        delim_loop o1 nam name skip index (buf @ [c]) (if cap \<le> length buf + 1 then cap * 2 else cap) s w"
      using nod del Cons.prems(1) by (simp add: Let_def)
    with nod Cons.IH [of w index "buf @ [c]" skip] Cons.prems show ?thesis by simp
  next
    case True
    obtain rs tail where t: "terminated d [] s = (rs, tail)" by fastforce
    show ?thesis
    proof (cases "0 < skip")
      case skipping: True
      then have "drop (nat skip) (x # xs) = drop (nat (skip - 1)) xs" for x :: string and xs
        by (simp add: drop_Cons' nat_diff_distrib)
      then have dr: "drop (nat skip) (elements (ra_remdel o1) d (buf # rs, tail)) =
          drop (nat (skip - 1)) (elements (ra_remdel o1) d (rs, tail))" by (simp add: elements_def)
      have "delim_loop o1 nam name skip index buf cap (c # s) w = delim_loop o1 nam name (skip - 1) index [] cap s w"
        using True skipping del by (simp add: Let_def)
      with Cons.IH [of w index "[]" "skip - 1" cap] Cons.prems True skipping show ?thesis
        by (simp add: t dr) (simp add: elements_def)
    next
      case False
      show ?thesis
      proof (cases "enough o1 index")
        case stop: True
        with True False del Cons.prems(1) show ?thesis by (simp add: Let_def cut_at_enough)
      next
        case go: False
        let ?r = "if ra_remdel o1 then buf else buf @ [c]"
        let ?w = "pcall_do (Lend_scalar (indexed_at name index) (cstr ?r)) w"
        let ?cap = "if cap \<le> length buf + 1 then cap * 2 else cap"
        have "index \<noteq> INT_MAX" using Cons.prems(2) True t by (auto simp: elements_def)
        then have step: "delim_loop o1 nam name skip index buf cap (c # s) w =
            delim_loop o1 nam name skip (index + 1) [] ?cap s ?w"
          using True False go del Cons.prems(1) assms(1) by (simp add: Let_def store_record_def)
        have el: "elements (ra_remdel o1) d (terminated d buf (c # s)) =
            ?r # elements (ra_remdel o1) d (terminated d [] s)"
          using True by (simp add: t) (simp add: elements_def)
        have "index + 1 + int (length (elements True d (terminated d [] s))) \<le> INT_MAX"
          using Cons.prems(2) True by (auto simp: t elements_def split: if_splits)
        moreover have "\<And>n. w_alloc ?w n" using Cons.prems(1) by simp
        moreover have "skip \<le> int (length (fst (terminated d [] s)))" using False by linarith
        ultimately obtain w' where "delim_loop o1 nam name skip (index + 1) [] ?cap s ?w = Some w'"
          "w_pcalls w' = w_pcalls ?w @ element_calls_at name (index + 1)
             (map cstr (cut_at o1 (index + 1) (drop (nat skip) (elements (ra_remdel o1) d (terminated d [] s)))))"
          using Cons.IH [of ?w "index + 1" "[]" skip ?cap] by blast
        with False show ?thesis unfolding step el by (simp add: cut_at_Cons [OF go])
      qed
    qed
  qed
qed

lemma elements_length: "length (elements b d p) = length (elements True d p)"
  by (simp add: elements_def)

lemma read_records_result:
  assumes "ra_callback o1 = None" "mem_ok w" "ra_delim o1 = int (of_char d)" "0 \<le> ra_to_copy o1"
    "ra_start_at o1 + int (length (elements True d (terminated d [] s))) \<le> INT_MAX"
    "d = newline \<or> ra_skip_first o1 \<le> int (length (fst (terminated d [] s)))"
  shows "\<exists>w'. read_records o1 nam name s w = Some w' \<and>
    w_pcalls w' = w_pcalls w @ element_calls_at name (ra_start_at o1)
      (map cstr (cut_at o1 (ra_start_at o1) (drop (nat (ra_skip_first o1))
        (elements (ra_remdel o1) d (terminated d [] s)))))"
proof (cases "d = newline")
  case True
  then have "read_records o1 nam name s w =
      line_loop o1 name (ra_skip_first o1) (ra_start_at o1) (getlines [] s) w"
    using assms(3) by (simp add: read_records_def c_chars)
  moreover have "length (getlines [] s) = length (elements True d (terminated d [] s))"
    using True by (simp add: getlines_terminated elements_length [of False])
  ultimately show ?thesis
    using line_loop_result [OF assms(1), of "ra_start_at o1" "getlines [] s" name "ra_skip_first o1" w] assms(5) True
    by (simp add: getlines_terminated drop_map [symmetric] strip_elements)
next
  case False
  have "ra_delim o1 \<noteq> 10"
  proof
    assume "ra_delim o1 = 10"
    then have "of_char d = (10 :: nat)" using assms(3) by simp
    then have "char_of (of_char d :: nat) = char_of (10 :: nat)" by (rule arg_cong)
    then have "d = char_of (10 :: nat)" by (simp only: char_of_char)
    moreover have "char_of (10 :: nat) = newline" by code_simp
    ultimately have "d = newline" by simp
    with False show False ..
  qed
  then have "read_records o1 nam name s w =
      delim_loop o1 nam name (ra_skip_first o1) (ra_start_at o1) [] 1024 s w"
    using assms(2) by (simp add: read_records_def mem_okD)
  moreover have "\<And>n. w_alloc w n" using assms(2) by (simp add: mem_okD)
  moreover have "ra_skip_first o1 \<le> int (length (fst (terminated d [] s)))" using assms(6) False by simp
  ultimately show ?thesis using delim_loop_result [OF assms(1) _ assms(3,4,5)] by metis
qed

text \<open>A quantum of 0 with a callback divides by zero at the first record stored.\<close>

lemma zero_quantum_faults:
  "ra_callback o1 = Some cb \<Longrightarrow> ra_quantum o1 = 0 \<Longrightarrow> store_record o1 name index line w = None"
  by (simp add: store_record_def)

text \<open>A delimiter byte of 128 or more never matches, as \<open>char\<close> is signed and \<open>fgetc\<close> is not.\<close>

lemma high_delimiter_negative: "128 \<le> (of_char c :: nat) \<Longrightarrow> schar c \<noteq> int (of_char x)"
proof -
  assume "128 \<le> (of_char c :: nat)"
  then have "schar c = int (of_char c) - 256" by (simp add: schar_def)
  moreover have "(of_char c :: nat) < 256" by simp
  ultimately show ?thesis by linarith
qed

section \<open>Properties\<close>

text \<open>
  zpreadarray stores the same elements whichever of its two readers runs: the records of the
  input that end with the delimiter (with or without it) and then the rest, minus the first -s
  records, at most -n of them, from index -O on.  Without -O the array is emptied first.  For the
  character reader, -s does not exceed the number of complete records and -n is not negative.
\<close>

theorem zpreadarray_elements:
  assumes "ra_source ops = Inr fd" "descr fd = Inr s" "\<not> opt_isset ops CHR ''C''" "mem_ok w"
    "ra_delim (ra_options ops None) = int (of_char d)" "0 \<le> ra_to_copy (ra_options ops None)"
    "ra_start_at (ra_options ops None) + int (length (elements True d (terminated d [] s))) \<le> INT_MAX"
    "d = newline \<or> ra_skip_first (ra_options ops None) \<le> int (length (fst (terminated d [] s)))"
  shows "let o1 = ra_options ops None;
             stored = cut_at o1 (ra_start_at o1) (drop (nat (ra_skip_first o1))
                        (elements (opt_isset ops CHR ''t'') d (terminated d [] s)))
         in \<exists>w'. bin_zpreadarray True descr nam [name] ops w = Some (0, w') \<and>
              w_pcalls w' = w_pcalls w @
                (if opt_isset ops CHR ''O'' then [] else [Unset_param name, Set_array name []]) @
                element_calls_at name (ra_start_at o1) (map cstr stored)"
proof -
  let ?o = "ra_options ops None"
  let ?w = "if opt_isset ops CHR ''O'' then w else setaparam name [] (unsetparam name w)"
  have o: "ra_callback ?o = None" "ra_remdel ?o = opt_isset ops CHR ''t''" by (simp_all add: ra_options_def)
  have "mem_ok ?w" using assms(4) by (simp add: mem_ok_def)
  from read_records_result [OF o(1) this assms(5-8), of nam name] obtain w' where
    "read_records ?o nam name s ?w = Some w'"
    "w_pcalls w' = w_pcalls ?w @ element_calls_at name (ra_start_at ?o) (map cstr (cut_at ?o (ra_start_at ?o)
       (drop (nat (ra_skip_first ?o)) (elements (ra_remdel ?o) d (terminated d [] s)))))" by blast
  then show ?thesis
    using assms(1-3) o by (cases "opt_isset ops CHR ''O''") (simp_all add: bin_zpreadarray_def Let_def)
qed

theorem zpreadarray_elements_witness:
  "let ops = [CHR ''d'' \<mapsto> Some '':'', CHR ''n'' \<mapsto> Some ''2'', CHR ''s'' \<mapsto> Some ''1'', CHR ''t'' \<mapsto> None]
   in \<exists>w'. bin_zpreadarray True (\<lambda>_. Inr ''a:b:c'') ''z'' [''r''] ops world0 = Some (0, w') \<and>
        w_pcalls w' = [Unset_param ''r'', Set_array ''r'' [], Lend_scalar ''r[1]'' ''b'', Lend_scalar ''r[2]'' ''c'']"
proof -
  let ?ops = "[CHR ''d'' \<mapsto> Some '':'', CHR ''n'' \<mapsto> Some ''2'', CHR ''s'' \<mapsto> Some ''1'', CHR ''t'' \<mapsto> None] :: options"
  have o: "ra_options ?ops None = \<lparr>ra_delim = 58, ra_to_copy = 2, ra_start_at = 1, ra_skip_first = 1,
      ra_remdel = True, ra_quantum = 5000, ra_callback = None\<rparr>"
    "ra_source ?ops = Inr 0" "\<not> opt_isset ?ops CHR ''C''" "\<not> opt_isset ?ops CHR ''O''" "opt_isset ?ops CHR ''t''"
    by code_simp+
  have t: "terminated CHR '':'' [] ''a:b:c'' = ([''a'', ''b''], ''c'')" by code_simp
  have e: "element_calls_at ''r'' 1 (map cstr [''b'', ''c'']) = [Lend_scalar ''r[1]'' ''b'', Lend_scalar ''r[2]'' ''c'']"
    by code_simp
  have "w_pcalls world0 = []" by (simp add: world0_def)
  with zpreadarray_elements [OF o(2) _ o(3) mem_ok_world0, of "\<lambda>_. Inr ''a:b:c''" "''a:b:c''" "CHR '':''" "''z''" "''r''"]
  show ?thesis
    using e by (simp add: o t elements_def cut_at_def c_limits Let_def del: element_calls_at.simps)
qed

end
