(* ===== verification/Zp_Commands.thy ===== *)
theory Zp_Commands
  imports Zp_Readfile Zp_Emoji Zp_Readarray
begin

text \<open>
  The subcommands of \<open>src/builtins/zpmod_builtin.c\<close> and the builtins of
  \<open>src/builtins/fs_builtins.c\<close>: argument vectors to calls of the core functions, and the report
  table \<open>ZI_REPORTS\<close>.  An argument parser answers with its diagnostic (\<open>Inl\<close>) or the options and
  the arguments left.
\<close>

section \<open>Delimiters\<close>

text \<open>The escapes \<open>\n \t \0 \r\<close>; any other character stands for itself.\<close>

definition escaped :: "char \<Rightarrow> int" where
  "escaped e =
     (if e = CHR ''n'' then 10 else if e = CHR ''t'' then 9 else if e = CHR ''0'' then 0
      else if e = CHR ''r'' then 13 else int (of_char e))"

definition backslash :: char where "backslash = CHR 0x5C"

text \<open>\<open>parse_delim\<close>: the character after a lone backslash is the end of the string, 0.\<close>

definition parse_delim :: "string \<Rightarrow> int" where
  "parse_delim a =
     (case a of
        [] \<Rightarrow> 10
      | c # r \<Rightarrow>
          if c = backslash then (case r of [] \<Rightarrow> 0 | e # _ \<Rightarrow> escaped e) else int (of_char c))"

text \<open>What \<open>cmd_readfile\<close> does with the argument of \<open>-dX\<close> and \<open>-d X\<close>.\<close>

definition delim_attached :: "string \<Rightarrow> int" where
  "delim_attached a =
     (case a of
        [] \<Rightarrow> 0
      | c # r \<Rightarrow>
          if c = backslash \<and> r \<noteq> [] then escaped (hd r) else int (of_char c))"

definition delim_separate :: "string \<Rightarrow> int" where
  "delim_separate a =
     (case a of
        [] \<Rightarrow> 0
      | c # r \<Rightarrow>
          if c = backslash then (case r of [] \<Rightarrow> 92 | e # _ \<Rightarrow> escaped e) else int (of_char c))"

text \<open>What \<open>bin_zpreadfile\<close> does with the argument of its option \<open>d\<close>.\<close>

definition delim_option :: "string option \<Rightarrow> int" where
  "delim_option a =
     (case a of
        None \<Rightarrow> 10
      | Some [] \<Rightarrow> 10
      | Some (c # r) \<Rightarrow>
          if c = backslash then (case r of [] \<Rightarrow> 0 | e # _ \<Rightarrow> escaped e) else int (of_char c))"

section \<open>read-file\<close>

record readfile_opts =
  rf_mmap :: bool
  rf_split :: bool
  rf_delim :: int

fun readfile_args :: "readfile_opts \<Rightarrow> string list \<Rightarrow> string + (readfile_opts \<times> string list)" where
  "readfile_args o1 [] = Inr (o1, [])"
| "readfile_args o1 (a # argv) =
     (if a = ''--mmap'' then readfile_args (o1\<lparr>rf_mmap := True\<rparr>) argv
      else if a = ''-0'' then readfile_args (o1\<lparr>rf_split := True, rf_delim := 0\<rparr>) argv
      else if a = ''--'' then Inr (o1, argv)
      else if take 2 a = ''-d'' then
        (if drop 2 a \<noteq> [] then
           readfile_args (o1\<lparr>rf_split := True, rf_delim := delim_attached (drop 2 a)\<rparr>) argv
         else (case argv of
                 [] \<Rightarrow> Inl ''read-file: -d requires delimiter''
               | x # argv' \<Rightarrow>
                   readfile_args (o1\<lparr>rf_split := True, rf_delim := delim_separate x\<rparr>) argv'))
      else Inr (o1, a # argv))"

definition cmd_readfile ::
    "(string \<Rightarrow> string) \<Rightarrow> (string \<Rightarrow> string) \<Rightarrow> string \<Rightarrow> string list \<Rightarrow> 'w world_scheme \<Rightarrow>
     (int \<times> 'w world_scheme) option" where
  "cmd_readfile metafy unmetafy nam argv w =
     (case readfile_args \<lparr>rf_mmap = False, rf_split = False, rf_delim = 10\<rparr> argv of
        Inl msg \<Rightarrow> Some (1, zwarnnam nam msg w)
      | Inr (o1, var # file # _) \<Rightarrow>
          zp_readfile_core metafy unmetafy nam var file (rf_mmap o1) (rf_split o1) (rf_delim o1) w
      | Inr _ \<Rightarrow>
          Some (1, zwarnnam nam ''read-file: usage: zpmod read-file [-m|--mmap] [-0|-d delim] var file'' w))"

definition icon_warning :: string where
  "icon_warning = [CHR 0xE2, CHR 0x9A, CHR 0xA0, CHR 0xEF, CHR 0xB8, CHR 0x8F, CHR '' '']"

definition bin_zpreadfile ::
    "(string \<Rightarrow> string) \<Rightarrow> (string \<Rightarrow> string) \<Rightarrow> string \<Rightarrow> string list \<Rightarrow> options \<Rightarrow> 'w world_scheme \<Rightarrow>
     (int \<times> 'w world_scheme) option" where
  "bin_zpreadfile metafy unmetafy nam argv ops w =
     (let (split0, delim0) = (if opt_isset ops CHR ''0'' then (True, 0) else (False, 10));
          (split, delim) = (if opt_isset ops CHR ''d'' then (True, delim_option (opt_arg ops CHR ''d''))
                            else (split0, delim0))
      in case argv of
           out # fl # _ \<Rightarrow>
             zp_readfile_core metafy unmetafy nam out fl (opt_isset ops CHR ''m'') split delim w
         | _ \<Rightarrow> Some (1, warn_icon nam icon_warning
                  ('' '' @ nam @ ''usage: '' @ nam @ '' [-m] [-d delim|-0] out file'') w))"

section \<open>dir-list\<close>

record dirlist_opts =
  dl_all :: bool
  dl_dirs :: bool
  dl_files :: bool

fun dirlist_args :: "dirlist_opts \<Rightarrow> string list \<Rightarrow> dirlist_opts \<times> string list" where
  "dirlist_args o1 [] = (o1, [])"
| "dirlist_args o1 (a # argv) =
     (if a = ''-a'' then dirlist_args (o1\<lparr>dl_all := True\<rparr>) argv
      else if a = ''-d'' then dirlist_args (o1\<lparr>dl_dirs := True\<rparr>) argv
      else if a = ''-f'' then dirlist_args (o1\<lparr>dl_files := True\<rparr>) argv
      else if a = ''--'' then (o1, argv)
      else (o1, a # argv))"

definition cmd_dirlist ::
    "(string \<Rightarrow> string) \<Rightarrow> (string \<Rightarrow> string) \<Rightarrow> string \<Rightarrow> string list \<Rightarrow> 'w world_scheme \<Rightarrow>
     int \<times> 'w world_scheme" where
  "cmd_dirlist metafy unmetafy nam argv w =
     (case dirlist_args \<lparr>dl_all = False, dl_dirs = False, dl_files = False\<rparr> argv of
        (o1, out # dir # _) \<Rightarrow>
          zp_dirlist_core metafy unmetafy nam out dir (dl_all o1) (dl_dirs o1) (dl_files o1) w
      | _ \<Rightarrow> (1, zwarnnam nam ''dir-list: usage: zpmod dir-list [-a] [-d|-f] out_array dir'' w))"

definition bin_zpdirlist ::
    "(string \<Rightarrow> string) \<Rightarrow> (string \<Rightarrow> string) \<Rightarrow> string \<Rightarrow> string list \<Rightarrow> options \<Rightarrow> 'w world_scheme \<Rightarrow>
     int \<times> 'w world_scheme" where
  "bin_zpdirlist metafy unmetafy nam argv ops w =
     (case argv of
        out # dir # _ \<Rightarrow>
          zp_dirlist_core metafy unmetafy nam out dir (opt_isset ops CHR ''a'') (opt_isset ops CHR ''d'')
            (opt_isset ops CHR ''f'') w
      | _ \<Rightarrow> (1, warn_icon nam icon_warning
               ('' '' @ nam @ ''usage: '' @ nam @ '' [-a] [-d] [-f] out_array dir'') w))"

section \<open>path-stat\<close>

text \<open>The loop ends at the first argument that is no option; \<open>Inl\<close> is the missing argument of
  \<open>-f\<close>.\<close>

function pathstat_args ::
    "bool \<Rightarrow> string option \<Rightarrow> string list \<Rightarrow> unit + (bool \<times> string option \<times> string list)" where
  "pathstat_args follow flds argv =
     (case argv of
        (c0 # c1 # r) # args \<Rightarrow>
          if c0 \<noteq> CHR ''-'' then Inr (follow, flds, argv)
          else if c1 = CHR ''-'' \<and> r = [] then Inr (follow, flds, args)
          else if c1 = CHR ''L'' \<and> r = [] then pathstat_args True flds args
          else if c1 = CHR ''f'' then
            (case zp_take_opt_with_arg argv CHR ''f'' of
               (tk, cursor, out) \<Rightarrow>
                 if tk = -1 then Inl ()
                 else if tk = 1 then pathstat_args follow out cursor
                 else Inr (follow, flds, argv))
          else Inr (follow, flds, argv)
      | _ \<Rightarrow> Inr (follow, flds, argv))"
  by pat_completeness auto
termination
  by (relation "measure (\<lambda>(follow, flds, argv). length argv)")
    (auto dest!: sym [of "(1, _, _)"] zp_take_opt_step [OF sym])

declare pathstat_args.simps [simp del]

definition cmd_pathstat ::
    "(string \<Rightarrow> string) \<Rightarrow> (string \<Rightarrow> string) \<Rightarrow> string \<Rightarrow> string list \<Rightarrow> 'w world_scheme \<Rightarrow>
     (int \<times> 'w world_scheme) option" where
  "cmd_pathstat metafy unmetafy nam argv w =
     (case pathstat_args False None argv of
        Inl _ \<Rightarrow> Some (1, warn_icon nam icon_cross ''pathstat: -f requires fields'' w)
      | Inr (follow, flds, out # inp # _) \<Rightarrow>
          zp_pathstat_core metafy unmetafy nam out inp follow flds w
      | Inr _ \<Rightarrow> Some (1, warn_icon nam icon_cross
                   ''pathstat: usage: zpmod path-stat [-L] [-f fields] out_array in_array'' w))"

definition bin_zppathstat ::
    "(string \<Rightarrow> string) \<Rightarrow> (string \<Rightarrow> string) \<Rightarrow> string \<Rightarrow> string list \<Rightarrow> options \<Rightarrow> 'w world_scheme \<Rightarrow>
     (int \<times> 'w world_scheme) option" where
  "bin_zppathstat metafy unmetafy nam argv ops w =
     (case argv of
        out # inp # _ \<Rightarrow>
          zp_pathstat_core metafy unmetafy nam out inp (opt_isset ops CHR ''L'') (opt_arg ops CHR ''f'') w
      | _ \<Rightarrow> Some (1, warn_icon nam icon_warning
               ('' '' @ nam @ ''usage: '' @ nam @ '' [-L] [-f fields] out_array in_array'') w))"

section \<open>The report table\<close>

text \<open>
  \<open>paramtab->getnode (paramtab, "ZI_REPORTS")\<close> and its hash: \<^const>\<open>None\<close> without the
  parameter, \<open>Some None\<close> without a hash; an entry's string may be NULL.
\<close>

type_synonym reports = "(string \<rightharpoonup> string option) option option"

text \<open>\<^const>\<open>None\<close> is a fault: the length would leave the range of int.\<close>

definition zp_append_report ::
    "string \<Rightarrow> string \<Rightarrow> string \<Rightarrow> reports \<Rightarrow> 'w world_scheme \<Rightarrow> (int \<times> reports \<times> 'w world_scheme) option" where
  "zp_append_report nam target body reps w =
     (if body = [] then Some (0, reps, w)
      else case reps of
             None \<Rightarrow> Some (1, reps, warn_icon nam icon_cross
                        ''$ZI_REPORTS is not declared (zpmod not loaded?).'' w)
           | Some None \<Rightarrow> Some (1, reps, warn_icon nam icon_cross (''unknown plugin: '' @ target) w)
           | Some (Some ht) \<Rightarrow>
               (case ht target of
                  None \<Rightarrow> Some (1, reps, warn_icon nam icon_cross (''unknown plugin: '' @ target) w)
                | Some str \<Rightarrow>
                    let new_len = length (case str of None \<Rightarrow> [] | Some t \<Rightarrow> t) + length body
                    in if INT_MAX < int new_len then None
                       else if \<not> w_alloc w (new_len + 1) then
                         Some (1, reps, warn_icon nam icon_cross ''out of memory'' w)
                       else Some (0, Some (Some (ht(target \<mapsto>
                                  Some ((case str of None \<Rightarrow> [] | Some t \<Rightarrow> t) @ body)))), w)))"

definition cmd_report_append ::
    "(string \<Rightarrow> string) \<Rightarrow> string \<Rightarrow> string list \<Rightarrow> reports \<Rightarrow> 'w world_scheme \<Rightarrow>
     (int \<times> reports \<times> 'w world_scheme) option" where
  "cmd_report_append unmetafy nam argv reps w =
     (case argv of
        [] \<Rightarrow> Some (1, reps, zwarnnam nam
                ''report-append: missing plugin ID (e.g., z-shell/zbrowse). See -h.'' w)
      | target # args \<Rightarrow>
          (case zp_unmetafy_zalloc unmetafy w (Some target) of
             None \<Rightarrow> Some (1, reps, zwarnnam nam ''out of memory'' w)
           | Some (u, _) \<Rightarrow>
               (case args of
                  [] \<Rightarrow> Some (1, reps, zwarnnam nam ''report-append: missing text to append. See -h.'' w)
                | body # _ \<Rightarrow> zp_append_report nam (cstr u) body reps w)))"

section \<open>source-study\<close>

record study_opts =
  so_full :: bool
  so_json :: bool

fun study_args :: "study_opts \<Rightarrow> string list \<Rightarrow> string + (study_opts \<times> string list)" where
  "study_args o1 [] = Inr (o1, [])"
| "study_args o1 (a # argv) =
     (if (case a of c # _ \<Rightarrow> c \<noteq> CHR ''-'' | [] \<Rightarrow> True) then Inr (o1, a # argv)
      else if a = ''--'' then Inr (o1, argv)
      else if a = ''--json'' then study_args (o1\<lparr>so_json := True\<rparr>) argv
      else if a \<noteq> ''-l'' then Inl (''source-study: unknown option: '' @ a)
      else study_args (o1\<lparr>so_full := True\<rparr>) argv)"

text \<open>The digit loop, with its overflow test before each step.\<close>

fun study_digits :: "int \<Rightarrow> string \<Rightarrow> int option" where
  "study_digits report_count [] = Some report_count"
| "study_digits report_count (c # s) =
     (if \<not> is_digit 10 c \<or> (INT_MAX - int (digit_of c)) div 10 < report_count then None
      else study_digits (report_count * 10 + int (digit_of c)) s)"

definition study_count :: "string list \<Rightarrow> string + int" where
  "study_count argv =
     (case argv of
        [] \<Rightarrow> Inr 0
      | a # args \<Rightarrow>
          if a = [] then Inl ''source-study: empty report count''
          else case study_digits 0 a of
                 None \<Rightarrow> Inl (''source-study: invalid report count: '' @ a)
               | Some n \<Rightarrow> if args \<noteq> [] then Inl ''source-study: too many arguments'' else Inr n)"

section \<open>Lemmas\<close>

text \<open>The four readings of a delimiter differ on the empty argument and on a lone backslash only.\<close>

lemma delims_agree:
  assumes "x \<noteq> []" "x \<noteq> [backslash]"
  shows "delim_attached x = parse_delim x" "delim_separate x = parse_delim x"
    "delim_option (Some x) = parse_delim x"
proof -
  obtain c r where x: "x = c # r" using assms(1) by (cases x) auto
  show "delim_attached x = parse_delim x" "delim_separate x = parse_delim x"
    "delim_option (Some x) = parse_delim x"
    using assms(2) x by (cases r; simp add: delim_attached_def delim_separate_def delim_option_def parse_delim_def)+
qed

lemma delims_differ:
  "parse_delim [] = 10 \<and> delim_separate [] = 0 \<and> delim_option (Some []) = 10"
  "parse_delim [backslash] = 0 \<and> delim_attached [backslash] = 92 \<and> delim_separate [backslash] = 92 \<and>
   delim_option (Some [backslash]) = 0"
  by (simp_all add: parse_delim_def delim_separate_def delim_option_def delim_attached_def backslash_def)

lemma study_digits_grow: "0 \<le> a \<Longrightarrow> a \<le> foldl (\<lambda>x c. x * 10 + int (digit_of c)) a s"
proof (induction s arbitrary: a)
  case (Cons c s)
  have "a \<le> a * 10 + int (digit_of c)" using Cons.prems by simp
  also have "\<dots> \<le> foldl (\<lambda>x c. x * 10 + int (digit_of c)) (a * 10 + int (digit_of c)) s"
    using Cons by simp
  finally show ?case by simp
qed simp

lemma study_digits_iff:
  assumes "0 \<le> a" "a \<le> INT_MAX"
  shows "study_digits a s = Some n \<longleftrightarrow>
    list_all (is_digit 10) s \<and> n = foldl (\<lambda>x c. x * 10 + int (digit_of c)) a s \<and> n \<le> INT_MAX"
  using assms
proof (induction s arbitrary: a)
  case (Cons c s)
  let ?a = "a * 10 + int (digit_of c)"
  have over: "(INT_MAX - int (digit_of c)) div 10 < a \<longleftrightarrow> INT_MAX < ?a"
    by (simp add: c_limits) linarith
  show ?case
  proof (cases "is_digit 10 c \<and> ?a \<le> INT_MAX")
    case True
    then have step: "study_digits a (c # s) = study_digits ?a s" using over by simp
    show ?thesis unfolding step using Cons.IH [of ?a] True Cons.prems by simp
  next
    case False
    moreover have "INT_MAX < foldl (\<lambda>x c. x * 10 + int (digit_of c)) ?a s" if "INT_MAX < ?a"
      using study_digits_grow [of ?a s] that Cons.prems(1) by simp
    ultimately show ?thesis using over by auto
  qed
qed auto

lemma foldl_parse_nat:
  "foldl (\<lambda>x c. x * 10 + int (digit_of c)) (int m) s = int (foldl (\<lambda>x c. x * 10 + digit_of c) m s)"
proof (induction s arbitrary: m)
  case (Cons c s)
  from Cons.IH [of "m * 10 + digit_of c"] show ?case by simp
qed simp

lemma study_digits_parse:
  "study_digits 0 s = Some n \<longleftrightarrow>
     list_all (is_digit 10) s \<and> n = int (parse_nat 10 s) \<and> n \<le> INT_MAX"
  using study_digits_iff [of 0 s n] foldl_parse_nat [of 0 s] by (simp add: parse_nat_def c_limits)

text \<open>The option loops over flags in any order, and where they end.\<close>

lemma dirlist_args_flags:
  "set flags \<subseteq> {''-a'', ''-d'', ''-f''} \<Longrightarrow>
     dirlist_args o1 (flags @ rest) =
     dirlist_args \<lparr>dl_all = dl_all o1 \<or> ''-a'' \<in> set flags, dl_dirs = dl_dirs o1 \<or> ''-d'' \<in> set flags,
       dl_files = dl_files o1 \<or> ''-f'' \<in> set flags\<rparr> rest"
proof (induction flags arbitrary: o1)
  case (Cons f flags)
  then consider "f = ''-a''" | "f = ''-d''" | "f = ''-f''" by auto
  then show ?case using Cons by cases simp_all
next
  case Nil
  show ?case by (cases o1) simp
qed

lemma dirlist_args_rest:
  "dashes = [''--''] \<or> dashes = [] \<and> take 1 out \<noteq> ''-'' \<Longrightarrow>
     dirlist_args o1 (dashes @ out # rest) = (o1, out # rest)"
  by auto

lemma readfile_args_mmap:
  "readfile_args o1 (replicate n ''--mmap'' @ rest) =
     readfile_args (o1\<lparr>rf_mmap := rf_mmap o1 \<or> 0 < n\<rparr>) rest"
  by (induction n arbitrary: o1) simp_all

lemma readfile_args_rest:
  "dashes = [''--''] \<or> dashes = [] \<and> take 1 out \<noteq> ''-'' \<Longrightarrow>
     readfile_args o1 (dashes @ out # rest) = Inr (o1, out # rest)"
  by (cases out) auto

lemma pathstat_args_L:
  "pathstat_args a b (replicate n ''-L'' @ rest) = pathstat_args (a \<or> 0 < n) b rest"
proof (induction n arbitrary: a)
  case (Suc n)
  have "pathstat_args a b (''-L'' # args) = pathstat_args True b args" for args
    by (subst pathstat_args.simps) simp
  with Suc show ?case by simp
qed simp

lemma pathstat_args_f:
  "x \<noteq> [] \<Longrightarrow> pathstat_args a b (''-f'' # x # rest) = pathstat_args a (Some x) rest"
  "x \<noteq> [] \<Longrightarrow> pathstat_args a b ((CHR ''-'' # CHR ''f'' # x) # rest) = pathstat_args a (Some x) rest"
  by (subst pathstat_args.simps, simp add: zp_take_opt_with_arg_def)+

lemma pathstat_args_rest:
  assumes "dashes = [''--''] \<or> dashes = [] \<and> take 1 out \<noteq> ''-''"
  shows "pathstat_args a b (dashes @ [out, inp]) = Inr (a, b, [out, inp])"
  using assms by (cases out; cases "tl out") (auto simp: pathstat_args.simps)

section \<open>Properties\<close>



text \<open>
  source-study takes a report count exactly when it is one or more decimal digits whose value
  fits an int, and it takes that value: the test before each step refuses every overflow and
  nothing else.
\<close>

theorem study_count_exact:
  "study_count [s] = Inr n \<longleftrightarrow>
     s \<noteq> [] \<and> list_all (is_digit 10) s \<and> n = int (parse_nat 10 s) \<and> n \<le> INT_MAX"
  using study_digits_parse [of s n] study_digits_parse [of s]
  by (cases "study_digits 0 s") (auto simp: study_count_def)

text \<open>
  report-append adds exactly its text to the end of the report of the named plugin and touches
  no other; adding two texts one after the other is adding their concatenation.  For an unknown
  plugin, without the table or without memory it answers 1 and leaves the table as it was.
\<close>

theorem report_append_exact:
  assumes "mem_ok w"
  shows "(\<forall>ht str. reps = Some (Some ht) \<and> ht (sys_path unmetafy plugin) = Some (Some str) \<and>
            int (length str + length body) \<le> INT_MAX \<longrightarrow>
          (\<exists>ht'. cmd_report_append unmetafy nam [plugin, body] reps w = Some (0, Some (Some ht'), w) \<and>
             ht' = ht(sys_path unmetafy plugin \<mapsto> Some (str @ body)))) \<and>
    (\<forall>ht str body2. reps = Some (Some ht) \<and> ht (sys_path unmetafy plugin) = Some (Some str) \<and>
            int (length str + length body + length body2) \<le> INT_MAX \<longrightarrow>
          (\<exists>reps1. cmd_report_append unmetafy nam [plugin, body] reps w = Some (0, reps1, w) \<and>
             cmd_report_append unmetafy nam [plugin, body2] reps1 w =
             cmd_report_append unmetafy nam [plugin, body @ body2] reps w)) \<and>
    (\<forall>rc reps1 w1. cmd_report_append unmetafy nam argv reps w = Some (rc, reps1, w1) \<and> rc \<noteq> 0 \<longrightarrow>
       rc = 1 \<and> reps1 = reps)"
proof (intro conjI allI impI)
  have one: "cmd_report_append unmetafy nam [plugin, b] (Some (Some ht)) w =
      Some (0, Some (Some (ht(sys_path unmetafy plugin \<mapsto> Some (str @ b)))), w)"
    if "ht (sys_path unmetafy plugin) = Some (Some str)" "int (length str + length b) \<le> INT_MAX" for ht str b
  proof -
    have "ht(sys_path unmetafy plugin \<mapsto> Some str) = ht" using that(1) by (auto simp: fun_eq_iff)
    then show ?thesis
      using that unmetafy_ok [OF assms, of unmetafy plugin] assms
      by (auto simp: cmd_report_append_def zp_append_report_def sys_path_def Let_def mem_okD)
  qed
  show "\<exists>ht'. cmd_report_append unmetafy nam [plugin, body] reps w = Some (0, Some (Some ht'), w) \<and>
             ht' = ht(sys_path unmetafy plugin \<mapsto> Some (str @ body))"
    if "reps = Some (Some ht) \<and> ht (sys_path unmetafy plugin) = Some (Some str) \<and>
            int (length str + length body) \<le> INT_MAX" for ht str
    using that one by blast
  show "\<exists>reps1. cmd_report_append unmetafy nam [plugin, body] reps w = Some (0, reps1, w) \<and>
             cmd_report_append unmetafy nam [plugin, body2] reps1 w =
             cmd_report_append unmetafy nam [plugin, body @ body2] reps w"
    if h: "reps = Some (Some ht) \<and> ht (sys_path unmetafy plugin) = Some (Some str) \<and>
            int (length str + length body + length body2) \<le> INT_MAX" for ht str body2
    using h one [of ht str body] one [of ht str "body @ body2"]
      one [of "ht(sys_path unmetafy plugin \<mapsto> Some (str @ body))" "str @ body" body2]
    by (simp add: algebra_simps)
  show "rc = 1" "reps1 = reps"
    if "cmd_report_append unmetafy nam argv reps w = Some (rc, reps1, w1) \<and> rc \<noteq> 0" for rc reps1 w1
    using that
    by (auto simp: cmd_report_append_def zp_append_report_def Let_def split: list.splits option.splits if_splits)
qed

theorem report_append_exact_witness:
  "\<exists>ht'. cmd_report_append id ''zpmod'' [''z/p'', ''more''] (Some (Some [''z/p'' \<mapsto> Some ''some ''])) world0 =
     Some (0, Some (Some ht'), world0) \<and> ht' ''z/p'' = Some (Some ''some more'')"
proof -
  have s: "sys_path id ''z/p'' = ''z/p''" by code_simp
  show ?thesis
    using report_append_exact [OF mem_ok_world0, of "Some (Some [''z/p'' \<mapsto> Some ''some ''])" id "''z/p''" "''more''" "''zpmod''"]
    by (simp add: s c_limits)
qed

end
