(* ===== verification/Zp_Options.thy ===== *)
theory Zp_Options
  imports Zp_Prelude
begin

text \<open>
  \<open>src/compat/options.c\<close> and the enumeration of \<open>src/include/zpmod_compat.h\<close>: the table that
  maps the module's stable option numbers to the option numbers of the running shell, filled once
  at load time by asking the shell (\<open>optlookup\<close>, a parameter) for each option by name.
\<close>

definition ZP_OPT_INVALID :: int where "ZP_OPT_INVALID = 0"
definition FUNCTIONARGZERO :: int where "FUNCTIONARGZERO = 1"
definition PATHDIRS :: int where "PATHDIRS = 2"
definition POSIXBUILTINS :: int where "POSIXBUILTINS = 3"
definition SHINSTDIN :: int where "SHINSTDIN = 4"
definition SOURCETRACE :: int where "SOURCETRACE = 5"
definition ZP_OPT_COUNT :: int where "ZP_OPT_COUNT = 6"

lemmas option_enum = ZP_OPT_INVALID_def FUNCTIONARGZERO_def PATHDIRS_def POSIXBUILTINS_def
  SHINSTDIN_def SOURCETRACE_def ZP_OPT_COUNT_def

text \<open>\<open>static int zp_opt_for_zsh_version[64] = {0}\<close>\<close>

definition opt_table0 :: "int list" where "opt_table0 = replicate 64 0"

definition zp_options :: "(string \<times> int) list" where
  "zp_options =
     [(''function_argzero'', FUNCTIONARGZERO), (''path_dirs'', PATHDIRS),
      (''posix_builtins'', POSIXBUILTINS), (''shin_stdin'', SHINSTDIN),
      (''source_trace'', SOURCETRACE)]"

text \<open>The loop of \<open>zp_setup_options_table\<close> over the rows up to the sentinel.\<close>

fun setup_rows :: "(string \<Rightarrow> int) \<Rightarrow> (string \<times> int) list \<Rightarrow> int list \<Rightarrow> int list" where
  "setup_rows optlookup [] tbl = tbl"
| "setup_rows optlookup ((name, e) # rows) tbl =
     (if e < 0 \<or> e \<ge> int (length tbl) then setup_rows optlookup rows tbl
      else let optno = optlookup name
           in setup_rows optlookup rows (if optno \<ge> 0 then tbl[nat e := optno] else tbl))"

definition zp_setup_options_table :: "(string \<Rightarrow> int) \<Rightarrow> int list \<Rightarrow> int list" where
  "zp_setup_options_table optlookup tbl = setup_rows optlookup zp_options tbl"

text \<open>\<open>zp_conv_opt\<close> guards its index with the size of the enumeration.\<close>

definition zp_conv_opt :: "int list \<Rightarrow> int \<Rightarrow> int" where
  "zp_conv_opt tbl n = (if n < 0 \<or> n \<ge> ZP_OPT_COUNT then 0 else tbl ! nat n)"

lemma setup_rows_length [simp]: "length (setup_rows f rows tbl) = length tbl"
  by (induction rows arbitrary: tbl) (auto simp: Let_def)

definition opt_answer :: "(string \<Rightarrow> int) \<Rightarrow> nat \<Rightarrow> int" where
  "opt_answer f i =
     (if i = 1 then f ''function_argzero'' else if i = 2 then f ''path_dirs''
      else if i = 3 then f ''posix_builtins'' else if i = 4 then f ''shin_stdin''
      else if i = 5 then f ''source_trace'' else -1)"

lemma setup_table_nth:
  assumes "length tbl = 64" "i < 64"
  shows "zp_setup_options_table f tbl ! i =
    (if opt_answer f i \<ge> 0 then opt_answer f i else tbl ! i)"
  using assms
  by (simp add: zp_setup_options_table_def zp_options_def option_enum Let_def nth_list_update
      opt_answer_def)

lemma opt_table0_nth: "i < 64 \<Longrightarrow> opt_table0 ! i = 0"
  by (simp add: opt_table0_def)

text \<open>
  After module setup every stable option number answers with the number the running shell gives
  the option of that name, or 0 where the shell does not know the option or the number is outside
  the enumeration; setup keeps the table's size, so no conversion reads outside it, and running
  setup again changes nothing.
\<close>

theorem zp_options_mapped:
  "let tbl = zp_setup_options_table f opt_table0
   in length tbl = 64 \<and> zp_setup_options_table f tbl = tbl \<and>
      (\<forall>(name, e) \<in> set zp_options. zp_conv_opt tbl e = max 0 (f name)) \<and>
      (\<forall>n. n \<notin> snd ` set zp_options \<longrightarrow> zp_conv_opt tbl n = 0)"
proof -
  let ?t = "zp_setup_options_table f opt_table0"
  have len: "length ?t = 64" by (simp add: zp_setup_options_table_def opt_table0_def)
  have nth: "?t ! i = max 0 (opt_answer f i)" if "i < 64" for i
    using that setup_table_nth [of opt_table0 i f]
    by (auto simp: opt_table0_nth) (simp_all add: opt_table0_def)
  have again: "zp_setup_options_table f ?t = ?t"
  proof (rule nth_equalityI)
    fix i
    assume "i < length (zp_setup_options_table f ?t)"
    then have "i < 64" by (simp add: zp_setup_options_table_def opt_table0_def)
    then show "zp_setup_options_table f ?t ! i = ?t ! i"
      by (simp add: setup_table_nth [OF len] nth)
  qed (simp add: zp_setup_options_table_def)
  have other: "zp_conv_opt ?t n = 0" if "n \<notin> snd ` set zp_options" for n
  proof (cases "n = 0")
    case False
    with that show ?thesis by (auto simp: zp_conv_opt_def zp_options_def option_enum)
  qed (simp add: zp_conv_opt_def option_enum nth opt_answer_def)
  show ?thesis
    using len again other
    by (auto simp: Let_def zp_options_def zp_conv_opt_def option_enum nth opt_answer_def)
qed

theorem zp_options_mapped_witness:
  "let tbl = zp_setup_options_table (\<lambda>n. if n = ''path_dirs'' then 117 else -1) opt_table0
   in zp_conv_opt tbl PATHDIRS = 117 \<and> zp_conv_opt tbl SOURCETRACE = 0 \<and> zp_conv_opt tbl 9 = 0"
proof -
  let ?f = "\<lambda>n. if n = ''path_dirs'' then 117 else (-1::int)"
  have m: "(''path_dirs'', PATHDIRS) \<in> set zp_options" "(''source_trace'', SOURCETRACE) \<in> set zp_options"
    "(9::int) \<notin> snd ` set zp_options"
    by (simp_all add: zp_options_def option_enum)
  show ?thesis
    using zp_options_mapped [of ?f] m by (fastforce simp: Let_def)
qed

end
