(* ===== verification/Zp_Clock.thy ===== *)
theory Zp_Clock
  imports Zp_Prelude
begin

text \<open>
  \<open>src/include/zpmod_clock.h\<close>: the elapsed nanoseconds between two clock samples, computed in
  \<open>unsigned long long\<close> arithmetic (64 bits, wrapping), or a refusal.
\<close>

definition zp_elapsed_ns :: "int \<Rightarrow> int \<Rightarrow> int \<Rightarrow> int \<Rightarrow> u64 option" where
  "zp_elapsed_ns start_sec start_ns end_sec end_ns =
     (if start_sec < 0 \<or> end_sec < start_sec \<or> start_ns < 0 \<or> start_ns \<ge> 1000000000 \<or>
         end_ns < 0 \<or> end_ns \<ge> 1000000000 \<or> (end_sec = start_sec \<and> end_ns < start_ns)
      then None
      else
        let seconds0 = (word_of_int end_sec :: u64) - word_of_int start_sec;
            nanos0 = end_ns - start_ns;
            seconds = (if nanos0 < 0 then seconds0 - 1 else seconds0);
            nanos = (if nanos0 < 0 then nanos0 + 1000000000 else nanos0)
        in if seconds > (word_of_int ULONG_MAX - word_of_int nanos) div 1000000000 then None
           else Some (seconds * 1000000000 + word_of_int nanos))"

section \<open>The specification\<close>

text \<open>Two samples of a clock that counts forwards from zero, and the interval they bound.\<close>

definition valid_interval :: "int \<Rightarrow> int \<Rightarrow> int \<Rightarrow> int \<Rightarrow> bool" where
  "valid_interval ss sn es en \<longleftrightarrow>
     0 \<le> ss \<and> 0 \<le> sn \<and> sn < 1000000000 \<and> 0 \<le> en \<and> en < 1000000000 \<and>
     ss * 1000000000 + sn \<le> es * 1000000000 + en"

definition interval_ns :: "int \<Rightarrow> int \<Rightarrow> int \<Rightarrow> int \<Rightarrow> int" where
  "interval_ns ss sn es en = (es * 1000000000 + en) - (ss * 1000000000 + sn)"

text \<open>Words that hold a number below \<open>2^64\<close> compute as that number while nothing overflows.\<close>

lemma uint_small: "0 \<le> x \<Longrightarrow> x \<le> ULONG_MAX \<Longrightarrow> uint (word_of_int x :: u64) = x"
  by (simp add: c_limits unsigned_of_int take_bit_int_eq_self)

lemma div_less_numeral: "a div 1000000000 < s \<longleftrightarrow> a < s * 1000000000" for a s :: int
proof -
  have a: "a = a div 1000000000 * 1000000000 + a mod 1000000000"
    and m: "0 \<le> a mod 1000000000" "a mod 1000000000 < 1000000000" by simp_all
  show ?thesis
  proof
    assume "a div 1000000000 < s"
    then show "a < s * 1000000000" using a m by linarith
  next
    assume "a < s * 1000000000"
    then show "a div 1000000000 < s" using a m by linarith
  qed
qed

lemma elapsed_words:
  fixes s n :: int
  assumes s: "0 \<le> s" "s \<le> LONG_MAX" and n: "0 \<le> n" "n < 1000000000"
  shows "((word_of_int ULONG_MAX - word_of_int n) div 1000000000 < (word_of_int s :: u64)) \<longleftrightarrow>
           ULONG_MAX < s * 1000000000 + n"
    and "s * 1000000000 + n \<le> ULONG_MAX \<Longrightarrow>
           uint (word_of_int s * 1000000000 + (word_of_int n :: u64)) = s * 1000000000 + n"
proof -
  have "(word_of_int ULONG_MAX - word_of_int n :: u64) = word_of_int (ULONG_MAX - n)"
    by simp
  moreover have "uint (word_of_int (ULONG_MAX - n) :: u64) = ULONG_MAX - n"
    using n by (intro uint_small) (simp_all add: c_limits)
  ultimately have q: "uint ((word_of_int ULONG_MAX - word_of_int n :: u64) div 1000000000) =
      (ULONG_MAX - n) div 1000000000"
    by (simp add: uint_div)
  have us: "uint (word_of_int s :: u64) = s" using s by (intro uint_small) (auto simp: c_limits)
  have "(ULONG_MAX - n) div 1000000000 < s \<longleftrightarrow> ULONG_MAX - n < s * 1000000000"
    by (rule div_less_numeral)
  then show "((word_of_int ULONG_MAX - word_of_int n) div 1000000000 < (word_of_int s :: u64)) \<longleftrightarrow>
      ULONG_MAX < s * 1000000000 + n"
    unfolding word_less_def q us by linarith
  assume le: "s * 1000000000 + n \<le> ULONG_MAX"
  have "word_of_int s * 1000000000 + (word_of_int n :: u64) = word_of_int (s * 1000000000 + n)"
    by simp
  then show "uint (word_of_int s * 1000000000 + (word_of_int n :: u64)) = s * 1000000000 + n"
    using s n le by (simp only:) (intro uint_small; simp)
qed

lemma elapsed_guard:
  "(start_sec < 0 \<or> end_sec < start_sec \<or> start_ns < 0 \<or> start_ns \<ge> 1000000000 \<or>
    end_ns < 0 \<or> end_ns \<ge> 1000000000 \<or> (end_sec = start_sec \<and> end_ns < start_ns)) \<longleftrightarrow>
   \<not> valid_interval start_sec start_ns end_sec end_ns"
proof (cases "start_sec < 0 \<or> start_ns < 0 \<or> start_ns \<ge> 1000000000 \<or> end_ns < 0 \<or> end_ns \<ge> 1000000000")
  case False
  then have b: "0 \<le> start_sec" "0 \<le> start_ns" "start_ns < 1000000000" "0 \<le> end_ns"
    "end_ns < 1000000000" by simp_all
  consider "end_sec < start_sec" | "end_sec = start_sec" | "start_sec < end_sec" by linarith
  then show ?thesis
  proof cases
    case 1
    with b have "\<not> valid_interval start_sec start_ns end_sec end_ns"
      by (simp add: valid_interval_def)
    with 1 show ?thesis by blast
  next
    case 2
    with b show ?thesis by (auto simp: valid_interval_def)
  next
    case 3
    with b have "valid_interval start_sec start_ns end_sec end_ns"
      by (simp add: valid_interval_def)
    with 3 b show ?thesis by simp
  qed
qed (auto simp: valid_interval_def)

lemma elapsed_borrow:
  "(word_of_int es :: u64) - word_of_int ss = word_of_int (es - ss)"
  "(word_of_int x :: u64) - 1 = word_of_int (x - 1)"
  by simp_all

lemma elapsed_exact:
  assumes "end_sec \<le> LONG_MAX"
  shows "zp_elapsed_ns ss sn end_sec en = Some e \<longleftrightarrow>
     valid_interval ss sn end_sec en \<and> interval_ns ss sn end_sec en \<le> ULONG_MAX \<and>
     uint e = interval_ns ss sn end_sec en"
proof (cases "valid_interval ss sn end_sec en")
  case True
  define n where "n = (if en - sn < 0 then en - sn + 1000000000 else en - sn)"
  define s where "s = (if en - sn < 0 then end_sec - ss - 1 else end_sec - ss)"
  have sn: "0 \<le> s" "s \<le> LONG_MAX" "0 \<le> n" "n < 1000000000"
    and i: "interval_ns ss sn end_sec en = s * 1000000000 + n"
    using True assms elapsed_guard [of ss end_sec sn en]
    by (simp_all add: s_def n_def valid_interval_def interval_ns_def)
  have "zp_elapsed_ns ss sn end_sec en =
      (if (word_of_int ULONG_MAX - word_of_int n) div 1000000000 < (word_of_int s :: u64) then None
       else Some (word_of_int s * 1000000000 + word_of_int n))"
    using True elapsed_guard [of ss end_sec sn en]
    by (cases "en - sn < 0")
      (simp_all only: zp_elapsed_ns_def not_True_eq_False if_True if_False Let_def elapsed_borrow
        s_def n_def)
  then have z: "zp_elapsed_ns ss sn end_sec en =
      (if ULONG_MAX < s * 1000000000 + n then None
       else Some (word_of_int s * 1000000000 + word_of_int n))"
    by (simp only: elapsed_words(1) [OF sn])
  show ?thesis
  proof (cases "ULONG_MAX < s * 1000000000 + n")
    case True
    with z i show ?thesis by simp
  next
    case False
    with elapsed_words(2) [OF sn] have
      "uint (word_of_int s * 1000000000 + (word_of_int n :: u64)) = s * 1000000000 + n" by simp
    with z i False True show ?thesis by (auto simp: word_uint_eq_iff)
  qed
next
  case False
  then show ?thesis
    using elapsed_guard [of ss end_sec sn en] by (simp add: zp_elapsed_ns_def)
qed

section \<open>Property\<close>

text \<open>
  C38: For clock samples in the range of their types the function answers exactly when the samples
  are well formed, do not run backwards and their distance fits 64 unsigned bits; the answer is
  that distance in nanoseconds, without wrap-around and without truncation.
\<close>

theorem zp_elapsed_ns_correct:
  assumes "end_sec \<le> LONG_MAX"
  shows "zp_elapsed_ns ss sn end_sec en = Some e \<longleftrightarrow>
     valid_interval ss sn end_sec en \<and> interval_ns ss sn end_sec en \<le> ULONG_MAX \<and>
     uint e = interval_ns ss sn end_sec en"
  by (rule elapsed_exact [OF assms])

theorem zp_elapsed_ns_correct_witness:
  "(11::int) \<le> LONG_MAX \<and> zp_elapsed_ns 10 999999999 11 0 = Some 1 \<and>
   zp_elapsed_ns 10 1 10 0 = None"
proof -
  have l: "(11::int) \<le> LONG_MAX" "(10::int) \<le> LONG_MAX" by (simp_all add: c_limits)
  have "zp_elapsed_ns 10 999999999 11 0 = Some 1"
    using zp_elapsed_ns_correct [OF l(1), of 10 999999999 0 1]
    by (simp add: valid_interval_def interval_ns_def c_limits)
  moreover have "zp_elapsed_ns 10 1 10 0 \<noteq> Some e" for e
    using zp_elapsed_ns_correct [OF l(2), of 10 1 0 e] by (simp add: valid_interval_def)
  then have "zp_elapsed_ns 10 1 10 0 = None" by (cases "zp_elapsed_ns 10 1 10 0") auto
  ultimately show ?thesis using l by simp
qed

end
