(* ===== verification/Zp_Shell.thy ===== *)
theory Zp_Shell
  imports Zp_World Zp_Options Zp_Clock
begin

text \<open>
  The state of the hosting shell that \<open>src/core/source.c\<close> reads and writes: a \<^typ>\<open>world\<close>
  extended with the mapped \<open>.zwc\<close> dumps, the globals that sourcing a script saves and
  restores, and the module's profile (its event table and counters).
\<close>

text \<open>A mapped dump file (zsh's \<open>struct funcdump\<close>): the words visible from its header on.\<close>

record funcdump =
  fd_filename :: string
  fd_dev :: u64
  fd_ino :: u64
  fd_map :: "u32 list"
  fd_len :: int
  fd_count :: nat

text \<open>\<open>struct source_event\<close> of \<open>src/include/zpmod_source.h\<close>.\<close>

record source_event =
  ev_id :: int
  ev_file_name :: string
  ev_full_path :: string
  ev_duration_ns :: u64
  ev_timing_valid :: bool
  ev_depth :: int
  ev_exit_status :: int
  ev_load_error :: int

text \<open>
  The static state of \<open>source.c\<close>: the event table (absent when it could not be created), keyed
  by the decimal event number, the number of events, the nesting depth and the loss flag.
\<close>

record profile =
  zp_source_events :: "(string \<rightharpoonup> source_event) option"
  zp_sevent_count :: int
  zp_source_depth :: int
  zp_profile_incomplete :: bool

datatype frame_kind = FS_SOURCE | FS_FUNC | FS_EVAL

record frame =
  fs_name :: "string option"
  fs_caller :: "string option"
  fs_flineno :: int
  fs_lineno :: int
  fs_filename :: "string option"
  fs_tp :: frame_kind

record shell = world +
  sh_dumps :: "funcdump list"
  sh_mmap_ok :: "string \<Rightarrow> bool"
  sh_pwd :: string
  sh_path :: "string list"
  sh_opts :: "int \<Rightarrow> int"
  sh_opt_table :: "int list"
  sh_pparams :: "string list"
  sh_argzero :: string
  sh_scriptname :: "string option"
  sh_scriptfilename :: "string option"
  sh_SHIN :: int
  sh_shinbufs :: nat
  sh_subsh :: int
  sh_thisjob :: int
  sh_lineno :: int
  sh_loops :: int
  sh_cmdstack :: "nat list"
  sh_trap_state :: int
  sh_trap_return :: int
  sh_sourcelevel :: int
  sh_funcstack :: "frame list"
  sh_errflag :: int
  sh_retflag :: int
  sh_exit_pending :: int
  sh_lastval :: int
  sh_profile :: profile
  sh_clock :: "nat \<Rightarrow> (int \<times> int) option"
  sh_ticks :: nat

text \<open>A shell at the start of a session, with an empty event table.\<close>

definition profile0 :: profile where
  "profile0 = \<lparr>zp_source_events = Some Map.empty, zp_sevent_count = 0, zp_source_depth = 0,
               zp_profile_incomplete = False\<rparr>"

definition shell0 :: shell where
  "shell0 = world.extend world0
     \<lparr>sh_dumps = [], sh_mmap_ok = (\<lambda>_. True), sh_pwd = ''/home/u'', sh_path = [''/bin''],
      sh_opts = (\<lambda>_. 0), sh_opt_table = opt_table0, sh_pparams = [], sh_argzero = ''zsh'',
      sh_scriptname = None, sh_scriptfilename = None, sh_SHIN = 0, sh_shinbufs = 0, sh_subsh = 0, sh_thisjob = -1,
      sh_lineno = 1, sh_loops = 0, sh_cmdstack = [], sh_trap_state = 0, sh_trap_return = 0,
      sh_sourcelevel = 0, sh_funcstack = [], sh_errflag = 0, sh_retflag = 0, sh_exit_pending = 0,
      sh_lastval = 0, sh_profile = profile0, sh_clock = (\<lambda>n. Some (int n, 0)), sh_ticks = 0\<rparr>"

text \<open>\<open>isset (zp_conv_opt (o))\<close>\<close>

definition opt_set :: "shell \<Rightarrow> int \<Rightarrow> bool" where
  "opt_set sh n \<longleftrightarrow> sh_opts sh (zp_conv_opt (sh_opt_table sh) n) \<noteq> 0"

end
