(* ===== verification/Zp_Zwc.thy ===== *)
theory Zp_Zwc
  imports Zp_Shell
begin

text \<open>
  The \<open>.zwc\<close> side of \<open>src/core/source.c\<close>: reading the header of a compiled dump, finding a
  script in it by name, mapping the file, and building the program to execute.  A dump is a list
  of 32-bit words in the byte order of the machine (little endian).  A result is a value, NULL, or
  a fault: the C code would read or write outside an object there.  The search over the headers
  follows lengths stored in the file; it is an option function, \<open>None\<close> standing for a search
  that does not end.
\<close>

datatype 'a zres = ZOk 'a | ZNull | ZFault

definition FD_PRELEN :: nat where "FD_PRELEN = 12"
definition FD_MAGIC :: u32 where "FD_MAGIC = 67438087"
definition FD_OMAGIC :: u32 where "FD_OMAGIC = 117835012"
definition FDF_MAP :: nat where "FDF_MAP = 1"
definition FDF_OTHER :: nat where "FDF_OTHER = 2"
definition FD_EXT :: string where "FD_EXT = ''.zwc''"

lemmas fd_consts = FD_PRELEN_def FD_MAGIC_def FD_OMAGIC_def FDF_MAP_def FDF_OTHER_def

section \<open>Words and bytes\<close>

fun words_of_bytes :: "string \<Rightarrow> u32 list" where
  "words_of_bytes (a # b # c # d # r) =
     word_of_nat (of_char a + 256 * of_char b + 65536 * of_char c + 16777216 * of_char d)
     # words_of_bytes r"
| "words_of_bytes _ = []"

definition bytes_of_word :: "u32 \<Rightarrow> string" where
  "bytes_of_word w = (let n = unat w in
     [char_of (n mod 256), char_of (n div 256 mod 256), char_of (n div 65536 mod 256),
      char_of (n div 16777216)])"

definition bytes_of_words :: "u32 list \<Rightarrow> string" where
  "bytes_of_words ws = concat (map bytes_of_word ws)"

section \<open>Fields of a dump\<close>

definition FDHEADERLEN :: "u32 list \<Rightarrow> nat" where "FDHEADERLEN d = unat (d ! FD_PRELEN)"
definition FDMAGIC :: "u32 list \<Rightarrow> u32" where "FDMAGIC d = d ! 0"
definition FDFLAGS :: "u32 list \<Rightarrow> nat" where "FDFLAGS d = unat (d ! 1) mod 256"
definition FDOTHER :: "u32 list \<Rightarrow> nat" where "FDOTHER d = unat (d ! 1) div 256"
definition FDVERSION :: "string \<Rightarrow> string" where "FDVERSION buf = cstr (drop 8 buf)"
definition fd_flag :: "u32 list \<Rightarrow> nat \<Rightarrow> bool" where "fd_flag d b \<longleftrightarrow> FDFLAGS d div b mod 2 = 1"

text \<open>\<open>struct fdhead\<close> at word \<open>n\<close>; its name starts six words on, its tail \<open>flags >> 2\<close> bytes later.\<close>

definition h_start :: "u32 list \<Rightarrow> nat \<Rightarrow> nat" where "h_start d n = unat (d ! n)"
definition h_len :: "u32 list \<Rightarrow> nat \<Rightarrow> nat" where "h_len d n = unat (d ! (n + 1))"
definition h_npats :: "u32 list \<Rightarrow> nat \<Rightarrow> nat" where "h_npats d n = unat (d ! (n + 2))"
definition h_strs :: "u32 list \<Rightarrow> nat \<Rightarrow> nat" where "h_strs d n = unat (d ! (n + 3))"
definition h_hlen :: "u32 list \<Rightarrow> nat \<Rightarrow> nat" where "h_hlen d n = unat (d ! (n + 4))"
definition h_flags :: "u32 list \<Rightarrow> nat \<Rightarrow> nat" where "h_flags d n = unat (d ! (n + 5))"

definition h_name_mem :: "u32 list \<Rightarrow> nat \<Rightarrow> string" where
  "h_name_mem d n = drop (4 * (n + 6) + h_flags d n div 4) (bytes_of_words d)"

text \<open>\<open>strcmp\<close> of a C string with memory: \<open>None\<close> where it reads past the end.\<close>

fun mem_strcmp :: "string \<Rightarrow> string \<Rightarrow> bool option" where
  "mem_strcmp [] nm = None"
| "mem_strcmp (m # ms) [] = Some (m = nul)"
| "mem_strcmp (m # ms) (c # cs) = (if m \<noteq> c then Some False else mem_strcmp ms cs)"

section \<open>custom_dump_find_func\<close>

partial_function (option) find_from :: "u32 list \<Rightarrow> nat \<Rightarrow> string \<Rightarrow> nat \<Rightarrow> nat zres option" where
  "find_from d e name n =
     (if n \<ge> e then Some ZNull
      else if length d < n + 6 then Some ZFault
      else (case mem_strcmp (h_name_mem d n) name of
              None \<Rightarrow> Some ZFault
            | Some eq \<Rightarrow> if eq then Some (ZOk n) else find_from d e name (n + h_hlen d n)))"

definition custom_dump_find_func :: "u32 list \<Rightarrow> string \<Rightarrow> nat zres option" where
  "custom_dump_find_func d name =
     (if length d \<le> FD_PRELEN then Some ZFault
      else find_from d (FDHEADERLEN d) name FD_PRELEN)"

section \<open>custom_load_dump_header\<close>

text \<open>Without a parameter ZSH_VERSION the version is compared with NULL, which is a fault.\<close>

text \<open>The bytes \<open>read\<close> returns at an offset.\<close>

definition read_at :: "string \<Rightarrow> nat \<Rightarrow> nat \<Rightarrow> string" where
  "read_at dat off n = take n (drop off dat)"

definition prelude_bytes :: nat where "prelude_bytes = 52"

text \<open>The part after the magic number and version have been accepted: \<open>o\<close> is where the header
  that fits this machine starts.\<close>

definition load_header_at :: "string \<Rightarrow> nat \<Rightarrow> u32 list zres" where
  "load_header_at dat off =
     (let buf = read_at dat off prelude_bytes in
      if length buf \<noteq> prelude_bytes then ZNull
      else let len = to_int (4 * int (FDHEADERLEN (words_of_bytes buf))) in
           if len < int prelude_bytes then ZFault
           else let rest = nat len - prelude_bytes;
                    got = read_at dat (off + prelude_bytes) rest
                in if length got \<noteq> rest then ZNull else ZOk (words_of_bytes (buf @ got)))"

definition custom_load_dump_header ::
    "string \<Rightarrow> string \<Rightarrow> bool \<Rightarrow> 'a world_scheme \<Rightarrow> u32 list zres \<times> 'a world_scheme" where
  "custom_load_dump_header nam name err w =
     (case w_data w name of
        Inl _ \<Rightarrow> (ZNull, if err then zwarnnam nam (''292: can't open zwc file: '' @ name) w else w)
      | Inr dat \<Rightarrow>
          let buf = read_at dat 0 prelude_bytes;
              d = words_of_bytes buf;
              short = (length buf \<noteq> prelude_bytes);
              bad_magic = (\<not> short \<and> FDMAGIC d \<noteq> FD_MAGIC \<and> FDMAGIC d \<noteq> FD_OMAGIC);
              bad_version = (w_sparam w ''ZSH_VERSION'' \<noteq> Some (FDVERSION buf))
          in if \<not> short \<and> \<not> bad_magic \<and> w_sparam w ''ZSH_VERSION'' = None then (ZFault, w)
             else if short \<or> bad_magic \<or> bad_version then
               (ZNull,
                if err then
                  (if \<not> short \<and> \<not> bad_magic
                   then zwarnnam nam (''300: zwc file has wrong version (zsh-'' @ FDVERSION buf @ ''): '' @ name) w
                   else zwarnnam nam (''302: invalid zwc file: '' @ name) w)
                else w)
             else if FDMAGIC d = FD_MAGIC then
               (let r = load_header_at dat 0
                in (r, if r = ZNull then zwarnnam nam (''327: invalid zwc file: '' @ name) w else w))
             else
               (let off = FDOTHER d; r = load_header_at dat off
                in (r, if r = ZNull
                       then zwarnnam nam ((if length (read_at dat off prelude_bytes) \<noteq> prelude_bytes
                              then ''316: invalid zwc file: '' else ''327: invalid zwc file: '') @ name) w
                       else w)))"

section \<open>custom_zwcstat\<close>

text \<open>Metadata of the file, or of a mapped dump whose name is a prefix of the file's.\<close>

definition custom_zwcstat :: "(funcdump \<Rightarrow> stat option) \<Rightarrow> string \<Rightarrow> shell \<Rightarrow> stat option" where
  "custom_zwcstat fstat filename sh =
     (case w_stat sh filename of
        Inr st \<Rightarrow> Some st
      | Inl _ \<Rightarrow>
          (case find (\<lambda>f. starts_with (fd_filename f) filename \<and> fstat f \<noteq> None) (sh_dumps sh) of
             None \<Rightarrow> None
           | Some f \<Rightarrow> fstat f))"

section \<open>custom_load_dump_file\<close>

definition page_size :: nat where "page_size = 4096"

definition page_up :: "nat \<Rightarrow> nat" where
  "page_up n = (n + page_size - 1) div page_size * page_size"

text \<open>What a mapping of \<open>mlen\<close> bytes from the page offset \<open>off\<close> lets the program read: whole
  pages, with zero bytes after the end of the file up to the end of its last page.  A read beyond
  that is a fault; the words below end there.  A mapping of length zero fails.\<close>

definition mapped_pages :: "string \<Rightarrow> nat \<Rightarrow> nat \<Rightarrow> string" where
  "mapped_pages dat off mlen =
     (let rest = drop off dat
      in take (page_up mlen) (rest @ replicate (page_up (length rest) - length rest) nul))"

definition custom_load_dump_file :: "string \<Rightarrow> stat \<Rightarrow> bool \<Rightarrow> nat \<Rightarrow> shell \<Rightarrow> shell" where
  "custom_load_dump_file dump sbuf other len sh =
     (let off = (if other then len - len mod page_size else 0);
          mlen = (if other then len + (len - off) else len)
      in case w_data sh dump of
           Inl _ \<Rightarrow> sh
         | Inr dat \<Rightarrow>
             if mlen = 0 \<or> \<not> sh_mmap_ok sh dump then sh
             else let addr = words_of_bytes (mapped_pages dat off mlen);
                      d = \<lparr>fd_filename = dump, fd_dev = st_dev sbuf, fd_ino = st_ino sbuf,
                           fd_map = drop (if other then (len - off) div 4 else 0) addr,
                           fd_len = int len, fd_count = 0\<rparr>
                  in sh\<lparr>sh_dumps := d # sh_dumps sh\<rparr>)"

section \<open>custom_check_dump_file\<close>

datatype prog_kind = EF_MAP | EF_REAL

text \<open>A program: its kind, recorded length, patterns, code bytes and string offset.\<close>

datatype eprog = Dummy_eprog
  | Eprog (ep_kind: prog_kind) (ep_len: nat) (ep_npats: nat) (ep_code: string) (ep_strs: nat)

text \<open>Autoload style a dump header records: 2 ksh, 0 zsh, 1 unspecified.\<close>

definition custom_dump_ksh_mode :: "u32 list \<Rightarrow> nat \<Rightarrow> int" where
  "custom_dump_ksh_mode d n =
     (if h_flags d n mod 2 = 1 then 2 else if h_flags d n div 2 mod 2 = 1 then 0 else 1)"

definition find_dump :: "stat \<Rightarrow> funcdump list \<Rightarrow> funcdump option" where
  "find_dump sbuf ds = find (\<lambda>f. fd_dev f = st_dev sbuf \<and> fd_ino f = st_ino sbuf) ds"

fun incrdumpcount :: "stat \<Rightarrow> funcdump list \<Rightarrow> funcdump list" where
  "incrdumpcount sbuf [] = []"
| "incrdumpcount sbuf (f # fs) =
     (if fd_dev f = st_dev sbuf \<and> fd_ino f = st_ino sbuf then f\<lparr>fd_count := fd_count f + 1\<rparr> # fs
      else f # incrdumpcount sbuf fs)"

text \<open>A script found in a mapped dump.  The number of patterns is read as an \<open>int\<close>: from a negative
  one the slots are filled beyond their block.\<close>

definition mapped_prog :: "u32 list \<Rightarrow> nat \<Rightarrow> eprog zres" where
  "mapped_prog d h =
     (if 2147483648 \<le> h_npats d h then ZFault
      else ZOk (Eprog EF_MAP (h_len d h) (h_npats d h)
        (take (h_len d h) (drop (4 * h_start d h) (bytes_of_words d))) (h_strs d h)))"

text \<open>A script read from the file: pattern slots and code share one allocation of
  \<open>h->len + po\<close> bytes, computed in 32 unsigned bits.\<close>

definition real_prog :: "string \<Rightarrow> u32 list \<Rightarrow> nat \<Rightarrow> eprog zres" where
  "real_prog dat d h =
     (let po = to_int (8 * int (h_npats d h));
          size = (int (h_len d h) + po) mod 4294967296;
          got = read_at dat (4 * h_start d h + (if fd_flag d FDF_OTHER then FDOTHER d else 0)) (h_len d h)
      in if po < 0 \<or> size < po + int (length got) then ZFault
         else if int (length got) \<noteq> to_int (int (h_len d h)) then ZNull
         else ZOk (Eprog EF_REAL (nat size) (h_npats d h) got (h_strs d h)))"

text \<open>From the label \<open>rec\<close> on; \<open>isrec\<close> says that the dump has just been mapped.\<close>

definition check_mapped ::
    "stat \<Rightarrow> string \<Rightarrow> bool \<Rightarrow> shell \<Rightarrow> funcdump \<Rightarrow> (eprog zres \<times> shell) option" where
  "check_mapped sbuf name test_only sh f =
     (case custom_dump_find_func (fd_map f) name of
        None \<Rightarrow> None
      | Some ZFault \<Rightarrow> Some (ZFault, sh)
      | Some ZNull \<Rightarrow> Some (ZNull, sh)
      | Some (ZOk h) \<Rightarrow>
          Some (if test_only then (ZOk Dummy_eprog, sh)
                else (mapped_prog (fd_map f) h, sh\<lparr>sh_dumps := incrdumpcount sbuf (sh_dumps sh)\<rparr>)))"

definition check_unmapped ::
    "string \<Rightarrow> stat \<Rightarrow> string \<Rightarrow> bool \<Rightarrow> shell \<Rightarrow> (eprog zres \<times> shell) option" where
  "check_unmapped file sbuf name test_only sh =
     (case custom_load_dump_header [] file False sh of
        (ZFault, sh1) \<Rightarrow> Some (ZFault, sh1)
      | (ZNull, sh1) \<Rightarrow> Some (ZNull, sh1)
      | (ZOk d, sh1) \<Rightarrow>
          (case custom_dump_find_func d name of
             None \<Rightarrow> None
           | Some ZFault \<Rightarrow> Some (ZFault, sh1)
           | Some ZNull \<Rightarrow> Some (ZNull, sh1)
           | Some (ZOk h) \<Rightarrow>
               if test_only then Some (ZOk Dummy_eprog, sh1)
               else if fd_flag d FDF_MAP then
                 (let sh2 = custom_load_dump_file file sbuf (fd_flag d FDF_OTHER) (FDOTHER d) sh1
                  in case find_dump sbuf (sh_dumps sh2) of
                       None \<Rightarrow> Some (ZNull, sh2)
                     | Some f \<Rightarrow> check_mapped sbuf name test_only sh2 f)
               else (case w_data sh1 file of
                       Inl _ \<Rightarrow> Some (ZNull, sh1)
                     | Inr dat \<Rightarrow> Some (real_prog dat d h, sh1))))"

definition custom_check_dump_file ::
    "(funcdump \<Rightarrow> stat option) \<Rightarrow> string \<Rightarrow> stat option \<Rightarrow> string \<Rightarrow> bool \<Rightarrow> shell \<Rightarrow>
       (eprog zres \<times> shell) option" where
  "custom_check_dump_file fstat file sbuf name test_only sh =
     (case (case sbuf of Some st \<Rightarrow> Some st | None \<Rightarrow> custom_zwcstat fstat file sh) of
        None \<Rightarrow> Some (ZNull, sh)
      | Some st \<Rightarrow>
          (case find_dump st (sh_dumps sh) of
             Some f \<Rightarrow> check_mapped st name test_only sh f
           | None \<Rightarrow> check_unmapped file st name test_only sh))"

section \<open>Lemmas\<close>

lemma words_append:
  "4 dvd length a \<Longrightarrow> words_of_bytes (a @ b) = words_of_bytes a @ words_of_bytes b"
proof (induction a rule: words_of_bytes.induct)
  case (1 a b c d r)
  then have "4 dvd length r" by simp presburger
  with 1 show ?case by simp
qed (auto dest: dvd_imp_le)

lemma length_words [simp]: "length (words_of_bytes s) = length s div 4"
  by (induction s rule: words_of_bytes.induct) auto

lemma mem_strcmp_cstring:
  "nul \<notin> set nm \<Longrightarrow> nul \<notin> set name \<Longrightarrow> take (length nm + 1) mem = nm @ [nul] \<Longrightarrow>
     mem_strcmp mem name = Some (nm = name)"
proof (induction mem name arbitrary: nm rule: mem_strcmp.induct)
  case (2 m ms)
  then show ?case by (cases nm) auto
next
  case (3 m ms c cs)
  then show ?case by (cases nm) auto
qed simp

text \<open>The headers that a search from word \<open>n\<close> visits, with the name each one carries.\<close>

fun heads_at :: "u32 list \<Rightarrow> nat \<Rightarrow> nat \<Rightarrow> (nat \<times> string) list \<Rightarrow> bool" where
  "heads_at d e n [] \<longleftrightarrow> e \<le> n"
| "heads_at d e n ((p, nm) # es) \<longleftrightarrow>
     p = n \<and> n < e \<and> n + 6 \<le> length d \<and> nul \<notin> set nm \<and>
     take (length nm + 1) (h_name_mem d n) = nm @ [nul] \<and> heads_at d e (n + h_hlen d n) es"

lemma find_from_heads:
  assumes "heads_at d e n es" "nul \<notin> set name"
  shows "find_from d e name n =
    Some (case find (\<lambda>(p, nm). nm = name) es of None \<Rightarrow> ZNull | Some (p, _) \<Rightarrow> ZOk p)"
  using assms
proof (induction d e n es rule: heads_at.induct)
  case (1 d e n)
  then show ?case by (simp add: find_from.simps)
next
  case (2 d e n p nm es)
  then have "mem_strcmp (h_name_mem d n) name = Some (nm = name)"
    by (intro mem_strcmp_cstring) auto
  with 2 show ?case by (subst find_from.simps) auto
qed

lemma find_from_stuck:
  assumes "find_from d e name n = Some r"
  shows "\<not> (n < e \<and> n + 6 \<le> length d \<and> mem_strcmp (h_name_mem d n) name = Some False \<and>
            h_hlen d n = 0)"
proof (rule find_from.raw_induct [where P = "\<lambda>d e name n r. \<not> (n < e \<and> n + 6 \<le> length d \<and>
    mem_strcmp (h_name_mem d n) name = Some False \<and> h_hlen d n = 0)", OF _ assms])
  fix f :: "u32 list \<Rightarrow> nat \<Rightarrow> string \<Rightarrow> nat \<Rightarrow> nat zres option" and d e name n r
  assume IH: "\<And>d e name n r. f d e name n = Some r \<Longrightarrow> \<not> (n < e \<and> n + 6 \<le> length d \<and>
      mem_strcmp (h_name_mem d n) name = Some False \<and> h_hlen d n = 0)"
    and eq: "(if n \<ge> e then Some ZNull
      else if length d < n + 6 then Some ZFault
      else (case mem_strcmp (h_name_mem d n) name of
              None \<Rightarrow> Some ZFault
            | Some eq \<Rightarrow> if eq then Some (ZOk n) else f d e name (n + h_hlen d n))) = Some r"
  show "\<not> (n < e \<and> n + 6 \<le> length d \<and> mem_strcmp (h_name_mem d n) name = Some False \<and>
      h_hlen d n = 0)"
  proof
    assume a: "n < e \<and> n + 6 \<le> length d \<and> mem_strcmp (h_name_mem d n) name = Some False \<and>
      h_hlen d n = 0"
    with eq have "f d e name n = Some r" by simp
    with IH a show False by blast
  qed
qed

text \<open>A search that has come to a header goes on as a search from there.\<close>

inductive visits :: "u32 list \<Rightarrow> string \<Rightarrow> nat \<Rightarrow> bool" for d name where
  first: "visits d name FD_PRELEN"
| step: "visits d name n \<Longrightarrow> n < FDHEADERLEN d \<Longrightarrow> n + 6 \<le> length d \<Longrightarrow>
     mem_strcmp (h_name_mem d n) name = Some False \<Longrightarrow> visits d name (n + h_hlen d n)"

lemma find_from_visits:
  "visits d name n \<Longrightarrow> find_from d (FDHEADERLEN d) name FD_PRELEN = find_from d (FDHEADERLEN d) name n \<and> FD_PRELEN \<le> n"
proof (induction rule: visits.induct)
  case (step n)
  then have "find_from d (FDHEADERLEN d) name n = find_from d (FDHEADERLEN d) name (n + h_hlen d n)"
    by (subst find_from.simps) simp
  with step show ?case by simp
qed simp

lemma find_from_ends:
  assumes "\<not> (\<exists>n. visits d name n \<and> n < FDHEADERLEN d \<and> n + 6 \<le> length d \<and>
      mem_strcmp (h_name_mem d n) name = Some False \<and> h_hlen d n = 0)" "visits d name n"
  shows "\<exists>r. find_from d (FDHEADERLEN d) name n = Some r"
  using assms(2)
proof (induction "FDHEADERLEN d - n" arbitrary: n rule: less_induct)
  case less
  show ?case
  proof (cases "n < FDHEADERLEN d \<and> n + 6 \<le> length d \<and> mem_strcmp (h_name_mem d n) name = Some False")
    case True
    with assms(1) less.prems have "FDHEADERLEN d - (n + h_hlen d n) < FDHEADERLEN d - n" by fastforce
    moreover have "visits d name (n + h_hlen d n)" using True less.prems by (blast intro: visits.step)
    ultimately obtain r where "find_from d (FDHEADERLEN d) name (n + h_hlen d n) = Some r"
      using less.hyps by blast
    with True show ?thesis by (subst find_from.simps) simp
  next
    case False
    then show ?thesis by (subst find_from.simps) (auto split: option.split)
  qed
qed

text \<open>A header length that fits the \<open>int\<close> it is stored in survives the conversion.\<close>

lemma to_int_len: "52 \<le> to_int (4 * n) \<Longrightarrow> 0 \<le> n \<Longrightarrow> n < 1073741824 \<Longrightarrow> to_int (4 * n) = 4 * n"
proof -
  assume a: "52 \<le> to_int (4 * n)" "0 \<le> n" "n < 1073741824"
  show ?thesis
  proof (cases "n < 536870912")
    case True
    with a show ?thesis by (intro to_int_id) (simp_all add: c_limits)
  next
    case False
    have "(4 * n + 2147483648) mod 4294967296 = (4 * n + 2147483648 - 4294967296) mod 4294967296"
      by (simp only: minus_mod_self2)
    also have "\<dots> = 4 * n + 2147483648 - 4294967296"
      using a False by (intro mod_pos_pos_trivial) simp_all
    finally have "to_int (4 * n) = 4 * n - 4294967296" by (simp add: to_int_def)
    with a show ?thesis by simp
  qed
qed

lemma load_header_at_ok:
  assumes "load_header_at dat off = ZOk d"
  shows "FD_PRELEN < length d"
    and "FDHEADERLEN d < 1073741824 \<Longrightarrow> length d = FDHEADERLEN d"
proof -
  define buf where "buf = read_at dat off prelude_bytes"
  define len where "len = to_int (4 * int (FDHEADERLEN (words_of_bytes buf)))"
  define got where "got = read_at dat (off + prelude_bytes) (nat len - prelude_bytes)"
  have b: "length buf = 52" and l: "52 \<le> len" and g: "length got = nat len - 52"
    and d: "d = words_of_bytes (buf @ got)"
    using assms by (auto simp: load_header_at_def Let_def prelude_bytes_def buf_def len_def got_def
        split: if_splits)
  have w: "d = words_of_bytes buf @ words_of_bytes got"
    unfolding d using b by (intro words_append) simp
  have "FDHEADERLEN d = FDHEADERLEN (words_of_bytes buf)"
    using b by (simp add: FDHEADERLEN_def FD_PRELEN_def w nth_append)
  then have ld: "len = to_int (4 * int (FDHEADERLEN d))" by (simp add: len_def)
  have ln: "length d = nat len div 4" using b g l by (simp add: d)
  show "FD_PRELEN < length d" using ln l by (simp add: FD_PRELEN_def)
  assume "FDHEADERLEN d < 1073741824"
  with ld l have "len = 4 * int (FDHEADERLEN d)" using to_int_len [of "int (FDHEADERLEN d)"] by simp
  with ln show "length d = FDHEADERLEN d" by simp
qed

section \<open>Properties\<close>

text \<open>
  On a dump whose headers are laid out one after the other, each inside the dump and with a
  NUL-terminated name, the search returns the first header whose name (after its directory tail)
  is the wanted one, and NULL when there is none; it ends and stays inside the dump.
\<close>

theorem custom_dump_find_func_correct:
  assumes "heads_at d (FDHEADERLEN d) FD_PRELEN es" "FD_PRELEN < length d" "nul \<notin> set name"
  shows "custom_dump_find_func d name =
    Some (case find (\<lambda>(p, nm). nm = name) es of None \<Rightarrow> ZNull | Some (p, _) \<Rightarrow> ZOk p)"
  using assms find_from_heads [OF assms(1,3)] by (simp add: custom_dump_find_func_def)

definition sample_dump :: "u32 list" where
  "sample_dump = replicate 12 0 @ [26, 8, 0, 4, 7, 0, 6513249] @ [34, 8, 0, 4, 7, 8, 6565752]"

theorem custom_dump_find_func_correct_witness:
  "custom_dump_find_func sample_dump ''d'' = Some (ZOk 19) \<and>
   custom_dump_find_func sample_dump ''zz'' = Some ZNull"
proof -
  have h: "heads_at sample_dump (FDHEADERLEN sample_dump) FD_PRELEN [(12, ''abc''), (19, ''d'')]"
    by code_simp
  have l: "FD_PRELEN < length sample_dump" by code_simp
  have n: "nul \<notin> set ''d''" "nul \<notin> set ''zz''" by (simp_all add: nul_def)
  show ?thesis
    using custom_dump_find_func_correct [OF h l n(1)] custom_dump_find_func_correct [OF h l n(2)]
    by simp
qed

text \<open>
  C37: The search for a script in a dump runs forever exactly when it comes to a header of length zero
  whose name is not the wanted one, and ends otherwise.  It comes to the header at word 12 and, from a
  header inside the dump with another name, to the one its length leads to; in particular the
  search ends when every header it comes to has a non-zero length.
\<close>

theorem custom_dump_find_func_termination:
  "custom_dump_find_func d name = None \<longleftrightarrow>
     (\<exists>n. visits d name n \<and> n < FDHEADERLEN d \<and> n + 6 \<le> length d \<and>
        mem_strcmp (h_name_mem d n) name = Some False \<and> h_hlen d n = 0)"
proof
  assume none: "custom_dump_find_func d name = None"
  then have "find_from d (FDHEADERLEN d) name FD_PRELEN = None"
    by (simp add: custom_dump_find_func_def split: if_splits)
  then show "\<exists>n. visits d name n \<and> n < FDHEADERLEN d \<and> n + 6 \<le> length d \<and>
        mem_strcmp (h_name_mem d n) name = Some False \<and> h_hlen d n = 0"
    using find_from_ends [OF _ visits.first] by fastforce
next
  assume "\<exists>n. visits d name n \<and> n < FDHEADERLEN d \<and> n + 6 \<le> length d \<and>
        mem_strcmp (h_name_mem d n) name = Some False \<and> h_hlen d n = 0"
  then obtain n where n: "visits d name n" "n < FDHEADERLEN d" "n + 6 \<le> length d"
    "mem_strcmp (h_name_mem d n) name = Some False" "h_hlen d n = 0" by blast
  then have "find_from d (FDHEADERLEN d) name n = None"
    using find_from_stuck [of d "FDHEADERLEN d" name n] by (cases "find_from d (FDHEADERLEN d) name n") auto
  with find_from_visits [OF n(1)] n(3) show "custom_dump_find_func d name = None"
    by (simp add: custom_dump_find_func_def)
qed

text \<open>A dump whose second header has length zero: the search for another name never ends, the one
  for the first name does.\<close>

theorem custom_dump_find_func_termination_witness:
  "custom_dump_find_func (replicate 12 0 @ [26, 0, 0, 0, 7, 0, 97, 0, 0, 0, 0, 0, 0, 98]) ''c'' = None"
proof -
  let ?d = "replicate 12 0 @ [26, 0, 0, 0, 7, 0, 97, 0, 0, 0, 0, 0, 0, 98] :: u32 list"
  have a: "12 < FDHEADERLEN ?d" "12 + 6 \<le> length ?d" "mem_strcmp (h_name_mem ?d 12) ''c'' = Some False"
    "12 + h_hlen ?d 12 = 19" by code_simp+
  have b: "19 < FDHEADERLEN ?d" "19 + 6 \<le> length ?d" "mem_strcmp (h_name_mem ?d 19) ''c'' = Some False"
    "h_hlen ?d 19 = 0" by code_simp+
  have "visits ?d ''c'' 12" using visits.first by (simp add: FD_PRELEN_def)
  from visits.step [OF this a(1-3)] have "visits ?d ''c'' 19" unfolding a(4) .
  with b show ?thesis using custom_dump_find_func_termination by blast
qed

end
