(* ===== verification/Zp_Profile.thy ===== *)
theory Zp_Profile
  imports Zp_Shell Zp_Emoji
begin

text \<open>
  The profile of \<open>src/core/source.c\<close>: the clock sample, the lexical absolute path of a source,
  recording one finished source as an event, the \<open>source-study\<close> report, and installing and
  removing the overrides of the builtins \<open>.\<close> and \<open>source\<close>.
\<close>

section \<open>Recording\<close>

datatype source_return = SOURCE_OK | SOURCE_NOT_FOUND | SOURCE_ERROR

fun sr_code :: "source_return \<Rightarrow> int" where
  "sr_code SOURCE_OK = 0"
| "sr_code SOURCE_NOT_FOUND = 1"
| "sr_code SOURCE_ERROR = 2"

text \<open>\<open>zp_read_clock\<close>: the sample, or nothing when the call fails; each call takes one tick.\<close>

definition zp_read_clock :: "shell \<Rightarrow> (int \<times> int) option \<times> shell" where
  "zp_read_clock sh = (sh_clock sh (sh_ticks sh), sh\<lparr>sh_ticks := Suc (sh_ticks sh)\<rparr>)"

definition zp_source_path :: "shell \<Rightarrow> string \<Rightarrow> string option" where
  "zp_source_path sh source =
     (if take 1 source = ''/'' then Some source
      else let relative = (if take 2 source = ''./'' then drop 2 source else source);
               len = length (sh_pwd sh) + length relative + 2
           in if w_alloc sh len then Some (sh_pwd sh @ ''/'' @ relative) else None)"

definition sizeof_sevent_node :: nat where "sizeof_sevent_node = 72"

text \<open>The part of the path after its last slash.\<close>

definition base_name :: "string \<Rightarrow> string" where
  "base_name p = (case strrchr slash p of None \<Rightarrow> p | Some (_, b) \<Rightarrow> b)"

definition lose_event :: "shell \<Rightarrow> shell" where
  "lose_event sh = sh\<lparr>sh_profile := (sh_profile sh)\<lparr>zp_profile_incomplete := True\<rparr>\<rparr>"

text \<open>\<open>start\<close> is the first sample, if it was valid.\<close>

definition zp_record_source ::
    "string option \<Rightarrow> (int \<times> int) option \<Rightarrow> int \<Rightarrow> int \<Rightarrow> int \<Rightarrow> shell \<Rightarrow> shell" where
  "zp_record_source full_path start depth source_status exit_status sh0 =
     (let (stop, sh) = zp_read_clock sh0; p = sh_profile sh in
      case (zp_source_events p, full_path) of
        (Some tbl, Some path) \<Rightarrow>
          if zp_sevent_count p = INT_MAX then lose_event sh
          else if \<not> w_alloc sh sizeof_sevent_node then lose_event sh
          else if \<not> w_alloc sh (length (base_name path) + 1) then lose_event sh
          else
            let n = zp_sevent_count p + 1;
                elapsed = (case (start, stop) of
                             (Some (s, sn), Some (e, en)) \<Rightarrow> zp_elapsed_ns s sn e en
                           | _ \<Rightarrow> None);
                ev = \<lparr>ev_id = n, ev_file_name = base_name path, ev_full_path = path,
                      ev_duration_ns = (case elapsed of None \<Rightarrow> 0 | Some d \<Rightarrow> d),
                      ev_timing_valid = (elapsed \<noteq> None), ev_depth = depth,
                      ev_exit_status = exit_status, ev_load_error = source_status\<rparr>
            in sh\<lparr>sh_profile := p\<lparr>zp_source_events := Some (tbl(render_int n \<mapsto> ev)),
                                  zp_sevent_count := n,
                                  zp_profile_incomplete := zp_profile_incomplete p \<or> elapsed = None\<rparr>\<rparr>
      | _ \<Rightarrow> lose_event sh)"

section \<open>The report\<close>

definition ZP_CLOCK_NAME :: string where "ZP_CLOCK_NAME = ''CLOCK_MONOTONIC''"
definition ZP_CLOCK_MONOTONIC :: string where "ZP_CLOCK_MONOTONIC = ''true''"

text \<open>A JSON string literal.\<close>

definition dq :: char where "dq = CHR 0x22"
definition quoted :: "string \<Rightarrow> string" where "quoted s = dq # s @ [dq]"

definition study_state :: "profile \<Rightarrow> string" where
  "study_state p =
     (if zp_source_events p = None then ''unavailable''
      else if zp_profile_incomplete p then ''incomplete''
      else if zp_sevent_count p \<noteq> 0 then ''complete'' else ''empty'')"

definition json_head :: "profile \<Rightarrow> string" where
  "json_head p =
     ''{'' @ quoted ''schema_version'' @ '':1,'' @ quoted ''status'' @ '':'' @ quoted (study_state p) @
     '','' @ quoted ''clock'' @ '':'' @ quoted ZP_CLOCK_NAME @ '','' @ quoted ''monotonic'' @ '':'' @
     ZP_CLOCK_MONOTONIC @ '','' @ quoted ''unit'' @ '':'' @ quoted ''nanoseconds'' @ '','' @
     quoted ''inclusive'' @ '':true,'' @ quoted ''order'' @ '':'' @ quoted ''completion'' @ '','' @
     quoted ''execution_mode'' @ '':'' @ quoted ''instrumented-auto-compile'' @ '','' @
     quoted ''events'' @ '':[''"

definition path_hex :: "string \<Rightarrow> string" where
  "path_hex s = concat (map hex_byte s)"

text \<open>One event; \<open>unmeta\<close> belongs to zsh and is a parameter.\<close>

definition json_event :: "(string \<Rightarrow> string) \<Rightarrow> source_event \<Rightarrow> string" where
  "json_event unmeta e =
     ''{'' @ quoted ''id'' @ '':'' @ render_int (ev_id e) @ '','' @
     quoted ''depth'' @ '':'' @ render_int (ev_depth e) @ '','' @
     quoted ''source_status'' @ '':'' @ render_int (ev_load_error e) @ '','' @
     quoted ''exit_status'' @ '':'' @ render_int (ev_exit_status e) @ '','' @
     quoted ''path_hex'' @ '':'' @ quoted (path_hex (unmeta (ev_full_path e))) @ '','' @
     quoted ''duration_ns'' @ '':'' @
     (if ev_timing_valid e then render_nat 10 (unat (ev_duration_ns e)) else ''null'') @ ''}''"

text \<open>
  \<open>%4.0lf\<close> of the duration in milliseconds: rounded half to even and padded to four places
  (the double division is exact enough for durations below \<open>2^50\<close> nanoseconds).
\<close>

definition round_ms :: "nat \<Rightarrow> nat" where
  "round_ms ns =
     (let q = ns div 1000000; r = ns mod 1000000
      in if r < 500000 then q else if r > 500000 then q + 1 else if even q then q else q + 1)"

definition pad4 :: "string \<Rightarrow> string" where "pad4 s = replicate (4 - length s) (CHR '' '') @ s"

definition text_event :: "(string \<Rightarrow> string) \<Rightarrow> bool \<Rightarrow> string \<Rightarrow> source_event \<Rightarrow> string" where
  "text_event unmeta full_paths icon e =
     (if ev_timing_valid e
      then icon @ pad4 (render_nat 10 (round_ms (unat (ev_duration_ns e)))) @ '' ms    ''
      else '' n/a ms    '') @
     unmeta (if full_paths then ev_full_path e else ev_file_name e) @ [newline]"

text \<open>The loop over the event numbers; an event that is not in the table is skipped.  The icon is
  asked for each timed event.\<close>

fun study_events ::
    "(string \<Rightarrow> string) \<Rightarrow> bool \<Rightarrow> bool \<Rightarrow> (string \<rightharpoonup> source_event) \<Rightarrow> int list \<Rightarrow> nat \<Rightarrow> shell \<Rightarrow>
       shell + shell" where
  "study_events unmeta json full_paths tbl [] printed sh = Inr sh"
| "study_events unmeta json full_paths tbl (idx # ids) printed sh =
     (case tbl (render_int idx) of
        None \<Rightarrow> study_events unmeta json full_paths tbl ids printed sh
      | Some e \<Rightarrow>
          let (line, sh1) =
                (if json then ((if printed \<noteq> 0 then '','' else []) @ json_event unmeta e, sh)
                 else if ev_timing_valid e
                 then (let (ic, sh') = zp_icon icon_timer sh in (text_event unmeta full_paths ic e, sh'))
                 else (text_event unmeta full_paths [] e, sh))
          in (case try_emit line sh1 of
                Inl sh2 \<Rightarrow> Inl sh2
              | Inr sh2 \<Rightarrow> study_events unmeta json full_paths tbl ids (printed + 1) sh2))"

definition first_reported :: "int \<Rightarrow> int \<Rightarrow> int" where
  "first_reported report_count n =
     (if report_count > 0 \<and> report_count < n then n - report_count + 1 else 1)"

definition finish_report :: "bool \<Rightarrow> shell \<Rightarrow> int \<times> shell" where
  "finish_report failed sh = (if \<not> w_flush_ok sh \<or> failed then 1 else 0, sh)"

definition zp_source_study_core ::
    "(string \<Rightarrow> string) \<Rightarrow> string \<Rightarrow> int \<Rightarrow> bool \<Rightarrow> bool \<Rightarrow> shell \<Rightarrow> int \<times> shell" where
  "zp_source_study_core unmeta nam report_count full_paths json sh =
     (let p = sh_profile sh;
          failed = (zp_source_events p = None \<or> zp_profile_incomplete p);
          ids = (case zp_source_events p of
                   None \<Rightarrow> []
                 | Some _ \<Rightarrow> [first_reported report_count (zp_sevent_count p) .. zp_sevent_count p]);
          tbl = (case zp_source_events p of None \<Rightarrow> Map.empty | Some m \<Rightarrow> m)
      in if json then
           (case try_emit (json_head p) sh of
              Inl sh1 \<Rightarrow> (1, sh1)
            | Inr sh1 \<Rightarrow>
                (case study_events unmeta True full_paths tbl ids 0 sh1 of
                   Inl sh2 \<Rightarrow> (1, sh2)
                 | Inr sh2 \<Rightarrow>
                     (case try_emit ('']}'' @ [newline]) sh2 of
                        Inl sh3 \<Rightarrow> (1, sh3)
                      | Inr sh3 \<Rightarrow> finish_report failed sh3)))
         else if zp_source_events p = None then
           (1, zwarnnam nam ''source-study: profiling is unavailable'' sh)
         else if zp_sevent_count p = 0 then
           (case try_emit (''No source events recorded.'' @ [newline]) sh of
              Inl sh1 \<Rightarrow> (1, sh1)
            | Inr sh1 \<Rightarrow> finish_report failed sh1)
         else
           (case study_events unmeta False full_paths tbl ids 0 sh of
              Inl sh1 \<Rightarrow> (1, sh1)
            | Inr sh1 \<Rightarrow> finish_report failed sh1))"

section \<open>Overrides\<close>

text \<open>A builtin's handler: the module's, one of the shell, or NULL.\<close>

datatype 'h handler = Bin_custom_dot | Native 'h | Null_handler

record 'h override_state =
  builtintab :: "string \<rightharpoonup> 'h handler"
  original_dot :: "'h handler"
  original_source :: "'h handler"
  ov_profile :: profile

definition take_over :: "string \<Rightarrow> ('h handler \<Rightarrow> 'h override_state \<Rightarrow> 'h override_state) \<Rightarrow>
    'h override_state \<Rightarrow> 'h override_state" where
  "take_over nm save s =
     (case builtintab s nm of
        None \<Rightarrow> s
      | Some h \<Rightarrow> (save h s)\<lparr>builtintab := (builtintab s)(nm \<mapsto> Bin_custom_dot)\<rparr>)"

definition zp_source_setup_overrides :: "bool \<Rightarrow> 'h override_state \<Rightarrow> 'h override_state" where
  "zp_source_setup_overrides table_ok s0 =
     (let s1 = s0\<lparr>ov_profile := (ov_profile s0)\<lparr>zp_sevent_count := 0, zp_source_depth := 0,
                                               zp_profile_incomplete := False\<rparr>\<rparr>;
          s2 = take_over ''.'' (\<lambda>h s. s\<lparr>original_dot := h\<rparr>) s1;
          s3 = take_over ''source'' (\<lambda>h s. s\<lparr>original_source := h\<rparr>) s2
      in s3\<lparr>ov_profile := (ov_profile s3)\<lparr>zp_source_events :=
              (if table_ok then Some Map.empty else None)\<rparr>\<rparr>)"

definition give_back :: "string \<Rightarrow> 'h handler \<Rightarrow> 'h override_state \<Rightarrow> 'h override_state" where
  "give_back nm h s =
     (case builtintab s nm of
        None \<Rightarrow> s
      | Some _ \<Rightarrow> s\<lparr>builtintab := (builtintab s)(nm \<mapsto> h)\<rparr>)"

definition zp_source_restore_overrides :: "'h override_state \<Rightarrow> 'h override_state" where
  "zp_source_restore_overrides s0 =
     (let s1 = give_back ''.'' (original_dot s0) s0;
          s2 = give_back ''source'' (original_source s1) s1
      in s2\<lparr>ov_profile := (ov_profile s2)\<lparr>zp_source_events := None\<rparr>\<rparr>)"

section \<open>Lemmas\<close>

lemma render_nat_first: "render_nat 10 n \<noteq> CHR ''-'' # r"
  using render_nat_digits [of 10 n] by (auto simp: is_digit_def)

lemma render_int_inj [cnum]: "render_int a = render_int b \<longleftrightarrow> a = b"
  using render_nat_inj [of 10 "nat a" "nat b"] render_nat_inj [of 10 "nat (- a)" "nat (- b)"]
    render_nat_first [of "nat a"] render_nat_first [of "nat b"]
  by (auto simp: render_int_def dest: sym)

text \<open>
  The event table holds exactly the events 1 to the count, each under its own number; while
  nothing is marked incomplete every duration is valid.
\<close>

definition prof_ok :: "profile \<Rightarrow> bool" where
  "prof_ok p \<longleftrightarrow>
     0 \<le> zp_sevent_count p \<and> zp_sevent_count p \<le> INT_MAX \<and>
     (\<forall>m. zp_source_events p = Some m \<longrightarrow>
        dom m = render_int ` {1..zp_sevent_count p} \<and>
        (\<forall>i e. m (render_int i) = Some e \<longrightarrow>
           ev_id e = i \<and> (\<not> zp_profile_incomplete p \<longrightarrow> ev_timing_valid e)))"

lemma prof_ok_profile0 [simp]: "prof_ok profile0"
  by (simp add: prof_ok_def profile0_def c_limits)

lemma prof_ok_lose [simp]: "sh_profile (lose_event sh) = (sh_profile sh)\<lparr>zp_profile_incomplete := True\<rparr>"
  "prof_ok (sh_profile sh) \<Longrightarrow> prof_ok ((sh_profile sh)\<lparr>zp_profile_incomplete := True\<rparr>)"
  by (auto simp: lose_event_def prof_ok_def)

lemma image_atLeast1_insert: "0 \<le> n \<Longrightarrow> f ` {1..n + 1} = insert (f (n + 1)) (f ` {1..n})" for n :: int
proof -
  assume "0 \<le> n"
  then have "{1..n + 1} = insert (n + 1) {1..n}" by auto
  then show ?thesis by simp
qed

lemma prof_ok_add:
  assumes p: "prof_ok p" and m: "zp_source_events p = Some m" and c: "zp_sevent_count p \<noteq> INT_MAX"
    and e: "ev_id e = zp_sevent_count p + 1"
    and i: "\<not> inc \<longrightarrow> ev_timing_valid e \<and> \<not> zp_profile_incomplete p"
  shows "prof_ok (p\<lparr>zp_source_events := Some (m(render_int (zp_sevent_count p + 1) \<mapsto> e)),
      zp_sevent_count := zp_sevent_count p + 1, zp_profile_incomplete := inc\<rparr>)"
  using assms by (auto simp: prof_ok_def image_atLeast1_insert render_int_inj split: if_splits)

fun commas_from :: "bool \<Rightarrow> string list \<Rightarrow> string" where
  "commas_from started [] = []"
| "commas_from started (l # ls) = (if started then '','' else []) @ l @ commas_from True ls"

lemma emit_emit [simp]: "emit t (emit s w) = emit (s @ t) w"
  by (simp add: emit_def)

lemma emit_Nil [simp]: "emit [] w = w"
  by (simp add: emit_def)

lemma try_emit_None [simp]: "w_out_room w = None \<Longrightarrow> try_emit s w = Inr (emit s w)"
  by (simp add: try_emit_def)

lemma emit_profile [simp]:
  "sh_profile (emit s sh) = sh_profile sh" "w_out_room (emit s sh) = w_out_room sh"
  "w_flush_ok (emit s sh) = w_flush_ok sh"
  by (simp_all add: emit_def)

lemma try_emit_facts:
  "try_emit s (sh :: shell) = Inr sh' \<Longrightarrow>
     w_out sh' = w_out sh @ s \<and> sh_profile sh' = sh_profile sh \<and> w_flush_ok sh' = w_flush_ok sh \<and>
     (w_out_room sh = None \<longrightarrow> w_out_room sh' = None)"
  by (auto simp: try_emit_def split: option.splits if_splits)

definition study_line :: "(string \<Rightarrow> string) \<Rightarrow> (string \<rightharpoonup> source_event) \<Rightarrow> int \<Rightarrow> string" where
  "study_line unmeta tbl i = json_event unmeta (the (tbl (render_int i)))"

lemma study_events_json:
  assumes "\<forall>i \<in> set ids. tbl (render_int i) \<noteq> None"
    "study_events unmeta True fp tbl ids printed sh = Inr sh'"
  shows "w_out sh' = w_out sh @ commas_from (printed \<noteq> 0) (map (study_line unmeta tbl) ids) \<and>
    sh_profile sh' = sh_profile sh \<and> w_flush_ok sh' = w_flush_ok sh"
  using assms
proof (induction ids arbitrary: printed sh)
  case (Cons i ids)
  then obtain e sh1 where e: "tbl (render_int i) = Some e"
    and t: "try_emit ((if printed \<noteq> 0 then '','' else []) @ json_event unmeta e) sh = Inr sh1"
    and r: "study_events unmeta True fp tbl ids (printed + 1) sh1 = Inr sh'"
    by (auto split: sum.splits)
  have "w_out sh' = w_out sh1 @ commas_from True (map (study_line unmeta tbl) ids) \<and>
      sh_profile sh' = sh_profile sh1 \<and> w_flush_ok sh' = w_flush_ok sh1"
    using Cons.IH [OF _ r] Cons.prems(1) by simp
  with try_emit_facts [OF t] e show ?case by (simp add: study_line_def [of unmeta tbl i])
qed simp

lemma study_events_no_fail:
  "w_out_room sh = None \<Longrightarrow> \<exists>sh'. study_events unmeta True fp tbl ids printed sh = Inr sh' \<and>
     w_out_room sh' = None \<and> w_flush_ok sh' = w_flush_ok sh"
proof (induction ids arbitrary: printed sh)
  case (Cons i ids)
  show ?case
  proof (cases "tbl (render_int i)")
    case None
    with Cons show ?thesis by simp
  next
    case (Some e)
    let ?sh = "emit ((if printed \<noteq> 0 then '','' else []) @ json_event unmeta e) sh"
    have "w_out_room ?sh = None" using Cons.prems by simp
    from Cons.IH [OF this, of "printed + 1"] Some Cons.prems show ?thesis by simp
  qed
qed simp

text \<open>The numbers reported: all of them, or the newest \<open>k\<close>.\<close>

definition newest :: "int \<Rightarrow> int \<Rightarrow> int list" where
  "newest k n = (if 0 < k then drop (nat n - nat k) [1..n] else [1..n])"

lemma upto_drop: "drop j [a..n] = [a + int j..n]"
proof (induction j arbitrary: a)
  case (Suc j)
  show ?case
  proof (cases "a \<le> n")
    case True
    then have "drop (Suc j) [a..n] = drop j [a + 1..n]" by (simp add: upto_rec1)
    also have "\<dots> = [a + 1 + int j..n]" by (rule Suc.IH)
    finally show ?thesis by (simp add: algebra_simps)
  next
    case False
    then show ?thesis by (simp add: upto.simps)
  qed
qed simp

lemma first_reported_newest: "0 \<le> n \<Longrightarrow> [first_reported k n .. n] = newest k n"
  by (auto simp: newest_def first_reported_def upto_drop nat_diff_distrib' of_nat_diff algebra_simps)

lemma prof_ok_reported:
  assumes "prof_ok p" "zp_source_events p = Some tbl"
  shows "\<forall>i \<in> set (newest k (zp_sevent_count p)). tbl (render_int i) \<noteq> None"
proof
  fix i
  assume "i \<in> set (newest k (zp_sevent_count p))"
  then have "i \<in> {1..zp_sevent_count p}"
    by (auto simp: newest_def split: if_splits dest: in_set_dropD)
  with assms have "render_int i \<in> dom tbl" unfolding prof_ok_def by blast
  then show "tbl (render_int i) \<noteq> None" by blast
qed

text \<open>The whole JSON document of a report.\<close>

definition json_document :: "(string \<Rightarrow> string) \<Rightarrow> int \<Rightarrow> profile \<Rightarrow> string" where
  "json_document unmeta k p =
     json_head p @
     (case zp_source_events p of
        None \<Rightarrow> []
      | Some tbl \<Rightarrow> commas_from False (map (study_line unmeta tbl) (newest k (zp_sevent_count p)))) @
     '']}'' @ [newline]"

fun unhex_digit :: "char \<Rightarrow> nat" where
  "unhex_digit c = (let n = of_char c in if n < 58 then n - 48 else n - 87)"

fun unhex :: "string \<Rightarrow> string" where
  "unhex (a # b # r) = char_of (16 * unhex_digit a + unhex_digit b) # unhex r"
| "unhex _ = []"

lemma hex_digits:
  "d < 16 \<Longrightarrow> unhex_digit (digit_char d) = d \<and> digit_char d \<in> set ''0123456789abcdef''"
proof -
  assume "d < 16"
  moreover have "\<forall>d \<in> set [0..<16]. unhex_digit (digit_char d) = d \<and>
      digit_char d \<in> set ''0123456789abcdef''"
    by code_simp
  ultimately show ?thesis by simp
qed

lemma of_char_split: "16 * ((of_char c :: nat) div 16) + of_char c mod 16 = of_char c"
  by (rule mult_div_mod_eq)

lemma hex_byte_facts:
  "unhex (hex_byte c @ r) = c # unhex r \<and> set (hex_byte c) \<subseteq> set ''0123456789abcdef''"
proof -
  have "(of_char c :: nat) mod 256 < 256" by (rule mod_less_divisor) simp
  then have "(of_char c :: nat) < 256" by (simp only: of_char_mod_256)
  then have d: "(of_char c :: nat) div 16 < 16" by linarith
  have "(of_char c :: nat) mod 16 < 16" by (rule mod_less_divisor) simp
  note d this
  from hex_digits [OF d] hex_digits [OF this(2)] show ?thesis
    by (simp add: hex_byte_def of_char_split)
qed

text \<open>A source is recorded, or its loss is marked.\<close>

definition recordable :: "string option \<Rightarrow> shell \<Rightarrow> bool" where
  "recordable path sh \<longleftrightarrow>
     zp_source_events (sh_profile sh) \<noteq> None \<and> path \<noteq> None \<and>
     zp_sevent_count (sh_profile sh) \<noteq> INT_MAX \<and> w_alloc sh sizeof_sevent_node \<and>
     w_alloc sh (length (base_name (the path)) + 1)"

definition sample_elapsed :: "(int \<times> int) option \<Rightarrow> (int \<times> int) option \<Rightarrow> u64 option" where
  "sample_elapsed a b =
     (case (a, b) of (Some (s, sn), Some (e, en)) \<Rightarrow> zp_elapsed_ns s sn e en | _ \<Rightarrow> None)"

definition recorded_event ::
    "string \<Rightarrow> u64 option \<Rightarrow> int \<Rightarrow> int \<Rightarrow> int \<Rightarrow> int \<Rightarrow> source_event" where
  "recorded_event path el n depth st ex =
     \<lparr>ev_id = n, ev_file_name = base_name path, ev_full_path = path,
      ev_duration_ns = (case el of None \<Rightarrow> 0 | Some d \<Rightarrow> d), ev_timing_valid = (el \<noteq> None),
      ev_depth = depth, ev_exit_status = ex, ev_load_error = st\<rparr>"

lemma record_source_cases:
  "sh_profile (zp_record_source path start depth st ex sh) =
    (let p = sh_profile sh; n = zp_sevent_count p + 1;
         el = sample_elapsed start (sh_clock sh (sh_ticks sh))
     in if recordable path sh
        then p\<lparr>zp_source_events := Some ((the (zp_source_events p))(render_int n \<mapsto>
                 recorded_event (the path) el n depth st ex)),
               zp_sevent_count := n, zp_profile_incomplete := zp_profile_incomplete p \<or> el = None\<rparr>
        else p\<lparr>zp_profile_incomplete := True\<rparr>)"
  by (auto simp: zp_record_source_def recordable_def Let_def zp_read_clock_def lose_event_def
      sample_elapsed_def recorded_event_def split: option.splits prod.splits)

lemma record_source_frame:
  "zp_record_source path start depth st ex sh =
     sh\<lparr>sh_ticks := Suc (sh_ticks sh),
        sh_profile := sh_profile (zp_record_source path start depth st ex sh)\<rparr>"
  by (auto simp: zp_record_source_def Let_def zp_read_clock_def lose_event_def
      split: option.splits prod.splits)

lemma record_source_prof_ok:
  assumes "prof_ok (sh_profile sh)"
  shows "prof_ok (sh_profile (zp_record_source path start depth st ex sh))"
proof (cases "recordable path sh")
  case True
  then obtain m where m: "zp_source_events (sh_profile sh) = Some m"
    and c: "zp_sevent_count (sh_profile sh) \<noteq> INT_MAX" by (auto simp: recordable_def)
  show ?thesis
    using True m by (simp only: record_source_cases Let_def if_True option.sel,
      intro prof_ok_add [OF assms m c]) (auto simp: recorded_event_def)
next
  case False
  then show ?thesis using assms by (simp add: record_source_cases Let_def prof_ok_lose)
qed

section \<open>Properties\<close>

text \<open>
  C7: Recording a finished source keeps the event table exact: the events are numbered 1 to the
  count without gaps, each under its own key, and an unmarked profile holds only valid durations.
  A source that can be recorded adds one event, the next number, with the given depth, status and
  exit code and the duration between the two clock samples; one that cannot leaves the table alone
  and marks the profile incomplete.  Nothing else of the shell changes.
\<close>

theorem zp_record_source_exact:
  assumes "prof_ok (sh_profile sh)"
  shows "let sh' = zp_record_source path start depth st ex sh; p = sh_profile sh; p' = sh_profile sh'
    in prof_ok p' \<and> sh' = sh\<lparr>sh_ticks := Suc (sh_ticks sh), sh_profile := p'\<rparr> \<and>
    zp_source_depth p' = zp_source_depth p \<and>
    (if recordable path sh then
       zp_sevent_count p' = zp_sevent_count p + 1 \<and>
       (\<exists>tbl. zp_source_events p = Some tbl \<and>
          zp_source_events p' = Some (tbl(render_int (zp_sevent_count p + 1) \<mapsto>
            recorded_event (the path) (sample_elapsed start (sh_clock sh (sh_ticks sh)))
              (zp_sevent_count p + 1) depth st ex))) \<and>
       (zp_profile_incomplete p' \<longleftrightarrow> zp_profile_incomplete p \<or>
          sample_elapsed start (sh_clock sh (sh_ticks sh)) = None)
     else p' = p\<lparr>zp_profile_incomplete := True\<rparr>)"
  unfolding Let_def
proof (intro conjI)
  show "prof_ok (sh_profile (zp_record_source path start depth st ex sh))"
    using assms by (rule record_source_prof_ok)
  show "zp_record_source path start depth st ex sh = sh\<lparr>sh_ticks := Suc (sh_ticks sh),
      sh_profile := sh_profile (zp_record_source path start depth st ex sh)\<rparr>"
    by (rule record_source_frame)
qed (auto simp: record_source_cases Let_def recordable_def)

theorem zp_record_source_exact_witness:
  "zp_sevent_count (sh_profile (zp_record_source (Some ''/a/b'') (Some (0, 0)) 1 0 0 shell0)) = 1"
proof -
  have "prof_ok (sh_profile shell0)" by (simp add: shell0_def world.defs)
  moreover have "recordable (Some ''/a/b'') shell0"
    by (simp add: recordable_def shell0_def world.defs world0_def profile0_def c_limits)
  moreover have "zp_sevent_count (sh_profile shell0) = 0"
    by (simp add: shell0_def world.defs profile0_def)
  ultimately show ?thesis
    using zp_record_source_exact [of shell0 "Some ''/a/b''" "Some (0, 0)" 1 0 0]
    by (simp add: Let_def)
qed

lemma study_json_document:
  assumes "prof_ok (sh_profile sh)" "zp_source_study_core unmeta nam k fp True sh = (rc, sh')"
  shows "(rc = 0 \<longrightarrow> w_out sh' = w_out sh @ json_document unmeta k (sh_profile sh) \<and>
            sh_profile sh' = sh_profile sh \<and> zp_source_events (sh_profile sh) \<noteq> None \<and>
            \<not> zp_profile_incomplete (sh_profile sh)) \<and>
         (w_out_room sh = None \<and> w_flush_ok sh \<and> zp_source_events (sh_profile sh) \<noteq> None \<and>
            \<not> zp_profile_incomplete (sh_profile sh) \<longrightarrow> rc = 0)"
proof (rule conjI; rule impI)
  let ?p = "sh_profile sh"
  assume "rc = 0"
  then obtain tbl sh1 sh2 where tbl: "zp_source_events ?p = Some tbl" and inc: "\<not> zp_profile_incomplete ?p"
    and h: "try_emit (json_head ?p) sh = Inr sh1"
    and ev: "study_events unmeta True fp tbl (newest k (zp_sevent_count ?p)) 0 sh1 = Inr sh2"
    and e: "try_emit ('']}'' @ [newline]) sh2 = Inr sh'"
    using assms(2) first_reported_newest [of "zp_sevent_count ?p" k] assms(1)
    by (auto simp: zp_source_study_core_def finish_report_def Let_def prof_ok_def
        split: sum.splits option.splits if_splits)
  show "w_out sh' = w_out sh @ json_document unmeta k ?p \<and>
      sh_profile sh' = ?p \<and> zp_source_events ?p \<noteq> None \<and> \<not> zp_profile_incomplete ?p"
    using try_emit_facts [OF h] try_emit_facts [OF e] tbl inc
      study_events_json [OF prof_ok_reported [OF assms(1) tbl] ev]
    by (simp add: json_document_def)
next
  assume a: "w_out_room sh = None \<and> w_flush_ok sh \<and> zp_source_events (sh_profile sh) \<noteq> None \<and>
      \<not> zp_profile_incomplete (sh_profile sh)"
  then obtain tbl where tbl: "zp_source_events (sh_profile sh) = Some tbl" by blast
  let ?sh = "emit (json_head (sh_profile sh)) sh"
  let ?ids = "[first_reported k (zp_sevent_count (sh_profile sh)) .. zp_sevent_count (sh_profile sh)]"
  obtain sh2 where "study_events unmeta True fp tbl ?ids 0 ?sh = Inr sh2" "w_out_room sh2 = None"
    "w_flush_ok sh2 = w_flush_ok sh"
    using study_events_no_fail [of ?sh unmeta fp tbl ?ids 0] a by auto
  with assms(2) a tbl show "rc = 0"
    by (simp add: zp_source_study_core_def finish_report_def Let_def)
qed

text \<open>
  A JSON report that succeeds has written the whole document: the header, exactly the newest
  events (all for count 0) in completion order separated by commas, and the end; profiling was
  available, nothing was lost, and the recorded events are still there.  With an output that takes
  everything a complete profile is always reported with status 0.
\<close>

theorem zp_source_study_json:
  assumes "prof_ok (sh_profile sh)" "zp_source_study_core unmeta nam k fp True sh = (rc, sh')"
  shows "(rc = 0 \<longrightarrow> w_out sh' = w_out sh @ json_document unmeta k (sh_profile sh) \<and>
            sh_profile sh' = sh_profile sh \<and> zp_source_events (sh_profile sh) \<noteq> None \<and>
            \<not> zp_profile_incomplete (sh_profile sh)) \<and>
         (w_out_room sh = None \<and> w_flush_ok sh \<and> zp_source_events (sh_profile sh) \<noteq> None \<and>
            \<not> zp_profile_incomplete (sh_profile sh) \<longrightarrow> rc = 0)"
  using assms by (rule study_json_document)

theorem zp_source_study_json_witness:
  "\<exists>sh'. zp_source_study_core id ''zpmod'' 0 False True shell0 = (0, sh') \<and>
     w_out sh' = w_out shell0 @ json_document id 0 profile0"
proof -
  obtain rc sh' where r: "zp_source_study_core id ''zpmod'' 0 False True shell0 = (rc, sh')"
    by fastforce
  have p: "sh_profile shell0 = profile0" "w_out_room shell0 = None" "w_flush_ok shell0"
    by (simp_all add: shell0_def world.defs world0_def)
  have "prof_ok (sh_profile shell0)" by (simp add: p)
  from zp_source_study_json [OF this r] p r show ?thesis
    by (auto simp: profile0_def)
qed

text \<open>
  The hexadecimal path of an event loses nothing and injects nothing: decoding gives the bytes
  of the path back, and only lower-case hexadecimal digits are printed, two for each byte.
\<close>

theorem path_hex_lossless:
  "unhex (path_hex s) = s \<and> set (path_hex s) \<subseteq> set ''0123456789abcdef'' \<and>
   length (path_hex s) = 2 * length s"
proof (induction s)
  case (Cons c s)
  have "path_hex (c # s) = hex_byte c @ path_hex s" by (simp add: path_hex_def)
  with Cons hex_byte_facts [of c "path_hex s"] show ?case by (auto simp: hex_byte_def)
qed (simp add: path_hex_def)

text \<open>
  Installing the overrides hands the builtins \<open>.\<close> and \<open>source\<close> (those that exist) to the
  module and no other, with an empty profile; removing them gives every builtin the handler it had
  before and drops the event table.
\<close>

theorem overrides_restored:
  "let s1 = zp_source_setup_overrides ok s; s2 = zp_source_restore_overrides s1
   in builtintab s2 = builtintab s \<and> zp_source_events (ov_profile s2) = None \<and>
      (\<forall>nm. builtintab s1 nm = (if nm \<in> {''.'', ''source''} \<and> builtintab s nm \<noteq> None
                                then Some Bin_custom_dot else builtintab s nm)) \<and>
      ov_profile s1 = profile0\<lparr>zp_source_events := (if ok then Some Map.empty else None)\<rparr>"
  by (auto simp: zp_source_setup_overrides_def zp_source_restore_overrides_def take_over_def
      give_back_def Let_def profile0_def fun_eq_iff split: option.splits)

end
