(* ===== verification/Zp_Source.thy ===== *)
theory Zp_Source
  imports Zp_Zwc Zp_Profile
begin

text \<open>
  Sourcing a script in \<open>src/core/source.c\<close>: deciding whether to compile it and whether a compiled
  form may be used (\<open>custom_try_source_file\<close>), executing it with the shell's state saved and
  restored (\<open>custom_source\<close>), and the search of the builtins \<open>.\<close> and \<open>source\<close>
  (\<open>bin_custom_dot\<close>).  What the shell itself does (compiling, executing, opening a descriptor) is
  a record of callbacks; executing a script may change the state in any way, also by sourcing
  again.  A result \<open>None\<close> means that the call does not return: the search in a damaged dump runs
  forever, or leaves its object.
\<close>

datatype loop_return = LOOP_OK | LOOP_EMPTY | LOOP_ERROR

record callbacks =
  cb_fstat :: "funcdump \<Rightarrow> stat option"
  cb_zcompile :: "string \<Rightarrow> shell \<Rightarrow> shell"
  cb_unmeta :: "string \<Rightarrow> string"
  cb_open :: "string \<Rightarrow> shell \<Rightarrow> int"
  cb_execode :: "eprog \<Rightarrow> shell \<Rightarrow> shell"
  cb_freeeprog :: "eprog \<Rightarrow> shell \<Rightarrow> shell"
  cb_loop :: "shell \<Rightarrow> loop_return \<times> shell"
  cb_trace :: "shell \<Rightarrow> shell"
  cb_errno_text :: "shell \<Rightarrow> string"
  cb_zerrnam :: "string \<Rightarrow> string \<Rightarrow> shell \<Rightarrow> shell"

section \<open>custom_try_source_file\<close>

definition debug_enabled :: "shell \<Rightarrow> bool" where
  "debug_enabled sh \<longleftrightarrow> w_sparam sh ''ZI_MOD_DEBUG'' = Some ''1''"

definition dir_of :: "string \<Rightarrow> string" where
  "dir_of file = (case strrchr slash file of None \<Rightarrow> file | Some (d, _) \<Rightarrow> d)"

text \<open>The source is a regular file, its compiled form is missing or older, and the directory may
  be written (or debugging asks for it).\<close>

definition wants_compile :: "string \<Rightarrow> shell \<Rightarrow> bool" where
  "wants_compile file sh \<longleftrightarrow>
     (case w_stat sh file of
        Inl _ \<Rightarrow> False
      | Inr stn \<Rightarrow>
          (case w_stat sh (file @ FD_EXT) of Inl _ \<Rightarrow> True | Inr stc \<Rightarrow> st_mtime stc < st_mtime stn) \<and>
          S_ISREG (st_mode stn) \<and> (w_access sh (dir_of file) W_OK \<or> debug_enabled sh))"

definition may_compile :: "string \<Rightarrow> shell \<Rightarrow> bool" where
  "may_compile file sh \<longleftrightarrow>
     w_access sh file R_OK \<and> w_access sh file F_OK \<and> file \<noteq> ''/dev/null'' \<and> file \<noteq> ''./''"

definition compile_step :: "callbacks \<Rightarrow> string \<Rightarrow> shell \<Rightarrow> shell" where
  "compile_step cb file sh =
     (if wants_compile file sh then
        (if may_compile file sh then cb_zcompile cb file sh
         else if debug_enabled sh
         then zwarnnam ''ZIModule'' (''446: Couldn't read the script: `'' @ file @
                ''', compilation skipped'') sh
         else sh)
      else sh)"

definition custom_try_source_file :: "callbacks \<Rightarrow> string \<Rightarrow> shell \<Rightarrow> (eprog option \<times> shell) option" where
  "custom_try_source_file cb file sh =
     (let finish = (\<lambda>r. case r of
            None \<Rightarrow> None
          | Some (ZFault, sh') \<Rightarrow> None
          | Some (ZNull, sh') \<Rightarrow> Some (None, sh')
          | Some (ZOk prog, sh') \<Rightarrow> Some (Some prog, sh'))
      in if has_suffix FD_EXT file then
           finish (custom_check_dump_file (cb_fstat cb) file None (base_name file) False sh)
         else
           let wc = file @ FD_EXT; sh1 = compile_step cb file sh
           in case w_stat sh1 wc of
                Inl _ \<Rightarrow> Some (None, sh1)
              | Inr stc \<Rightarrow>
                  if (case w_stat sh file of Inl _ \<Rightarrow> True | Inr stn \<Rightarrow> st_mtime stc \<ge> st_mtime stn)
                  then finish (custom_check_dump_file (cb_fstat cb) wc (Some stc) (base_name file) False sh1)
                  else Some (None, sh1))"

section \<open>custom_source\<close>

definition ERRFLAG_ERROR :: int where "ERRFLAG_ERROR = 1"

definition add_depth :: "int \<Rightarrow> shell \<Rightarrow> shell" where
  "add_depth k sh =
     sh\<lparr>sh_profile := (sh_profile sh)\<lparr>zp_source_depth := zp_source_depth (sh_profile sh) + k\<rparr>\<rparr>"

definition set_shinstdin :: "int \<Rightarrow> shell \<Rightarrow> shell" where
  "set_shinstdin v sh = sh\<lparr>sh_opts := (sh_opts sh)(zp_conv_opt (sh_opt_table sh) SHINSTDIN := v)\<rparr>"

definition get_shinstdin :: "shell \<Rightarrow> int" where
  "get_shinstdin sh = sh_opts sh (zp_conv_opt (sh_opt_table sh) SHINSTDIN)"

text \<open>The state a script starts in; \<open>fd\<close> is its descriptor when it is not compiled.\<close>

definition enter_source :: "callbacks \<Rightarrow> string \<Rightarrow> int option \<Rightarrow> string option \<Rightarrow> shell \<Rightarrow> shell" where
  "enter_source cb s fd old_scriptfilename sh0 =
     (let sh1 = sh0\<lparr>sh_cmdstack := []\<rparr>;
          sh2 = (case fd of None \<Rightarrow> sh1
                 | Some n \<Rightarrow> sh1\<lparr>sh_SHIN := n, sh_shinbufs := sh_shinbufs sh1 + 1\<rparr>);
          sh3 = set_shinstdin 0 (sh2\<lparr>sh_subsh := 0, sh_lineno := 1, sh_loops := 0\<rparr>);
          sh4 = sh3\<lparr>sh_scriptname := Some s, sh_scriptfilename := Some s\<rparr>;
          sh5 = (if opt_set sh4 SOURCETRACE then cb_trace cb sh4 else sh4);
          caller = (case sh_funcstack sh5 of
                      f # _ \<Rightarrow> fs_name f
                    | [] \<Rightarrow> Some (case old_scriptfilename of None \<Rightarrow> ''zsh'' | Some x \<Rightarrow> x));
          fr = \<lparr>fs_name = Some s, fs_caller = caller, fs_flineno = 0, fs_lineno = sh_lineno sh0,
                fs_filename = Some s, fs_tp = FS_SOURCE\<rparr>
      in sh5\<lparr>sh_trap_state := 0, sh_sourcelevel := sh_sourcelevel sh5 + 1,
             sh_funcstack := fr # sh_funcstack sh5\<rparr>)"

text \<open>Running the program or the loop over the descriptor.\<close>

definition run_source :: "callbacks \<Rightarrow> eprog option \<Rightarrow> shell \<Rightarrow> source_return \<times> shell" where
  "run_source cb prog sh =
     (case prog of
        Some pr \<Rightarrow>
          let sh1 = cb_execode cb pr (sh\<lparr>sh_errflag := sh_errflag sh AND NOT ERRFLAG_ERROR\<rparr>)
          in (if sh_errflag sh1 \<noteq> 0 then SOURCE_ERROR else SOURCE_OK, sh1)
      | None \<Rightarrow>
          (case cb_loop cb sh of
             (LOOP_OK, sh1) \<Rightarrow> (SOURCE_OK, sh1)
           | (LOOP_EMPTY, sh1) \<Rightarrow> (SOURCE_OK, sh1\<lparr>sh_lastval := 0\<rparr>)
           | (LOOP_ERROR, sh1) \<Rightarrow> (SOURCE_ERROR, sh1)))"

text \<open>Restoring: \<open>ent\<close> is the state at entry of the function, \<open>sav\<close> the one after the
  compiled form was looked for, where the other locals are saved.\<close>

definition leave_source :: "callbacks \<Rightarrow> eprog option \<Rightarrow> shell \<Rightarrow> shell \<Rightarrow> shell \<Rightarrow> shell" where
  "leave_source cb prog ent sav sh =
     (let sh1 = sh\<lparr>sh_funcstack := tl (sh_funcstack sh), sh_sourcelevel := sh_sourcelevel sh - 1,
                   sh_trap_state := sh_trap_state ent, sh_trap_return := sh_trap_return ent\<rparr>;
          sh2 = (case prog of
                   Some pr \<Rightarrow> cb_freeeprog cb pr sh1
                 | None \<Rightarrow> sh1\<lparr>sh_SHIN := sh_SHIN sav, sh_shinbufs := sh_shinbufs sh1 - 1\<rparr>);
          sh3 = sh2\<lparr>sh_subsh := sh_subsh sav, sh_thisjob := sh_thisjob sav,
                    sh_lineno := sh_lineno sav, sh_loops := sh_loops sav\<rparr>;
          sh4 = set_shinstdin (get_shinstdin sav) sh3
      in sh4\<lparr>sh_errflag := sh_errflag sh4 AND NOT ERRFLAG_ERROR,
             sh_retflag := (if sh_exit_pending sh4 = 0 then 0 else sh_retflag sh4),
             sh_scriptname := sh_scriptname ent, sh_scriptfilename := sh_scriptfilename ent,
             sh_cmdstack := sh_cmdstack sav\<rparr>)"

definition exit_status_of :: "source_return \<Rightarrow> int \<Rightarrow> int" where
  "exit_status_of ret lastval = (if ret = SOURCE_OK then lastval else 128 - sr_code ret)"

definition custom_source :: "callbacks \<Rightarrow> string option \<Rightarrow> shell \<Rightarrow> (source_return \<times> shell) option" where
  "custom_source cb so ent =
     (case so of
        None \<Rightarrow> Some (SOURCE_NOT_FOUND, ent)
      | Some s \<Rightarrow>
          let (started, sh1) = zp_read_clock ent;
              record_path = zp_source_path sh1 s;
              sh2 = add_depth 1 sh1;
              depth = zp_source_depth (sh_profile sh2);
              us = cb_unmeta cb s
          in (case custom_try_source_file cb us sh2 of
                None \<Rightarrow> None
              | Some (prog, sav) \<Rightarrow>
                  let tempfd = cb_open cb us sav
                  in if prog = None \<and> tempfd = -1 then
                       Some (SOURCE_NOT_FOUND,
                         zp_record_source record_path started depth (sr_code SOURCE_NOT_FOUND)
                           (128 - sr_code SOURCE_NOT_FOUND) (add_depth (- 1) sav))
                     else
                       let fd = (if prog = None then Some tempfd else None);
                           sh3 = enter_source cb s fd (sh_scriptfilename ent) sav;
                           (ret, sh4) = run_source cb prog sh3;
                           sh5 = add_depth (- 1) (leave_source cb prog ent sav sh4)
                       in Some (ret, zp_record_source record_path started depth (sr_code ret)
                                       (exit_status_of ret (sh_lastval sh5)) sh5)))"

section \<open>bin_custom_dot\<close>

text \<open>\<open>access (s, F_OK) == 0 && stat (s, &st) >= 0 && !S_ISDIR (st.st_mode)\<close>\<close>

definition sourceable :: "shell \<Rightarrow> string \<Rightarrow> bool" where
  "sourceable sh s \<longleftrightarrow>
     w_access sh s F_OK \<and> (case w_stat sh s of Inl _ \<Rightarrow> False | Inr st \<Rightarrow> \<not> S_ISDIR (st_mode st))"

text \<open>The first candidate of the path that can be sourced; \<open>diddot\<close> says that the current
  directory has been tried.\<close>

fun dot_search :: "callbacks \<Rightarrow> shell \<Rightarrow> string \<Rightarrow> bool \<Rightarrow> string list \<Rightarrow> string option" where
  "dot_search cb sh arg0 diddot [] = None"
| "dot_search cb sh arg0 diddot (t # ts) =
     (if t = [] \<or> t = ''.'' then
        (if diddot then dot_search cb sh arg0 diddot ts
         else if sourceable sh (cb_unmeta cb arg0) then Some arg0
         else dot_search cb sh arg0 True ts)
      else
        let buf = t @ ''/'' @ arg0
        in if sourceable sh (cb_unmeta cb buf) then Some buf else dot_search cb sh arg0 diddot ts)"

text \<open>Does the name start with a current or parent directory component?\<close>

definition dot_prefix :: "string \<Rightarrow> bool" where
  "dot_prefix arg0 \<longleftrightarrow> take 2 arg0 = ''./''"

definition dotdot_prefix :: "string \<Rightarrow> bool" where
  "dotdot_prefix arg0 \<longleftrightarrow> take 3 arg0 = ''../''"

text \<open>The three attempts: as given (not for the builtin \<open>.\<close>), as a path name, along the path.
  The result carries the name used last, for the diagnostic.\<close>

definition dot_attempts ::
    "callbacks \<Rightarrow> string \<Rightarrow> string \<Rightarrow> shell \<Rightarrow> (source_return \<times> string \<times> shell) option" where
  "dot_attempts cb name arg0 sh =
     (let here = (take 1 name \<noteq> ''.'' \<and> sourceable sh (cb_unmeta cb arg0))
      in case (if here then custom_source cb (Some arg0) sh else Some (SOURCE_NOT_FOUND, sh)) of
           None \<Rightarrow> None
         | Some (ret1, sh1) \<Rightarrow>
             if ret1 \<noteq> SOURCE_NOT_FOUND then Some (ret1, arg0, sh1)
             else
               let has_slash = (slash \<in> set arg0);
                   diddot = (if here then 1 else 0) + (if has_slash \<and> dot_prefix arg0 then 1 else 0 :: nat);
                   dotdot = (has_slash \<and> dotdot_prefix arg0)
               in (case (if has_slash then custom_source cb (Some arg0) sh1
                         else Some (SOURCE_NOT_FOUND, sh1)) of
                     None \<Rightarrow> None
                   | Some (ret2, sh2) \<Rightarrow>
                       if \<not> has_slash \<or> (ret2 = SOURCE_NOT_FOUND \<and> opt_set sh2 PATHDIRS \<and>
                            diddot < 2 \<and> \<not> dotdot)
                       then (case dot_search cb sh2 arg0 (diddot \<noteq> 0) (sh_path sh2) of
                               None \<Rightarrow> Some (ret2, arg0, sh2)
                             | Some buf \<Rightarrow>
                                 (case custom_source cb (Some buf) sh2 of
                                    None \<Rightarrow> None
                                  | Some (ret3, sh3) \<Rightarrow> Some (ret3, buf, sh3)))
                       else Some (ret2, arg0, sh2)))"

definition bin_custom_dot :: "callbacks \<Rightarrow> string \<Rightarrow> string list \<Rightarrow> shell \<Rightarrow> (int \<times> shell) option" where
  "bin_custom_dot cb name argv sh0 =
     (case argv of
        [] \<Rightarrow> Some (0, sh0)
      | arg0 # args \<Rightarrow>
          let sh1 = (if args \<noteq> [] then sh0\<lparr>sh_pparams := args\<rparr> else sh0);
              swap = opt_set sh1 FUNCTIONARGZERO;
              sh2 = (if swap then sh1\<lparr>sh_argzero := arg0\<rparr> else sh1)
          in (case dot_attempts cb name arg0 sh2 of
                None \<Rightarrow> None
              | Some (ret, enam, sh3) \<Rightarrow>
                  let sh4 = (if args \<noteq> [] then sh3\<lparr>sh_pparams := sh_pparams sh0\<rparr> else sh3);
                      msg = cb_errno_text cb sh4 @ '': '' @ enam;
                      sh5 = (if ret = SOURCE_NOT_FOUND then
                               (if opt_set sh4 POSIXBUILTINS then cb_zerrnam cb name msg sh4
                                else zwarnnam name msg sh4)
                             else sh4);
                      sh6 = (if swap then sh5\<lparr>sh_argzero := sh_argzero sh0\<rparr> else sh5)
                  in Some (exit_status_of ret (sh_lastval sh6), sh6)))"

section \<open>What sourcing leaves as it was\<close>

text \<open>The part of the state that a caller of \<open>custom_source\<close> finds again.\<close>

definition saved_of :: "shell \<Rightarrow> (string option \<times> string option) \<times> (int \<times> int \<times> int \<times> int) \<times>
    nat list \<times> (int \<times> int) \<times> int \<times> int" where
  "saved_of sh = ((sh_scriptname sh, sh_scriptfilename sh),
     (sh_subsh sh, sh_thisjob sh, sh_lineno sh, sh_loops sh), sh_cmdstack sh,
     (sh_trap_state sh, sh_trap_return sh), get_shinstdin sh, sh_SHIN sh)"

text \<open>The counters and stacks that entering pushes and leaving pops.\<close>

definition stacks_of :: "shell \<Rightarrow> frame list \<times> int \<times> nat \<times> int \<times> int list" where
  "stacks_of sh = (sh_funcstack sh, sh_sourcelevel sh, sh_shinbufs sh,
     zp_source_depth (sh_profile sh), sh_opt_table sh)"

text \<open>What zsh promises: compiling and freeing keep all of it; a script may assign to the saved
  variables, but leaves the stacks balanced, and a compiled one leaves the input descriptor.\<close>

definition well_behaved :: "callbacks \<Rightarrow> bool" where
  "well_behaved cb \<longleftrightarrow>
     (\<forall>file sh. saved_of (cb_zcompile cb file sh) = saved_of sh \<and>
                stacks_of (cb_zcompile cb file sh) = stacks_of sh) \<and>
     (\<forall>pr sh. saved_of (cb_freeeprog cb pr sh) = saved_of sh \<and>
              stacks_of (cb_freeeprog cb pr sh) = stacks_of sh) \<and>
     (\<forall>sh. stacks_of (cb_trace cb sh) = stacks_of sh \<and> sh_SHIN (cb_trace cb sh) = sh_SHIN sh) \<and>
     (\<forall>pr sh. stacks_of (cb_execode cb pr sh) = stacks_of sh \<and>
              sh_SHIN (cb_execode cb pr sh) = sh_SHIN sh) \<and>
     (\<forall>sh. stacks_of (snd (cb_loop cb sh)) = stacks_of sh)"

text \<open>An observation of the shell that looking for a compiled form cannot change: the search
  only touches the dumps and the warnings.\<close>

locale dump_search =
  fixes obs :: "shell \<Rightarrow> 'a"
  assumes obs_dumps: "obs (sh\<lparr>sh_dumps := d\<rparr>) = obs sh"
    and obs_warn: "obs (sh\<lparr>w_warn := ws\<rparr>) = obs sh"
begin

lemma obs_zwarnnam: "obs (zwarnnam nam msg sh) = obs sh"
  by (simp add: zwarnnam_def obs_warn)

lemma obs_load_header: "obs (snd (custom_load_dump_header nam name err sh)) = obs sh"
  by (simp add: custom_load_dump_header_def Let_def obs_zwarnnam split: sum.splits)

lemma obs_load_file: "obs (custom_load_dump_file dump sbuf other len sh) = obs sh"
  by (simp add: custom_load_dump_file_def Let_def obs_dumps split: sum.splits)

lemma obs_check_mapped: "check_mapped st name t sh f = Some (r, sh') \<Longrightarrow> obs sh' = obs sh"
  by (auto simp: check_mapped_def obs_dumps split: option.splits zres.splits if_splits)

lemma obs_check_unmapped:
  assumes "check_unmapped file st name t sh = Some (r, sh')" shows "obs sh' = obs sh"
proof -
  obtain q sh1 where q: "custom_load_dump_header [] file False sh = (q, sh1)" by fastforce
  then have 1: "obs sh1 = obs sh" by (metis obs_load_header snd_conv)
  show ?thesis
  proof (cases q)
    case (ZOk d)
    then show ?thesis using assms q 1
      by (auto simp: check_unmapped_def Let_def obs_load_file dest: obs_check_mapped
          split: option.splits zres.splits if_splits sum.splits)
  qed (use assms q 1 in \<open>auto simp: check_unmapped_def\<close>)
qed

lemma obs_check_dump:
  "custom_check_dump_file fs file sb name t sh = Some (r, sh') \<Longrightarrow> obs sh' = obs sh"
  by (auto simp: custom_check_dump_file_def dest: obs_check_mapped obs_check_unmapped
      split: option.splits)

lemma obs_try_source:
  assumes "custom_try_source_file cb file sh = Some (r, sh')"
  shows "obs sh' = obs (if has_suffix FD_EXT file then sh else compile_step cb file sh)"
  using assms
  by (auto simp: custom_try_source_file_def Let_def dest!: obs_check_dump
        split: option.splits zres.splits if_splits sum.splits)

lemma obs_try_source_same:
  assumes "\<And>file sh. obs (cb_zcompile cb file sh) = obs sh"
    and "custom_try_source_file cb file sh = Some (r, sh')"
  shows "obs sh' = obs sh"
  using obs_try_source [OF assms(2)] by (simp add: compile_step_def assms(1) obs_zwarnnam)

end

text \<open>An observation that recording an event cannot change either.\<close>

locale bookkeeping = dump_search +
  assumes obs_ticks: "obs (sh\<lparr>sh_ticks := n\<rparr>) = obs sh"
    and obs_profile: "zp_source_depth p = zp_source_depth (sh_profile sh) \<Longrightarrow>
          obs (sh\<lparr>sh_profile := p\<rparr>) = obs sh"
begin

lemma obs_clock: "obs (snd (zp_read_clock sh)) = obs sh"
  by (simp add: zp_read_clock_def obs_ticks)

lemma obs_record: "obs (zp_record_source path start depth st ex sh) = obs sh"
proof -
  let ?p = "sh_profile (zp_record_source path start depth st ex sh)"
  have "zp_source_depth ?p = zp_source_depth (sh_profile sh)"
    by (simp add: record_source_cases Let_def)
  then show ?thesis
    by (subst record_source_frame) (simp add: obs_profile obs_ticks)
qed

end

interpretation prof: dump_search sh_profile
  by unfold_locales simp_all

interpretation saved: bookkeeping saved_of
  by unfold_locales (auto simp: saved_of_def get_shinstdin_def)

interpretation stacks: bookkeeping stacks_of
  by unfold_locales (auto simp: stacks_of_def)

lemma set_shinstdin_get: "get_shinstdin (set_shinstdin v sh) = v"
  by (simp add: get_shinstdin_def set_shinstdin_def)

lemma stacks_of_iff:
  "stacks_of a = stacks_of b \<longleftrightarrow> sh_funcstack a = sh_funcstack b \<and> sh_sourcelevel a = sh_sourcelevel b \<and>
     sh_shinbufs a = sh_shinbufs b \<and>
     zp_source_depth (sh_profile a) = zp_source_depth (sh_profile b) \<and> sh_opt_table a = sh_opt_table b"
  by (auto simp: stacks_of_def)

lemma saved_of_iff:
  "saved_of a = saved_of b \<longleftrightarrow> sh_scriptname a = sh_scriptname b \<and>
     sh_scriptfilename a = sh_scriptfilename b \<and> sh_subsh a = sh_subsh b \<and>
     sh_thisjob a = sh_thisjob b \<and> sh_lineno a = sh_lineno b \<and> sh_loops a = sh_loops b \<and>
     sh_cmdstack a = sh_cmdstack b \<and> sh_trap_state a = sh_trap_state b \<and>
     sh_trap_return a = sh_trap_return b \<and> get_shinstdin a = get_shinstdin b \<and> sh_SHIN a = sh_SHIN b"
  by (auto simp: saved_of_def)

text \<open>Entering pushes one frame, one level and, for a descriptor, one input buffer.\<close>

lemma enter_source_stacks:
  assumes "well_behaved cb"
  shows "tl (sh_funcstack (enter_source cb s fd o1 sav)) = sh_funcstack sav"
    and "sh_sourcelevel (enter_source cb s fd o1 sav) = sh_sourcelevel sav + 1"
    and "sh_shinbufs (enter_source cb s fd o1 sav) = sh_shinbufs sav + (if fd = None then 0 else 1)"
    and "zp_source_depth (sh_profile (enter_source cb s fd o1 sav)) = zp_source_depth (sh_profile sav)"
    and "sh_opt_table (enter_source cb s fd o1 sav) = sh_opt_table sav"
    and "fd = None \<Longrightarrow> sh_SHIN (enter_source cb s fd o1 sav) = sh_SHIN sav"
proof -
  have t: "sh_funcstack (cb_trace cb x) = sh_funcstack x" "sh_sourcelevel (cb_trace cb x) = sh_sourcelevel x"
    "sh_shinbufs (cb_trace cb x) = sh_shinbufs x"
    "zp_source_depth (sh_profile (cb_trace cb x)) = zp_source_depth (sh_profile x)"
    "sh_opt_table (cb_trace cb x) = sh_opt_table x" "sh_SHIN (cb_trace cb x) = sh_SHIN x" for x
    using assms by (auto simp: well_behaved_def stacks_of_iff)
  show "tl (sh_funcstack (enter_source cb s fd o1 sav)) = sh_funcstack sav"
    by (simp add: enter_source_def Let_def set_shinstdin_def t split: option.splits)
  show "sh_sourcelevel (enter_source cb s fd o1 sav) = sh_sourcelevel sav + 1"
    by (simp add: enter_source_def Let_def set_shinstdin_def t split: option.splits)
  show "sh_shinbufs (enter_source cb s fd o1 sav) = sh_shinbufs sav + (if fd = None then 0 else 1)"
    by (simp add: enter_source_def Let_def set_shinstdin_def t split: option.splits)
  show "zp_source_depth (sh_profile (enter_source cb s fd o1 sav)) = zp_source_depth (sh_profile sav)"
    by (simp add: enter_source_def Let_def set_shinstdin_def t split: option.splits)
  show "sh_opt_table (enter_source cb s fd o1 sav) = sh_opt_table sav"
    by (simp add: enter_source_def Let_def set_shinstdin_def t split: option.splits)
  show "fd = None \<Longrightarrow> sh_SHIN (enter_source cb s fd o1 sav) = sh_SHIN sav"
    by (simp add: enter_source_def Let_def set_shinstdin_def t)
qed

lemma run_source_stacks:
  assumes "well_behaved cb" "run_source cb prog sh = (ret, sh')"
  shows "stacks_of sh' = stacks_of sh" and "prog \<noteq> None \<Longrightarrow> sh_SHIN sh' = sh_SHIN sh"
proof -
  have e: "stacks_of (cb_execode cb pr x) = stacks_of x" "sh_SHIN (cb_execode cb pr x) = sh_SHIN x"
    for pr x using assms(1) by (auto simp: well_behaved_def)
  have l: "stacks_of y = stacks_of x" if "cb_loop cb x = (r, y)" for r x y
    using assms(1) that by (auto simp: well_behaved_def) (metis snd_conv)
  have f: "stacks_of (x\<lparr>sh_errflag := v\<rparr>) = stacks_of x" "stacks_of (x\<lparr>sh_lastval := v\<rparr>) = stacks_of x"
    for x v by (simp_all add: stacks_of_def)
  show "stacks_of sh' = stacks_of sh"
    using assms(2) by (auto simp: run_source_def Let_def e f split: option.splits prod.splits
        loop_return.splits dest: l)
  show "prog \<noteq> None \<Longrightarrow> sh_SHIN sh' = sh_SHIN sh"
    using assms(2) by (auto simp: run_source_def Let_def e split: option.splits)
qed

text \<open>Leaving after a script that left the stacks as they were after entering.\<close>

lemma leave_source_restores:
  assumes wb: "well_behaved cb" and sav: "saved_of sav = saved_of ent"
    and fs: "tl (sh_funcstack sh) = sh_funcstack sav" and sl: "sh_sourcelevel sh = sh_sourcelevel sav + 1"
    and sb: "sh_shinbufs sh = sh_shinbufs sav + (if prog = None then 1 else 0)"
    and d: "zp_source_depth (sh_profile sh) = zp_source_depth (sh_profile sav)"
    and ot: "sh_opt_table sh = sh_opt_table sav"
    and shin: "prog \<noteq> None \<Longrightarrow> sh_SHIN sh = sh_SHIN sav"
  shows "saved_of (leave_source cb prog ent sav sh) = saved_of ent"
    and "stacks_of (leave_source cb prog ent sav sh) = stacks_of sav"
proof -
  have k: "saved_of (cb_freeeprog cb pr x) = saved_of x" "stacks_of (cb_freeeprog cb pr x) = stacks_of x"
    for pr x using wb by (auto simp: well_behaved_def)
  note k' = k [unfolded saved_of_iff stacks_of_iff]
  show "stacks_of (leave_source cb prog ent sav sh) = stacks_of sav"
    using fs sl sb d ot
    by (cases prog) (simp_all add: leave_source_def Let_def set_shinstdin_def stacks_of_iff k')
  show "saved_of (leave_source cb prog ent sav sh) = saved_of ent"
    using sav shin ot
    by (cases prog) (simp_all add: leave_source_def Let_def saved_of_iff k' set_shinstdin_def
        get_shinstdin_def)
qed

text \<open>The state before the event is recorded.\<close>

lemma custom_source_elim:
  assumes "custom_source cb (Some s) ent = Some (ret, out)"
  obtains started sh1 prog sav fin where
    "zp_read_clock ent = (started, sh1)"
    "custom_try_source_file cb (cb_unmeta cb s) (add_depth 1 sh1) = Some (prog, sav)"
    "out = zp_record_source (zp_source_path sh1 s) started (zp_source_depth (sh_profile sh1) + 1)
       (sr_code ret) (exit_status_of ret (sh_lastval fin)) fin"
    "(ret = SOURCE_NOT_FOUND \<and> prog = None \<and> fin = add_depth (- 1) sav) \<or>
     (\<exists>fd sh4. (fd = None \<longleftrightarrow> prog \<noteq> None) \<and>
        run_source cb prog (enter_source cb s fd (sh_scriptfilename ent) sav) = (ret, sh4) \<and>
        fin = add_depth (- 1) (leave_source cb prog ent sav sh4))"
proof -
  obtain started sh1 where c: "zp_read_clock ent = (started, sh1)" by fastforce
  then obtain prog sav where t:
    "custom_try_source_file cb (cb_unmeta cb s) (add_depth 1 sh1) = Some (prog, sav)"
    using assms by (auto simp: custom_source_def Let_def split: option.splits)
  have d: "zp_source_depth (sh_profile (add_depth 1 sh1)) = zp_source_depth (sh_profile sh1) + 1"
    by (simp add: add_depth_def)
  let ?fd = "if prog = None then Some (cb_open cb (cb_unmeta cb s) sav) else None"
  obtain r sh4 where r: "run_source cb prog (enter_source cb s ?fd (sh_scriptfilename ent) sav) = (r, sh4)"
    by fastforce
  show ?thesis
  proof (cases "prog = None \<and> cb_open cb (cb_unmeta cb s) sav = -1")
    case True
    then have "ret = SOURCE_NOT_FOUND"
      "out = zp_record_source (zp_source_path sh1 s) started (zp_source_depth (sh_profile sh1) + 1)
         (sr_code SOURCE_NOT_FOUND) (128 - sr_code SOURCE_NOT_FOUND) (add_depth (- 1) sav)"
      using assms c t d by (auto simp: custom_source_def Let_def)
    with True show ?thesis by (intro that [OF c t]) (auto simp: exit_status_of_def)
  next
    case False
    let ?fin = "add_depth (- 1) (leave_source cb prog ent sav sh4)"
    have o: "ret = r" "out = zp_record_source (zp_source_path sh1 s) started
        (zp_source_depth (sh_profile sh1) + 1) (sr_code r) (exit_status_of r (sh_lastval ?fin)) ?fin"
      using assms c t d r False by (auto simp: custom_source_def Let_def)
    show ?thesis
      by (rule that [OF c t o(2) [folded o(1)]], rule disjI2, rule exI [of _ ?fd], rule exI [of _ sh4])
        (use r o(1) in auto)
  qed
qed

lemma add_depth_obs [simp]:
  "saved_of (add_depth k sh) = saved_of sh" "stacks_of (add_depth k sh) =
     (case stacks_of sh of (a, b, c, d, e) \<Rightarrow> (a, b, c, d + k, e))"
  by (simp_all add: add_depth_def saved_of_def stacks_of_def get_shinstdin_def)

lemma custom_source_fin:
  assumes wb: "well_behaved cb"
    and t: "custom_try_source_file cb us (add_depth 1 sh1) = Some (prog, sav)"
    and e: "saved_of sh1 = saved_of ent" "stacks_of sh1 = stacks_of ent"
    and fin: "(ret = SOURCE_NOT_FOUND \<and> prog = None \<and> fin = add_depth (- 1) sav) \<or>
     (\<exists>fd sh4. (fd = None \<longleftrightarrow> prog \<noteq> None) \<and>
        run_source cb prog (enter_source cb s fd (sh_scriptfilename ent) sav) = (ret, sh4) \<and>
        fin = add_depth (- 1) (leave_source cb prog ent sav sh4))"
  shows "saved_of fin = saved_of ent \<and> stacks_of fin = stacks_of ent"
proof -
  have z: "\<And>file sh. saved_of (cb_zcompile cb file sh) = saved_of sh"
    "\<And>file sh. stacks_of (cb_zcompile cb file sh) = stacks_of sh"
    using wb by (auto simp: well_behaved_def)
  have sv: "saved_of sav = saved_of ent" using saved.obs_try_source_same [OF z(1) t] e by simp
  have st: "stacks_of sav = stacks_of (add_depth 1 ent)"
    using stacks.obs_try_source_same [OF z(2) t] e by simp
  then have undo: "stacks_of (add_depth (- 1) sav) = stacks_of ent"
    by (simp split: prod.splits)
  from fin show ?thesis
  proof
    assume "ret = SOURCE_NOT_FOUND \<and> prog = None \<and> fin = add_depth (- 1) sav"
    then show ?thesis using sv undo by auto
  next
    assume "\<exists>fd sh4. (fd = None \<longleftrightarrow> prog \<noteq> None) \<and>
        run_source cb prog (enter_source cb s fd (sh_scriptfilename ent) sav) = (ret, sh4) \<and>
        fin = add_depth (- 1) (leave_source cb prog ent sav sh4)"
    then obtain fd sh4 where fd: "fd = None \<longleftrightarrow> prog \<noteq> None"
      and r: "run_source cb prog (enter_source cb s fd (sh_scriptfilename ent) sav) = (ret, sh4)"
      and f: "fin = add_depth (- 1) (leave_source cb prog ent sav sh4)" by blast
    note en = enter_source_stacks [OF wb]
    note rs = run_source_stacks(1) [OF wb r, unfolded stacks_of_iff]
    have shin: "prog \<noteq> None \<Longrightarrow> sh_SHIN sh4 = sh_SHIN sav"
      using run_source_stacks(2) [OF wb r] en(6) [of fd] fd by simp
    have "saved_of (leave_source cb prog ent sav sh4) = saved_of ent \<and>
        stacks_of (leave_source cb prog ent sav sh4) = stacks_of sav"
      using leave_source_restores [OF wb sv, of sh4 prog] rs en(1-5) fd shin by auto
    then show ?thesis using f st by (auto split: prod.splits)
  qed
qed

text \<open>The caller's state after any call.\<close>

lemma custom_source_frame:
  assumes "well_behaved cb" "custom_source cb so ent = Some (ret, out)"
  shows "saved_of out = saved_of ent \<and> stacks_of out = stacks_of ent"
proof (cases so)
  case None
  then show ?thesis using assms by (simp add: custom_source_def)
next
  case (Some s)
  with assms(2) have cs: "custom_source cb (Some s) ent = Some (ret, out)" by simp
  show ?thesis
  proof (rule custom_source_elim [OF cs])
    fix started sh1 prog sav fin
    assume a: "zp_read_clock ent = (started, sh1)"
      and t: "custom_try_source_file cb (cb_unmeta cb s) (add_depth 1 sh1) = Some (prog, sav)"
      and o: "out = zp_record_source (zp_source_path sh1 s) started (zp_source_depth (sh_profile sh1) + 1)
       (sr_code ret) (exit_status_of ret (sh_lastval fin)) fin"
      and f: "(ret = SOURCE_NOT_FOUND \<and> prog = None \<and> fin = add_depth (- 1) sav) \<or>
     (\<exists>fd sh4. (fd = None \<longleftrightarrow> prog \<noteq> None) \<and>
        run_source cb prog (enter_source cb s fd (sh_scriptfilename ent) sav) = (ret, sh4) \<and>
        fin = add_depth (- 1) (leave_source cb prog ent sav sh4))"
    have "saved_of sh1 = saved_of ent" "stacks_of sh1 = stacks_of ent"
      using saved.obs_clock [of ent] stacks.obs_clock [of ent] a by simp_all
    from custom_source_fin [OF assms(1) t this f] show ?thesis
      using o by (simp add: saved.obs_record stacks.obs_record)
  qed
qed

text \<open>A script that itself sources \<open>s\<close>, run by the loop or compiled.\<close>

definition sourcing :: "callbacks \<Rightarrow> string \<Rightarrow> shell \<Rightarrow> shell" where
  "sourcing cb s sh = (case custom_source cb (Some s) sh of None \<Rightarrow> sh | Some (_, sh') \<Rightarrow> sh')"

definition script_sourcing :: "string \<Rightarrow> callbacks \<Rightarrow> callbacks" where
  "script_sourcing s cb = cb\<lparr>cb_loop := (\<lambda>sh. (LOOP_OK, sourcing cb s sh)),
                             cb_execode := (\<lambda>_ sh. sourcing cb s sh)\<rparr>"

lemma sourcing_frame:
  "well_behaved cb \<Longrightarrow> saved_of (sourcing cb s sh) = saved_of sh \<and> stacks_of (sourcing cb s sh) = stacks_of sh"
  by (auto simp: sourcing_def dest: custom_source_frame split: option.splits)

lemma script_sourcing_well_behaved: "well_behaved cb \<Longrightarrow> well_behaved (script_sourcing s cb)"
proof -
  assume wb: "well_behaved cb"
  have "sh_SHIN (sourcing cb s sh) = sh_SHIN sh" for sh
    using sourcing_frame [OF wb, of s sh] by (simp add: saved_of_iff)
  with wb sourcing_frame [OF wb] show ?thesis
    by (simp add: well_behaved_def script_sourcing_def)
qed

lemma nested_well_behaved: "well_behaved cb \<Longrightarrow> well_behaved ((script_sourcing s ^^ n) cb)"
  by (induction n) (auto intro: script_sourcing_well_behaved)

section \<open>What sourcing records\<close>

text \<open>A later profile: no event is renumbered or lost, and a mark stays.\<close>

definition later :: "profile \<Rightarrow> profile \<Rightarrow> bool" where
  "later p q \<longleftrightarrow> zp_sevent_count p \<le> zp_sevent_count q \<and>
     (zp_profile_incomplete p \<longrightarrow> zp_profile_incomplete q) \<and>
     (\<forall>m. zp_source_events p = Some m \<longrightarrow> (\<exists>m'. zp_source_events q = Some m' \<and>
        (\<forall>i \<in> {1..zp_sevent_count p}. m' (render_int i) = m (render_int i))))"

lemma later_refl [simp]: "later p p"
  by (auto simp: later_def)

lemma later_trans: "later p q \<Longrightarrow> later q r \<Longrightarrow> later p r"
  unfolding later_def by (elim conjE, intro conjI) (linarith, blast, fastforce)

lemma later_depth [simp]: "later p (p\<lparr>zp_source_depth := d\<rparr>)" "later (p\<lparr>zp_source_depth := d\<rparr>) p"
  by (auto simp: later_def)

lemma prof_ok_depth [simp]: "prof_ok (p\<lparr>zp_source_depth := d\<rparr>) = prof_ok p"
  by (simp add: prof_ok_def)

lemma later_record: "later (sh_profile sh) (sh_profile (zp_record_source path start d st ex sh))"
  by (auto simp: record_source_cases Let_def later_def recordable_def render_int_inj)

text \<open>A step of the shell that keeps the profile's books in order.\<close>

definition keeps_books :: "shell \<Rightarrow> shell \<Rightarrow> bool" where
  "keeps_books sh sh' \<longleftrightarrow> later (sh_profile sh) (sh_profile sh') \<and>
     (prof_ok (sh_profile sh) \<longrightarrow> prof_ok (sh_profile sh'))"

lemma keeps_books_trans: "keeps_books a b \<Longrightarrow> keeps_books b c \<Longrightarrow> keeps_books a c"
  by (auto simp: keeps_books_def dest: later_trans)

lemma keeps_books_same: "sh_profile sh' = sh_profile sh \<Longrightarrow> keeps_books sh sh'"
  by (simp add: keeps_books_def)

lemma keeps_books_add_depth: "keeps_books sh (add_depth k sh)"
  by (simp add: keeps_books_def add_depth_def)

lemma keeps_books_record: "keeps_books sh (zp_record_source path start d st ex sh)"
  by (simp add: keeps_books_def later_record record_source_prof_ok)

definition bookkeeping_callbacks :: "callbacks \<Rightarrow> bool" where
  "bookkeeping_callbacks cb \<longleftrightarrow>
     (\<forall>file sh. keeps_books sh (cb_zcompile cb file sh)) \<and> (\<forall>pr sh. keeps_books sh (cb_freeeprog cb pr sh)) \<and>
     (\<forall>sh. keeps_books sh (cb_trace cb sh)) \<and> (\<forall>pr sh. keeps_books sh (cb_execode cb pr sh)) \<and>
     (\<forall>sh. keeps_books sh (snd (cb_loop cb sh)))"

lemma keeps_books_try:
  assumes "bookkeeping_callbacks cb" "custom_try_source_file cb file sh = Some (r, sh')"
  shows "keeps_books sh sh'"
proof -
  have "keeps_books sh (compile_step cb file sh)"
    using assms(1) by (auto simp: compile_step_def bookkeeping_callbacks_def zwarnnam_def
        intro: keeps_books_same)
  then show ?thesis using prof.obs_try_source [OF assms(2)]
    by (auto simp: keeps_books_def split: if_splits)
qed

lemma keeps_books_enter:
  assumes "bookkeeping_callbacks cb" shows "keeps_books sh (enter_source cb s fd o1 sh)"
proof -
  have "sh_profile x = sh_profile sh \<Longrightarrow> later (sh_profile sh) (sh_profile (cb_trace cb x)) \<and>
      (prof_ok (sh_profile sh) \<longrightarrow> prof_ok (sh_profile (cb_trace cb x)))" for x
    using assms by (metis bookkeeping_callbacks_def keeps_books_def)
  then show ?thesis
    by (auto simp: enter_source_def Let_def set_shinstdin_def keeps_books_def split: option.splits)
qed

lemma keeps_books_run:
  assumes "bookkeeping_callbacks cb" "run_source cb prog sh = (ret, sh')"
  shows "keeps_books sh sh'"
proof -
  have e: "keeps_books x (cb_execode cb pr x)" "keeps_books x (snd (cb_loop cb x))" for pr x
    using assms(1) by (simp_all add: bookkeeping_callbacks_def)
  show ?thesis
  proof (cases prog)
    case None
    then show ?thesis using assms(2) e(2) [of sh]
      by (auto simp: run_source_def keeps_books_def split: prod.splits loop_return.splits)
  next
    case (Some pr)
    then show ?thesis using assms(2) e(1) [of "sh\<lparr>sh_errflag := sh_errflag sh AND NOT ERRFLAG_ERROR\<rparr>" pr]
      by (auto simp: run_source_def Let_def keeps_books_def)
  qed
qed

lemma keeps_books_leave:
  assumes "bookkeeping_callbacks cb" shows "keeps_books sh (leave_source cb prog ent sav sh)"
proof -
  have "sh_profile x = sh_profile sh \<Longrightarrow> later (sh_profile sh) (sh_profile (cb_freeeprog cb pr x)) \<and>
      (prof_ok (sh_profile sh) \<longrightarrow> prof_ok (sh_profile (cb_freeeprog cb pr x)))" for pr x
    using assms by (metis bookkeeping_callbacks_def keeps_books_def)
  then show ?thesis
    by (cases prog) (auto simp: leave_source_def Let_def set_shinstdin_def keeps_books_def)
qed

lemma keeps_books_fin:
  assumes bk: "bookkeeping_callbacks cb"
    and t: "custom_try_source_file cb us (add_depth 1 sh1) = Some (prog, sav)"
    and fin: "(ret = SOURCE_NOT_FOUND \<and> prog = None \<and> fin = add_depth (- 1) sav) \<or>
     (\<exists>fd sh4. (fd = None \<longleftrightarrow> prog \<noteq> None) \<and>
        run_source cb prog (enter_source cb s fd (sh_scriptfilename ent) sav) = (ret, sh4) \<and>
        fin = add_depth (- 1) (leave_source cb prog ent sav sh4))"
  shows "keeps_books sh1 fin"
proof -
  have "keeps_books sh1 sav"
    using keeps_books_trans [OF keeps_books_add_depth keeps_books_try [OF bk t]] .
  moreover have "keeps_books sav fin"
    using fin keeps_books_add_depth [of sav "- 1"]
    by (auto intro: keeps_books_trans [OF keeps_books_enter [OF bk] keeps_books_trans [OF
          keeps_books_run [OF bk] keeps_books_trans [OF keeps_books_leave [OF bk] keeps_books_add_depth]]])
  ultimately show ?thesis by (rule keeps_books_trans)
qed

lemma sourcing_keeps_books:
  assumes bk: "bookkeeping_callbacks cb" and cs: "custom_source cb so ent = Some (ret, out)"
  shows "keeps_books ent out"
proof (cases so)
  case (Some s)
  from cs [unfolded Some] show ?thesis
  proof (rule custom_source_elim)
    fix started sh1 prog sav fin
    assume a: "zp_read_clock ent = (started, sh1)"
      and t: "custom_try_source_file cb (cb_unmeta cb s) (add_depth 1 sh1) = Some (prog, sav)"
      and o: "out = zp_record_source (zp_source_path sh1 s) started (zp_source_depth (sh_profile sh1) + 1)
       (sr_code ret) (exit_status_of ret (sh_lastval fin)) fin"
      and f: "(ret = SOURCE_NOT_FOUND \<and> prog = None \<and> fin = add_depth (- 1) sav) \<or>
     (\<exists>fd sh4. (fd = None \<longleftrightarrow> prog \<noteq> None) \<and>
        run_source cb prog (enter_source cb s fd (sh_scriptfilename ent) sav) = (ret, sh4) \<and>
        fin = add_depth (- 1) (leave_source cb prog ent sav sh4))"
    have "keeps_books ent sh1" using a by (auto simp: zp_read_clock_def intro: keeps_books_same)
    then show ?thesis
      unfolding o by (intro keeps_books_trans [OF _ keeps_books_record] keeps_books_trans [OF _ keeps_books_fin [OF bk t f]])
  qed
qed (use cs in \<open>simp add: custom_source_def keeps_books_def\<close>)

text \<open>Only scripts record events: what runs around one leaves the profile alone.\<close>

definition unrecorded_callbacks :: "callbacks \<Rightarrow> bool" where
  "unrecorded_callbacks cb \<longleftrightarrow>
     (\<forall>file sh. sh_profile (cb_zcompile cb file sh) = sh_profile sh) \<and>
     (\<forall>pr sh. sh_profile (cb_freeeprog cb pr sh) = sh_profile sh) \<and>
     (\<forall>sh. sh_profile (cb_trace cb sh) = sh_profile sh)"

text \<open>The profiles in which the script of a call that began in \<open>p\<close> may end: a missing source runs
  no script, any other runs it once, one level deeper than the caller.\<close>

definition script_leaves :: "callbacks \<Rightarrow> profile \<Rightarrow> source_return \<Rightarrow> profile \<Rightarrow> bool" where
  "script_leaves cb p ret r \<longleftrightarrow>
     (if ret = SOURCE_NOT_FOUND then r = p
      else \<exists>prog before after. run_source cb prog before = (ret, after) \<and>
             sh_profile before = p\<lparr>zp_source_depth := zp_source_depth p + 1\<rparr> \<and> r = sh_profile after)"

lemma unrecorded_enter:
  "unrecorded_callbacks cb \<Longrightarrow> sh_profile (enter_source cb s fd o1 sh) = sh_profile sh"
  by (simp add: enter_source_def Let_def set_shinstdin_def unrecorded_callbacks_def split: option.splits)

lemma unrecorded_leave:
  "unrecorded_callbacks cb \<Longrightarrow> sh_profile (leave_source cb prog ent sav sh) = sh_profile sh"
  by (cases prog) (simp_all add: leave_source_def Let_def set_shinstdin_def unrecorded_callbacks_def)

lemma run_source_found: "run_source cb prog sh \<noteq> (SOURCE_NOT_FOUND, sh')"
  by (auto simp: run_source_def Let_def split: option.splits prod.splits loop_return.splits)

lemma unrecorded_fin:
  assumes q: "unrecorded_callbacks cb"
    and t: "custom_try_source_file cb us (add_depth 1 sh1) = Some (prog, sav)"
    and fin: "(ret = SOURCE_NOT_FOUND \<and> prog = None \<and> fin = add_depth (- 1) sav) \<or>
     (\<exists>fd sh4. (fd = None \<longleftrightarrow> prog \<noteq> None) \<and>
        run_source cb prog (enter_source cb s fd (sh_scriptfilename ent) sav) = (ret, sh4) \<and>
        fin = add_depth (- 1) (leave_source cb prog ent sav sh4))"
  shows "\<exists>r. script_leaves cb (sh_profile sh1) ret r \<and>
    zp_sevent_count (sh_profile fin) = zp_sevent_count r \<and> later r (sh_profile fin)"
proof -
  have sav: "sh_profile sav = sh_profile (add_depth 1 sh1)"
    using prof.obs_try_source_same [OF _ t] q by (simp add: unrecorded_callbacks_def)
  from fin show ?thesis
  proof
    assume "ret = SOURCE_NOT_FOUND \<and> prog = None \<and> fin = add_depth (- 1) sav"
    then show ?thesis using sav by (simp add: script_leaves_def add_depth_def)
  next
    assume "\<exists>fd sh4. (fd = None \<longleftrightarrow> prog \<noteq> None) \<and>
        run_source cb prog (enter_source cb s fd (sh_scriptfilename ent) sav) = (ret, sh4) \<and>
        fin = add_depth (- 1) (leave_source cb prog ent sav sh4)"
    then obtain fd sh4 where
      r: "run_source cb prog (enter_source cb s fd (sh_scriptfilename ent) sav) = (ret, sh4)"
      and f: "fin = add_depth (- 1) (leave_source cb prog ent sav sh4)" by blast
    have "ret \<noteq> SOURCE_NOT_FOUND" using r run_source_found by metis
    moreover have "sh_profile (enter_source cb s fd (sh_scriptfilename ent) sav) =
        (sh_profile sh1)\<lparr>zp_source_depth := zp_source_depth (sh_profile sh1) + 1\<rparr>"
      using sav by (simp add: unrecorded_enter [OF q] add_depth_def)
    ultimately have "script_leaves cb (sh_profile sh1) ret (sh_profile sh4)"
      using r by (auto simp: script_leaves_def)
    then show ?thesis using f by (auto simp: add_depth_def unrecorded_leave [OF q])
  qed
qed

section \<open>The search of the builtins\<close>

text \<open>The names the path is searched for, in order: the current directory counts once, and not
  at all when it has been tried.\<close>

definition here_dir :: "string \<Rightarrow> bool" where
  "here_dir t \<longleftrightarrow> t = [] \<or> t = ''.''"

definition candidates :: "string \<Rightarrow> bool \<Rightarrow> string list \<Rightarrow> string list" where
  "candidates arg0 tried ts =
     (let before = takeWhile (\<lambda>t. \<not> here_dir t) ts; rest = dropWhile (\<lambda>t. \<not> here_dir t) ts;
          joined = map (\<lambda>t. t @ ''/'' @ arg0) in
      if tried then joined (filter (\<lambda>t. \<not> here_dir t) ts)
      else joined before @ (if rest = [] then []
             else arg0 # joined (filter (\<lambda>t. \<not> here_dir t) (tl rest))))"

lemma dot_search_tried:
  "dot_search cb sh arg0 True ts =
     find (\<lambda>b. sourceable sh (cb_unmeta cb b)) (candidates arg0 True ts)"
  by (induction ts) (auto simp: candidates_def here_dir_def Let_def)

lemma dot_search_candidates:
  "dot_search cb sh arg0 tried ts =
     find (\<lambda>b. sourceable sh (cb_unmeta cb b)) (candidates arg0 tried ts)"
proof (cases tried)
  case False
  have "dot_search cb sh arg0 False ts =
      find (\<lambda>b. sourceable sh (cb_unmeta cb b)) (candidates arg0 False ts)"
    by (induction ts) (auto simp: dot_search_tried candidates_def here_dir_def Let_def)
  with False show ?thesis by simp
qed (simp add: dot_search_tried)

section \<open>Properties\<close>

text \<open>
  C3: Sourcing a script gives the caller its state back: the script name, the sub-shell flag, the job,
  the line number, the loop depth, the command stack, the trap state, the SHINSTDIN option and
  the input descriptor are what they were, and so are the function stack, the sourcing level, the
  saved input buffers and the profile's nesting depth.  This holds on every path, including a
  source that is not found and one that fails, and for scripts that source others to any depth.
\<close>

theorem custom_source_restores:
  assumes "well_behaved cb" "custom_source ((script_sourcing s ^^ n) cb) so ent = Some (ret, out)"
  shows "saved_of out = saved_of ent \<and> stacks_of out = stacks_of ent"
  using custom_source_frame [OF nested_well_behaved [OF assms(1)] assms(2)] .

text \<open>Callbacks of a shell with one script, which sets the line number and a status.\<close>

definition cb_example :: callbacks where
  "cb_example = \<lparr>cb_fstat = (\<lambda>_. None), cb_zcompile = (\<lambda>_ sh. sh), cb_unmeta = (\<lambda>s. s),
     cb_open = (\<lambda>s _. if s = ''/missing'' then -1 else 11), cb_execode = (\<lambda>_ sh. sh\<lparr>sh_lineno := 40\<rparr>),
     cb_freeeprog = (\<lambda>_ sh. sh), cb_loop = (\<lambda>sh. (LOOP_OK, sh\<lparr>sh_lineno := 9, sh_lastval := 3, sh_loops := 2\<rparr>)),
     cb_trace = (\<lambda>sh. sh), cb_errno_text = (\<lambda>_. ''no such file or directory''),
     cb_zerrnam = (\<lambda>_ _ sh. sh)\<rparr>"

lemma cb_example_ok: "well_behaved cb_example" "bookkeeping_callbacks cb_example"
  "unrecorded_callbacks cb_example"
  by (auto simp: well_behaved_def bookkeeping_callbacks_def unrecorded_callbacks_def cb_example_def stacks_of_def
      intro: keeps_books_same)

lemma try_source_none:
  assumes "\<forall>p. \<exists>e. w_stat sh p = Inl e" "\<not> has_suffix FD_EXT file"
  shows "custom_try_source_file cb file sh = Some (None, sh)"
proof -
  obtain e e' where "w_stat sh file = Inl e" "w_stat sh (file @ FD_EXT) = Inl e'"
    using assms(1) by meson
  then show ?thesis
    using assms(2) by (simp add: custom_try_source_file_def compile_step_def wants_compile_def)
qed

lemma custom_source_returns:
  assumes "\<forall>p. \<exists>e. w_stat ent p = Inl e" "\<not> has_suffix FD_EXT (cb_unmeta cb s)"
  shows "\<exists>ret out. custom_source cb (Some s) ent = Some (ret, out)"
proof -
  obtain started sh1 where c: "zp_read_clock ent = (started, sh1)" by fastforce
  then have "w_stat (add_depth 1 sh1) = w_stat ent"
    by (auto simp: zp_read_clock_def add_depth_def)
  with assms have "custom_try_source_file cb (cb_unmeta cb s) (add_depth 1 sh1) = Some (None, add_depth 1 sh1)"
    by (intro try_source_none) simp_all
  then show ?thesis
    using c by (auto simp: custom_source_def Let_def split: prod.splits)
qed

lemma nested_unmeta: "cb_unmeta ((script_sourcing s ^^ n) cb) = cb_unmeta cb"
  by (induction n) (simp_all add: script_sourcing_def)

theorem custom_source_restores_witness:
  "\<exists>ret out. custom_source ((script_sourcing ''b'' ^^ 2) cb_example) (Some ''a'') shell0 = Some (ret, out) \<and>
     saved_of out = saved_of shell0 \<and> stacks_of out = stacks_of shell0"
proof -
  have "\<not> has_suffix FD_EXT (cb_unmeta ((script_sourcing ''b'' ^^ 2) cb_example) ''a'')"
    by (simp add: nested_unmeta cb_example_def has_suffix_def FD_EXT_def)
  moreover have "\<forall>p. \<exists>e. w_stat shell0 p = Inl e"
    by (simp add: shell0_def world0_def world.defs)
  ultimately obtain ret out where
    "custom_source ((script_sourcing ''b'' ^^ 2) cb_example) (Some ''a'') shell0 = Some (ret, out)"
    using custom_source_returns by blast
  with custom_source_restores [OF cb_example_ok(1) this] show ?thesis by blast
qed

text \<open>
  C4: Each call of \<open>custom_source\<close> with a name records exactly one event of its own, after everything
  its script recorded: unless the profile is marked incomplete, the table holds one event more than
  the script left in it, and none more than the caller had when the source is not found.  That event
  is the last of the table; it carries the absolute path of the source, the nesting depth one above
  the caller's, the result and the exit status that the caller sees.  No earlier event is changed, the
  table stays exact and a mark stays.  What the shell runs around a script (compiling, tracing,
  releasing a program) is taken to record nothing.
\<close>

theorem custom_source_records:
  assumes "bookkeeping_callbacks cb" "unrecorded_callbacks cb" "prof_ok (sh_profile ent)"
    and "custom_source cb (Some s) ent = Some (ret, out)"
  shows "let p = sh_profile ent; q = sh_profile out in
    later p q \<and> prof_ok q \<and>
    (zp_profile_incomplete q \<or>
     (\<exists>r. script_leaves cb p ret r \<and> later r q \<and> zp_sevent_count q = zp_sevent_count r + 1) \<and>
     zp_sevent_count p < zp_sevent_count q \<and>
     (\<exists>e. the (zp_source_events q) (render_int (zp_sevent_count q)) = Some e \<and>
        Some (ev_full_path e) = zp_source_path ent s \<and> ev_depth e = zp_source_depth p + 1 \<and>
        ev_load_error e = sr_code ret \<and> ev_exit_status e = exit_status_of ret (sh_lastval out)))"
proof -
  have kb: "keeps_books ent out" by (rule sourcing_keeps_books [OF assms(1,4)])
  from assms(4) have "zp_profile_incomplete (sh_profile out) \<or>
     (\<exists>r. script_leaves cb (sh_profile ent) ret r \<and> later r (sh_profile out) \<and>
        zp_sevent_count (sh_profile out) = zp_sevent_count r + 1) \<and>
     zp_sevent_count (sh_profile ent) < zp_sevent_count (sh_profile out) \<and>
     (\<exists>e. the (zp_source_events (sh_profile out)) (render_int (zp_sevent_count (sh_profile out))) = Some e \<and>
        Some (ev_full_path e) = zp_source_path ent s \<and>
        ev_depth e = zp_source_depth (sh_profile ent) + 1 \<and>
        ev_load_error e = sr_code ret \<and> ev_exit_status e = exit_status_of ret (sh_lastval out))"
  proof (rule custom_source_elim)
    fix started sh1 prog sav fin
    assume a: "zp_read_clock ent = (started, sh1)"
      and t: "custom_try_source_file cb (cb_unmeta cb s) (add_depth 1 sh1) = Some (prog, sav)"
      and o: "out = zp_record_source (zp_source_path sh1 s) started (zp_source_depth (sh_profile sh1) + 1)
       (sr_code ret) (exit_status_of ret (sh_lastval fin)) fin"
      and f: "(ret = SOURCE_NOT_FOUND \<and> prog = None \<and> fin = add_depth (- 1) sav) \<or>
     (\<exists>fd sh4. (fd = None \<longleftrightarrow> prog \<noteq> None) \<and>
        run_source cb prog (enter_source cb s fd (sh_scriptfilename ent) sav) = (ret, sh4) \<and>
        fin = add_depth (- 1) (leave_source cb prog ent sav sh4))"
    have e: "sh_profile sh1 = sh_profile ent" "zp_source_path sh1 s = zp_source_path ent s"
      using a by (auto simp: zp_read_clock_def zp_source_path_def)
    have c: "zp_sevent_count (sh_profile ent) \<le> zp_sevent_count (sh_profile fin)"
      using keeps_books_fin [OF assms(1) t f] e by (simp add: keeps_books_def later_def)
    obtain r where r: "script_leaves cb (sh_profile ent) ret r"
      "zp_sevent_count (sh_profile fin) = zp_sevent_count r" "later r (sh_profile fin)"
      using unrecorded_fin [OF assms(2) t f] e(1) by auto
    have l: "sh_lastval out = sh_lastval fin"
      unfolding o by (subst record_source_frame) simp
    have l2: "later r (sh_profile out)"
      unfolding o by (rule later_trans [OF r(3) later_record])
    have rec: "zp_profile_incomplete (sh_profile out) \<or>
        zp_sevent_count (sh_profile out) = zp_sevent_count (sh_profile fin) + 1 \<and>
        (\<exists>e. the (zp_source_events (sh_profile out)) (render_int (zp_sevent_count (sh_profile out))) = Some e \<and>
          Some (ev_full_path e) = zp_source_path ent s \<and>
          ev_depth e = zp_source_depth (sh_profile ent) + 1 \<and>
          ev_load_error e = sr_code ret \<and> ev_exit_status e = exit_status_of ret (sh_lastval fin))"
      using e by (auto simp: o record_source_cases Let_def recordable_def recorded_event_def)
    then show ?thesis using c r(1,2) l l2 by auto
  qed
  with kb assms(3) show ?thesis by (simp add: Let_def keeps_books_def)
qed

lemma cb_example_simps [simp]: "cb_unmeta cb_example s = s" "cb_trace cb_example sh = sh"
  "cb_open cb_example s sh = (if s = ''/missing'' then -1 else 11)"
  "cb_loop cb_example sh = (LOOP_OK, sh\<lparr>sh_lineno := 9, sh_lastval := 3, sh_loops := 2\<rparr>)"
  by (simp_all add: cb_example_def)

lemma one_source_example:
  assumes "\<forall>p. \<exists>e. w_stat sh p = Inl e" 
    "sh_profile sh = profile0" "mem_ok sh" "sh_clock sh = (\<lambda>n. Some (int n, 0))" "sh_ticks sh = 0"
    "\<not> has_suffix FD_EXT s" "s \<noteq> ''/missing''"
  shows "\<exists>out. custom_source cb_example (Some s) sh = Some (SOURCE_OK, out) \<and> sh_lastval out = 3 \<and>
     \<not> zp_profile_incomplete (sh_profile out) \<and> w_out_room out = w_out_room sh \<and> w_flush_ok out = w_flush_ok sh"
proof -
  let ?s1 = "sh\<lparr>sh_ticks := Suc 0\<rparr>"
  let ?s = "add_depth 1 ?s1"
  have t: "custom_try_source_file cb_example s ?s = Some (None, ?s)"
    using assms(1) by (intro try_source_none) (simp_all add: add_depth_def assms(6))
  let ?in = "enter_source cb_example s (Some 11) (sh_scriptfilename sh) ?s"
  let ?r = "?in\<lparr>sh_lineno := 9, sh_lastval := 3, sh_loops := 2\<rparr>"
  let ?fin = "add_depth (- 1) (leave_source cb_example None sh ?s ?r)"
  have o: "custom_source cb_example (Some s) sh = Some (SOURCE_OK,
      zp_record_source (zp_source_path ?s1 s) (Some (0, 0)) (zp_source_depth (sh_profile ?s)) 0
        (sh_lastval ?fin) ?fin)"
    using assms(4,5,7) by (simp add: custom_source_def zp_read_clock_def Let_def t run_source_def
        exit_status_of_def)
  have l: "sh_lastval ?fin = 3"
    by (simp add: leave_source_def Let_def set_shinstdin_def add_depth_def)
  have f: "w_alloc ?fin = w_alloc sh" "sh_clock ?fin = sh_clock sh" "sh_ticks ?fin = Suc 0"
    by (simp_all add: enter_source_def leave_source_def Let_def set_shinstdin_def add_depth_def)
  have p: "zp_source_events (sh_profile ?fin) = Some Map.empty" "zp_sevent_count (sh_profile ?fin) = 0"
    "\<not> zp_profile_incomplete (sh_profile ?fin)"
    using assms(2) by (simp_all add: enter_source_def leave_source_def Let_def set_shinstdin_def
        add_depth_def profile0_def)
  have z: "zp_source_path ?s1 s \<noteq> None" using assms(3) by (simp add: zp_source_path_def mem_ok_def)
  have e: "zp_elapsed_ns 0 0 1 0 \<noteq> None" by code_simp
  have "\<not> zp_profile_incomplete (sh_profile (zp_record_source (zp_source_path ?s1 s) (Some (0, 0))
      (zp_source_depth (sh_profile ?s)) 0 (sh_lastval ?fin) ?fin))"
    using z e p f(1-3) assms(3-5)
    by (auto simp: record_source_cases recordable_def Let_def sample_elapsed_def c_limits mem_ok_def)
  moreover have "sh_lastval (zp_record_source path st d x y ?fin) = 3"
    "w_out_room (zp_record_source path st d x y ?fin) = w_out_room sh"
    "w_flush_ok (zp_record_source path st d x y ?fin) = w_flush_ok sh" for path st d x y
    by (subst record_source_frame, simp add: l enter_source_def leave_source_def Let_def set_shinstdin_def
        add_depth_def)+
  ultimately show ?thesis using o by simp
qed
lemma shell0_simps: "sh_profile shell0 = profile0" "mem_ok shell0" "w_stat shell0 = (\<lambda>_. Inl ENOENT)"
  "sh_clock shell0 = (\<lambda>n. Some (int n, 0))" "sh_ticks shell0 = 0"
  by (simp_all add: shell0_def world.defs mem_ok_def world0_def)

lemma example_script_leaves:
  "script_leaves cb_example p ret r \<Longrightarrow> zp_sevent_count r = zp_sevent_count p"
  by (auto simp: script_leaves_def run_source_def Let_def cb_example_def split: option.splits if_splits)

theorem custom_source_records_witness:
  "\<exists>out e. custom_source cb_example (Some ''a'') shell0 = Some (SOURCE_OK, out) \<and>
     zp_sevent_count (sh_profile out) = 1 \<and>
     the (zp_source_events (sh_profile out)) (render_int 1) = Some e \<and>
     Some (ev_full_path e) = zp_source_path shell0 ''a'' \<and> ev_depth e = 1 \<and> ev_exit_status e = 3"
proof -
  obtain out where o: "custom_source cb_example (Some ''a'') shell0 = Some (SOURCE_OK, out)"
    and v: "sh_lastval out = 3" "\<not> zp_profile_incomplete (sh_profile out)"
    using one_source_example [of shell0 "''a''"] by (auto simp: shell0_simps has_suffix_def FD_EXT_def)
  obtain r e where r: "script_leaves cb_example profile0 SOURCE_OK r"
    "zp_sevent_count (sh_profile out) = zp_sevent_count r + 1"
    and e: "the (zp_source_events (sh_profile out)) (render_int (zp_sevent_count (sh_profile out))) = Some e"
      "Some (ev_full_path e) = zp_source_path shell0 ''a''" "ev_depth e = zp_source_depth profile0 + 1"
      "ev_exit_status e = exit_status_of SOURCE_OK (sh_lastval out)"
    using custom_source_records [OF cb_example_ok(2,3) _ o] v(2) by (auto simp: Let_def shell0_simps)
  then have "zp_sevent_count (sh_profile out) = 1"
    using example_script_leaves [OF r(1)] by (simp add: profile0_def)
  then show ?thesis using o e v by (auto simp: exit_status_of_def profile0_def)
qed

text \<open>
  C8: A compiled form is used only when it is fresh: a program returned for a plain source comes from
  the search of its \<open>.zwc\<close> file, which exists after the compile step and is at least as new as
  the source was when the call began.
\<close>

theorem try_source_never_stale:
  assumes "custom_try_source_file cb file sh = Some (Some prog, sh')" "\<not> has_suffix FD_EXT file"
  shows "\<exists>stc. w_stat (compile_step cb file sh) (file @ FD_EXT) = Inr stc \<and>
    (\<forall>stn. w_stat sh file = Inr stn \<longrightarrow> st_mtime stn \<le> st_mtime stc) \<and>
    custom_check_dump_file (cb_fstat cb) (file @ FD_EXT) (Some stc) (base_name file) False
      (compile_step cb file sh) = Some (ZOk prog, sh')"
  using assms
  by (auto simp: custom_try_source_file_def Let_def split: sum.splits option.splits zres.splits if_splits)

text \<open>A shell in which \<open>d.zwc\<close> is mapped and newer than \<open>d\<close>.\<close>

definition fresh_shell :: shell where
  "fresh_shell = shell0
     \<lparr>w_stat := (\<lambda>p. if p = ''d.zwc'' then Inr ((w_fresh shell0 p)\<lparr>st_mtime := 20\<rparr>)
                  else if p = ''d'' then Inr ((w_fresh shell0 p)\<lparr>st_mtime := 10\<rparr>) else Inl ENOENT),
      sh_dumps := [\<lparr>fd_filename = ''d.zwc'', fd_dev = 1, fd_ino = 1, fd_map = sample_dump,
                    fd_len = 104, fd_count = 0\<rparr>]\<rparr>"

lemma fresh_shell_finds:
  "\<exists>prog sh'. custom_try_source_file cb_example ''d'' fresh_shell = Some (Some prog, sh')"
proof -
  have h: "heads_at sample_dump (FDHEADERLEN sample_dump) FD_PRELEN [(12, ''abc''), (19, ''d'')]"
    "FD_PRELEN < length sample_dump" by code_simp+
  have "h_npats sample_dump 19 = 0" by code_simp
  then have np: "\<exists>prog. mapped_prog sample_dump 19 = ZOk prog" by (simp add: mapped_prog_def)
  have f: "custom_dump_find_func sample_dump ''d'' = Some (ZOk 19)"
    using find_from_heads [OF h(1), of "''d''"] h(2) by (simp add: custom_dump_find_func_def nul_def)
  have "compile_step cb_example ''d'' fresh_shell = fresh_shell"
    by (simp add: compile_step_def wants_compile_def fresh_shell_def FD_EXT_def)
  then have "custom_try_source_file cb_example ''d'' fresh_shell =
      (case custom_check_dump_file (cb_fstat cb_example) ''d.zwc''
         (Some ((w_fresh shell0 ''d.zwc'')\<lparr>st_mtime := 20\<rparr>)) ''d'' False fresh_shell of
         None \<Rightarrow> None | Some (ZFault, sh') \<Rightarrow> None | Some (ZNull, sh') \<Rightarrow> Some (None, sh')
       | Some (ZOk prog, sh') \<Rightarrow> Some (Some prog, sh'))"
    by (simp add: custom_try_source_file_def Let_def has_suffix_def FD_EXT_def base_name_def
        strrchr_def slash_def fresh_shell_def)
  moreover have "find_dump ((w_fresh shell0 ''d.zwc'')\<lparr>st_mtime := 20\<rparr>) (sh_dumps fresh_shell) =
      Some \<lparr>fd_filename = ''d.zwc'', fd_dev = 1, fd_ino = 1, fd_map = sample_dump, fd_len = 104, fd_count = 0\<rparr>"
    by (simp add: find_dump_def fresh_shell_def shell0_def world0_def world.defs)
  ultimately show ?thesis
    using np by (auto simp: custom_check_dump_file_def check_mapped_def f)
qed

theorem try_source_never_stale_witness:
  "\<exists>stc. w_stat (compile_step cb_example ''d'' fresh_shell) (''d'' @ FD_EXT) = Inr stc \<and> 10 \<le> st_mtime stc"
proof -
  obtain prog sh' where "custom_try_source_file cb_example ''d'' fresh_shell = Some (Some prog, sh')"
    using fresh_shell_finds by blast
  moreover have "\<not> has_suffix FD_EXT ''d''" by (simp add: has_suffix_def FD_EXT_def)
  moreover have "w_stat fresh_shell ''d'' = Inr ((w_fresh shell0 ''d'')\<lparr>st_mtime := 10\<rparr>)"
    by (simp add: fresh_shell_def)
  ultimately show ?thesis using try_source_never_stale by fastforce
qed

text \<open>
  The compiler runs only when it is useful and allowed: for a regular source whose compiled form
  is missing or older, in a writable directory (or with debugging on), readable and not
  \<open>/dev/null\<close>.  In every other case the result does not depend on the compiler at all.
\<close>

theorem try_source_compiles_only_when_wanted:
  assumes "\<not> (\<exists>stn. w_stat sh file = Inr stn \<and> S_ISREG (st_mode stn) \<and>
      (\<forall>stc. w_stat sh (file @ FD_EXT) = Inr stc \<longrightarrow> st_mtime stc < st_mtime stn)) \<or>
    \<not> w_access sh (dir_of file) W_OK \<and> w_sparam sh ''ZI_MOD_DEBUG'' \<noteq> Some ''1'' \<or>
    \<not> w_access sh file R_OK \<or> file = ''/dev/null'' \<or> has_suffix FD_EXT file"
  shows "custom_try_source_file (cb\<lparr>cb_zcompile := compiler\<rparr>) file sh = custom_try_source_file cb file sh"
proof -
  have "has_suffix FD_EXT file \<or> \<not> (wants_compile file sh \<and> may_compile file sh)"
    using assms by (auto simp: wants_compile_def may_compile_def debug_enabled_def split: sum.splits)
  then have "has_suffix FD_EXT file \<or> compile_step (cb\<lparr>cb_zcompile := compiler\<rparr>) file sh = compile_step cb file sh"
    by (auto simp: compile_step_def)
  moreover have "cb_fstat (cb\<lparr>cb_zcompile := compiler\<rparr>) = cb_fstat cb" by simp
  ultimately show ?thesis
    by (elim disjE) (simp_all only: custom_try_source_file_def if_True Let_def)
qed

theorem try_source_compiles_only_when_wanted_witness:
  "custom_try_source_file (cb_example\<lparr>cb_zcompile := (\<lambda>_ sh. sh\<lparr>sh_errflag := 1\<rparr>)\<rparr>) ''/dev/null'' shell0 =
   custom_try_source_file cb_example ''/dev/null'' shell0"
  by (rule try_source_compiles_only_when_wanted) simp

text \<open>What the builtin sets for its script.\<close>

definition during_dot :: "string \<Rightarrow> string list \<Rightarrow> shell \<Rightarrow> shell" where
  "during_dot arg0 args sh =
     (let sh1 = (if args = [] then sh else sh\<lparr>sh_pparams := args\<rparr>)
      in if opt_set sh FUNCTIONARGZERO then sh1\<lparr>sh_argzero := arg0\<rparr> else sh1)"

lemma during_dot_simps [simp]: "sh_path (during_dot arg0 args sh) = sh_path sh"
  "opt_set (during_dot arg0 args sh) o1 = opt_set sh o1"
  by (simp_all add: during_dot_def Let_def opt_set_def)

lemma bin_custom_dot_during:
  "bin_custom_dot cb name (arg0 # args) sh0 =
     (case dot_attempts cb name arg0 (during_dot arg0 args sh0) of
        None \<Rightarrow> None
      | Some (ret, enam, sh3) \<Rightarrow>
          let sh4 = (if args \<noteq> [] then sh3\<lparr>sh_pparams := sh_pparams sh0\<rparr> else sh3);
              msg = cb_errno_text cb sh4 @ '': '' @ enam;
              sh5 = (if ret = SOURCE_NOT_FOUND then
                       (if opt_set sh4 POSIXBUILTINS then cb_zerrnam cb name msg sh4
                        else zwarnnam name msg sh4)
                     else sh4);
              sh6 = (if opt_set sh0 FUNCTIONARGZERO then sh5\<lparr>sh_argzero := sh_argzero sh0\<rparr> else sh5)
          in Some (exit_status_of ret (sh_lastval sh6), sh6))"
  by (auto simp: bin_custom_dot_def during_dot_def opt_set_def Let_def split: option.splits)

lemma dot_attempts_path:
  assumes "slash \<notin> set arg0"
  shows "dot_attempts cb ''.'' arg0 sh =
    (case find (\<lambda>b. sourceable sh (cb_unmeta cb b)) (candidates arg0 False (sh_path sh)) of
       None \<Rightarrow> Some (SOURCE_NOT_FOUND, arg0, sh)
     | Some b \<Rightarrow> (case custom_source cb (Some b) sh of
                    None \<Rightarrow> None | Some (ret, sh') \<Rightarrow> Some (ret, b, sh')))"
  using assms by (simp add: dot_attempts_def dot_search_candidates Let_def)

text \<open>
  C36: The builtin \<open>.\<close>, given a name without a slash, sources the first name of the path that exists
  and is no directory, the current directory counting once, and returns the status of that source;
  with none it returns 127.  The positional parameters and \<open>$0\<close> that it sets for the script are
  in force while it runs and restored afterwards.
\<close>

theorem bin_custom_dot_searches_path:
  assumes "slash \<notin> set arg0"
    and "\<And>nm m s. sh_pparams (cb_zerrnam cb nm m s) = sh_pparams s"
  shows "let found = find (\<lambda>b. sourceable (during_dot arg0 args sh) (cb_unmeta cb b))
                       (candidates arg0 False (sh_path sh));
             result = bin_custom_dot cb ''.'' (arg0 # args) sh
    in (found = None \<longrightarrow> (\<exists>out. result = Some (127, out))) \<and>
       (\<forall>b ret mid. found = Some b \<and> custom_source cb (Some b) (during_dot arg0 args sh) = Some (ret, mid) \<longrightarrow>
          (\<exists>out. result = Some (exit_status_of ret (sh_lastval mid), out))) \<and>
       (\<forall>code out. result = Some (code, out) \<longrightarrow>
          (args \<noteq> [] \<longrightarrow> sh_pparams out = sh_pparams sh) \<and>
          (opt_set sh FUNCTIONARGZERO \<longrightarrow> sh_argzero out = sh_argzero sh))"
proof -
  note d = bin_custom_dot_during dot_attempts_path [OF assms(1)] Let_def exit_status_of_def zwarnnam_def
  show ?thesis
    unfolding Let_def
  proof (intro conjI allI impI)
    fix code out
    assume "bin_custom_dot cb ''.'' (arg0 # args) sh = Some (code, out)"
    then show "opt_set sh FUNCTIONARGZERO \<Longrightarrow> sh_argzero out = sh_argzero sh"
      by (auto simp: d split: option.splits)
    assume "bin_custom_dot cb ''.'' (arg0 # args) sh = Some (code, out)" "args \<noteq> []"
    then show "sh_pparams out = sh_pparams sh"
      by (auto simp: d assms(2) split: option.splits if_splits)
  qed (auto simp: d split: option.splits)
qed

text \<open>A shell with \<open>f\<close> in the second directory of its path.\<close>

definition path_shell :: shell where
  "path_shell = shell0\<lparr>sh_path := [''/bin'', ''/usr'', ''.''], w_access := (\<lambda>p _. p = ''/usr/f''),
     w_stat := (\<lambda>p. if p = ''/usr/f'' then Inr (w_fresh shell0 p) else Inl ENOENT)\<rparr>"

lemma path_shell_sourceable:
  "sourceable (during_dot a args path_shell) b \<longleftrightarrow> b = ''/usr/f''"
  by (simp add: sourceable_def during_dot_def Let_def path_shell_def shell0_def world0_def world.defs
      S_ISDIR_def mode_consts)

lemma path_shell_found:
  "find (sourceable (during_dot ''g'' args path_shell)) (candidates ''g'' False (sh_path path_shell)) = None"
proof -
  have "sh_path path_shell = [''/bin'', ''/usr'', ''.'']" by (simp add: path_shell_def)
  then show ?thesis by (simp add: path_shell_sourceable candidates_def here_dir_def)
qed

theorem bin_custom_dot_searches_path_witness:
  "\<exists>out. bin_custom_dot cb_example ''.'' [''g'', ''x''] path_shell = Some (127, out) \<and>
     sh_pparams out = sh_pparams path_shell"
proof -
  have "slash \<notin> set ''g''" by (simp add: c_chars)
  moreover have "sh_pparams (cb_zerrnam cb_example nm m s) = sh_pparams s" for nm m s
    by (simp add: cb_example_def)
  ultimately show ?thesis
    using bin_custom_dot_searches_path [of "''g''" cb_example "[''x'']" path_shell]
    by (auto simp: Let_def path_shell_found)
qed

end
