(* ===== verification/Zp_Vec.thy ===== *)
theory Zp_Vec
  imports Zp_World
begin

text \<open>
  The growable arrays of the sources (\<open>zp_cc_vec\<close>, \<open>rh_vec\<close>, \<open>bb_vec\<close>): elements and
  capacity, doubled when full, and the loops that fill one from a list of candidates.  The locale
  states what a push promises; each component proves it of its own push.
\<close>

record 'a vec =
  vec_items :: "'a list"
  vec_cap :: nat

definition vec_init :: "'a vec" where
  "vec_init = \<lparr>vec_items = [], vec_cap = 0\<rparr>"

text \<open>The common body of the pushes: first capacity \<open>c0\<close>, elements of \<open>esz\<close> bytes.\<close>

definition vec_push :: "nat \<Rightarrow> nat \<Rightarrow> 'w world_scheme \<Rightarrow> 'a vec \<Rightarrow> 'a \<Rightarrow> 'a vec option" where
  "vec_push c0 esz w v e =
     (if length (vec_items v) = vec_cap v then
        let ncap = (if vec_cap v \<noteq> 0 then vec_cap v * 2 else c0)
        in if w_alloc w (ncap * esz)
           then Some \<lparr>vec_items = vec_items v @ [e], vec_cap = ncap\<rparr>
           else None
      else Some (v\<lparr>vec_items := vec_items v @ [e]\<rparr>))"

text \<open>What one turn of a filling loop does: \<open>continue\<close>, \<open>break\<close>, or push.\<close>

datatype 'a turn = Skip | Stop | Put 'a

fun fill :: "('a vec \<Rightarrow> 'a \<Rightarrow> 'a vec option) \<Rightarrow> 'a vec \<Rightarrow> 'a turn list \<Rightarrow> 'a vec" where
  "fill push v [] = v"
| "fill push v (Skip # ts) = fill push v ts"
| "fill push v (Stop # ts) = v"
| "fill push v (Put e # ts) =
     (case push v e of None \<Rightarrow> v | Some v' \<Rightarrow> fill push v' ts)"

text \<open>The elements a loop offers.\<close>

fun offered :: "'a turn list \<Rightarrow> 'a list" where
  "offered [] = []"
| "offered (Skip # ts) = offered ts"
| "offered (Stop # ts) = []"
| "offered (Put e # ts) = e # offered ts"

lemma offered_map: "Stop \<notin> set ts \<Longrightarrow> offered ts = concat (map (\<lambda>t. case t of Put e \<Rightarrow> [e] | _ \<Rightarrow> []) ts)"
  by (induction ts rule: offered.induct) auto

section \<open>The contract\<close>

text \<open>Elements lie inside the allocation, whose size is the first capacity doubled and at most
  twice what is used.\<close>

definition vec_ok :: "nat \<Rightarrow> 'a vec \<Rightarrow> bool" where
  "vec_ok c0 v \<longleftrightarrow> length (vec_items v) \<le> vec_cap v \<and>
     (vec_cap v = 0 \<or> (\<exists>k. vec_cap v = c0 * 2 ^ k)) \<and>
     (vec_cap v \<le> c0 \<or> vec_cap v < 2 * length (vec_items v))"

locale growable =
  fixes push :: "'w world_scheme \<Rightarrow> 'a vec \<Rightarrow> 'a \<Rightarrow> 'a vec option"
    and ok :: "'a vec \<Rightarrow> bool"
  assumes push_items: "push w v e = Some v' \<Longrightarrow> vec_items v' = vec_items v @ [e]"
    and push_ok: "ok v \<Longrightarrow> push w v e = Some v' \<Longrightarrow> ok v'"
    and push_total: "mem_ok w \<Longrightarrow> push w v e \<noteq> None"
    and init_ok: "ok vec_init"
begin

lemma fill_ok: "ok v \<Longrightarrow> ok (fill (push w) v ts)"
  by (induction "push w" v ts rule: fill.induct) (auto split: option.splits intro: push_ok)

lemma fill_prefix: "\<exists>es. prefix es (offered ts) \<and> vec_items (fill (push w) v ts) = vec_items v @ es"
proof (induction "push w" v ts rule: fill.induct)
  case (4 v e ts)
  then show ?case
    by (cases "push w v e") (auto dest!: push_items intro: exI [of _ "[]"])
qed auto

lemma fill_total: "mem_ok w \<Longrightarrow> vec_items (fill (push w) v ts) = vec_items v @ offered ts"
proof (induction "push w" v ts rule: fill.induct)
  case (4 v e ts)
  then show ?case using push_total [of w v e] by (auto dest: push_items split: option.splits)
qed auto

lemma fill_init_total: "mem_ok w \<Longrightarrow> vec_items (fill (push w) vec_init ts) = offered ts"
  by (simp add: fill_total vec_init_def)

lemma fill_init_subset: "set (vec_items (fill (push w) vec_init ts)) \<subseteq> set (offered ts)"
  using fill_prefix [of ts w vec_init] by (auto simp: vec_init_def prefix_def)

end

lemma vec_push_ok:
  assumes "0 < c0" "vec_ok c0 v" "vec_push c0 esz w v e = Some v'"
  shows "vec_ok c0 v'"
proof (cases "length (vec_items v) = vec_cap v")
  case True
  then have v': "vec_items v' = vec_items v @ [e]" "vec_cap v' = (if vec_cap v \<noteq> 0 then vec_cap v * 2 else c0)"
    using assms(3) by (auto simp: vec_push_def Let_def split: if_splits)
  show ?thesis
  proof (cases "vec_cap v = 0")
    case True
    then show ?thesis using assms v' \<open>length (vec_items v) = vec_cap v\<close>
      by (auto simp: vec_ok_def intro: exI [of _ 0])
  next
    case False
    then obtain k where "vec_cap v = c0 * 2 ^ k" using assms(2) by (auto simp: vec_ok_def)
    then have "vec_cap v * 2 = c0 * 2 ^ Suc k" by simp
    with False v' True assms(1) show ?thesis by (auto simp: vec_ok_def intro!: exI [of _ "Suc k"])
  qed
next
  case False
  then show ?thesis using assms by (auto simp: vec_push_def vec_ok_def)
qed

lemma growable_vec_push: "0 < c0 \<Longrightarrow> growable (vec_push c0 esz) (vec_ok c0)"
proof unfold_locales
  show "0 < c0 \<Longrightarrow> vec_ok c0 v \<Longrightarrow> vec_push c0 esz w v e = Some v' \<Longrightarrow> vec_ok c0 v'" for w v e v'
    by (rule vec_push_ok)
qed (auto simp: vec_push_def Let_def vec_ok_def vec_init_def split: if_splits)

end
