(* ===== verification/Zp_Cache.thy ===== *)
theory Zp_Cache
  imports Zp_Vec Zp_Utils Zp_Emoji
begin

text \<open>
  What the two cache files of the module (\<open>compaudit_cache.c\<close>, \<open>rehash_diff.c\<close>) share: text
  files with a head line and one line of tab-separated fields per entry, which a loop over
  \<open>fgets\<close> reads into a vector.  The locale states what a printer and a parser of entries owe each
  other; each component proves it of its own.
\<close>

section \<open>Paths\<close>

text \<open>A path that the format can carry.\<close>

definition path_fine :: "string \<Rightarrow> bool" where
  "path_fine path \<longleftrightarrow> field_ok tab path \<and> newline \<notin> set path \<and> nul \<notin> set path \<and>
     hd path \<noteq> CHR ''#'' \<and> length path \<le> 3900"

text \<open>Paths that do not run through the cache file.\<close>

definition apart :: "string \<Rightarrow> string \<Rightarrow> bool" where
  "apart p path \<longleftrightarrow> \<not> starts_with p path"

section \<open>Numbers in a line\<close>

lemma strtol_whole [cnum]:
  "long_range v \<Longrightarrow> strtol 10 (render_int v) = (v, [], False)"
  "2 \<le> b \<Longrightarrow> b \<le> 10 \<Longrightarrow> int n \<le> LONG_MAX \<Longrightarrow> strtol b (render_nat b n) = (int n, [], False)"
  using strtol_render_int [of "[]" v] strtol_render_nat [of b "[]" n] by simp_all

section \<open>Reading back\<close>

lemma offered_put [simp]: "offered (map Put es) = es"
  by (induction es) auto

text \<open>A file of entries: its head line, how an entry is printed, how a line is parsed.\<close>

locale line_format =
  fixes head :: string
    and line :: "'e \<Rightarrow> string"
    and parse :: "'w world_scheme \<Rightarrow> string \<Rightarrow> 'e turn"
    and fine :: "'e \<Rightarrow> bool"
  assumes head_fits: "line_ok 4096 head"
    and line_fits: "fine e \<Longrightarrow> line_ok 4096 (line e)"
    and parse_line: "mem_ok w \<Longrightarrow> fine e \<Longrightarrow> parse w (line e @ [newline]) = Put e"
begin

lemma read_back:
  assumes "mem_ok w" "list_all fine es"
  shows "\<exists>rest. fgets_all 4096 (concat (map (\<lambda>l. l @ [newline]) (head # map line es))) =
           (head @ [newline]) # rest \<and> map (parse w) rest = map Put es"
proof (intro exI conjI)
  have "list_all (line_ok 4096) (head # map line es)"
    using assms(2) head_fits line_fits by (auto simp: list_all_iff)
  then show "fgets_all 4096 (concat (map (\<lambda>l. l @ [newline]) (head # map line es))) =
      (head @ [newline]) # map (\<lambda>e. line e @ [newline]) es"
    by (simp only: fgets_all_lines) simp
  show "map (parse w) (map (\<lambda>e. line e @ [newline]) es) = map Put es"
    using assms parse_line by (simp add: list_all_iff)
qed

end

section \<open>Frames\<close>

text \<open>What a step of the command leaves for the next one: the cached text, the allocator, the
  user, the directories to audit, and the room in the file and its state.\<close>

definition steady :: "string \<Rightarrow> 'w world_scheme \<Rightarrow> 'w world_scheme \<Rightarrow> bool" where
  "steady p w w' \<longleftrightarrow> w_data w' p = w_data w p \<and> w_alloc w' = w_alloc w \<and> w_euid w' = w_euid w \<and>
     w_aparam w' = w_aparam w \<and> w_room w' p = w_room w p \<and>
     w_stat w' p = w_stat w p \<and> w_lstat w' p = w_lstat w p"

lemma steady_trans: "steady p u v \<Longrightarrow> steady p v w \<Longrightarrow> steady p u w"
  by (simp add: steady_def)

lemma same_except_steady: "same_except q w w' \<Longrightarrow> q \<noteq> p \<Longrightarrow> steady p w w'"
  by (simp add: steady_def same_except_def)

end
