(* ===== verification/Zp_Compaudit.thy ===== *)
theory Zp_Compaudit
  imports Zp_Cache
begin

text \<open>
  \<open>src/core/compaudit_cache.c\<close>: the security verdict of a completion directory, the cache of
  verdicts (its text format, loading, validation, refresh and rebuild), and the command
  \<open>compaudit-cache\<close>.  The owner of the running program is found once and kept in
  \<open>w_exe_owner\<close>.  While a stream is open, directories are inspected in the world after the
  opening; the text reaches the file when it is closed.
\<close>

section \<open>The cache file\<close>

definition ZP_COMPAUDIT_CACHE_SUBDIR :: string where "ZP_COMPAUDIT_CACHE_SUBDIR = ''zpmod''"
definition ZP_COMPAUDIT_CACHE_FILE :: string where "ZP_COMPAUDIT_CACHE_FILE = ''compaudit_v3.zcache''"

definition zp_cc_base_cache_dir :: "'w world_scheme \<Rightarrow> string option" where
  "zp_cc_base_cache_dir w =
     (let xdg = w_sparam w ''XDG_CACHE_HOME''; home = w_sparam w ''HOME'';
          base = (case xdg of Some (c # cs) \<Rightarrow> Some (c # cs) | _ \<Rightarrow> None)
      in case base of
           Some b \<Rightarrow> Some b
         | None \<Rightarrow>
             (case home of
                Some (c # cs) \<Rightarrow>
                  if w_alloc w (length (c # cs) + 8) then Some ((c # cs) @ ''/.cache'') else None
              | _ \<Rightarrow> None))"

definition zp_cc_ensure_dir :: "string \<Rightarrow> 'w world_scheme \<Rightarrow> string option \<times> 'w world_scheme" where
  "zp_cc_ensure_dir nam w =
     (case zp_cc_base_cache_dir w of
        None \<Rightarrow> (None, warn_icon nam icon_cross
                  ''compaudit-cache: cannot resolve cache directory (no HOME)'' w)
      | Some base \<Rightarrow>
          if \<not> w_alloc w (length base + 1 + length ZP_COMPAUDIT_CACHE_SUBDIR + 1) then (None, w)
          else
            let full = base @ ''/'' @ ZP_COMPAUDIT_CACHE_SUBDIR
            in case w_stat w full of
                 Inl _ \<Rightarrow>
                   (case sys_mkdir full 448 w of
                      Inl e \<Rightarrow> (None, warn_icon nam icon_cross
                                 (''compaudit-cache: cannot create '' @ full @ '': '' @ w_strerror w e) w)
                    | Inr w1 \<Rightarrow> (Some full, w1))
               | Inr st \<Rightarrow>
                   if \<not> S_ISDIR (st_mode st)
                   then (None, warn_icon nam icon_cross
                          (''compaudit-cache: '' @ full @ '' exists and is not a directory'') w)
                   else (Some full, w))"

definition zp_cc_cache_file_path :: "string \<Rightarrow> 'w world_scheme \<Rightarrow> string option \<times> 'w world_scheme" where
  "zp_cc_cache_file_path nam w =
     (case zp_cc_ensure_dir nam w of
        (None, w1) \<Rightarrow> (None, w1)
      | (Some dir, w1) \<Rightarrow>
          if w_alloc w1 (length dir + 1 + length ZP_COMPAUDIT_CACHE_FILE + 1)
          then (Some (dir @ ''/'' @ ZP_COMPAUDIT_CACHE_FILE), w1) else (None, w1))"

record zp_cc_entry =
  cc_path :: string
  cc_verdict :: int
  cc_mode :: u32
  cc_uid :: u32
  cc_gid :: u32
  cc_mtime :: int
  cc_ctime :: int
  cc_parent_insecure :: int
  cc_zwc_insecure :: int

definition zp_cc_vec_push ::
    "'w world_scheme \<Rightarrow> zp_cc_entry vec \<Rightarrow> zp_cc_entry \<Rightarrow> zp_cc_entry vec option" where
  "zp_cc_vec_push = vec_push 8 48"

section \<open>Verdicts\<close>

text \<open>The owner the discovery ends with; \<open>(uid_t) -1\<close> stands for not known yet.\<close>

definition exe_owner :: "'w world_scheme \<Rightarrow> u32" where
  "exe_owner w =
     (if w_exe_owner w \<noteq> - 1 then w_exe_owner w
      else case w_stat w ''/proc/self/exe'' of Inr st \<Rightarrow> st_uid st | Inl _ \<Rightarrow> 0)"

definition zp_cc_discover_exe_owner :: "'w world_scheme \<Rightarrow> 'w world_scheme" where
  "zp_cc_discover_exe_owner w = w\<lparr>w_exe_owner := exe_owner w\<rparr>"

definition zp_cc_owner_allowed :: "u32 \<Rightarrow> u32 \<Rightarrow> 'w world_scheme \<Rightarrow> bool" where
  "zp_cc_owner_allowed uid self w \<longleftrightarrow>
     uid = 0 \<or> uid = self \<or> (w_exe_owner w \<noteq> - 1 \<and> uid = w_exe_owner w)"

definition zp_cc_is_insecure :: "stat \<Rightarrow> u32 \<Rightarrow> 'w world_scheme \<Rightarrow> bool \<times> 'w world_scheme" where
  "zp_cc_is_insecure st self w0 =
     (let w = zp_cc_discover_exe_owner w0;
          sticky = has_bit (st_mode st) S_ISVTX;
          world_w = has_bit (st_mode st) S_IWOTH;
          group_w = has_bit (st_mode st) S_IWGRP
      in (if \<not> zp_cc_owner_allowed (st_uid st) self w
          then (world_w \<and> \<not> sticky) \<or> (group_w \<and> \<not> sticky)
          else world_w \<and> \<not> sticky, w))"

text \<open>The compiled files of a directory; \<open>022\<close> octal is 18.\<close>

fun zwc_scan :: "string \<Rightarrow> nat \<Rightarrow> 'w world_scheme \<Rightarrow> string list \<Rightarrow> bool" where
  "zwc_scan directory err w [] \<longleftrightarrow> err \<noteq> 0"
| "zwc_scan directory err w (d_name # ns) \<longleftrightarrow>
     (if \<not> has_suffix ''.zwc'' d_name then zwc_scan directory err w ns
      else let full = directory @ ''/'' @ d_name
           in if length full \<ge> PATH_MAX then True
              else case w_stat w full of
                     Inl _ \<Rightarrow> True
                   | Inr st \<Rightarrow> if has_bit (st_mode st) 18 then True else zwc_scan directory err w ns)"

definition zp_cc_zwc_insecure :: "string \<Rightarrow> 'w world_scheme \<Rightarrow> bool" where
  "zp_cc_zwc_insecure directory w =
     (case w_dir w directory of
        Inl _ \<Rightarrow> True
      | Inr (names, err) \<Rightarrow> zwc_scan directory err w names)"

text \<open>The walk up from a path, cutting the buffer at its last slash.\<close>

function parent_walk :: "u32 \<Rightarrow> string \<Rightarrow> 'w world_scheme \<Rightarrow> bool \<times> 'w world_scheme" where
  "parent_walk self buf w =
     (case strrchr slash buf of
        None \<Rightarrow> (False, w)
      | Some (d, _) \<Rightarrow>
          if d = [] then (False, w)
          else case w_stat w d of
                 Inl _ \<Rightarrow> parent_walk self d w
               | Inr st \<Rightarrow>
                   (case zp_cc_is_insecure st self w of
                      (True, w1) \<Rightarrow> (True, w1)
                    | (False, w1) \<Rightarrow> parent_walk self d w1))"
  by pat_completeness auto
termination
  by (relation "measure (\<lambda>(self, buf, w). length buf)") (auto dest: strrchr_shorter)

declare parent_walk.simps [simp del]

definition parent_insecure_path :: "string \<Rightarrow> u32 \<Rightarrow> 'w world_scheme \<Rightarrow> bool \<times> 'w world_scheme" where
  "parent_insecure_path path self w =
     (if length path \<ge> PATH_MAX then (False, w) else parent_walk self path w)"

text \<open>The common body of the refresh and the rebuild for one directory.\<close>

definition cc_audit :: "u32 \<Rightarrow> string \<Rightarrow> 'w world_scheme \<Rightarrow> zp_cc_entry option \<times> 'w world_scheme" where
  "cc_audit self path w =
     (case w_stat w path of
        Inl _ \<Rightarrow> (None, w)
      | Inr st \<Rightarrow>
          let (v, w1) = zp_cc_is_insecure st self w;
              (p_insec, w2) = parent_insecure_path path self w1;
              zwc_insec = zp_cc_zwc_insecure path w2
          in (Some \<lparr>cc_path = path, cc_verdict = of_bool (v \<or> p_insec \<or> zwc_insec),
                    cc_mode = st_mode st AND MODE_BITS, cc_uid = st_uid st, cc_gid = st_gid st,
                    cc_mtime = st_mtime st, cc_ctime = st_ctime st,
                    cc_parent_insecure = of_bool p_insec, cc_zwc_insecure = of_bool zwc_insec\<rparr>, w2))"

fun cc_audit_all :: "u32 \<Rightarrow> string list \<Rightarrow> 'w world_scheme \<Rightarrow> zp_cc_entry list \<times> 'w world_scheme" where
  "cc_audit_all self [] w = ([], w)"
| "cc_audit_all self (p # ps) w =
     (case cc_audit self p w of
        (None, w1) \<Rightarrow> cc_audit_all self ps w1
      | (Some e, w1) \<Rightarrow> let (es, w2) = cc_audit_all self ps w1 in (e # es, w2))"

section \<open>The text of the cache\<close>

text \<open>\<open>%s\t%d\t%o\t%lu\t%lu\t%ld\t%ld\t%d\t%d\n\<close>\<close>

definition cc_line :: "zp_cc_entry \<Rightarrow> string" where
  "cc_line e = tabbed
     [cc_path e, render_int (cc_verdict e), render_nat 8 (unat (cc_mode e)),
      render_nat 10 (unat (cc_uid e)), render_nat 10 (unat (cc_gid e)), render_int (cc_mtime e),
      render_int (cc_ctime e), render_int (cc_parent_insecure e), render_int (cc_zwc_insecure e)]"

definition cc_file :: "zp_cc_entry list \<Rightarrow> string" where
  "cc_file es = concat (map (\<lambda>l. l @ [newline]) (''version:3'' # map cc_line es))"

text \<open>One line of the file; \<open>ztrdup\<close> does not fail.\<close>

definition cc_parse :: "string \<Rightarrow> zp_cc_entry turn" where
  "cc_parse line =
     (if take 1 line = [newline] \<or> take 1 line = ''#'' then Skip
      else case strtoks tab (chomp line) of
             p # t0 # t1 # t2 # t3 # t4 # t5 # t6 # t7 # _ \<Rightarrow>
               let num = (\<lambda>b t. fst (strtol b t))
               in Put \<lparr>cc_path = p, cc_verdict = to_int (num 10 t0), cc_mode = word_of_int (num 8 t1),
                       cc_uid = word_of_int (num 10 t2), cc_gid = word_of_int (num 10 t3),
                       cc_mtime = num 10 t4, cc_ctime = num 10 t5,
                       cc_parent_insecure = to_int (num 10 t6), cc_zwc_insecure = to_int (num 10 t7)\<rparr>
           | _ \<Rightarrow> Skip)"

text \<open>\<open>None\<close> is the return value 1.\<close>

definition zp_cc_load_cache :: "string \<Rightarrow> 'w world_scheme \<Rightarrow> zp_cc_entry vec \<Rightarrow> zp_cc_entry vec option" where
  "zp_cc_load_cache path w out =
     (case w_data w path of
        Inl _ \<Rightarrow> None
      | Inr dat \<Rightarrow>
          (case fgets_all 4096 dat of
             [] \<Rightarrow> None
           | first # rest \<Rightarrow>
               if \<not> starts_with ''version:3'' first then None
               else Some (fill (zp_cc_vec_push w) out (map cc_parse rest))))"

section \<open>Directories to audit\<close>

definition new_entry :: "string \<Rightarrow> zp_cc_entry" where
  "new_entry p = \<lparr>cc_path = p, cc_verdict = 0, cc_mode = 0, cc_uid = 0, cc_gid = 0, cc_mtime = 0,
     cc_ctime = 0, cc_parent_insecure = 0, cc_zwc_insecure = 0\<rparr>"

text \<open>The entry made of a directory of fpath: its last two members are not initialised and have
  any value, here \<^const>\<open>w_garbage\<close>.\<close>

definition collected_entry :: "'w world_scheme \<Rightarrow> string \<Rightarrow> zp_cc_entry" where
  "collected_entry w p = (new_entry p)
     \<lparr>cc_parent_insecure := fst (w_garbage w p), cc_zwc_insecure := snd (w_garbage w p)\<rparr>"

definition fpath_dirs :: "'w world_scheme \<Rightarrow> string list" where
  "fpath_dirs w = (case w_aparam w ''fpath'' of None \<Rightarrow> [] | Some arr \<Rightarrow> arr)"

definition zp_cc_collect_dirs :: "'w world_scheme \<Rightarrow> zp_cc_entry vec \<Rightarrow> zp_cc_entry vec" where
  "zp_cc_collect_dirs w out =
     fill (zp_cc_vec_push w) out
       (map (\<lambda>d. if d = [] then Skip
                else if w_alloc w (length d + 1) then Put (collected_entry w d) else Stop)
         (fpath_dirs w))"

text \<open>Does the loaded cache still describe the directories?  The result says whether it is invalid.\<close>

fun zp_cc_validate_cache :: "u32 \<Rightarrow> zp_cc_entry list \<Rightarrow> 'w world_scheme \<Rightarrow> bool \<times> 'w world_scheme" where
  "zp_cc_validate_cache self [] w = (False, w)"
| "zp_cc_validate_cache self (e # es) w =
     (case w_stat w (cc_path e) of
        Inl _ \<Rightarrow> (True, w)
      | Inr st \<Rightarrow>
          if cc_uid e \<noteq> st_uid st \<or> cc_gid e \<noteq> st_gid st then (True, w)
          else if cc_mode e \<noteq> st_mode st AND MODE_BITS then (True, w)
          else if cc_ctime e \<noteq> st_ctime st \<or> cc_mtime e \<noteq> st_mtime st then (True, w)
          else
            let (v, w1) = zp_cc_is_insecure st self w;
                (p_insec, w2) = parent_insecure_path (cc_path e) self w1;
                zwc_insec = zp_cc_zwc_insecure (cc_path e) w2;
                verdict = (if p_insec \<or> zwc_insec then True else v)
            in if of_bool zwc_insec \<noteq> cc_zwc_insecure e then (True, w2)
               else if of_bool verdict \<noteq> cc_verdict e then (True, w2)
               else zp_cc_validate_cache self es w2)"

section \<open>Refresh and rebuild\<close>

text \<open>The directories of \<open>fpath\<close> that have no entry yet.\<close>

fun add_missing :: "'w world_scheme \<Rightarrow> zp_cc_entry vec \<Rightarrow> string list \<Rightarrow> zp_cc_entry vec" where
  "add_missing w v [] = v"
| "add_missing w v (d # ds) =
     (if d = [] \<or> d \<in> set (map cc_path (vec_items v)) then add_missing w v ds
      else if \<not> w_alloc w (length d + 1) then v
      else case zp_cc_vec_push w v (new_entry d) of
             None \<Rightarrow> v
           | Some v' \<Rightarrow> add_missing w v' ds)"

definition count_insecure :: "zp_cc_entry list \<Rightarrow> int" where
  "count_insecure es = int (length (filter (\<lambda>e. cc_verdict e \<noteq> 0) es))"

definition count_secure :: "zp_cc_entry list \<Rightarrow> int" where
  "count_secure es = int (length (filter (\<lambda>e. cc_verdict e = 0) es))"

text \<open>Auditing paths into the cache file; \<open>0600\<close> octal is 384.  The counts, or nothing when the
  file cannot be opened.\<close>

definition cc_write ::
    "string \<Rightarrow> string \<Rightarrow> string \<Rightarrow> string list \<Rightarrow> 'w world_scheme \<Rightarrow> (int \<times> int) option \<times> 'w world_scheme" where
  "cc_write verb nam file_path paths w =
     (case zp_fopen_write_nofollow file_path 384 True w of
        (Inl e, w1) \<Rightarrow> (None, warn_icon nam icon_cross
            (''compaudit-cache: cannot '' @ verb @ '' '' @ file_path @ '': '' @ w_strerror w1 e) w1)
      | (Inr _, w1) \<Rightarrow>
          let (es, w2) = cc_audit_all (w_euid w) paths w1
          in (Some (count_insecure es, count_secure es), write_file file_path (cc_file es) w2))"

definition zp_cc_incremental_update ::
    "string \<Rightarrow> string \<Rightarrow> zp_cc_entry vec \<Rightarrow> 'w world_scheme \<Rightarrow> (int \<times> int) option \<times> 'w world_scheme" where
  "zp_cc_incremental_update nam cache_path entries w =
     cc_write ''update'' nam cache_path
       (map cc_path (vec_items (add_missing w entries (fpath_dirs w)))) w"

definition zp_cc_rebuild ::
    "string \<Rightarrow> string \<Rightarrow> zp_cc_entry vec \<Rightarrow> 'w world_scheme \<Rightarrow> (int \<times> int) option \<times> 'w world_scheme" where
  "zp_cc_rebuild nam file_path targets w =
     cc_write ''write'' nam file_path (map cc_path (vec_items targets)) w"

section \<open>The command\<close>

definition find_sub :: "string \<Rightarrow> string \<Rightarrow> nat option" where
  "find_sub s t = find (\<lambda>i. take (length t) (drop i s) = t) [0..<Suc (length s)]"

text \<open>Whether to rebuild after looking for a cache of the old version, which is removed.\<close>

definition cc_migrate :: "string \<Rightarrow> 'w world_scheme \<Rightarrow> bool \<times> 'w world_scheme" where
  "cc_migrate cache_path w =
     (case w_stat w cache_path of
        Inr _ \<Rightarrow> (False, w)
      | Inl _ \<Rightarrow>
          (case find_sub cache_path ''_v3.zcache'' of
             None \<Rightarrow> (False, w)
           | Some i \<Rightarrow>
               if \<not> w_alloc w (i + 10 + 1) then (False, w)
               else case sys_unlink (take i cache_path @ ''_v2.zcache'') w of
                      Inr w1 \<Rightarrow> (True, w1)
                    | Inl e \<Rightarrow> (e \<noteq> ENOENT, w)))"

definition writable_cache :: "string \<Rightarrow> 'w world_scheme \<Rightarrow> bool" where
  "writable_cache cache_path w =
     (case w_stat w cache_path of
        Inl _ \<Rightarrow> False
      | Inr st \<Rightarrow> has_bit (st_mode st) S_IWOTH \<or> has_bit (st_mode st) S_IWGRP)"

text \<open>A file loaded into an empty vector, left empty when it cannot be.\<close>

definition cc_reload :: "string \<Rightarrow> 'w world_scheme \<Rightarrow> zp_cc_entry list" where
  "cc_reload cache_path w =
     (case zp_cc_load_cache cache_path w vec_init of None \<Rightarrow> [] | Some v \<Rightarrow> vec_items v)"

text \<open>The entries of a usable cache, refreshed when it does not describe the directories any more.\<close>

definition cc_have_cache ::
    "string \<Rightarrow> string \<Rightarrow> 'w world_scheme \<Rightarrow> zp_cc_entry list option \<times> 'w world_scheme" where
  "cc_have_cache nam cache_path w =
     (case zp_cc_load_cache cache_path w vec_init of
        None \<Rightarrow> (None, w)
      | Some v \<Rightarrow>
          (case zp_cc_validate_cache (w_euid w) (vec_items v) w of
             (False, w1) \<Rightarrow> (Some (vec_items v), w1)
           | (True, w1) \<Rightarrow>
               (case zp_cc_incremental_update nam cache_path v w1 of
                  (None, w2) \<Rightarrow> (None, w2)
                | (Some _, w2) \<Rightarrow> (Some (cc_reload cache_path w2), w2))))"

fun json_escape :: "string \<Rightarrow> string" where
  "json_escape [] = []"
| "json_escape (c # s) =
     (if c = CHR 0x5C \<or> c = CHR 0x22 then CHR 0x5C # c # json_escape s else c # json_escape s)"

definition qt :: "string \<Rightarrow> string" where "qt s = CHR 0x22 # s @ [CHR 0x22]"

definition reason_dir :: "u32 \<Rightarrow> zp_cc_entry \<Rightarrow> 'w world_scheme \<Rightarrow> bool \<times> 'w world_scheme" where
  "reason_dir self e w =
     (if cc_verdict e = 0 then (False, w)
      else case w_stat w (cc_path e) of
             Inl _ \<Rightarrow> (False, w)
           | Inr st \<Rightarrow> zp_cc_is_insecure st self w)"

definition reasons_text :: "bool \<Rightarrow> zp_cc_entry \<Rightarrow> string" where
  "reasons_text dir e =
     (let anc = (cc_verdict e \<noteq> 0 \<and> cc_parent_insecure e \<noteq> 0);
          zwc = (cc_verdict e \<noteq> 0 \<and> cc_zwc_insecure e \<noteq> 0)
      in (if dir then qt ''dir_perms'' else []) @
         (if anc then (if dir then '' ,'' else []) @ qt ''ancestor_perms'' else []) @
         (if zwc then (if dir \<or> anc then '' ,'' else []) @ qt ''zwc_perms'' else []))"

fun json_dirs :: "u32 \<Rightarrow> bool \<Rightarrow> zp_cc_entry list \<Rightarrow> 'w world_scheme \<Rightarrow> string \<times> 'w world_scheme" where
  "json_dirs self first [] w = ([], w)"
| "json_dirs self first (e # es) w =
     (let (dir, w1) = reason_dir self e w;
          (rest, w2) = json_dirs self False es w1
      in ((if first then [] else '','') @ ''{'' @ qt ''path'' @ '':'' @ qt (json_escape (cc_path e)) @
            '','' @ qt ''verdict'' @ '':'' @ render_int (cc_verdict e) @
            '','' @ qt ''parent_insecure'' @ '':'' @ render_int (cc_parent_insecure e) @
            '','' @ qt ''reasons'' @ '':['' @ reasons_text dir e @ '']}'' @ rest, w2))"

definition cc_output ::
    "bool \<Rightarrow> bool \<Rightarrow> int \<times> int \<Rightarrow> zp_cc_entry list \<Rightarrow> 'w world_scheme \<Rightarrow> 'w world_scheme" where
  "cc_output show_it json n es w =
     (if json then
        let (dirs, w1) = json_dirs (w_euid w) True es w
        in emit (''{'' @ qt ''insecure'' @ '':'' @ render_int (fst n) @ '','' @ qt ''secure'' @ '':'' @
             render_int (snd n) @ '','' @ qt ''dirs'' @ '':['' @ dirs @ '']}'' @ [newline]) w1
      else if show_it then
        emit (concat (map (\<lambda>e. if cc_verdict e \<noteq> 0 then ''  ! '' @ cc_path e @
                 (if cc_parent_insecure e \<noteq> 0 then '' (ancestor)'' else []) @ [newline] else []) es))
          (emit_icon icon_lock (''compaudit-cache: insecure '' @ render_int (fst n) @ '' secure '' @
             render_int (snd n) @ [newline]) w)
      else w)"

definition zp_compaudit_cache_core ::
    "string \<Rightarrow> bool \<Rightarrow> bool \<Rightarrow> bool \<Rightarrow> 'w world_scheme \<Rightarrow> int \<times> 'w world_scheme" where
  "zp_compaudit_cache_core nam rebuild show_it json w =
     (case zp_cc_cache_file_path nam w of
        (None, w1) \<Rightarrow> (1, w1)
      | (Some cache_path, w1) \<Rightarrow>
          let (migrated, w2) = (if rebuild then (False, w1) else cc_migrate cache_path w1);
              rebuild2 = (rebuild \<or> migrated \<or> writable_cache cache_path w2);
              (have_cache, w3) = (if rebuild2 then (None, w2) else cc_have_cache nam cache_path w2)
          in case have_cache of
               Some es \<Rightarrow> (0, cc_output show_it json (count_insecure es, count_secure es) es w3)
             | None \<Rightarrow>
                 (case zp_cc_rebuild nam cache_path (zp_cc_collect_dirs w3 vec_init) w3 of
                    (None, w4) \<Rightarrow> (1, w4)
                  | (Some n, w4) \<Rightarrow>
                      let es = (if show_it \<or> json then cc_reload cache_path w4 else [])
                      in (0, cc_output show_it json n es w4)))"

section \<open>The policy\<close>

text \<open>The owners that may have group-writable directories.\<close>

definition trusted :: "'w world_scheme \<Rightarrow> u32 \<Rightarrow> u32 \<Rightarrow> bool" where
  "trusted w self uid \<longleftrightarrow> uid = 0 \<or> uid = self \<or> (uid = exe_owner w \<and> uid \<noteq> - 1)"

definition unsafe :: "'w world_scheme \<Rightarrow> u32 \<Rightarrow> stat \<Rightarrow> bool" where
  "unsafe w self st \<longleftrightarrow> \<not> has_bit (st_mode st) S_ISVTX \<and>
     (has_bit (st_mode st) S_IWOTH \<or> (has_bit (st_mode st) S_IWGRP \<and> \<not> trusted w self (st_uid st)))"

text \<open>A directory above the path, other than the root, that others may write.\<close>

definition unsafe_ancestor :: "'w world_scheme \<Rightarrow> u32 \<Rightarrow> string \<Rightarrow> bool" where
  "unsafe_ancestor w self path \<longleftrightarrow>
     (\<exists>d r st. path = d @ slash # r \<and> d \<noteq> [] \<and> w_stat w d = Inr st \<and> unsafe w self st)"

text \<open>A directory that cannot be listed, or has a compiled file that is out of reach or that its
  group or others may write.\<close>

definition loose_zwc :: "'w world_scheme \<Rightarrow> string \<Rightarrow> bool" where
  "loose_zwc w dir \<longleftrightarrow>
     (case w_dir w dir of
        Inl _ \<Rightarrow> True
      | Inr (names, err) \<Rightarrow> err \<noteq> 0 \<or>
          (\<exists>n \<in> set names. has_suffix ''.zwc'' n \<and>
             (PATH_MAX \<le> length (dir @ ''/'' @ n) \<or>
              (case w_stat w (dir @ ''/'' @ n) of Inl _ \<Rightarrow> True | Inr st \<Rightarrow> has_bit (st_mode st) 18))))"

definition dir_unsafe :: "'w world_scheme \<Rightarrow> u32 \<Rightarrow> string \<Rightarrow> stat \<Rightarrow> bool" where
  "dir_unsafe w self path st \<longleftrightarrow> unsafe w self st \<or>
     (length path < PATH_MAX \<and> unsafe_ancestor w self path) \<or> loose_zwc w path"

text \<open>Learning the owner of the program changes no verdict.\<close>

definition learned :: "'w world_scheme \<Rightarrow> 'w world_scheme \<Rightarrow> bool" where
  "learned w w' \<longleftrightarrow> w' = w\<lparr>w_exe_owner := w_exe_owner w'\<rparr> \<and> exe_owner w' = exe_owner w"

lemma learned_refl [simp]: "learned w w"
  by (simp add: learned_def)

lemma learned_fields:
  assumes "learned w w'"
  shows "w_stat w' = w_stat w" "w_dir w' = w_dir w" "w_data w' = w_data w" "w_alloc w' = w_alloc w"
    "w_euid w' = w_euid w" "w_room w' = w_room w" "w_aparam w' = w_aparam w" "exe_owner w' = exe_owner w"
    "w_out w' = w_out w" "w_warn w' = w_warn w" "w_lstat w' = w_lstat w"
    "w_sparam w' = w_sparam w"
proof -
  have e: "w' = w\<lparr>w_exe_owner := w_exe_owner w'\<rparr>" using assms by (simp add: learned_def)
  show "w_stat w' = w_stat w" "w_dir w' = w_dir w" "w_data w' = w_data w" "w_alloc w' = w_alloc w"
    "w_euid w' = w_euid w" "w_room w' = w_room w" "w_aparam w' = w_aparam w"
    "w_out w' = w_out w" "w_warn w' = w_warn w" "w_lstat w' = w_lstat w" "w_sparam w' = w_sparam w"
    by (subst e, simp)+
  show "exe_owner w' = exe_owner w" using assms by (simp add: learned_def)
qed

lemma learned_trans:
  assumes "learned u v" "learned v w" shows "learned u w"
proof -
  have "v = u\<lparr>w_exe_owner := w_exe_owner v\<rparr>" "w = v\<lparr>w_exe_owner := w_exe_owner w\<rparr>"
    using assms by (auto simp: learned_def)
  then have "w = (u\<lparr>w_exe_owner := w_exe_owner v\<rparr>)\<lparr>w_exe_owner := w_exe_owner w\<rparr>" by metis
  then have "w = u\<lparr>w_exe_owner := w_exe_owner w\<rparr>" by simp
  then show ?thesis using assms by (simp add: learned_def)
qed

lemma learned_times:
  assumes "learned w w'" shows "times_fit w' = times_fit w"
proof -
  have "w' = w\<lparr>w_exe_owner := w_exe_owner w'\<rparr>" using assms by (simp add: learned_def)
  then have "times_fit w' = times_fit (w\<lparr>w_exe_owner := w_exe_owner w'\<rparr>)" by simp
  then show ?thesis by (simp add: times_fit_def)
qed

lemma learned_discover: "learned w (zp_cc_discover_exe_owner w)"
  by (simp add: learned_def zp_cc_discover_exe_owner_def exe_owner_def)

lemma learned_unsafe: "learned w w' \<Longrightarrow> unsafe w' self st = unsafe w self st"
  by (simp add: unsafe_def trusted_def learned_fields)

lemma learned_dir_unsafe:
  assumes "learned w w'" shows "dir_unsafe w' self path st = dir_unsafe w self path st"
  unfolding dir_unsafe_def unsafe_ancestor_def loose_zwc_def learned_unsafe [OF assms]
    learned_fields [OF assms] by (rule refl)

lemma is_insecure_policy:
  assumes "zp_cc_is_insecure st self w = (b, w')"
  shows "b = unsafe w self st" "learned w w'"
proof -
  have w': "w' = zp_cc_discover_exe_owner w" using assms by (auto simp: zp_cc_is_insecure_def Let_def)
  then show "learned w w'" by (simp add: learned_discover)
  show "b = unsafe w self st"
    using assms by (auto simp: zp_cc_is_insecure_def Let_def zp_cc_owner_allowed_def unsafe_def trusted_def
        zp_cc_discover_exe_owner_def split: if_splits)
qed

lemma unsafe_ancestor_step:
  assumes "strrchr slash buf = Some (d, b)"
  shows "unsafe_ancestor w self buf \<longleftrightarrow> d \<noteq> [] \<and>
     ((\<exists>st. w_stat w d = Inr st \<and> unsafe w self st) \<or> unsafe_ancestor w self d)"
proof -
  from strrchr_Some [OF assms] have buf: "buf = d @ slash # b" and b: "slash \<notin> set b" by auto
  have split: "buf = x @ slash # r \<longleftrightarrow> (x = d \<and> r = b) \<or> (\<exists>r'. d = x @ slash # r' \<and> r = r' @ slash # b)" for x r
    unfolding buf using b by (auto simp: append_eq_append_conv2 Cons_eq_append_conv append_eq_Cons_conv)
  show ?thesis
    unfolding unsafe_ancestor_def split by auto
qed

lemma parent_walk_policy:
  "parent_walk self buf w = (b, w') \<Longrightarrow> b = unsafe_ancestor w self buf \<and> learned w w'"
proof (induction self buf w arbitrary: b w' rule: parent_walk.induct)
  case (1 self buf w)
  show ?case
  proof (cases "strrchr slash buf")
    case None
    then have "\<not> unsafe_ancestor w self buf" by (auto simp: unsafe_ancestor_def strrchr_None)
    with 1 None show ?thesis by (simp add: parent_walk.simps [of self buf])
  next
    case (Some db)
    then obtain d r where db: "strrchr slash buf = Some (d, r)" by (cases db) auto
    note step = unsafe_ancestor_step [OF db, of w self]
    show ?thesis
    proof (cases "d = []")
      case True
      with 1 db step show ?thesis by (simp add: parent_walk.simps [of self buf])
    next
      case False
      show ?thesis
      proof (cases "w_stat w d")
        case (Inl e)
        then show ?thesis using 1 db step False by (simp add: parent_walk.simps [of self buf])
      next
        case (Inr st)
        obtain c w1 where c: "zp_cc_is_insecure st self w = (c, w1)" by fastforce
        note pol = is_insecure_policy [OF c]
        have ua: "unsafe_ancestor w1 self d = unsafe_ancestor w self d"
          using pol(2) by (simp add: unsafe_ancestor_def learned_unsafe learned_fields)
        show ?thesis
        proof (cases c)
          case True
          with 1 db step False Inr c pol show ?thesis by (simp add: parent_walk.simps [of self buf])
        next
          case c_False: False
          with 1(3) db False Inr c have "parent_walk self d w1 = (b, w')"
            by (simp add: parent_walk.simps [of self buf])
          with 1(2) [OF db refl False Inr] c c_False have "b = unsafe_ancestor w1 self d" "learned w1 w'"
            by auto
          then show ?thesis using step False Inr pol c_False ua learned_trans by auto
        qed
      qed
    qed
  qed
qed

lemma zwc_insecure_policy: "zp_cc_zwc_insecure dir w = loose_zwc w dir"
proof -
  have "zwc_scan dir err w names \<longleftrightarrow> err \<noteq> 0 \<or> (\<exists>n \<in> set names. has_suffix ''.zwc'' n \<and>
      (PATH_MAX \<le> length (dir @ ''/'' @ n) \<or>
       (case w_stat w (dir @ ''/'' @ n) of Inl _ \<Rightarrow> True | Inr st \<Rightarrow> has_bit (st_mode st) 18)))" for names err
    by (induction names) (auto simp: Let_def split: sum.splits)
  then show ?thesis by (simp add: zp_cc_zwc_insecure_def loose_zwc_def split: sum.splits prod.splits)
qed

section \<open>Audits\<close>

text \<open>The entry that the policy asks for.\<close>

definition audited :: "'w world_scheme \<Rightarrow> u32 \<Rightarrow> string \<Rightarrow> stat \<Rightarrow> zp_cc_entry" where
  "audited w self path st =
     \<lparr>cc_path = path, cc_verdict = of_bool (dir_unsafe w self path st),
      cc_mode = st_mode st AND MODE_BITS, cc_uid = st_uid st, cc_gid = st_gid st,
      cc_mtime = st_mtime st, cc_ctime = st_ctime st,
      cc_parent_insecure = of_bool (length path < PATH_MAX \<and> unsafe_ancestor w self path),
      cc_zwc_insecure = of_bool (loose_zwc w path)\<rparr>"

text \<open>The audits of the paths that exist.\<close>

definition audits :: "'w world_scheme \<Rightarrow> u32 \<Rightarrow> string list \<Rightarrow> zp_cc_entry list" where
  "audits w self ps =
     concat (map (\<lambda>p. case w_stat w p of Inl _ \<Rightarrow> [] | Inr st \<Rightarrow> [audited w self p st]) ps)"

lemma learned_audited:
  assumes "learned w w'" shows "audited w' self path st = audited w self path st"
  unfolding audited_def learned_dir_unsafe [OF assms]
  unfolding unsafe_ancestor_def loose_zwc_def learned_unsafe [OF assms] learned_fields [OF assms]
  by (rule refl)

lemma learned_audits:
  assumes "learned w w'" shows "audits w' self ps = audits w self ps"
  unfolding audits_def learned_audited [OF assms] learned_fields [OF assms] by (rule refl)

text \<open>The three inspections of one directory.\<close>

lemma inspect_policy:
  assumes "zp_cc_is_insecure st self w = (v, w1)" "parent_insecure_path path self w1 = (p, w2)"
  shows "learned w w2" "v = unsafe w self st" "p = (length path < PATH_MAX \<and> unsafe_ancestor w self path)"
    "zp_cc_zwc_insecure path w2 = loose_zwc w path"
proof -
  note i = is_insecure_policy [OF assms(1)]
  have pw: "p = (length path < PATH_MAX \<and> unsafe_ancestor w1 self path) \<and> learned w1 w2"
    using assms(2) parent_walk_policy [of self path w1] by (auto simp: parent_insecure_path_def split: if_splits)
  then show l: "learned w w2" using i(2) learned_trans by blast
  show "v = unsafe w self st" by (rule i(1))
  have "unsafe_ancestor w1 self path = unsafe_ancestor w self path"
    unfolding unsafe_ancestor_def learned_unsafe [OF i(2)] learned_fields [OF i(2)] by (rule refl)
  with pw show "p = (length path < PATH_MAX \<and> unsafe_ancestor w self path)" by simp
  show "zp_cc_zwc_insecure path w2 = loose_zwc w path"
    unfolding zwc_insecure_policy loose_zwc_def learned_fields [OF l] by (rule refl)
qed

lemma cc_audit_policy:
  assumes "cc_audit self path w = (r, w')"
  shows "learned w w'"
    and "r = (case w_stat w path of Inl _ \<Rightarrow> None | Inr st \<Rightarrow> Some (audited w self path st))"
proof -
  have "learned w w' \<and> r = (case w_stat w path of Inl _ \<Rightarrow> None | Inr st \<Rightarrow> Some (audited w self path st))"
  proof (cases "w_stat w path")
    case (Inr st)
    obtain v w1 p w2 where i: "zp_cc_is_insecure st self w = (v, w1)"
      "parent_insecure_path path self w1 = (p, w2)" by (metis surj_pair)
    show ?thesis using assms Inr i inspect_policy [OF i]
      by (simp add: cc_audit_def audited_def dir_unsafe_def Let_def)
  qed (use assms in \<open>simp add: cc_audit_def\<close>)
  then show "learned w w'" "r = (case w_stat w path of Inl _ \<Rightarrow> None | Inr st \<Rightarrow> Some (audited w self path st))"
    by auto
qed

lemma cc_audit_all_policy:
  "cc_audit_all self ps w = (es, w') \<Longrightarrow> es = audits w self ps \<and> learned w w'"
proof (induction ps arbitrary: es w w')
  case Nil
  then show ?case by (simp add: audits_def)
next
  case (Cons p ps)
  obtain r w1 where r: "cc_audit self p w = (r, w1)" by fastforce
  note pol = cc_audit_policy [OF r]
  obtain es' w2 where rest: "cc_audit_all self ps w1 = (es', w2)" by fastforce
  from Cons.IH [OF rest] have e: "es' = audits w self ps" "learned w1 w2"
    using learned_audits [OF pol(1)] by auto
  have "learned w w2" using learned_trans [OF pol(1) e(2)] .
  then show ?case
    using Cons.prems r rest e pol(2)
    by (cases "w_stat w p") (auto simp: audits_def)
qed

text \<open>What a valid cache promises of an entry.\<close>

definition entry_current :: "'w world_scheme \<Rightarrow> u32 \<Rightarrow> zp_cc_entry \<Rightarrow> bool" where
  "entry_current w self e \<longleftrightarrow>
     (\<exists>st. w_stat w (cc_path e) = Inr st \<and>
        e\<lparr>cc_parent_insecure := 0\<rparr> = (audited w self (cc_path e) st)\<lparr>cc_parent_insecure := 0\<rparr>)"

lemma entry_current_iff:
  "entry_current w self e \<longleftrightarrow> (\<exists>st. w_stat w (cc_path e) = Inr st \<and>
     cc_uid e = st_uid st \<and> cc_gid e = st_gid st \<and> cc_mode e = st_mode st AND MODE_BITS \<and>
     cc_ctime e = st_ctime st \<and> cc_mtime e = st_mtime st \<and>
     cc_zwc_insecure e = of_bool (loose_zwc w (cc_path e)) \<and>
     cc_verdict e = of_bool (dir_unsafe w self (cc_path e) st))"
  unfolding entry_current_def by (rule arg_cong [where f = Ex]) (cases e; auto simp: audited_def)

lemma learned_entry_current:
  assumes "learned w w'" shows "entry_current w' self e = entry_current w self e"
  unfolding entry_current_def learned_audited [OF assms] learned_fields [OF assms] by (rule refl)

lemma validate_policy:
  "zp_cc_validate_cache self es w = (bad, w') \<Longrightarrow>
     learned w w' \<and> (bad \<longleftrightarrow> \<not> (\<forall>e \<in> set es. entry_current w self e))"
proof (induction es arbitrary: w)
  case Nil
  then show ?case by simp
next
  case (Cons e es)
  show ?case
  proof (cases "w_stat w (cc_path e)")
    case (Inl x)
    with Cons.prems show ?thesis by (simp add: entry_current_iff)
  next
    case (Inr st)
    obtain v w1 p w2 where i: "zp_cc_is_insecure st self w = (v, w1)"
      "parent_insecure_path (cc_path e) self w1 = (p, w2)" by (metis surj_pair)
    note pol = inspect_policy [OF i]
    have du: "dir_unsafe w self (cc_path e) st \<longleftrightarrow> p \<or> loose_zwc w (cc_path e) \<or> v"
      using pol by (auto simp: dir_unsafe_def)
    show ?thesis
    proof (cases "entry_current w self e")
      case True
      then have "zp_cc_validate_cache self es w2 = (bad, w')"
        using Cons.prems Inr i pol(4) du by (auto simp: entry_current_iff Let_def split: if_splits)
      from Cons.IH [OF this] show ?thesis
        using True learned_entry_current [OF pol(1)] learned_trans [OF pol(1)] by auto
    next
      case False
      then have "bad \<and> (w' = w \<or> w' = w2)"
        using Cons.prems Inr i pol(4) du by (auto simp: entry_current_iff Let_def split: if_splits)
      with False pol(1) show ?thesis by auto
    qed
  qed
qed

section \<open>Round trip of the cache\<close>

definition entry_fine :: "zp_cc_entry \<Rightarrow> bool" where
  "entry_fine e \<longleftrightarrow> path_fine (cc_path e) \<and> cc_verdict e \<in> {0, 1} \<and> cc_parent_insecure e \<in> {0, 1} \<and>
     cc_zwc_insecure e \<in> {0, 1} \<and> long_range (cc_mtime e) \<and> long_range (cc_ctime e)"

lemma u32_long: "int (unat (x :: u32)) \<le> LONG_MAX"
  using unsigned_less [of x, where ?'a = int] by (simp add: c_limits)

lemma cc_fields_ok: "path_fine (cc_path e) \<Longrightarrow> list_all (field_ok tab)
   [cc_path e, render_int (cc_verdict e), render_nat 8 (unat (cc_mode e)),
      render_nat 10 (unat (cc_uid e)), render_nat 10 (unat (cc_gid e)), render_int (cc_mtime e),
      render_int (cc_ctime e), render_int (cc_parent_insecure e), render_int (cc_zwc_insecure e)]"
  by (simp add: path_fine_def field_ok_render_int field_ok_render_nat)

lemma strtol_u32:
  "strtol 8 (render_nat 8 (unat (x :: u32))) = (int (unat x), [], False)"
  "strtol 10 (render_nat 10 (unat x)) = (int (unat x), [], False)"
  by (rule strtol_whole(2), simp, simp, rule u32_long)+

lemma cc_parse_line:
  assumes "entry_fine e" shows "cc_parse (cc_line e @ [newline]) = Put e"
proof -
  have p: "path_fine (cc_path e)" using assms by (simp add: entry_fine_def)
  then have nl: "newline \<notin> set (cc_line e)"
    by (simp add: cc_line_def in_tabbed path_fine_def render_no_char)
  obtain c cs where c: "cc_path e = c # cs" "c \<noteq> CHR ''#''" "c \<noteq> newline"
    using p by (cases "cc_path e") (auto simp: path_fine_def field_ok_def)
  then have first: "take 1 (cc_line e @ [newline]) = [c]" by (simp add: cc_line_def)
  have toks: "strtoks tab (cc_line e) =
     [cc_path e, render_int (cc_verdict e), render_nat 8 (unat (cc_mode e)),
      render_nat 10 (unat (cc_uid e)), render_nat 10 (unat (cc_gid e)), render_int (cc_mtime e),
      render_int (cc_ctime e), render_int (cc_parent_insecure e), render_int (cc_zwc_insecure e)]"
    unfolding cc_line_def by (rule strtoks_tabbed [OF cc_fields_ok [OF p]])
  have small: "long_range v \<and> to_int v = v" if "v \<in> {0, 1}" for v
    using that by (auto simp: long_range_def c_limits to_int_def)
  note sm = assms [unfolded entry_fine_def]
  have "cc_parse (cc_line e @ [newline]) =
      Put \<lparr>cc_path = cc_path e, cc_verdict = cc_verdict e, cc_mode = cc_mode e, cc_uid = cc_uid e,
        cc_gid = cc_gid e, cc_mtime = cc_mtime e, cc_ctime = cc_ctime e,
        cc_parent_insecure = cc_parent_insecure e, cc_zwc_insecure = cc_zwc_insecure e\<rparr>"
    using sm c small
    by (simp only: cc_parse_def first chomp_line [OF nl] toks)
      (simp add: Let_def strtol_whole(1) strtol_u32)
  then show ?thesis by simp
qed

lemma render_u32_length:
  "length (render_nat 8 (unat (x :: u32))) \<le> 11" "length (render_nat 10 (unat x)) \<le> 11"
proof -
  have "unat x < 4294967296" using unsigned_less [of x, where ?'a = nat] by simp
  then have "unat x < 8 ^ 11" "unat x < 10 ^ 11" by simp_all
  then show "length (render_nat 8 (unat x)) \<le> 11" "length (render_nat 10 (unat x)) \<le> 11"
    using render_nat_length [of 8 11] render_nat_length [of 10 11] by simp_all
qed

lemma cc_line_ok:
  assumes "entry_fine e" shows "line_ok 4096 (cc_line e)"
proof -
  have small: "long_range v" if "v \<in> {0, 1}" for v
    using that by (auto simp: long_range_def c_limits)
  have "length (cc_line e) \<le> 4050"
    using assms render_int_length [of "cc_verdict e"] render_int_length [of "cc_mtime e"]
      render_int_length [of "cc_ctime e"] render_int_length [of "cc_parent_insecure e"]
      render_int_length [of "cc_zwc_insecure e"] render_u32_length(1) [of "cc_mode e"]
      render_u32_length(2) [of "cc_uid e"] render_u32_length(2) [of "cc_gid e"] small
    by (simp add: cc_line_def length_tabbed entry_fine_def path_fine_def)
  then show ?thesis
    using assms by (simp add: line_ok_def cc_line_def in_tabbed entry_fine_def path_fine_def render_no_char)
qed

interpretation cc: growable zp_cc_vec_push "vec_ok 8"
  unfolding zp_cc_vec_push_def by (rule growable_vec_push) simp

interpretation cc_format: line_format "''version:3''" cc_line "\<lambda>_. cc_parse" entry_fine
proof unfold_locales
  show "line_ok 4096 ''version:3''" by (simp add: line_ok_def c_chars)
qed (simp_all add: cc_parse_line cc_line_ok)

lemma load_cc_file:
  assumes "mem_ok w" "w_data w path = Inr (cc_file es)" "list_all entry_fine es"
  shows "\<exists>v. zp_cc_load_cache path w vec_init = Some v \<and> vec_items v = es"
proof -
  obtain rest where f: "fgets_all 4096 (cc_file es) = (''version:3'' @ [newline]) # rest"
    and m: "map cc_parse rest = map Put es"
    using cc_format.read_back [OF assms(1,3)] by (auto simp: cc_file_def)
  show ?thesis
    using f m assms(1,2) by (simp add: zp_cc_load_cache_def starts_with_def cc.fill_init_total)
qed

lemma cc_reload_file:
  "mem_ok w \<Longrightarrow> w_data w path = Inr (cc_file es) \<Longrightarrow> list_all entry_fine es \<Longrightarrow> cc_reload path w = es"
  using load_cc_file [of w path es] by (auto simp: cc_reload_def)

section \<open>Writing the cache\<close>

text \<open>A change at the cache file alone changes no audit.\<close>

lemma same_except_audited:
  assumes "same_except p w w'" "apart p path" "\<not> has_suffix ''.zwc'' p" "p \<noteq> ''/proc/self/exe''" "p \<noteq> []"
  shows "audited w' self path st = audited w self path st"
proof -
  note s = same_exceptD [OF assms(1)]
  have ex: "exe_owner w' = exe_owner w"
    using s(1) [of "''/proc/self/exe''"] s(10) assms(4) by (auto simp: exe_owner_def)
  have us: "unsafe w' self x = unsafe w self x" for x by (simp add: unsafe_def trusted_def ex)
  have pne: "path \<noteq> p" using assms(2) by (auto simp: apart_def starts_with_def)
  have "d \<noteq> p" if "path = d @ slash # r" for d r
    using assms(2) that by (auto simp: apart_def starts_with_def)
  then have ua: "unsafe_ancestor w' self path = unsafe_ancestor w self path"
    unfolding unsafe_ancestor_def us using s(1) by (metis (no_types, lifting))
  have zn: "path @ ''/'' @ n \<noteq> p" if "has_suffix ''.zwc'' n" for n
    using assms(3) that by (auto simp: has_suffix_iff)
  have "(has_suffix ''.zwc'' n \<and> (PATH_MAX \<le> length (path @ ''/'' @ n) \<or>
      (case w_stat w' (path @ ''/'' @ n) of Inl _ \<Rightarrow> True | Inr st \<Rightarrow> has_bit (st_mode st) 18))) =
    (has_suffix ''.zwc'' n \<and> (PATH_MAX \<le> length (path @ ''/'' @ n) \<or>
      (case w_stat w (path @ ''/'' @ n) of Inl _ \<Rightarrow> True | Inr st \<Rightarrow> has_bit (st_mode st) 18)))" for n
    using s(1) [OF zn, of n] by (cases "has_suffix ''.zwc'' n") simp_all
  then have lz: "loose_zwc w' path = loose_zwc w path"
    unfolding loose_zwc_def s(3) [OF pne] by presburger
  show ?thesis by (simp add: audited_def dir_unsafe_def us ua lz)
qed

text \<open>The name of a cache file.\<close>

definition cache_name :: "string \<Rightarrow> bool" where
  "cache_name p \<longleftrightarrow> has_suffix ZP_COMPAUDIT_CACHE_FILE p"

lemma cache_name_facts:
  assumes "cache_name p"
  shows "\<not> has_suffix ''.zwc'' p" "p \<noteq> ''/proc/self/exe''" "p \<noteq> []"
proof -
  obtain u where u: "p = u @ ''compaudit_v3.zcache''"
    using assms by (auto simp: cache_name_def has_suffix_iff ZP_COMPAUDIT_CACHE_FILE_def)
  then have l: "last p = CHR ''e''" "p ! (length p - 2) = CHR ''h''" "8 < length p" "p \<noteq> []"
    by (auto simp: nth_append)
  then show "p \<noteq> []" "p \<noteq> ''/proc/self/exe''" by auto
  show "\<not> has_suffix ''.zwc'' p" using l(1) by (auto simp: has_suffix_iff)
qed

lemma same_except_audits:
  assumes "same_except p w w'" "\<forall>q \<in> set ps. apart p q" "cache_name p"
  shows "audits w' self ps = audits w self ps"
proof -
  note f = cache_name_facts [OF assms(3)]
  have "(case w_stat w' q of Inl _ \<Rightarrow> [] | Inr st \<Rightarrow> [audited w' self q st]) =
      (case w_stat w q of Inl _ \<Rightarrow> [] | Inr st \<Rightarrow> [audited w self q st])" if "q \<in> set ps" for q
  proof -
    have "apart p q" using assms(2) that by blast
    moreover from this have "q \<noteq> p" by (auto simp: apart_def starts_with_def)
    ultimately show ?thesis
      using same_exceptD(1) [OF assms(1)] same_except_audited [OF assms(1) _ f] by (simp split: sum.splits)
  qed
  then show ?thesis unfolding audits_def by (metis (mono_tags, lifting) map_eq_conv)
qed

lemma write_file_rest [simp]:
  "w_exe_owner (write_file p s w) = w_exe_owner w"
  by (simp add: write_file_def set_data_def set_node_def split: sum.splits)

text \<open>A write that succeeds leaves exactly the audits of the paths in the file.\<close>

lemma cc_write_exact:
  assumes "cc_write verb nam p paths w = (Some n, w')" "w_room w p = None" "cache_name p"
    "\<forall>q \<in> set paths. apart p q"
  shows "let es = audits w' (w_euid w) paths in w_data w' p = Inr (cc_file es) \<and>
      n = (count_insecure es, count_secure es)"
    and "w_alloc w' = w_alloc w" "w_euid w' = w_euid w" "w_aparam w' = w_aparam w"
    and "audits w' self paths = audits w self paths"
proof -
  obtain h w1 es w2 where o: "zp_fopen_write_nofollow p 384 True w = (Inr h, w1)"
    and a: "cc_audit_all (w_euid w) paths w1 = (es, w2)"
    and n: "n = (count_insecure es, count_secure es)" "w' = write_file p (cc_file es) w2"
    using assms(1) by (auto simp: cc_write_def split: prod.splits sum.splits)
  have s1: "same_except p w w1" using fopen_same_except [OF o] .
  from cc_audit_all_policy [OF a] have es: "es = audits w1 (w_euid w) paths" and l: "learned w1 w2" by auto
  have s2: "same_except p w2 w'" unfolding n(2) by simp
  have e: "audits w' x paths = audits w1 x paths" for x
    using same_except_audits [OF s2 assms(4,3)] learned_audits [OF l] by simp
  have e0: "audits w1 x paths = audits w x paths" for x
    using same_except_audits [OF s1 assms(4,3)] .
  show "audits w' self paths = audits w self paths" using e e0 by simp
  note k = same_exceptD [OF s1] same_exceptD [OF s2] learned_fields [OF l]
  show "w_alloc w' = w_alloc w" "w_euid w' = w_euid w" "w_aparam w' = w_aparam w"
    using k by simp_all
  have "w_room w2 p = None" using k assms(2) by simp
  then have "w_data w' p = Inr (cc_file es)" unfolding n(2) by (rule write_file_data)
  then show "let es = audits w' (w_euid w) paths in w_data w' p = Inr (cc_file es) \<and>
      n = (count_insecure es, count_secure es)"
    using n(1) es e by (simp add: Let_def)
qed

section \<open>The whole command\<close>

lemma policy_cong:
  assumes "w_stat w' = w_stat w" "w_dir w' = w_dir w" "exe_owner w' = exe_owner w"
  shows "audited w' = audited w" "entry_current w' = entry_current w" "audits w' = audits w"
proof -
  have u: "unsafe w' = unsafe w" by (auto simp: unsafe_def trusted_def assms fun_eq_iff)
  have ua: "unsafe_ancestor w' = unsafe_ancestor w"
    unfolding unsafe_ancestor_def fun_eq_iff u assms by blast
  have lz: "loose_zwc w' = loose_zwc w"
    unfolding loose_zwc_def fun_eq_iff assms by blast
  show a: "audited w' = audited w"
    by (simp add: audited_def dir_unsafe_def u ua lz fun_eq_iff)
  show "entry_current w' = entry_current w" "audits w' = audits w"
    unfolding entry_current_def audits_def fun_eq_iff a assms by blast+
qed

lemma reason_dir_learned: "learned w (snd (reason_dir self e w))"
proof (cases "cc_verdict e \<noteq> 0 \<and> (\<exists>st. w_stat w (cc_path e) = Inr st)")
  case True
  then obtain st b w' where "w_stat w (cc_path e) = Inr st" "zp_cc_is_insecure st self w = (b, w')"
    by fastforce
  with True is_insecure_policy(2) show ?thesis by (auto simp: reason_dir_def)
qed (auto simp: reason_dir_def split: sum.splits)

lemma json_dirs_learned: "learned w (snd (json_dirs self first es w))"
proof (induction es arbitrary: first w)
  case (Cons e es)
  then show ?case
    using reason_dir_learned [of w self e] by (auto split: prod.splits dest: learned_trans) (metis learned_trans snd_conv)
qed simp

lemma cc_output_fields:
  "w_stat (cc_output s j n es w) = w_stat w" "w_dir (cc_output s j n es w) = w_dir w"
  "exe_owner (cc_output s j n es w) = exe_owner w"
  using learned_fields [OF json_dirs_learned [of w "w_euid w" True es]]
  by (auto simp: cc_output_def emit_def emit_icon_eq zp_icon_state exe_owner_def split: prod.splits)

lemma audits_current: "e \<in> set (audits w self ps) \<Longrightarrow> entry_current w self e"
proof -
  assume "e \<in> set (audits w self ps)"
  then obtain q st where "w_stat w q = Inr st" "e = audited w self q st"
    by (auto simp: audits_def split: sum.splits) (metis sum.exhaust)
  moreover from this have "cc_path e = q" by (simp add: audited_def)
  ultimately show ?thesis unfolding entry_current_def by (intro exI [of _ st]) simp
qed

lemma audits_paths: "set (map cc_path (audits w self ps)) \<subseteq> set ps"
proof (induction ps)
  case (Cons p ps)
  have "cc_path (audited w self p st) = p" for st by (simp add: audited_def)
  with Cons show ?case by (cases "w_stat w p") (simp_all add: audits_def le_supI2 subset_insertI2)
qed (simp add: audits_def)

lemma audits_fine:
  assumes "\<forall>q \<in> set ps. path_fine q" "times_fit w"
  shows "list_all entry_fine (audits w self ps)"
  using assms by (auto simp: audits_def list_all_iff entry_fine_def audited_def times_fit_def split: sum.splits)

lemma add_missing_paths:
  "set (map cc_path (vec_items (add_missing w v ds))) \<subseteq> set (map cc_path (vec_items v)) \<union> {d \<in> set ds. d \<noteq> []}"
proof (induction w v ds rule: add_missing.induct)
  case (2 w v d ds)
  show ?case
  proof (cases "d = [] \<or> d \<in> set (map cc_path (vec_items v)) \<or> \<not> w_alloc w (length d + 1)")
    case True
    then show ?thesis using 2(1) by auto
  next
    case False
    then show ?thesis
    proof (cases "zp_cc_vec_push w v (new_entry d)")
      case (Some v')
      have "set (map cc_path (vec_items v')) = insert d (set (map cc_path (vec_items v)))"
        using cc.push_items [OF Some] by (simp add: new_entry_def)
      then show ?thesis using 2(2) [of v'] False Some by auto
    qed auto
  qed
qed simp

lemma collect_dirs_paths:
  "set (map cc_path (vec_items (zp_cc_collect_dirs w vec_init))) \<subseteq> {d \<in> set (fpath_dirs w). d \<noteq> []}"
proof -
  let ?t = "\<lambda>d. if d = [] then Skip else if w_alloc w (length d + 1) then Put (collected_entry w d) else Stop"
  have "set (offered (map ?t ds)) \<subseteq> collected_entry w ` {d \<in> set ds. d \<noteq> []}" for ds
    by (induction ds) auto
  with cc.fill_init_subset [of w "map ?t (fpath_dirs w)"] show ?thesis
    by (fastforce simp: zp_cc_collect_dirs_def collected_entry_def new_entry_def)
qed

lemma collect_dirs_all:
  assumes "mem_ok w"
  shows "map cc_path (vec_items (zp_cc_collect_dirs w vec_init)) = filter (\<lambda>d. d \<noteq> []) (fpath_dirs w)"
proof -
  let ?t = "\<lambda>d. if d = [] then Skip else if w_alloc w (length d + 1) then Put (collected_entry w d) else Stop"
  have "map cc_path (offered (map ?t ds)) = filter (\<lambda>d. d \<noteq> []) ds" for ds
    using assms by (induction ds) (auto simp: collected_entry_def new_entry_def mem_ok_def)
  then show ?thesis using cc.fill_init_total [OF assms] by (simp add: zp_cc_collect_dirs_def)
qed

text \<open>A successful write of fine paths, read back.\<close>

lemma cc_write_reload:
  assumes "cc_write verb nam p paths w = (Some n, w')" "w_room w p = None" "cache_name p" "mem_ok w"
    "\<forall>q \<in> set paths. path_fine q \<and> apart p q" "times_fit w'"
  shows "cc_reload p w' = audits w' (w_euid w) paths"
    and "n = (count_insecure (cc_reload p w'), count_secure (cc_reload p w'))"
    and "\<forall>e \<in> set (cc_reload p w'). entry_current w' (w_euid w) e"
proof -
  have ap: "\<forall>q \<in> set paths. apart p q" using assms(5) by blast
  note ex = cc_write_exact [OF assms(1-3) ap]
  have "list_all entry_fine (audits w' (w_euid w) paths)"
    using audits_fine assms(5,6) by blast
  then show r: "cc_reload p w' = audits w' (w_euid w) paths"
    using ex(1,2) assms(4) by (intro cc_reload_file) (auto simp: mem_ok_def Let_def)
  show "n = (count_insecure (cc_reload p w'), count_secure (cc_reload p w'))"
    using ex(1) r by (simp add: Let_def)
  show "\<forall>e \<in> set (cc_reload p w'). entry_current w' (w_euid w) e"
    unfolding r using audits_current by blast
qed

text \<open>The path of the cache, as the parameters give it.\<close>

definition cc_cache_path :: "'w world_scheme \<Rightarrow> string option" where
  "cc_cache_path w = map_option (\<lambda>b. b @ ''/zpmod/compaudit_v3.zcache'') (zp_cc_base_cache_dir w)"

lemma zp_icon_fields [simp]:
  "w_aparam (snd (zp_icon i w)) = w_aparam w" "w_data (snd (zp_icon i w)) = w_data w"
  by (simp_all add: zp_icon_state)

lemma learned_steady: "learned w w' \<Longrightarrow> steady p w w'"
  by (simp add: steady_def learned_fields)

lemma steady_reload: "steady p w w' \<Longrightarrow> cc_reload p w' = cc_reload p w"
proof -
  assume s: "steady p w w'"
  then have "zp_cc_vec_push w' = zp_cc_vec_push w"
    by (simp add: zp_cc_vec_push_def vec_push_def steady_def fun_eq_iff)
  moreover have "w_data w' p = w_data w p" using s by (simp add: steady_def)
  ultimately show ?thesis by (simp only: cc_reload_def zp_cc_load_cache_def)
qed

lemma cc_path_steady:
  assumes "zp_cc_cache_file_path nam w = (Some p, w1)"
  shows "cc_cache_path w = Some p" "cache_name p" "steady p w w1"
proof -
  obtain b where b: "zp_cc_base_cache_dir w = Some b" "zp_cc_ensure_dir nam w = (Some (b @ ''/zpmod''), w1)"
    and p: "p = b @ ''/zpmod/compaudit_v3.zcache''"
    using assms by (auto simp: zp_cc_cache_file_path_def zp_cc_ensure_dir_def Let_def
        ZP_COMPAUDIT_CACHE_FILE_def ZP_COMPAUDIT_CACHE_SUBDIR_def split: prod.splits option.splits sum.splits if_splits)
  show "cc_cache_path w = Some p" using b p by (simp add: cc_cache_path_def)
  show "cache_name p"
    by (auto simp: cache_name_def has_suffix_iff p ZP_COMPAUDIT_CACHE_FILE_def intro: exI [of _ "b @ ''/zpmod/''"])
  have "w1 = w \<or> (\<exists>m. sys_mkdir (b @ ''/zpmod'') m w = Inr w1)"
    using b by (auto simp: zp_cc_ensure_dir_def Let_def ZP_COMPAUDIT_CACHE_SUBDIR_def
        split: option.splits sum.splits if_splits)
  then have "same_except (b @ ''/zpmod'') w w1" using same_except_mkdir by auto
  then show "steady p w w1" by (rule same_except_steady) (simp add: p)
qed

lemma find_sub_Some: "find_sub s t = Some i \<Longrightarrow> take (length t) (drop i s) = t"
  by (auto simp: find_sub_def find_Some_iff)

lemma cc_migrate_steady:
  assumes "cc_migrate p w = (m, w')" shows "steady p w w'"
proof -
  have "w' = w \<or> (\<exists>i. find_sub p ''_v3.zcache'' = Some i \<and> sys_unlink (take i p @ ''_v2.zcache'') w = Inr w')"
    using assms by (auto simp: cc_migrate_def split: sum.splits option.splits if_splits)
  moreover have "take i p @ ''_v2.zcache'' \<noteq> p" if "find_sub p ''_v3.zcache'' = Some i" for i
  proof
    assume e: "take i p @ ''_v2.zcache'' = p"
    then have l: "i \<le> length p" using length_append [of "take i p" "''_v2.zcache''"] by simp
    then have "drop i p = ''_v2.zcache''" using e by (metis append_eq_conv_conj length_take min_absorb2)
    with find_sub_Some [OF that] show False by simp
  qed
  ultimately show ?thesis
    by (auto simp: steady_def dest!: same_except_unlink dest: same_except_steady)
qed

text \<open>The cache is used: its entries are current, or have just been refreshed.\<close>

lemma have_cache_current:
  assumes "cc_have_cache nam p w = (Some es, w')" "mem_ok w" "w_room w p = None" "cache_name p"
    "\<forall>q \<in> set (map cc_path (cc_reload p w)) \<union> set (fpath_dirs w). q \<noteq> [] \<longrightarrow> path_fine q \<and> apart p q"
    "times_fit w'" "\<forall>e \<in> set (cc_reload p w). cc_path e \<noteq> []"
  shows "\<forall>e \<in> set es. entry_current w' (w_euid w) e \<and>
    cc_path e \<in> set (map cc_path (cc_reload p w)) \<union> set (fpath_dirs w)"
proof -
  obtain v where v: "zp_cc_load_cache p w vec_init = Some v"
    using assms(1) by (auto simp: cc_have_cache_def split: option.splits)
  obtain bad w1 where val: "zp_cc_validate_cache (w_euid w) (vec_items v) w = (bad, w1)" by fastforce
  note pol = validate_policy [OF val]
  have cur: "entry_current w1 self e = entry_current w self e" for self e
    using pol learned_entry_current by blast
  show ?thesis
  proof (cases bad)
    case False
    then have "es = vec_items v" "w' = w1"
      using assms(1) v val by (auto simp: cc_have_cache_def)
    with pol False cur v show ?thesis by (simp add: cc_reload_def)
  next
    case True
    then obtain n where n: "zp_cc_incremental_update nam p v w1 = (Some n, w')" and es: "es = cc_reload p w'"
      using assms(1) v val by (auto simp: cc_have_cache_def split: prod.splits option.splits)
    have l: "learned w w1" using pol by simp
    note lf = learned_fields [OF l]
    have items: "vec_items v = cc_reload p w" using v by (simp add: cc_reload_def)
    have fd: "fpath_dirs w1 = fpath_dirs w" by (simp add: fpath_dirs_def lf)
    let ?P = "map cc_path (vec_items (add_missing w1 v (fpath_dirs w1)))"
    have "\<forall>q \<in> set ?P. path_fine q \<and> apart p q"
      using add_missing_paths [of w1 v "fpath_dirs w1"] assms(5,7) items fd by fastforce
    moreover have "w_room w1 p = None" "mem_ok w1" using assms(2,3) lf by (simp_all add: mem_ok_def)
    ultimately have "\<forall>e \<in> set (cc_reload p w'). entry_current w' (w_euid w1) e"
      and r: "cc_reload p w' = audits w' (w_euid w1) ?P"
      using cc_write_reload(1,3) [OF n [unfolded zp_cc_incremental_update_def] _ assms(4)] assms(6) by blast+
    moreover have "set (map cc_path (cc_reload p w')) \<subseteq> set (map cc_path (cc_reload p w)) \<union> set (fpath_dirs w)"
      using audits_paths [of w' "w_euid w1" ?P] add_missing_paths [of w1 v "fpath_dirs w1"]
      unfolding r items fd by blast
    ultimately show ?thesis using es lf by auto
  qed
qed

lemma parsed_path_nonempty: "cc_parse l = Put e \<Longrightarrow> cc_path e \<noteq> []"
proof -
  assume p: "cc_parse l = Put e"
  then obtain t ts where t: "strtoks tab (chomp l) = t # ts" and e: "cc_path e = t"
    by (auto simp: cc_parse_def Let_def split: if_splits list.splits)
  then have "t \<noteq> []"
    by (subst (asm) strtoks.simps) (auto split: list.splits simp: dropWhile_eq_Cons_conv)
  with e show ?thesis by simp
qed

lemma reload_path_nonempty: "\<forall>e \<in> set (cc_reload p w). cc_path e \<noteq> []"
proof -
  have "\<forall>e \<in> set (offered (map cc_parse ls)). cc_path e \<noteq> []" for ls
  proof (induction ls)
    case (Cons l ls)
    then show ?case using parsed_path_nonempty [of l] by (cases "cc_parse l") auto
  qed simp
  then show ?thesis
    using cc.fill_init_subset [of w] unfolding cc_reload_def zp_cc_load_cache_def
    by (auto split: option.splits sum.splits list.splits if_splits)
qed

lemma have_cache_frame:
  assumes "cc_have_cache nam p w = (None, w')"
  shows "w_alloc w' = w_alloc w" "w_euid w' = w_euid w" "w_aparam w' = w_aparam w" "w_room w' p = w_room w p"
proof -
  have wr: "same_except p u u'" if "cc_write verb nam p ps u = (None, u')" for verb ps u u'
    using that by (auto simp: cc_write_def split: prod.splits sum.splits
        dest!: fopen_same_except intro: same_except_trans)
  have "w' = w \<or> (\<exists>w1. learned w w1 \<and> same_except p w1 w')"
    using assms by (auto simp: cc_have_cache_def zp_cc_incremental_update_def
        split: option.splits prod.splits bool.splits dest!: validate_policy wr)
  then show "w_alloc w' = w_alloc w" "w_euid w' = w_euid w" "w_aparam w' = w_aparam w" "w_room w' p = w_room w p"
    by (auto simp: learned_fields dest: same_exceptD)
qed

lemma times_cc_path [times]: "zp_cc_cache_file_path nam w = (r, w') \<Longrightarrow> times_fit w \<Longrightarrow> times_fit w'"
  by (auto simp: zp_cc_cache_file_path_def zp_cc_ensure_dir_def Let_def
      split: prod.splits option.splits sum.splits if_splits dest: times_mkdir)

lemma times_cc_migrate [times]: "cc_migrate p w = (m, w') \<Longrightarrow> times_fit w \<Longrightarrow> times_fit w'"
  by (auto simp: cc_migrate_def split: option.splits sum.splits if_splits dest: times_unlink)

lemma times_cc_write [times]: "cc_write verb nam p ps w = (r, w') \<Longrightarrow> times_fit w \<Longrightarrow> times_fit w'"
  by (auto simp: cc_write_def split: prod.splits sum.splits dest!: times_fopen cc_audit_all_policy
      intro: times_write_file simp: learned_times)

lemma times_have_cache [times]: "cc_have_cache nam p w = (r, w') \<Longrightarrow> times_fit w \<Longrightarrow> times_fit w'"
  by (auto simp: cc_have_cache_def zp_cc_incremental_update_def
      split: option.splits prod.splits bool.splits dest!: validate_policy times_cc_write simp: learned_times)

text \<open>Until its report the command writes nothing.\<close>

lemma cc_path_out: "zp_cc_cache_file_path nam w = (r, w') \<Longrightarrow> w_out w' = w_out w"
  by (auto simp: zp_cc_cache_file_path_def zp_cc_ensure_dir_def Let_def zwarnnam_def
      split: prod.splits option.splits sum.splits if_splits dest: mkdir_out)

lemma cc_migrate_out: "cc_migrate p w = (m, w') \<Longrightarrow> w_out w' = w_out w"
  by (auto simp: cc_migrate_def split: option.splits sum.splits if_splits dest: unlink_out)

lemma cc_write_out: "cc_write verb nam p ps w = (r, w') \<Longrightarrow> w_out w' = w_out w \<and> w_euid w' = w_euid w"
  using fopen_out [of p 384 True w] same_exceptD(8) [OF fopen_same_except [of p 384 True w]]
  by (auto simp: cc_write_def learned_fields same_exceptD(8) [OF same_except_warn_icon]
      same_exceptD(8) [OF same_except_write_file] split: prod.splits sum.splits dest!: cc_audit_all_policy)

lemma cc_have_cache_out: "cc_have_cache nam p w = (r, w') \<Longrightarrow> w_out w' = w_out w \<and> w_euid w' = w_euid w"
  by (auto simp: cc_have_cache_def zp_cc_incremental_update_def
      split: option.splits prod.splits bool.splits dest!: validate_policy cc_write_out simp: learned_fields)

lemma verdicts_current:
  assumes "zp_compaudit_cache_core nam rebuild show_it json w = (0, out)" "show_it \<or> json"
    and "mem_ok w" "cc_cache_path w = Some p" "w_room w p = None" "times_fit w"
    and "\<forall>q \<in> set (map cc_path (cc_reload p w)) \<union> set (fpath_dirs w). q \<noteq> [] \<longrightarrow> path_fine q \<and> apart p q"
  shows "\<exists>es w'. out = cc_output show_it json (count_insecure es, count_secure es) es w' \<and>
     (\<forall>e \<in> set es. entry_current out (w_euid w) e) \<and>
     (rebuild \<longrightarrow> es = audits out (w_euid w) (filter (\<lambda>d. d \<noteq> []) (fpath_dirs w))) \<and>
     w_out w' = w_out w \<and> w_euid w' = w_euid w \<and>
     cc_path ` set es \<subseteq> set (map cc_path (cc_reload p w)) \<union> set (fpath_dirs w)"
proof -
  obtain p' w1 where pth: "zp_cc_cache_file_path nam w = (Some p', w1)"
    using assms(1) by (auto simp: zp_compaudit_cache_core_def split: prod.splits option.splits)
  note cp = cc_path_steady [OF pth]
  then have p': "p' = p" using assms(4) by simp
  obtain m w2 where m: "(if rebuild then (False, w1) else cc_migrate p w1) = (m, w2)" by fastforce
  then have "steady p w1 w2" using cc_migrate_steady [of p w1] by (auto simp: steady_def split: if_splits)
  then have st: "steady p w w2" using cp(3) p' steady_trans by blast
  define rb where "rb = (rebuild \<or> m \<or> writable_cache p w2)"
  obtain hc w3 where hc: "(if rb then (None, w2) else cc_have_cache nam p w2) = (hc, w3)" by fastforce
  have "times_fit w2" using m times_cc_path [OF pth assms(6)] times_cc_migrate by (auto split: if_splits)
  then have t3: "times_fit w3" using hc times_have_cache by (auto split: if_splits)
  have fine: "\<forall>q \<in> set (map cc_path (cc_reload p w2)) \<union> set (fpath_dirs w2). q \<noteq> [] \<longrightarrow> path_fine q \<and> apart p q"
    using assms(7) steady_reload [OF st] st by (simp add: steady_def fpath_dirs_def)
  have w2: "mem_ok w2" "w_room w2 p = None" "w_euid w2 = w_euid w" "cache_name p"
    using st assms(3,5) cp(2) p' by (simp_all add: steady_def mem_ok_def)
  have out2: "w_out w2 = w_out w"
    using m cc_path_out [OF pth] by (auto split: if_splits dest: cc_migrate_out)
  show ?thesis
  proof (cases hc)
    case (Some es)
    then have nrb: "\<not> rb" and h: "cc_have_cache nam p w2 = (Some es, w3)" using hc by (auto split: if_splits)
    have o: "out = cc_output show_it json (count_insecure es, count_secure es) es w3"
      using assms(1) pth p' m hc Some by (simp add: zp_compaudit_cache_core_def Let_def rb_def)
    note same = policy_cong [OF cc_output_fields [of show_it json "(count_insecure es, count_secure es)" es w3],
        folded o]
    have "times_fit w3" by (rule t3)
    from have_cache_current [OF h w2(1,2,4) fine this reload_path_nonempty]
    show ?thesis using o same nrb w2(3) out2 cc_have_cache_out [OF h] steady_reload [OF st] st
      by (intro exI [of _ es] exI [of _ w3]) (auto simp: rb_def steady_def fpath_dirs_def)
  next
    case None
    define P where "P = map cc_path (vec_items (zp_cc_collect_dirs w3 vec_init))"
    obtain n w4 where n: "cc_write ''write'' nam p P w3 = (Some n, w4)"
      and o: "out = cc_output show_it json n (cc_reload p w4) w4"
      using assms(1,2) pth p' m hc None
      by (auto simp: zp_compaudit_cache_core_def Let_def rb_def P_def zp_cc_rebuild_def
          split: prod.splits option.splits if_splits)
    have s3: "w_alloc w3 = w_alloc w2 \<and> w_euid w3 = w_euid w2 \<and> w_aparam w3 = w_aparam w2 \<and> w_room w3 p = w_room w2 p"
      using hc None by (auto split: if_splits dest: have_cache_frame)
    have ok: "mem_ok w3" "w_room w3 p = None" "w_euid w3 = w_euid w" using s3 w2 by (simp_all add: mem_ok_def)
    have fd: "fpath_dirs w3 = fpath_dirs w" using s3 st by (simp add: fpath_dirs_def steady_def)
    have P: "P = filter (\<lambda>d. d \<noteq> []) (fpath_dirs w)"
      using collect_dirs_all [OF ok(1)] fd by (simp add: P_def)
    have Pf: "\<forall>q \<in> set P. path_fine q \<and> apart p q" using P assms(7) by auto
    note same = policy_cong [OF cc_output_fields [of show_it json n "cc_reload p w4" w4], folded o]
    have "times_fit w4" using times_cc_write [OF n t3] .
    note r = cc_write_reload [OF n ok(2) w2(4) ok(1) Pf this]
    have "out = cc_output show_it json (count_insecure (cc_reload p w4), count_secure (cc_reload p w4)) (cc_reload p w4) w4"
      using o r(2) by simp
    moreover have "w_out w4 = w_out w" "w_euid w4 = w_euid w"
      using cc_write_out [OF n] out2 ok(3) hc None by (auto split: if_splits dest: cc_have_cache_out)
    ultimately show ?thesis
      using r(1,3) ok(3) same P audits_paths [of w4 "w_euid w3" P]
      by (intro exI [of _ "cc_reload p w4"] exI [of _ w4]) auto
  qed
qed

section \<open>Properties\<close>

text \<open>
  C12: Every verdict the command reports is current: when \<open>compaudit-cache\<close> succeeds, whether it used
  its cache, refreshed it or rebuilt it, each reported entry has the metadata its directory has now
  and the verdict of the policy now, and the reported counts are those of the entries.  After a
  rebuild the entries are the audits of exactly the existing directories of \<open>fpath\<close>, in order.
  Supposed are memory, room in the file, and directories whose names the format can carry.
\<close>

theorem compaudit_verdicts_current:
  assumes "zp_compaudit_cache_core nam rebuild show_it json w = (0, out)" "show_it \<or> json"
    and "mem_ok w" "cc_cache_path w = Some p" "w_room w p = None" "times_fit w"
    and "\<forall>q \<in> set (map cc_path (cc_reload p w)) \<union> set (fpath_dirs w). q \<noteq> [] \<longrightarrow> path_fine q \<and> apart p q"
  shows "\<exists>es w'. out = cc_output show_it json (count_insecure es, count_secure es) es w' \<and>
     (\<forall>e \<in> set es. entry_current out (w_euid w) e) \<and>
     (rebuild \<longrightarrow> es = audits out (w_euid w) (filter (\<lambda>d. d \<noteq> []) (fpath_dirs w)))"
  using verdicts_current [OF assms] by blast

text \<open>A home with a cache directory and one directory of completions, which others may write.\<close>

definition cc_world :: world where
  "cc_world = world0
     \<lparr>w_stat := (\<lambda>p. if p = ''/h/.cache/zpmod'' then Inr ((w_fresh world0 p)\<lparr>st_mode := 16832\<rparr>)
                  else if p = ''/f'' then Inr ((w_fresh world0 p)\<lparr>st_mode := 16895\<rparr>) else Inl ENOENT),
      w_dir := (\<lambda>p. if p = ''/f'' then Inr ([], 0) else Inl ENOENT),
      w_sparam := (\<lambda>n. if n = ''HOME'' then Some ''/h'' else None),
      w_aparam := (\<lambda>n. if n = ''fpath'' then Some [''/f''] else None)\<rparr>"

lemma cc_world_facts:
  "mem_ok cc_world" "cc_cache_path cc_world = Some ''/h/.cache/zpmod/compaudit_v3.zcache''"
  "w_room cc_world ''/h/.cache/zpmod/compaudit_v3.zcache'' = None" "times_fit cc_world"
  "w_euid cc_world = 1000" "fpath_dirs cc_world = [''/f'']" "w_out cc_world = []"
  "cc_reload ''/h/.cache/zpmod/compaudit_v3.zcache'' cc_world = []"
  "path_fine ''/f''" "apart ''/h/.cache/zpmod/compaudit_v3.zcache'' ''/f''"
proof -
  show "times_fit cc_world"
    by (auto simp: times_fit_def cc_world_def world0_def long_range_def c_limits split: if_splits)
qed (simp_all add: cc_world_def world0_def mem_ok_def cc_cache_path_def zp_cc_base_cache_dir_def
      fpath_dirs_def cc_reload_def zp_cc_load_cache_def path_fine_def field_ok_def c_chars apart_def
      starts_with_def)

lemma cc_world_runs: "fst (zp_compaudit_cache_core ''zpmod'' True True False cc_world) = 0"
  by code_simp

theorem compaudit_verdicts_current_witness:
  "\<exists>out es w'. zp_compaudit_cache_core ''zpmod'' True True False cc_world = (0, out) \<and>
     out = cc_output True False (count_insecure es, count_secure es) es w' \<and>
     es = audits out 1000 [''/f''] \<and> (\<forall>e \<in> set es. entry_current out 1000 e)"
proof -
  obtain out where o: "zp_compaudit_cache_core ''zpmod'' True True False cc_world = (0, out)"
    using cc_world_runs by (metis prod.collapse)
  show ?thesis
    using compaudit_verdicts_current [OF o _ cc_world_facts(1-4)] cc_world_facts o by auto
qed

text \<open>
  The policy of one directory: it is insecure exactly when others may write it, or its group may
  and its owner is neither root nor the user nor the owner of the running program, unless it is
  sticky.  Asking again answers the same, and asking changes nothing but what is known of the
  program's owner.
\<close>

theorem is_insecure_correct:
  assumes "zp_cc_is_insecure st self w = (b, w1)"
  shows "b = unsafe w self st \<and> w1 = w\<lparr>w_exe_owner := exe_owner w\<rparr> \<and>
     zp_cc_is_insecure st self w1 = (b, w1)"
proof -
  have w1: "w1 = zp_cc_discover_exe_owner w" using assms by (auto simp: zp_cc_is_insecure_def Let_def)
  note p = is_insecure_policy [OF assms]
  obtain b' w2 where a: "zp_cc_is_insecure st self w1 = (b', w2)" by fastforce
  have "b' = b" using is_insecure_policy(1) [OF a] p learned_unsafe [OF p(2)] by simp
  moreover have "w2 = w1"
    using a learned_discover [of w] by (auto simp: zp_cc_is_insecure_def Let_def zp_cc_discover_exe_owner_def
        w1 exe_owner_def)
  ultimately show ?thesis using p a w1 by (simp add: zp_cc_discover_exe_owner_def)
qed

theorem is_insecure_correct_witness:
  "fst (zp_cc_is_insecure ((w_fresh world0 [])\<lparr>st_mode := 16895\<rparr>) 1000 world0) =
     unsafe world0 1000 ((w_fresh world0 [])\<lparr>st_mode := 16895\<rparr>)"
  using is_insecure_correct [of "(w_fresh world0 [])\<lparr>st_mode := 16895\<rparr>" 1000 world0] by (metis prod.collapse)

text \<open>
  The walk over the parents finds exactly the unsafe ancestors: it reports a path of less than
  \<open>PATH_MAX\<close> bytes if and only if some directory above it, other than the root, exists and is
  insecure; it ends on every path.
\<close>

theorem parent_insecure_path_correct:
  "fst (parent_insecure_path path self w) \<longleftrightarrow>
     length path < PATH_MAX \<and>
     (\<exists>d r st. path = d @ slash # r \<and> d \<noteq> [] \<and> w_stat w d = Inr st \<and> unsafe w self st)"
proof -
  obtain b w' where p: "parent_walk self path w = (b, w')" by fastforce
  from parent_walk_policy [OF p] p show ?thesis
    by (simp add: parent_insecure_path_def unsafe_ancestor_def)
qed

text \<open>
  C26: Reading back what was written: loading the text of any list of entries that the format can
  carry returns exactly these entries, in order, with every field as it was.
\<close>

theorem compaudit_cache_roundtrip:
  assumes "mem_ok w" "w_data w path = Inr (cc_file es)" "list_all entry_fine es"
  shows "\<exists>v. zp_cc_load_cache path w vec_init = Some v \<and> vec_items v = es \<and> vec_ok 8 v"
proof -
  obtain v where v: "zp_cc_load_cache path w vec_init = Some v" "vec_items v = es"
    using load_cc_file [OF assms] by blast
  from v(1) have "\<exists>ts. v = fill (zp_cc_vec_push w) vec_init ts"
    by (auto simp: zp_cc_load_cache_def split: sum.splits list.splits if_splits)
  then have "vec_ok 8 v" using cc.fill_ok [OF cc.init_ok] by auto
  with v show ?thesis by blast
qed

theorem compaudit_cache_roundtrip_witness:
  "\<exists>v. zp_cc_load_cache ''c'' (world0\<lparr>w_data := (\<lambda>_. Inr (cc_file [new_entry ''/usr/share'', new_entry ''/x'']))\<rparr>)
       vec_init = Some v \<and> vec_items v = [new_entry ''/usr/share'', new_entry ''/x''] \<and> vec_ok 8 v"
  by (rule compaudit_cache_roundtrip)
    (simp_all add: world0_def mem_ok_def entry_fine_def new_entry_def path_fine_def field_ok_def c_chars
      long_range_def c_limits)

text \<open>The same home with a cache that has no entries: it counts as valid, so the directory that
  others may write, which is in \<open>fpath\<close> but not in the cache, is never audited.\<close>

definition cc_stale_world :: world where
  "cc_stale_world = cc_world
     \<lparr>w_stat := (w_stat cc_world)(''/h/.cache/zpmod/compaudit_v3.zcache'' :=
          Inr ((w_fresh world0 [])\<lparr>st_mode := 33152\<rparr>)),
      w_data := (\<lambda>_. Inr (''version:3'' @ [newline]))\<rparr>"

lemma new_directory_not_audited:
  "let (ret, out) = zp_compaudit_cache_core ''zpmod'' False True False cc_stale_world
   in ret = 0 \<and> w_out out = ''compaudit-cache: insecure 0 secure 0'' @ [newline]"
  by code_simp

end
