(* ===== verification/Zp_Rehash.thy ===== *)
theory Zp_Rehash
  imports Zp_Cache
begin

text \<open>
  \<open>src/core/rehash_diff.c\<close>: the snapshot of the directories of \<open>path\<close> (its text format, loading
  and writing) and the command \<open>rehash-diff\<close>, which compares the directories with the last snapshot,
  reports what was added, removed and changed, and writes a new one.
\<close>

section \<open>The snapshot file\<close>

definition ZP_RH_SUBDIR :: string where "ZP_RH_SUBDIR = ''zpmod''"
definition ZP_RH_FILE :: string where "ZP_RH_FILE = ''rehash_path_v1.snapshot''"

definition zp_rh_base_cache_dir :: "'w world_scheme \<Rightarrow> string option" where
  "zp_rh_base_cache_dir w =
     (let xdg = w_sparam w ''XDG_CACHE_HOME''; home = w_sparam w ''HOME'';
          base = (case xdg of Some (c # cs) \<Rightarrow> Some (c # cs) | _ \<Rightarrow> None)
      in case base of
           Some b \<Rightarrow> Some b
         | None \<Rightarrow>
             (case home of
                Some (c # cs) \<Rightarrow>
                  if w_alloc w (length (c # cs) + 8) then Some ((c # cs) @ ''/.cache'') else None
              | _ \<Rightarrow> None))"

definition zp_rh_dir :: "string \<Rightarrow> 'w world_scheme \<Rightarrow> string option \<times> 'w world_scheme" where
  "zp_rh_dir nam w =
     (case zp_rh_base_cache_dir w of
        None \<Rightarrow> (None, warn_icon nam icon_cross ''rehash-diff: cannot resolve cache directory'' w)
      | Some base \<Rightarrow>
          if \<not> w_alloc w (length base + 1 + length ZP_RH_SUBDIR + 1) then (None, w)
          else
            let full = base @ ''/'' @ ZP_RH_SUBDIR
            in case w_stat w full of
                 Inr _ \<Rightarrow> (Some full, w)
               | Inl _ \<Rightarrow>
                   (case sys_mkdir full 448 w of
                      Inl e \<Rightarrow> (None, warn_icon nam icon_cross
                                 (''rehash-diff: cannot create '' @ full @ '': '' @ w_strerror w e) w)
                    | Inr w1 \<Rightarrow> (Some full, w1)))"

definition zp_rh_file :: "string \<Rightarrow> 'w world_scheme \<Rightarrow> string option \<times> 'w world_scheme" where
  "zp_rh_file nam w =
     (case zp_rh_dir nam w of
        (None, w1) \<Rightarrow> (None, w1)
      | (Some dir, w1) \<Rightarrow>
          if w_alloc w1 (length dir + 1 + length ZP_RH_FILE + 1)
          then (Some (dir @ ''/'' @ ZP_RH_FILE), w1) else (None, w1))"

record rh_entry =
  rh_path :: string
  rh_ino :: u64
  rh_mtime :: int
  rh_present_now :: bool

definition rh_vec_push ::
    "'w world_scheme \<Rightarrow> rh_entry vec \<Rightarrow> rh_entry \<Rightarrow> rh_entry vec option" where
  "rh_vec_push = vec_push 16 32"

text \<open>One line of the snapshot.\<close>

definition rh_parse :: "'w world_scheme \<Rightarrow> string \<Rightarrow> rh_entry turn" where
  "rh_parse w line =
     (if take 1 line = [newline] \<or> take 1 line = ''#'' then Skip
      else case strtoks tab (chomp line) of
             p # ino_s # mt_s # _ \<Rightarrow>
               if \<not> w_alloc w (length p + 1) then Stop
               else Put \<lparr>rh_path = p, rh_ino = strtoul 10 ino_s, rh_mtime = fst (strtol 10 mt_s),
                         rh_present_now = False\<rparr>
           | _ \<Rightarrow> Skip)"

text \<open>\<open>None\<close> is the return value 1.\<close>

definition rh_load :: "string \<Rightarrow> 'w world_scheme \<Rightarrow> rh_entry vec \<Rightarrow> rh_entry vec option" where
  "rh_load file w out =
     (case w_data w file of
        Inl _ \<Rightarrow> None
      | Inr dat \<Rightarrow>
          (case fgets_all 4096 dat of
             [] \<Rightarrow> None
           | first # rest \<Rightarrow>
               if \<not> starts_with ''version:1'' first then None
               else Some (fill (rh_vec_push w) out (map (rh_parse w) rest))))"

text \<open>\<open>%s\t%lu\t%ld\n\<close>\<close>

definition rh_line :: "rh_entry \<Rightarrow> string" where
  "rh_line e = tabbed [rh_path e, render_nat 10 (unat (rh_ino e)), render_int (rh_mtime e)]"

text \<open>What is recorded of a directory.\<close>

definition rh_of :: "string \<Rightarrow> stat \<Rightarrow> rh_entry" where
  "rh_of path st = \<lparr>rh_path = path, rh_ino = st_ino st, rh_mtime = st_mtime st, rh_present_now = False\<rparr>"

definition snapshot :: "'w world_scheme \<Rightarrow> string list \<Rightarrow> rh_entry list" where
  "snapshot w paths = concat (map (\<lambda>p. case w_stat w p of Inl _ \<Rightarrow> [] | Inr st \<Rightarrow> [rh_of p st]) paths)"

definition rh_text :: "'w world_scheme \<Rightarrow> string list \<Rightarrow> string" where
  "rh_text w paths = concat (map (\<lambda>l. l @ [newline]) (''version:1'' # map rh_line (snapshot w paths)))"

definition rh_write :: "string \<Rightarrow> string \<Rightarrow> string list \<Rightarrow> 'w world_scheme \<Rightarrow> int \<times> 'w world_scheme" where
  "rh_write nam file paths w =
     (case zp_fopen_write_nofollow file 384 True w of
        (Inl e, w1) \<Rightarrow> (1, warn_icon nam icon_cross
            (''rehash-diff: cannot write '' @ file @ '': '' @ w_strerror w1 e) w1)
      | (Inr _, w1) \<Rightarrow> (0, write_file file (rh_text w1 paths) w1))"

section \<open>The comparison\<close>

definition path_dirs :: "'w world_scheme \<Rightarrow> string list" where
  "path_dirs w = (case w_aparam w ''path'' of None \<Rightarrow> [] | Some arr \<Rightarrow> arr)"

definition rh_new :: "string \<Rightarrow> rh_entry" where
  "rh_new p = \<lparr>rh_path = p, rh_ino = 0, rh_mtime = 0, rh_present_now = True\<rparr>"

definition rh_collect_current :: "'w world_scheme \<Rightarrow> rh_entry vec \<Rightarrow> rh_entry vec" where
  "rh_collect_current w out =
     fill (rh_vec_push w) out
       (map (\<lambda>d. if d = [] then Skip else if w_alloc w (length d + 1) then Put (rh_new d) else Stop)
         (path_dirs w))"

text \<open>The inner loop: the first previous entry of the path is marked; is it there, and changed?\<close>

fun rh_match :: "rh_entry \<Rightarrow> rh_entry list \<Rightarrow> bool option \<times> rh_entry list" where
  "rh_match cur [] = (None, [])"
| "rh_match cur (e # es) =
     (if rh_path e = rh_path cur
      then (Some (rh_ino e \<noteq> rh_ino cur \<or> rh_mtime e \<noteq> rh_mtime cur), e\<lparr>rh_present_now := True\<rparr> # es)
      else let (r, es') = rh_match cur es in (r, e # es'))"

record rh_counts =
  rh_added :: int
  rh_removed :: int
  rh_changed :: int
  rh_unchanged :: int

text \<open>The outer loop: the entries of now with their metadata filled in, the marked previous ones,
  and the counts.\<close>

fun rh_scan :: "bool \<Rightarrow> 'w world_scheme \<Rightarrow> rh_entry list \<Rightarrow> rh_entry list \<Rightarrow> rh_counts \<Rightarrow>
    rh_entry list \<times> rh_entry list \<times> rh_counts" where
  "rh_scan have_prev w prev [] n = ([], prev, n)"
| "rh_scan have_prev w prev (cur # now) n =
     (case w_stat w (rh_path cur) of
        Inl _ \<Rightarrow> let (now', prev', n') = rh_scan have_prev w prev now n in (cur # now', prev', n')
      | Inr st \<Rightarrow>
          let cur1 = cur\<lparr>rh_ino := st_ino st, rh_mtime := st_mtime st\<rparr>;
              (found, prev1) = (if have_prev then rh_match cur1 prev else (None, prev));
              n1 = (case found of
                      None \<Rightarrow> n\<lparr>rh_added := rh_added n + 1\<rparr>
                    | Some True \<Rightarrow> n\<lparr>rh_changed := rh_changed n + 1\<rparr>
                    | Some False \<Rightarrow> n\<lparr>rh_unchanged := rh_unchanged n + 1\<rparr>);
              (now', prev', n') = rh_scan have_prev w prev1 now n1
          in (cur1 # now', prev', n'))"

definition rh_gone :: "rh_entry list \<Rightarrow> rh_entry list" where
  "rh_gone prev = filter (\<lambda>e. \<not> rh_present_now e) prev"

text \<open>\<open>if (printed++) fputc (' ', stdout); fputs (...)\<close>\<close>

fun spaced :: "string list \<Rightarrow> string" where
  "spaced [] = []"
| "spaced [s] = s"
| "spaced (s # t # ss) = s @ '' '' @ spaced (t # ss)"

definition rh_report :: "bool \<Rightarrow> rh_entry list \<Rightarrow> rh_entry list \<Rightarrow> rh_counts \<Rightarrow> 'w world_scheme \<Rightarrow> 'w world_scheme" where
  "rh_report have_prev prev now n w =
     (let w1 = emit_icon icon_cycle (''rehash-diff: added='' @ render_int (rh_added n) @ '' removed='' @
                 render_int (rh_removed n) @ '' changed='' @ render_int (rh_changed n) @ '' unchanged='' @
                 render_int (rh_unchanged n) @ [newline]) w;
          plus = filter (\<lambda>c. \<not> have_prev \<or> rh_path c \<notin> set (map rh_path prev)) now;
          star = filter (\<lambda>c. \<exists>e \<in> set prev. rh_path e = rh_path c \<and>
                             (rh_ino e \<noteq> rh_ino c \<or> rh_mtime e \<noteq> rh_mtime c)) now;
          w2 = (if rh_added n \<noteq> 0 then emit (''  + dirs: '' @ spaced (map rh_path plus) @ [newline]) w1 else w1);
          w3 = (if rh_removed n \<noteq> 0 then emit (''  - dirs: '' @ spaced (map rh_path (rh_gone prev)) @ [newline]) w2 else w2)
      in if rh_changed n \<noteq> 0 then emit (''  * dirs: '' @ spaced (map rh_path star) @ [newline]) w3 else w3)"

definition zp_rehash_diff_core :: "string \<Rightarrow> 'w world_scheme \<Rightarrow> int \<times> 'w world_scheme" where
  "zp_rehash_diff_core nam w =
     (case zp_rh_file nam w of
        (None, w1) \<Rightarrow> (1, w1)
      | (Some file, w1) \<Rightarrow>
          let loaded = rh_load file w1 vec_init;
              have_prev = (loaded \<noteq> None);
              prev0 = (case loaded of None \<Rightarrow> [] | Some v \<Rightarrow> vec_items v);
              now0 = vec_items (rh_collect_current w1 vec_init);
              (now, prev, n0) = rh_scan have_prev w1 prev0 now0
                 \<lparr>rh_added = 0, rh_removed = 0, rh_changed = 0, rh_unchanged = 0\<rparr>;
              n = (if have_prev then n0\<lparr>rh_removed := int (length (rh_gone prev))\<rparr> else n0);
              (ret, w2) = rh_write nam file (map rh_path now) w1
          in (ret, rh_report have_prev prev now n w2))"

section \<open>Reading back\<close>

interpretation rh: growable rh_vec_push "vec_ok 16"
  unfolding rh_vec_push_def by (rule growable_vec_push) simp

definition rh_fine :: "rh_entry \<Rightarrow> bool" where
  "rh_fine e \<longleftrightarrow> path_fine (rh_path e) \<and> long_range (rh_mtime e) \<and> \<not> rh_present_now e"

lemma render_u64_length: "length (render_nat 10 (unat (x :: u64))) \<le> 20"
proof -
  have "unat x < 18446744073709551616" using unsigned_less [of x, where ?'a = nat] by simp
  then have "unat x < 10 ^ 20" by simp
  then show ?thesis using render_nat_length [of 10 20] by simp
qed

lemma rh_line_ok: "rh_fine e \<Longrightarrow> line_ok 4096 (rh_line e)"
  using render_u64_length [of "rh_ino e"] render_int_length [of "rh_mtime e"]
  by (simp add: line_ok_def rh_line_def in_tabbed length_tabbed rh_fine_def path_fine_def render_no_char)

lemma rh_parse_line:
  assumes "mem_ok w" "rh_fine e" shows "rh_parse w (rh_line e @ [newline]) = Put e"
proof -
  have p: "path_fine (rh_path e)" using assms(2) by (simp add: rh_fine_def)
  then have nl: "newline \<notin> set (rh_line e)"
    by (simp add: rh_line_def in_tabbed path_fine_def render_no_char)
  obtain c cs where c: "rh_path e = c # cs" "c \<noteq> CHR ''#''" "c \<noteq> newline"
    using p by (cases "rh_path e") (auto simp: path_fine_def field_ok_def)
  then have first: "take 1 (rh_line e @ [newline]) = [c]" by (simp add: rh_line_def)
  have toks: "strtoks tab (rh_line e) = [rh_path e, render_nat 10 (unat (rh_ino e)), render_int (rh_mtime e)]"
    unfolding rh_line_def using p
    by (intro strtoks_tabbed) (simp add: path_fine_def field_ok_render_int field_ok_render_nat)
  have ino: "strtoul 10 (render_nat 10 (unat (rh_ino e))) = rh_ino e"
    using strtoul_render_nat [of "[]" "rh_ino e"] by simp
  have "rh_parse w (rh_line e @ [newline]) =
      Put \<lparr>rh_path = rh_path e, rh_ino = rh_ino e, rh_mtime = rh_mtime e, rh_present_now = False\<rparr>"
    using assms c by (simp only: rh_parse_def first chomp_line [OF nl] toks)
      (simp add: ino strtol_whole(1) rh_fine_def mem_ok_def)
  then show ?thesis using assms(2) by (simp add: rh_fine_def)
qed

interpretation rh_format: line_format "''version:1''" rh_line rh_parse rh_fine
proof unfold_locales
  show "line_ok 4096 ''version:1''" by (simp add: line_ok_def c_chars)
qed (simp_all add: rh_parse_line rh_line_ok)

lemma snapshot_fine:
  "\<forall>q \<in> set ps. path_fine q \<Longrightarrow> times_fit w \<Longrightarrow> list_all rh_fine (snapshot w ps)"
  by (auto simp: snapshot_def list_all_iff rh_fine_def rh_of_def dest: times_stat [OF _ sym] split: sum.splits)

lemma load_snapshot:
  assumes "mem_ok w" "w_data w file = Inr (rh_text u ps)" "\<forall>q \<in> set ps. path_fine q" "times_fit u"
  shows "\<exists>v. rh_load file w vec_init = Some v \<and> vec_items v = snapshot u ps"
proof -
  obtain rest where f: "fgets_all 4096 (rh_text u ps) = (''version:1'' @ [newline]) # rest"
    and m: "map (rh_parse w) rest = map Put (snapshot u ps)"
    using rh_format.read_back [OF assms(1) snapshot_fine [OF assms(3,4)]] by (auto simp: rh_text_def)
  show ?thesis
    using f m assms(1,2) by (simp add: rh_load_def starts_with_def rh.fill_init_total)
qed

section \<open>What the comparison counts\<close>

text \<open>Has the directory changed since the entry was recorded?\<close>

definition differs :: "rh_entry \<Rightarrow> stat \<Rightarrow> bool" where
  "differs e st \<longleftrightarrow> rh_ino e \<noteq> st_ino st \<or> rh_mtime e \<noteq> st_mtime st"

definition entry_of :: "string \<Rightarrow> rh_entry list \<Rightarrow> rh_entry option" where
  "entry_of p prev = find (\<lambda>e. rh_path e = p) prev"

text \<open>Marking, for each of the given paths, the first previous entry that has it.\<close>

fun marked :: "string set \<Rightarrow> rh_entry list \<Rightarrow> rh_entry list" where
  "marked ps [] = []"
| "marked ps (e # es) =
     (if rh_path e \<in> ps then e\<lparr>rh_present_now := True\<rparr> # marked (ps - {rh_path e}) es
      else e # marked ps es)"

lemma marked_paths [simp]: "map rh_path (marked ps prev) = map rh_path prev"
  by (induction ps prev rule: marked.induct) auto

lemma marked_empty [simp]: "marked {} prev = prev"
  by (induction prev) auto

lemma marked_marked [simp]: "marked ps (marked qs prev) = marked (ps \<union> qs) prev"
proof (induction prev arbitrary: ps qs)
  case (Cons e es)
  have "(ps - {rh_path e}) \<union> (qs - {rh_path e}) = ps \<union> qs - {rh_path e}" by blast
  moreover have "rh_path e \<notin> ps \<Longrightarrow> ps - {rh_path e} = ps" "rh_path e \<notin> qs \<Longrightarrow> qs - {rh_path e} = qs" by auto
  ultimately show ?case using Cons by (simp, metis)
qed simp

lemma rh_match_spec:
  "rh_match cur prev =
     (map_option (\<lambda>e. rh_ino e \<noteq> rh_ino cur \<or> rh_mtime e \<noteq> rh_mtime cur) (entry_of (rh_path cur) prev),
      marked {rh_path cur} prev)"
  by (induction prev) (auto simp: entry_of_def)

lemma entry_of_marked:
  "map_option rh_core (entry_of p (marked qs prev)) = map_option rh_core (entry_of p prev)"
  if "\<And>e v. rh_core (e\<lparr>rh_present_now := v\<rparr>) = rh_core e" for rh_core :: "rh_entry \<Rightarrow> 'a"
  using that by (induction qs prev rule: marked.induct) (auto simp: entry_of_def)

lemma marked_all:
  "distinct (map rh_path prev) \<Longrightarrow> \<forall>e \<in> set prev. rh_path e \<in> ps \<Longrightarrow> e \<in> set (marked ps prev) \<Longrightarrow> rh_present_now e"
proof (induction ps prev rule: marked.induct)
  case (2 ps e' es)
  have "\<forall>x \<in> set es. rh_path x \<in> ps - {rh_path e'}" using 2(3,4) by (auto simp: image_iff)
  with 2 show ?case by auto
qed simp

text \<open>The directories of a list that exist, with their metadata.\<close>

definition existing :: "'w world_scheme \<Rightarrow> string list \<Rightarrow> (string \<times> stat) list" where
  "existing w ps = concat (map (\<lambda>p. case w_stat w p of Inl _ \<Rightarrow> [] | Inr st \<Rightarrow> [(p, st)]) ps)"

definition count_list_if :: "('a \<Rightarrow> bool) \<Rightarrow> 'a list \<Rightarrow> int" where
  "count_list_if P xs = int (length (filter P xs))"

lemma count_list_if_simps [simp]: "count_list_if P [] = 0"
  "count_list_if P (x # xs) = (if P x then 1 + count_list_if P xs else count_list_if P xs)"
  by (simp_all add: count_list_if_def)

lemma rh_scan_counts:
  assumes "rh_scan have_prev w prev now n = (now', prev', n')" "have_prev \<or> prev = []"
  shows "let ex = existing w (map rh_path now) in
      prev' = marked (fst ` set ex) prev \<and> map rh_path now' = map rh_path now \<and>
      rh_removed n' = rh_removed n \<and>
      rh_added n' = rh_added n + count_list_if (\<lambda>(p, st). entry_of p prev = None) ex \<and>
      rh_changed n' = rh_changed n + count_list_if (\<lambda>(p, st). \<exists>e. entry_of p prev = Some e \<and> differs e st) ex \<and>
      rh_unchanged n' = rh_unchanged n + count_list_if (\<lambda>(p, st). \<exists>e. entry_of p prev = Some e \<and> \<not> differs e st) ex"
  using assms
proof (induction now arbitrary: prev n now' prev' n')
  case Nil
  then show ?case by (simp add: existing_def)
next
  case (Cons cur now)
  show ?case
  proof (cases "w_stat w (rh_path cur)")
    case (Inl x)
    obtain a b c where r: "rh_scan have_prev w prev now n = (a, b, c)" by (metis surj_pair)
    have res: "now' = cur # a" "prev' = b" "n' = c" using Cons.prems(1) Inl r by auto
    have ex: "existing w (map rh_path (cur # now)) = existing w (map rh_path now)"
      using Inl by (simp add: existing_def)
    show ?thesis using Cons.IH [OF r Cons.prems(2)] unfolding res ex Let_def by simp
  next
    case (Inr st)
    let ?cur = "cur\<lparr>rh_ino := st_ino st, rh_mtime := st_mtime st\<rparr>"
    let ?n = "case entry_of (rh_path cur) prev of None \<Rightarrow> n\<lparr>rh_added := rh_added n + 1\<rparr>
        | Some e \<Rightarrow> if differs e st then n\<lparr>rh_changed := rh_changed n + 1\<rparr> else n\<lparr>rh_unchanged := rh_unchanged n + 1\<rparr>"
    let ?prev = "marked {rh_path cur} prev"
    obtain a b c where r: "rh_scan have_prev w ?prev now ?n = (a, b, c)" by (metis surj_pair)
    have res: "now' = ?cur # a" "prev' = b" "n' = c"
      using Cons.prems Inr r rh_match_spec [of ?cur prev]
      by (auto simp: differs_def Let_def entry_of_def split: option.splits if_splits)
    have d: "have_prev \<or> ?prev = []" using Cons.prems(2) by auto
    have core: "map_option (\<lambda>e. (rh_ino e, rh_mtime e)) (entry_of p ?prev) =
        map_option (\<lambda>e. (rh_ino e, rh_mtime e)) (entry_of p prev)" for p
      by (rule entry_of_marked) simp
    have same: "(entry_of p ?prev = None) = (entry_of p prev = None)"
      "(\<exists>e. entry_of p ?prev = Some e \<and> differs e x) = (\<exists>e. entry_of p prev = Some e \<and> differs e x)"
      "(\<exists>e. entry_of p ?prev = Some e \<and> \<not> differs e x) = (\<exists>e. entry_of p prev = Some e \<and> \<not> differs e x)" for p x
      using core [of p] by (cases "entry_of p ?prev"; cases "entry_of p prev"; auto simp: differs_def)+
    have ex: "existing w (map rh_path (cur # now)) = (rh_path cur, st) # existing w (map rh_path now)"
      using Inr by (simp add: existing_def)
    show ?thesis
      using Cons.IH [OF r d] unfolding same ex res Let_def
      by (auto simp: insert_commute split: option.splits)
  qed
qed

lemma existing_snapshot: "snapshot w ps = map (\<lambda>(p, st). rh_of p st) (existing w ps)"
  by (induction ps) (auto simp: snapshot_def existing_def split: sum.splits)

lemma existing_stat: "(p, st) \<in> set (existing w ps) \<longleftrightarrow> p \<in> set ps \<and> w_stat w p = Inr st"
  by (induction ps) (auto simp: existing_def split: sum.splits)

lemma snapshot_paths: "map rh_path (snapshot w ps) = map fst (existing w ps)"
  by (auto simp: existing_snapshot rh_of_def)

lemma distinct_existing: "distinct ps \<Longrightarrow> distinct (map fst (existing w ps))"
proof (induction ps)
  case (Cons p ps)
  have "set (map fst (existing w ps)) \<subseteq> set ps" using existing_stat by fastforce
  with Cons show ?case by (auto simp: existing_def split: sum.splits)
qed (simp add: existing_def)

lemma entry_of_snapshot:
  assumes "w_stat w p = Inr st" "p \<in> set ps"
  shows "entry_of p (snapshot w ps) = Some (rh_of p st)"
  using assms(2)
proof (induction ps)
  case (Cons q ps)
  then show ?case
    using assms(1) by (cases "q = p") (auto simp: snapshot_def entry_of_def rh_of_def split: sum.splits)
qed simp

text \<open>Comparing with a fresh snapshot of the same directories.\<close>

lemma rh_scan_unchanged:
  assumes "rh_scan True w (snapshot w ps) now n = (now', prev', n')" "map rh_path now = ps" "distinct ps"
  shows "map rh_path now' = ps \<and> rh_gone prev' = [] \<and>
    n' = n\<lparr>rh_unchanged := rh_unchanged n + int (length (existing w ps))\<rparr>"
proof -
  have d: "distinct (map rh_path (snapshot w ps))"
    using distinct_existing [OF assms(3)] by (simp add: snapshot_paths)
  let ?ex = "existing w ps"
  have e: "\<forall>(p, st) \<in> set ?ex. entry_of p (snapshot w ps) = Some (rh_of p st) \<and> \<not> differs (rh_of p st) st"
    using entry_of_snapshot by (auto simp: existing_stat differs_def rh_of_def)
  then have z: "filter (\<lambda>(p, st). entry_of p (snapshot w ps) = None) ?ex = []"
    "filter (\<lambda>(p, st). \<exists>e. entry_of p (snapshot w ps) = Some e \<and> differs e st) ?ex = []"
    "filter (\<lambda>(p, st). \<exists>e. entry_of p (snapshot w ps) = Some e \<and> \<not> differs e st) ?ex = ?ex"
    by (auto simp: filter_empty_conv filter_id_conv)
  note c = rh_scan_counts [OF assms(1), unfolded Let_def assms(2)]
  have "\<forall>e \<in> set (snapshot w ps). rh_path e \<in> fst ` set ?ex"
    by (force simp: existing_snapshot rh_of_def)
  then have "rh_present_now x" if "x \<in> set prev'" for x
    using that c marked_all [OF d] by auto
  then have "rh_gone prev' = []" by (simp add: rh_gone_def filter_empty_conv)
  moreover have "n' = n\<lparr>rh_unchanged := rh_unchanged n + int (length ?ex)\<rparr>"
    using c z by (cases n; cases n') (simp add: count_list_if_def)
  ultimately show ?thesis using c assms(2) by simp
qed

lemma path_collect_all:
  assumes "mem_ok w"
  shows "map rh_path (vec_items (rh_collect_current w vec_init)) = filter (\<lambda>d. d \<noteq> []) (path_dirs w)"
proof -
  let ?t = "\<lambda>d. if d = [] then Skip else if w_alloc w (length d + 1) then Put (rh_new d) else Stop"
  have "map rh_path (offered (map ?t ds)) = filter (\<lambda>d. d \<noteq> []) ds" for ds
    using assms by (induction ds) (auto simp: rh_new_def mem_ok_def)
  then show ?thesis using rh.fill_init_total [OF assms] by (simp add: rh_collect_current_def)
qed

text \<open>The report changes the output and the icon cache only.\<close>

lemma rh_report_fields [simp]:
  "w_stat (rh_report h prev now n w) = w_stat w" "w_data (rh_report h prev now n w) = w_data w"
  "w_sparam (rh_report h prev now n w) = w_sparam w" "w_aparam (rh_report h prev now n w) = w_aparam w"
  "w_alloc (rh_report h prev now n w) = w_alloc w" "times_fit (rh_report h prev now n w) = times_fit w"
  by (simp_all add: rh_report_def Let_def emit_icon_eq emit_def zp_icon_state times_fit_def)

text \<open>The snapshot's path.\<close>

definition rh_snapshot_path :: "'w world_scheme \<Rightarrow> string option" where
  "rh_snapshot_path w = map_option (\<lambda>b. b @ ''/zpmod/rehash_path_v1.snapshot'') (zp_rh_base_cache_dir w)"

lemma zp_rh_file_result:
  assumes "zp_rh_file nam w = (Some file, w1)"
  shows "\<exists>b st. zp_rh_base_cache_dir w = Some b \<and> file = b @ ''/zpmod/rehash_path_v1.snapshot'' \<and>
     w_stat w1 (b @ ''/zpmod'') = Inr st \<and> same_except (b @ ''/zpmod'') w w1"
proof -
  obtain b where b: "zp_rh_base_cache_dir w = Some b" "zp_rh_dir nam w = (Some (b @ ''/zpmod''), w1)"
    and f: "file = b @ ''/zpmod/rehash_path_v1.snapshot''"
    using assms by (auto simp: zp_rh_file_def zp_rh_dir_def Let_def ZP_RH_FILE_def ZP_RH_SUBDIR_def
        split: prod.splits option.splits sum.splits if_splits)
  have "(\<exists>st. w1 = w \<and> w_stat w (b @ ''/zpmod'') = Inr st) \<or> sys_mkdir (b @ ''/zpmod'') 448 w = Inr w1"
    using b by (auto simp: zp_rh_dir_def Let_def ZP_RH_SUBDIR_def split: option.splits sum.splits if_splits)
  then have "\<exists>st. w_stat w1 (b @ ''/zpmod'') = Inr st"
    by (auto simp: sys_mkdir_def set_node_def split: if_splits)
  moreover have "same_except (b @ ''/zpmod'') w w1"
    using \<open>_ \<or> _\<close> same_except_mkdir by auto
  ultimately show ?thesis using b f by blast
qed

lemma zp_rh_file_again:
  assumes "zp_rh_base_cache_dir w = Some b" "w_stat w (b @ ''/zpmod'') = Inr st" "mem_ok w"
  shows "zp_rh_file nam w = (Some (b @ ''/zpmod/rehash_path_v1.snapshot''), w)"
  using assms by (simp add: zp_rh_file_def zp_rh_dir_def Let_def ZP_RH_FILE_def ZP_RH_SUBDIR_def mem_ok_def)

lemma snapshot_same:
  assumes "same_except p w w'" "p \<notin> set ps"
  shows "snapshot w' ps = snapshot w ps" "existing w' ps = existing w ps"
proof -
  have "w_stat w' q = w_stat w q" if "q \<in> set ps" for q
    using same_exceptD(1) [OF assms(1), of q] assms(2) that by auto
  then show "snapshot w' ps = snapshot w ps" "existing w' ps = existing w ps"
    by (simp_all add: snapshot_def existing_def cong: map_cong)
qed

lemma rh_write_ok:
  assumes "rh_write nam fl ps w = (0, w')" "w_room w fl = None" "fl \<notin> set ps"
  shows "w_data w' fl = Inr (rh_text w' ps)" "same_except fl w w'" "times_fit w \<Longrightarrow> times_fit w'"
proof -
  obtain h w1 where o: "zp_fopen_write_nofollow fl 384 True w = (Inr h, w1)"
    and w': "w' = write_file fl (rh_text w1 ps) w1"
    using assms(1) by (auto simp: rh_write_def split: prod.splits sum.splits)
  have s: "same_except fl w w1" "same_except fl w1 w'"
    using fopen_same_except [OF o] by (simp_all add: w')
  then show "same_except fl w w'" using same_except_trans by blast
  have "w_room w1 fl = None" using same_exceptD(9) [OF s(1)] assms(2) by simp
  moreover have "rh_text w' ps = rh_text w1 ps"
    by (simp add: rh_text_def snapshot_same(1) [OF s(2) assms(3)])
  ultimately show "w_data w' fl = Inr (rh_text w' ps)"
    using write_file_data [of w1 fl] by (simp add: w')
  show "times_fit w \<Longrightarrow> times_fit w'" using times_fopen [OF o] by (simp add: w' times_write_file)
qed

lemma rh_write_out: "rh_write nam fl ps w = (r, w') \<Longrightarrow> w_out w' = w_out w"
  by (auto simp: rh_write_def split: prod.splits sum.splits dest!: fopen_out)

lemma render_zero: "render_int 0 = ''0''"
  by code_simp

lemma rh_report_quiet:
  "rh_added n = 0 \<Longrightarrow> rh_removed n = 0 \<Longrightarrow> rh_changed n = 0 \<Longrightarrow>
    \<exists>ic. ic \<in> {[], icon_cycle} \<and> w_out (rh_report h prev now n w) = w_out w @ ic @
      ''rehash-diff: added=0 removed=0 changed=0 unchanged='' @ render_int (rh_unchanged n) @ [newline]"
  using render_zero by (auto simp: rh_report_def Let_def icon_text_def zp_icon_def split: prod.splits)

lemma base_dir_cong:
  "w_sparam w' = w_sparam w \<Longrightarrow> w_alloc w' = w_alloc w \<Longrightarrow> zp_rh_base_cache_dir w' = zp_rh_base_cache_dir w"
  by (simp only: zp_rh_base_cache_dir_def)

lemma base_dir_report [simp]:
  "zp_rh_base_cache_dir (rh_report h prev now n w) = zp_rh_base_cache_dir w"
  by (rule base_dir_cong) simp_all

text \<open>What a successful run leaves behind.\<close>

lemma rehash_run:
  assumes "zp_rehash_diff_core nam w = (0, w')" "mem_ok w" "rh_snapshot_path w = Some p" "w_room w p = None"
    "times_fit w" "p \<notin> set (path_dirs w)"
  shows "\<exists>b st. p = b @ ''/zpmod/rehash_path_v1.snapshot'' \<and> zp_rh_base_cache_dir w' = Some b \<and>
     w_stat w' (b @ ''/zpmod'') = Inr st \<and> mem_ok w' \<and> times_fit w' \<and> path_dirs w' = path_dirs w \<and>
     w_data w' p = Inr (rh_text w' (filter (\<lambda>d. d \<noteq> []) (path_dirs w)))"
proof -
  obtain fl w1 where f: "zp_rh_file nam w = (Some fl, w1)"
    using assms(1) by (auto simp: zp_rehash_diff_core_def split: prod.splits option.splits)
  from zp_rh_file_result [OF f] obtain b st where b: "zp_rh_base_cache_dir w = Some b"
    "fl = b @ ''/zpmod/rehash_path_v1.snapshot''" "w_stat w1 (b @ ''/zpmod'') = Inr st"
    and s1: "same_except (b @ ''/zpmod'') w w1" by blast
  then have p: "p = fl" using assms(3) by (simp add: rh_snapshot_path_def)
  obtain prev now n w2 where wr: "rh_write nam fl (map rh_path now) w1 = (0, w2)"
    and now: "\<exists>h prev0 prev1 n0 n1. rh_scan h w1 prev0 (vec_items (rh_collect_current w1 vec_init)) n0 = (now, prev1, n1)"
    and o: "\<exists>h. w' = rh_report h prev now n w2"
    using assms(1) f by (auto simp: zp_rehash_diff_core_def Let_def split: prod.splits option.splits) blast+
  have scan_paths: "map rh_path now1 = map rh_path c" if "rh_scan h w1 a c m = (now1, q, m1)" for h a c m now1 q m1
    using that by (induction c arbitrary: a m now1 q m1) (auto simp: Let_def split: sum.splits prod.splits if_splits)
  note k1 = same_exceptD [OF s1]
  have ok1: "mem_ok w1" using assms(2) k1 by (simp add: mem_ok_def)
  have ps: "map rh_path now = filter (\<lambda>d. d \<noteq> []) (path_dirs w)"
    using now scan_paths path_collect_all [OF ok1] k1(6) by (auto simp: path_dirs_def)
  have nin: "fl \<notin> set (map rh_path now)" using assms(6) p ps by auto
  note w2 = rh_write_ok [OF wr _ nin]
  have r: "w_room w1 fl = None" using k1 assms(4) p by simp
  note k2 = same_exceptD [OF w2(2) [OF r]]
  have t1: "times_fit w1" using f assms(5)
    by (auto simp: zp_rh_file_def zp_rh_dir_def Let_def split: prod.splits option.splits sum.splits if_splits
        dest: times_mkdir)
  have "b @ ''/zpmod'' \<noteq> fl" using b(2) by simp
  then have "w_stat w2 (b @ ''/zpmod'') = Inr st" using k2(1) b(3) by simp
  moreover have "zp_rh_base_cache_dir w2 = Some b"
    using b(1) k1(5,7) k2(5,7) base_dir_cong [of w2 w] by simp
  moreover have "snapshot (rh_report h prev now n w2) ps = snapshot w2 ps" for h ps
    by (simp add: snapshot_def)
  ultimately show ?thesis
    using o p b(2) ps w2(1) [OF r] w2(3) [OF r t1] k1 k2 ok1
    by (auto simp: rh_text_def mem_ok_def path_dirs_def)
qed

section \<open>Properties\<close>

text \<open>
  C23: A second run finds nothing new: after a successful \<open>rehash-diff\<close>, running it again on the
  same directories reports no addition, no removal and no change, and counts every existing
  directory of \<open>path\<close> as unchanged.  Supposed are memory, room in the file, and a \<open>path\<close> without
  duplicates whose names the format can carry: a directory that \<open>path\<close> names twice is reported as
  removed by every run (\<open>duplicate_reported_removed\<close> below).
\<close>

theorem rehash_second_run_quiet:
  assumes "zp_rehash_diff_core nam w = (0, w1)" "mem_ok w" "rh_snapshot_path w = Some p" "w_room w p = None"
    and "times_fit w" "p \<notin> set (path_dirs w)" "distinct (path_dirs w)"
    and "\<forall>d \<in> set (path_dirs w). d = [] \<or> path_fine d"
  shows "\<exists>ret w2 ic. zp_rehash_diff_core nam w1 = (ret, w2) \<and> ic \<in> {[], icon_cycle} \<and>
     w_out w2 = w_out w1 @ ic @ ''rehash-diff: added=0 removed=0 changed=0 unchanged='' @
       render_int (int (length (existing w1 (filter (\<lambda>d. d \<noteq> []) (path_dirs w1))))) @ [newline]"
proof -
  let ?ps = "filter (\<lambda>d. d \<noteq> []) (path_dirs w)"
  obtain b st where b: "p = b @ ''/zpmod/rehash_path_v1.snapshot''" "zp_rh_base_cache_dir w1 = Some b"
    "w_stat w1 (b @ ''/zpmod'') = Inr st" and ok: "mem_ok w1" "times_fit w1" and pd: "path_dirs w1 = path_dirs w"
    and dat: "w_data w1 p = Inr (rh_text w1 ?ps)"
    using rehash_run [OF assms(1-6)] by blast
  have f: "zp_rh_file nam w1 = (Some p, w1)" using zp_rh_file_again [OF b(2,3) ok(1)] b(1) by simp
  have fine: "\<forall>q \<in> set ?ps. path_fine q" using assms(8) by auto
  obtain v where v: "rh_load p w1 vec_init = Some v" "vec_items v = snapshot w1 ?ps"
    using load_snapshot [OF ok(1) dat fine ok(2)] by blast
  let ?n0 = "\<lparr>rh_added = 0, rh_removed = 0, rh_changed = 0, rh_unchanged = 0\<rparr>"
  obtain now prev n where sc: "rh_scan True w1 (snapshot w1 ?ps) (vec_items (rh_collect_current w1 vec_init)) ?n0
      = (now, prev, n)" by (metis surj_pair)
  have "map rh_path (vec_items (rh_collect_current w1 vec_init)) = ?ps"
    using path_collect_all [OF ok(1)] pd by simp
  from rh_scan_unchanged [OF sc this] assms(7) have
    s: "rh_gone prev = []" "n = ?n0\<lparr>rh_unchanged := int (length (existing w1 ?ps))\<rparr>" by simp_all
  obtain ret w2 where wr: "rh_write nam p (map rh_path now) w1 = (ret, w2)" by fastforce
  have "zp_rehash_diff_core nam w1 = (ret, rh_report True prev now (n\<lparr>rh_removed := 0\<rparr>) w2)"
    using f v sc wr s(1) by (simp add: zp_rehash_diff_core_def Let_def)
  moreover have "\<exists>ic. ic \<in> {[], icon_cycle} \<and> w_out (rh_report True prev now (n\<lparr>rh_removed := 0\<rparr>) w2) = w_out w1 @ ic @
      ''rehash-diff: added=0 removed=0 changed=0 unchanged='' @ render_int (int (length (existing w1 ?ps))) @ [newline]"
    using rh_report_quiet [of "n\<lparr>rh_removed := 0\<rparr>" True prev now w2] rh_write_out [OF wr] s(2) by simp
  ultimately show ?thesis using pd by auto
qed

text \<open>A home with a cache directory and two directories in \<open>path\<close>, one of which is missing.\<close>

definition rh_world :: world where
  "rh_world = world0
     \<lparr>w_stat := (\<lambda>p. if p = ''/h/.cache/zpmod'' \<or> p = ''/bin'' then Inr ((w_fresh world0 p)\<lparr>st_mode := 16832\<rparr>)
                  else Inl ENOENT),
      w_sparam := (\<lambda>n. if n = ''HOME'' then Some ''/h'' else None),
      w_aparam := (\<lambda>n. if n = ''path'' then Some [''/bin'', ''/opt''] else None)\<rparr>"

lemma rh_world_runs: "fst (zp_rehash_diff_core ''zpmod'' rh_world) = 0"
  by code_simp

theorem rehash_second_run_quiet_witness:
  "\<exists>w1 ret w2 ic. zp_rehash_diff_core ''zpmod'' rh_world = (0, w1) \<and>
     zp_rehash_diff_core ''zpmod'' w1 = (ret, w2) \<and>
     w_out w2 = w_out w1 @ ic @ ''rehash-diff: added=0 removed=0 changed=0 unchanged='' @
       render_int (int (length (existing w1 (filter (\<lambda>d. d \<noteq> []) (path_dirs w1))))) @ [newline]"
proof -
  obtain w1 where o: "zp_rehash_diff_core ''zpmod'' rh_world = (0, w1)"
    using rh_world_runs by (metis prod.collapse)
  have c: "mem_ok rh_world" "rh_snapshot_path rh_world = Some ''/h/.cache/zpmod/rehash_path_v1.snapshot''"
    "w_room rh_world ''/h/.cache/zpmod/rehash_path_v1.snapshot'' = None"
    and d: "path_dirs rh_world = [''/bin'', ''/opt'']"
    by (simp_all add: rh_world_def world0_def mem_ok_def rh_snapshot_path_def zp_rh_base_cache_dir_def path_dirs_def)
  have t: "times_fit rh_world"
    by (auto simp: times_fit_def rh_world_def world0_def long_range_def c_limits split: if_splits)
  have f: "path_fine ''/bin''" "path_fine ''/opt''"
    by (simp_all add: path_fine_def field_ok_def c_chars)
  show ?thesis using rehash_second_run_quiet [OF o c t] o d f by auto
qed

text \<open>The previous entries without those that account for one of the given paths: each path accounts
  for the first entry that has it.\<close>

fun left_over :: "string set \<Rightarrow> rh_entry list \<Rightarrow> rh_entry list" where
  "left_over ps [] = []"
| "left_over ps (e # es) =
     (if rh_path e \<in> ps then left_over (ps - {rh_path e}) es else e # left_over ps es)"

lemma rh_gone_marked: "\<forall>e \<in> set prev. \<not> rh_present_now e \<Longrightarrow> rh_gone (marked ps prev) = left_over ps prev"
  by (induction ps prev rule: left_over.induct) (auto simp: rh_gone_def)

lemma left_over_distinct:
  "distinct (map rh_path prev) \<Longrightarrow> left_over ps prev = filter (\<lambda>e. rh_path e \<notin> ps) prev"
proof (induction ps prev rule: left_over.induct)
  case (2 ps e es)
  have "filter (\<lambda>x. rh_path x \<in> ps \<longrightarrow> rh_path x = rh_path e) es = filter (\<lambda>x. rh_path x \<notin> ps) es"
    using 2(3) by (intro filter_cong) (auto simp: image_iff)
  with 2 show ?case by auto
qed simp

text \<open>
  C35: The counts of a comparison: over the existing directories of path, each counted as often as path
  names it, those without a previous entry are added (all of them when there is no previous
  snapshot), those whose first previous entry has another inode or time are changed and the others
  unchanged, so that the three counts add up to the number of existing directories.  The previous
  entries that are left unmarked, which are reported as removed, are those that no existing
  directory accounts for; each directory accounts for one entry only, so of a directory that the
  snapshot holds twice the second entry is reported as removed.  When the previous paths are distinct
  the removed ones are exactly those whose directory is not among the existing ones.
\<close>

theorem rehash_counts_exact:
  assumes "rh_scan have_prev w prev now \<lparr>rh_added = 0, rh_removed = 0, rh_changed = 0, rh_unchanged = 0\<rparr> =
      (now', prev', n)"
    and "have_prev \<or> prev = []" "\<forall>e \<in> set prev. \<not> rh_present_now e"
  shows "let ex = existing w (map rh_path now) in
    rh_added n = int (length (filter (\<lambda>(p, st). entry_of p prev = None) ex)) \<and>
    rh_changed n = int (length (filter (\<lambda>(p, st). \<exists>e. entry_of p prev = Some e \<and> differs e st) ex)) \<and>
    rh_added n + rh_changed n + rh_unchanged n = int (length ex) \<and>
    rh_gone prev' = left_over (fst ` set ex) prev \<and>
    (distinct (map rh_path prev) \<longrightarrow> rh_gone prev' = filter (\<lambda>e. rh_path e \<notin> fst ` set ex) prev)"
proof -
  let ?ex = "existing w (map rh_path now)"
  note c = rh_scan_counts [OF assms(1,2), unfolded Let_def]
  have sum: "count_list_if (\<lambda>(p, st). entry_of p prev = None) xs +
      count_list_if (\<lambda>(p, st). \<exists>e. entry_of p prev = Some e \<and> differs e st) xs +
      count_list_if (\<lambda>(p, st). \<exists>e. entry_of p prev = Some e \<and> \<not> differs e st) xs = int (length xs)" for xs
    by (induction xs) auto
  show ?thesis
    using c sum [of ?ex] rh_gone_marked [OF assms(3)] left_over_distinct [of prev]
    by (simp add: Let_def count_list_if_def)
qed

theorem rehash_counts_exact_witness:
  "let (now', prev', n) = rh_scan True rh_world [rh_of ''/sbin'' (w_fresh world0 [])] [rh_new ''/bin'', rh_new ''/opt'']
       \<lparr>rh_added = 0, rh_removed = 0, rh_changed = 0, rh_unchanged = 0\<rparr>
   in rh_added n + rh_changed n + rh_unchanged n = 1 \<and> map rh_path (rh_gone prev') = [''/sbin'']"
proof -
  let ?prev = "[rh_of ''/sbin'' (w_fresh world0 [])]" and ?now = "[rh_new ''/bin'', rh_new ''/opt'']"
  obtain now' prev' n where s: "rh_scan True rh_world ?prev ?now
      \<lparr>rh_added = 0, rh_removed = 0, rh_changed = 0, rh_unchanged = 0\<rparr> = (now', prev', n)" by (metis surj_pair)
  obtain st where ex: "existing rh_world (map rh_path ?now) = [(''/bin'', st)]"
    by (simp add: existing_def rh_new_def rh_world_def)
  have "True \<or> ?prev = []" "\<forall>e \<in> set ?prev. \<not> rh_present_now e" by (simp_all add: rh_of_def)
  from rehash_counts_exact [OF s this, unfolded Let_def ex] s show ?thesis
    by (simp only: Let_def prod.case) (simp add: rh_of_def)
qed

text \<open>A directory that \<open>path\<close> names twice: each run reports it as removed once, with no change.\<close>

lemma duplicate_reported_removed:
  "let w = rh_world\<lparr>w_aparam := (\<lambda>n. if n = ''path'' then Some [''/bin'', ''/bin''] else None)\<rparr>;
       (r1, w1) = zp_rehash_diff_core ''zpmod'' w; (r2, w2) = zp_rehash_diff_core ''zpmod'' (w1\<lparr>w_out := []\<rparr>)
   in r2 = 0 \<and> w_out w2 = ''rehash-diff: added=0 removed=1 changed=0 unchanged=2'' @ [newline] @
        ''  - dirs: /bin'' @ [newline]"
  by code_simp

end
