(* ===== verification/Zp_Sort.thy ===== *)
theory Zp_Sort
  imports Zp_Prelude "HOL-Library.Multiset"
begin

text \<open>
  The C library's \<open>qsort\<close>, as two sources call it, by insertion with the comparison function.  The
  locale states what a comparison promises; under it the result is sorted, and, without ties, it is
  the only sorted permutation, so that no other way to sort could give a different one.
\<close>

fun insert_by :: "('e \<Rightarrow> 'e \<Rightarrow> int) \<Rightarrow> 'e \<Rightarrow> 'e list \<Rightarrow> 'e list" where
  "insert_by cmp x [] = [x]"
| "insert_by cmp x (y # ys) = (if cmp x y \<le> 0 then x # y # ys else y # insert_by cmp x ys)"

definition qsort :: "('e \<Rightarrow> 'e \<Rightarrow> int) \<Rightarrow> 'e list \<Rightarrow> 'e list" where
  "qsort cmp xs = foldr (insert_by cmp) xs []"

lemma insert_by_mset: "mset (insert_by cmp x ys) = add_mset x (mset ys)"
  by (induction ys) auto

lemma insert_by_set: "set (insert_by cmp x ys) = insert x (set ys)"
  by (induction ys) auto

lemma qsort_mset: "mset (qsort cmp xs) = mset xs"
  by (induction xs) (simp_all add: qsort_def insert_by_mset)

lemma qsort_set: "set (qsort cmp xs) = set xs"
  using mset_eq_setD [OF qsort_mset] .

text \<open>Sorting by a component of the elements.\<close>

lemma qsort_map: "map f (qsort (\<lambda>a b. cmp (f a) (f b)) xs) = qsort cmp (map f xs)"
proof -
  have "map f (insert_by (\<lambda>a b. cmp (f a) (f b)) x ys) = insert_by cmp (f x) (map f ys)" for x ys
    by (induction ys) auto
  then show ?thesis by (induction xs) (simp_all add: qsort_def)
qed

text \<open>A comparison, on the sets of elements where it is one.\<close>

locale comparator =
  fixes cmp :: "'e \<Rightarrow> 'e \<Rightarrow> int"
    and ok :: "'e set \<Rightarrow> bool"
  assumes total: "ok S \<Longrightarrow> a \<in> S \<Longrightarrow> b \<in> S \<Longrightarrow> cmp a b \<le> 0 \<or> cmp b a \<le> 0"
    and trans: "ok S \<Longrightarrow> a \<in> S \<Longrightarrow> b \<in> S \<Longrightarrow> c \<in> S \<Longrightarrow> cmp a b \<le> 0 \<Longrightarrow> cmp b c \<le> 0 \<Longrightarrow> cmp a c \<le> 0"
begin

lemma insert_sorted:
  assumes "ok S" "x \<in> S" "set ys \<subseteq> S" "sorted_wrt (\<lambda>a b. cmp a b \<le> 0) ys"
  shows "sorted_wrt (\<lambda>a b. cmp a b \<le> 0) (insert_by cmp x ys)"
  using assms(3,4)
proof (induction ys)
  case (Cons y ys)
  show ?case
  proof (cases "cmp x y \<le> 0")
    case True
    have "cmp x z \<le> 0" if "z \<in> set ys" for z
      using trans [OF assms(1,2), of y z] that Cons.prems True by auto
    with True Cons.prems show ?thesis by simp
  next
    case False
    then have "cmp y x \<le> 0" using total [OF assms(1,2), of y] Cons.prems(1) by simp
    with False Cons show ?thesis by (simp add: insert_by_set)
  qed
qed simp

lemma qsort_sorted: "ok (set xs) \<Longrightarrow> sorted_wrt (\<lambda>a b. cmp a b \<le> 0) (qsort cmp xs)"
proof -
  assume ok: "ok (set xs)"
  have "sorted_wrt (\<lambda>a b. cmp a b \<le> 0) (qsort cmp zs)" if "set zs \<subseteq> set xs" for zs
    using that
  proof (induction zs)
    case (Cons z zs)
    then show ?case
      using insert_sorted [OF ok, of z "qsort cmp zs"] qsort_set [of cmp zs] by (simp add: qsort_def)
  qed (simp add: qsort_def)
  then show ?thesis by blast
qed

text \<open>Without ties the order is determined.\<close>

lemma qsort_only:
  assumes "ok (set xs)" "\<forall>a \<in> set xs. \<forall>b \<in> set xs. cmp a b \<le> 0 \<longrightarrow> cmp b a \<le> 0 \<longrightarrow> a = b"
    and "mset ys = mset xs" "sorted_wrt (\<lambda>a b. cmp a b \<le> 0) ys"
  shows "ys = qsort cmp xs"
proof -
  have "ys = zs" if "mset ys = mset zs" "set ys \<subseteq> set xs" "sorted_wrt (\<lambda>a b. cmp a b \<le> 0) ys"
    "sorted_wrt (\<lambda>a b. cmp a b \<le> 0) zs" for ys zs
    using that
  proof (induction ys arbitrary: zs)
    case (Cons y ys)
    then obtain z zs' where zs: "zs = z # zs'" by (cases zs) auto
    have s: "set (y # ys) = set (z # zs')" using mset_eq_setD [OF Cons.prems(1)] zs by simp
    have "y = z"
    proof (rule ccontr)
      assume n: "y \<noteq> z"
      then have "y \<in> set zs'" "z \<in> set ys" using s by auto
      then have "cmp z y \<le> 0" "cmp y z \<le> 0" using Cons.prems(3,4) zs by auto
      with assms(2) Cons.prems(2) \<open>z \<in> set ys\<close> n show False by auto
    qed
    with Cons zs show ?case by auto
  qed simp
  from this [of ys "qsort cmp xs"] show ?thesis
    using assms(3,4) qsort_sorted [OF assms(1)] qsort_mset [of cmp xs] mset_eq_setD [OF assms(3)] by simp
qed

end

end
