(* ===== verification/Zp_Bundle.thy ===== *)
theory Zp_Bundle
  imports Zp_Vec Zp_Sort Zp_Utils
begin

text \<open>
  \<open>src/core/bundle_build.c\<close>: the script files below a directory, sorted, are written one after
  the other into a bundle, which is published by renaming a temporary file.  A failed step leaves
  its \<open>errno\<close> (\<open>Inl\<close>).  \<open>unmetafy\<close> belongs to zsh; \<open>later\<close> is the file system as it is when
  the collected files are opened, which may differ from the one they were collected from.  The
  world returned carries the changes of this process.
\<close>

section \<open>Entries\<close>

text \<open>The suffixes \<open>.zsh\<close> and \<open>.plugin.zsh\<close>.\<close>

definition has_ext :: "string \<Rightarrow> bool" where
  "has_ext name \<longleftrightarrow>
     4 \<le> length name \<and> drop (length name - 4) name = ''.zsh'' \<or>
     12 \<le> length name \<and> drop (length name - 12) name = ''.plugin.zsh''"

record bb_entry =
  bb_rel :: string
  bb_abs :: string
  bb_size :: int
  bb_mtime :: int

definition bb_vec_init :: "bb_entry vec" where
  "bb_vec_init = vec_init"

text \<open>Room for 32 entries of 32 bytes at first.\<close>

definition bb_vec_push :: "'w world_scheme \<Rightarrow> bb_entry vec \<Rightarrow> bb_entry \<Rightarrow> bb_entry vec option" where
  "bb_vec_push = vec_push 32 32"

interpretation bb: growable bb_vec_push "vec_ok 32"
  unfolding bb_vec_push_def by (rule growable_vec_push) simp

section \<open>Collecting\<close>

text \<open>\<open>sub ? sub/name : name\<close>\<close>

definition bb_join :: "string \<Rightarrow> string \<Rightarrow> string" where
  "bb_join sub name = (if sub \<noteq> [] then sub @ slash # name else name)"

text \<open>One directory; \<open>rec\<close> collects a subdirectory, \<open>e_end\<close> is the \<open>errno\<close> the last
  \<open>readdir\<close> leaves.\<close>

fun bb_scan ::
    "(string \<Rightarrow> bb_entry vec \<Rightarrow> nat + bb_entry vec) \<Rightarrow> 'w world_scheme \<Rightarrow> string \<Rightarrow> string \<Rightarrow> string \<Rightarrow>
     nat \<Rightarrow> string list \<Rightarrow> bb_entry vec \<Rightarrow> nat + bb_entry vec" where
  "bb_scan rec w root output sub e_end [] out = (if e_end = 0 then Inr out else Inl e_end)"
| "bb_scan rec w root output sub e_end (name # names) out =
     (if (case name of c # _ \<Rightarrow> c = CHR ''.'' | [] \<Rightarrow> False)
      then bb_scan rec w root output sub e_end names out
      else
        let rel = bb_join sub name; abs = root @ slash # rel
        in if PATH_MAX \<le> length rel \<or> newline \<in> set rel \<or> creturn \<in> set rel then Inl EINVAL
           else if PATH_MAX \<le> length abs then Inl ENAMETOOLONG
           else if abs = output then bb_scan rec w root output sub e_end names out
           else case w_lstat w abs of
                  Inl e \<Rightarrow> Inl e
                | Inr st \<Rightarrow>
                    if S_ISDIR (st_mode st) then
                      (case rec rel out of
                         Inl e \<Rightarrow> Inl e
                       | Inr out' \<Rightarrow> bb_scan rec w root output sub e_end names out')
                    else if \<not> S_ISREG (st_mode st) then bb_scan rec w root output sub e_end names out
                    else if \<not> has_ext name then bb_scan rec w root output sub e_end names out
                    else if \<not> w_alloc w (length rel + 1) \<or> \<not> w_alloc w (length abs + 1) then Inl ENOMEM
                    else (case bb_vec_push w out
                                 \<lparr>bb_rel = rel, bb_abs = abs, bb_size = int (st_size st), bb_mtime = st_mtime st\<rparr> of
                            None \<Rightarrow> Inl ENOMEM
                          | Some out' \<Rightarrow> bb_scan rec w root output sub e_end names out'))"

text \<open>\<open>bb_collect\<close>; the number counts the directory levels still allowed (65 at depth 0).\<close>

primrec bb_collect ::
    "nat \<Rightarrow> 'w world_scheme \<Rightarrow> string \<Rightarrow> string \<Rightarrow> string \<Rightarrow> bb_entry vec \<Rightarrow> nat + bb_entry vec" where
  "bb_collect 0 w root output sub out = Inl ELOOP"
| "bb_collect (Suc left) w root output sub out =
     (let path = (if sub \<noteq> [] then root @ slash # sub else root)
      in if PATH_MAX \<le> length path then Inl ENAMETOOLONG
         else case w_dir w path of
                Inl e \<Rightarrow> Inl e
              | Inr (names, e_end) \<Rightarrow>
                  bb_scan (bb_collect left w root output) w root output sub e_end names out)"

definition bb_depth :: nat where "bb_depth = 65"

text \<open>\<open>strcmp\<close> of the relative paths, the comparison for \<open>qsort\<close>.\<close>

definition bb_cmp :: "bb_entry \<Rightarrow> bb_entry \<Rightarrow> int" where
  "bb_cmp a b = (if bb_rel a < bb_rel b then -1 else if bb_rel a = bb_rel b then 0 else 1)"

section \<open>Writing\<close>

text \<open>A write to the stream of the temporary file: what is written so far and the new text, if it
  fits.\<close>

definition put_text :: "'w world_scheme \<Rightarrow> string \<Rightarrow> string \<Rightarrow> string \<Rightarrow> string option" where
  "put_text w tmp text piece =
     (if (case w_room w tmp of None \<Rightarrow> True | Some n \<Rightarrow> length text + length piece \<le> n)
      then Some (text @ piece) else None)"

text \<open>The copy loop, in blocks of 8192 bytes: the text and the number of bytes copied, or failure
  when there is more than \<open>sz\<close> or a write fails.\<close>

function copy_blocks ::
    "'w world_scheme \<Rightarrow> string \<Rightarrow> int \<Rightarrow> string \<Rightarrow> nat \<Rightarrow> string \<Rightarrow> (string \<times> nat) option" where
  "copy_blocks w tmp sz text copied data =
     (if data = [] then Some (text, copied)
      else
        let block = take 8192 data
        in if sz - int copied < int (length block) then None
           else case put_text w tmp text block of
                  None \<Rightarrow> None
                | Some text' \<Rightarrow> copy_blocks w tmp sz text' (copied + length block) (drop 8192 data))"
  by pat_completeness auto
termination
  by (relation "measure (\<lambda>(w, tmp, sz, text, copied, data). length data)") auto

declare copy_blocks.simps [simp del]

definition begin_line :: "string \<Rightarrow> string" where
  "begin_line rel = ''# BEGIN '' @ rel @ [newline]"

definition end_line :: "string \<Rightarrow> string" where
  "end_line rel = newline # ''# END '' @ rel @ [newline]"

text \<open>One file: opened without following a link, checked to be the one collected, copied between
  its marker lines.\<close>

definition bundle_file ::
    "'w world_scheme \<Rightarrow> 'v world_scheme \<Rightarrow> string \<Rightarrow> bb_entry \<Rightarrow> string \<Rightarrow> nat + string" where
  "bundle_file w later tmp entry text =
     (case (case w_lstat later (bb_abs entry) of
              Inl e \<Rightarrow> Inl e
            | Inr l \<Rightarrow> if S_ISLNK (st_mode l) then Inl ELOOP else w_data later (bb_abs entry)) of
        Inl e \<Rightarrow> Inl e
      | Inr data \<Rightarrow>
          (case w_stat later (bb_abs entry) of
             Inl _ \<Rightarrow> Inl EAGAIN
           | Inr st \<Rightarrow>
               if \<not> S_ISREG (st_mode st) \<or> int (st_size st) \<noteq> bb_size entry \<or> st_mtime st \<noteq> bb_mtime entry
               then Inl EAGAIN
               else if w_fdopen_err later (bb_abs entry) \<noteq> 0 then Inl (w_fdopen_err later (bb_abs entry))
               else
                 (case (case put_text w tmp text (begin_line (bb_rel entry)) of
                          None \<Rightarrow> None
                        | Some t1 \<Rightarrow> copy_blocks w tmp (bb_size entry) t1 0 data) of
                    None \<Rightarrow> Inl EIO
                  | Some (t2, copied) \<Rightarrow>
                      if w_read_err later (bb_abs entry) \<noteq> 0 \<or> int copied \<noteq> bb_size entry
                         \<or> w_close_err later (bb_abs entry) \<noteq> 0
                      then Inl EIO
                      else (case put_text w tmp t2 (end_line (bb_rel entry)) of
                              None \<Rightarrow> Inl EIO
                            | Some t3 \<Rightarrow> Inr t3))))"

text \<open>The loop over the sorted files: the text and whether \<open>--max\<close> cut it short.\<close>

fun bundle_files ::
    "'w world_scheme \<Rightarrow> 'v world_scheme \<Rightarrow> string \<Rightarrow> int \<Rightarrow> int \<Rightarrow> bb_entry list \<Rightarrow> string \<Rightarrow>
     nat + (string \<times> bool)" where
  "bundle_files w later tmp limit sofar [] text = Inr (text, False)"
| "bundle_files w later tmp limit sofar (entry # es) text =
     (if bb_size entry < 0 \<or> ULONG_MAX - sofar < bb_size entry then Inl EOVERFLOW
      else if limit \<noteq> 0 \<and> limit - sofar < bb_size entry then Inr (text, True)
      else case bundle_file w later tmp entry text of
             Inl e \<Rightarrow> Inl e
           | Inr text' \<Rightarrow> bundle_files w later tmp limit (sofar + bb_size entry) es text')"

section \<open>The command\<close>

definition bb_header :: "int \<Rightarrow> string" where
  "bb_header max_kb = take 95 (''# zpmod bundle-build max-kb:'' @ render_int max_kb @ [newline])"

text \<open>Where the bundle goes: directory and base name.\<close>

definition split_output :: "string \<Rightarrow> string \<times> string" where
  "split_output out =
     (case strrchr slash out of
        None \<Rightarrow> (''.'', out)
      | Some (dir, base) \<Rightarrow> (if dir \<noteq> [] then dir else [slash], base))"

definition resolve_output :: "'w world_scheme \<Rightarrow> string \<Rightarrow> nat + string" where
  "resolve_output w out =
     (let (parent_path, base) = split_output out
      in if base = [] \<or> base = ''.'' \<or> base = ''..'' then Inl EINVAL
         else case w_realpath w parent_path of
                Inl e \<Rightarrow> Inl e
              | Inr parent \<Rightarrow>
                  let output = parent @ slash # base
                  in if PATH_MAX \<le> length output then Inl ENAMETOOLONG else Inr output)"

text \<open>Is the existing bundle newer than every file, and written with the same limit?\<close>

definition bundle_fresh :: "'w world_scheme \<Rightarrow> string \<Rightarrow> bb_entry list \<Rightarrow> string \<Rightarrow> bool" where
  "bundle_fresh w output files header \<longleftrightarrow>
     (case w_lstat w output of
        Inl _ \<Rightarrow> False
      | Inr existing \<Rightarrow>
          list_all (\<lambda>f. bb_mtime f \<le> st_mtime existing) files \<and>
          (case w_data w output of
             Inl _ \<Rightarrow> False
           | Inr data \<Rightarrow>
               w_read_err w output = 0 \<and>
               (case fgets 96 data of None \<Rightarrow> False | Some (line, _) \<Rightarrow> cstr line = header)))"

text \<open>From the collected files on: the temporary file is written, closed and renamed; a failed step
  removes it.  The result is the \<open>errno\<close>, if any.  A lack of room is met by the write that meets
  the end of the room; what an abandoned temporary file holds is not followed.\<close>

definition abandon :: "string \<Rightarrow> nat \<Rightarrow> 'w world_scheme \<Rightarrow> nat option \<times> 'w world_scheme" where
  "abandon tmp e w = (Some e, case sys_unlink tmp w of Inr w' \<Rightarrow> w' | Inl _ \<Rightarrow> w)"

definition bundle_publish ::
    "'v world_scheme \<Rightarrow> string \<Rightarrow> string \<Rightarrow> bb_entry list \<Rightarrow> int \<Rightarrow> 'w world_scheme \<Rightarrow>
     nat option \<times> 'w world_scheme" where
  "bundle_publish later nam output files max_kb w =
     (let template = output @ ''.tmp.XXXXXX''
      in if PATH_MAX \<le> length template then (Some ENAMETOOLONG, w)
         else
           (case sys_mkstemp template w of
              Inl e \<Rightarrow> (Some e, w)
            | Inr (tmp, w1) \<Rightarrow>
                if w_fdopen_err w1 tmp \<noteq> 0 then abandon tmp (w_fdopen_err w1 tmp) w1
                else
                  (case put_text w1 tmp [] (bb_header max_kb) of
                     None \<Rightarrow> abandon tmp ENOSPC w1
                   | Some text0 \<Rightarrow>
                       (case bundle_files w1 later tmp (max_kb * 1024) 0 files text0 of
                          Inl e \<Rightarrow> abandon tmp e w1
                        | Inr (text, short) \<Rightarrow>
                            let w2 = (if short then zwarnnam nam (''bundle-build: truncated at --max '' @
                                        render_int max_kb @ '' KiB'') w1 else w1);
                                w3 = set_data tmp text w2
                            in if w_close_err w3 tmp \<noteq> 0 then abandon tmp (w_close_err w3 tmp) w3
                               else (case sys_rename tmp output w3 of
                                       Inl e \<Rightarrow> abandon tmp e w3
                                     | Inr w4 \<Rightarrow> (None, w4))))))"

definition bundle_run ::
    "(string \<Rightarrow> string) \<Rightarrow> 'v world_scheme \<Rightarrow> string \<Rightarrow> string \<Rightarrow> string \<Rightarrow> int \<Rightarrow> 'w world_scheme \<Rightarrow>
     nat option \<times> 'w world_scheme" where
  "bundle_run unmetafy later nam from_dir out_path max_kb w =
     (case w_realpath w (cstr (unmetafy from_dir)) of
        Inl e \<Rightarrow> (Some e, w)
      | Inr root \<Rightarrow>
          (case resolve_output w (cstr (unmetafy out_path)) of
             Inl e \<Rightarrow> (Some e, w)
           | Inr output \<Rightarrow>
               if (case w_lstat w output of
                     Inr existing \<Rightarrow> \<not> S_ISREG (st_mode existing)
                   | Inl e \<Rightarrow> e \<noteq> ENOENT)
               then (Some EINVAL, w)
               else
                 (case bb_collect bb_depth w root output [] bb_vec_init of
                    Inl e \<Rightarrow> (Some e, w)
                  | Inr v \<Rightarrow>
                      let files = qsort bb_cmp (vec_items v)
                      in if bundle_fresh w output files (bb_header max_kb) then (None, w)
                         else bundle_publish later nam output files max_kb w)))"

definition zp_bundle_build_core ::
    "(string \<Rightarrow> string) \<Rightarrow> 'v world_scheme \<Rightarrow> string \<Rightarrow> string option \<Rightarrow> string option \<Rightarrow> int \<Rightarrow>
     'w world_scheme \<Rightarrow> int \<times> 'w world_scheme" where
  "zp_bundle_build_core unmetafy later nam from_dir out_path max_kb w =
     (if from_dir \<in> {None, Some []} \<or> out_path \<in> {None, Some []} \<or> max_kb < 0 \<or>
         ULONG_MAX div 1024 < max_kb
      then (1, zwarnnam nam ''bundle-build: requires --from and --out and a valid --max'' w)
      else
        (case bundle_run unmetafy later nam (the from_dir) (the out_path) max_kb w of
           (None, w') \<Rightarrow> (0, w')
         | (Some e, w') \<Rightarrow> (1, zwarnnam nam (''bundle-build: '' @ w_strerror w' e) w')))"

section \<open>What is collected\<close>

text \<open>The files below a directory, as a relation: reached through visible directories, regular,
  with one of the suffixes, and not the bundle itself.\<close>

definition dir_path :: "string \<Rightarrow> string \<Rightarrow> string" where
  "dir_path root sub = (if sub \<noteq> [] then root @ slash # sub else root)"

definition visible :: "string \<Rightarrow> bool" where
  "visible name \<longleftrightarrow> (case name of c # _ \<Rightarrow> c \<noteq> CHR ''.'' | [] \<Rightarrow> True)"

definition entry_of :: "string \<Rightarrow> string \<Rightarrow> stat \<Rightarrow> bb_entry" where
  "entry_of root rel st =
     \<lparr>bb_rel = rel, bb_abs = root @ slash # rel, bb_size = int (st_size st), bb_mtime = st_mtime st\<rparr>"

inductive bundled :: "'w world_scheme \<Rightarrow> string \<Rightarrow> string \<Rightarrow> string \<Rightarrow> bb_entry \<Rightarrow> bool"
  for w root target where
  a_file: "w_dir w (dir_path root sub) = Inr (names, e) \<Longrightarrow> name \<in> set names \<Longrightarrow> visible name \<Longrightarrow>
     root @ slash # bb_join sub name \<noteq> target \<Longrightarrow>
     w_lstat w (root @ slash # bb_join sub name) = Inr st \<Longrightarrow> S_ISREG (st_mode st) \<Longrightarrow> has_ext name \<Longrightarrow>
     bundled w root target sub (entry_of root (bb_join sub name) st)"
| below: "w_dir w (dir_path root sub) = Inr (names, e) \<Longrightarrow> name \<in> set names \<Longrightarrow> visible name \<Longrightarrow>
     root @ slash # bb_join sub name \<noteq> target \<Longrightarrow>
     w_lstat w (root @ slash # bb_join sub name) = Inr st \<Longrightarrow> S_ISDIR (st_mode st) \<Longrightarrow>
     bundled w root target (bb_join sub name) f \<Longrightarrow> bundled w root target sub f"

inductive_simps bundled_iff: "bundled w root output sub f"

text \<open>What one name adds, given what its subdirectory adds.\<close>

definition adds ::
    "'w world_scheme \<Rightarrow> string \<Rightarrow> string \<Rightarrow> string \<Rightarrow> (string \<Rightarrow> bb_entry set) \<Rightarrow> string \<Rightarrow> bb_entry set" where
  "adds w root output sub D name =
     (let rel = bb_join sub name
      in if \<not> visible name \<or> root @ slash # rel = output then {}
         else case w_lstat w (root @ slash # rel) of
                Inl _ \<Rightarrow> {}
              | Inr st \<Rightarrow> if S_ISDIR (st_mode st) then D rel
                          else if S_ISREG (st_mode st) \<and> has_ext name then {entry_of root rel st} else {})"

lemma reg_not_dir: "S_ISREG m \<Longrightarrow> \<not> S_ISDIR m"
  by (simp add: S_ISREG_def S_ISDIR_def mode_consts)

lemma bundled_adds:
  assumes "w_dir w (dir_path root sub) = Inr (names, e)"
  shows "{f. bundled w root output sub f} =
    (\<Union>name \<in> set names. adds w root output sub (\<lambda>rel. {f. bundled w root output rel f}) name)"
proof (intro set_eqI iffI)
  fix f
  assume "f \<in> {f. bundled w root output sub f}"
  then show "f \<in> (\<Union>name \<in> set names. adds w root output sub (\<lambda>rel. {f. bundled w root output rel f}) name)"
    using assms reg_not_dir by (subst (asm) mem_Collect_eq, subst (asm) bundled_iff) (fastforce simp: adds_def Let_def)
next
  fix f
  assume "f \<in> (\<Union>name \<in> set names. adds w root output sub (\<lambda>rel. {f. bundled w root output rel f}) name)"
  then obtain name where n: "name \<in> set names" "f \<in> adds w root output sub (\<lambda>rel. {f. bundled w root output rel f}) name"
    by blast
  then show "f \<in> {f. bundled w root output sub f}"
    using assms by (auto simp: adds_def Let_def split: if_splits sum.splits intro: a_file below)
qed

lemma visible_iff: "(case name of c # _ \<Rightarrow> c = CHR ''.'' | [] \<Rightarrow> False) \<longleftrightarrow> \<not> visible name"
  by (simp add: visible_def split: list.splits)

lemma bb_scan_adds:
  assumes "\<And>rel v v'. rec rel v = Inr v' \<Longrightarrow> \<exists>es. vec_items v' = vec_items v @ es \<and> set es = D rel"
    "bb_scan rec w root output sub e names out = Inr out'"
  shows "\<exists>es. vec_items out' = vec_items out @ es \<and>
    set es = (\<Union>name \<in> set names. adds w root output sub D name)"
  using assms(2)
proof (induction names arbitrary: out)
  case (Cons name names)
  let ?rel = "bb_join sub name" and ?more = "\<Union>name \<in> set names. adds w root output sub D name"
  note IH = Cons.IH and scan = Cons.prems[unfolded bb_scan.simps visible_iff Let_def]
  have one: "\<exists>es. vec_items out' = vec_items out @ es \<and> set es = A \<union> ?more"
    if v: "bb_scan rec w root output sub e names v = Inr out'" "vec_items v = vec_items out @ xs" "set xs = A" for v xs A
  proof -
    obtain es where "vec_items out' = vec_items v @ es \<and> set es = ?more" using IH [OF v(1)] by blast
    with v(2,3) have "vec_items out' = vec_items out @ (xs @ es) \<and> set (xs @ es) = A \<union> ?more" by simp
    then show ?thesis by blast
  qed
  show ?case
  proof (cases "\<not> visible name \<or> root @ slash # ?rel = output")
    case True
    then have "bb_scan rec w root output sub e names out = Inr out'" using scan by (auto split: if_splits)
    from one [OF this, of "[]" "{}"] True show ?thesis by (auto simp: adds_def)
  next
    case False
    then obtain st where st: "w_lstat w (root @ slash # ?rel) = Inr st"
      using scan by (auto split: if_splits sum.splits)
    show ?thesis
    proof (cases "S_ISDIR (st_mode st)")
      case True
      then obtain v where v: "rec ?rel out = Inr v" "bb_scan rec w root output sub e names v = Inr out'"
        using scan False st by (auto split: if_splits sum.splits)
      from assms(1) [OF v(1)] obtain es where "vec_items v = vec_items out @ es" "set es = D ?rel" by blast
      from one [OF v(2) this] False True st show ?thesis by (simp add: adds_def)
    next
      case nodir: False
      show ?thesis
      proof (cases "S_ISREG (st_mode st) \<and> has_ext name")
        case True
        then obtain v where v: "bb_vec_push w out (entry_of root ?rel st) = Some v"
            "bb_scan rec w root output sub e names v = Inr out'"
          using scan False st nodir by (auto simp: entry_of_def split: if_splits option.splits)
        from one [OF v(2) bb.push_items [OF v(1)], of "{entry_of root ?rel st}"] False True nodir st
        show ?thesis by (simp add: adds_def)
      next
        case other: False
        then have "bb_scan rec w root output sub e names out = Inr out'"
          using scan False st nodir by (auto split: if_splits)
        from one [OF this, of "[]" "{}"] False nodir other st show ?thesis by (auto simp: adds_def)
      qed
    qed
  qed
qed (auto split: if_splits)

lemma bb_collect_bundled:
  assumes "bb_collect left w root output sub out = Inr out'"
  shows "\<exists>es. vec_items out' = vec_items out @ es \<and> set es = {f. bundled w root output sub f}"
  using assms
proof (induction left arbitrary: sub out out')
  case (Suc left)
  then obtain names e where d: "w_dir w (dir_path root sub) = Inr (names, e)"
    and s: "bb_scan (bb_collect left w root output) w root output sub e names out = Inr out'"
    by (auto simp: dir_path_def Let_def split: if_splits sum.splits)
  show ?case
    unfolding bundled_adds [OF d] using Suc.IH s by (rule bb_scan_adds)
qed simp

section \<open>Sorting\<close>

lemma bb_cmp_le: "bb_cmp a b \<le> 0 \<longleftrightarrow> bb_rel a \<le> bb_rel b"
  by (auto simp: bb_cmp_def)

interpretation bb_order: comparator bb_cmp "\<lambda>_. True"
  by unfold_locales (auto simp: bb_cmp_le)

lemma bb_sorted: "sorted (map bb_rel (qsort bb_cmp xs))"
  using bb_order.qsort_sorted [of xs] by (simp add: bb_cmp_le sorted_map)

text \<open>Files of different paths have one sorted order, whatever the algorithm of \<open>qsort\<close>.\<close>

lemma bb_any_sort:
  assumes "distinct (map bb_rel xs)" "mset ys = mset xs" "sorted (map bb_rel ys)"
  shows "ys = qsort bb_cmp xs"
proof (rule bb_order.qsort_only [OF _ _ assms(2)])
  show "\<forall>a \<in> set xs. \<forall>b \<in> set xs. bb_cmp a b \<le> 0 \<longrightarrow> bb_cmp b a \<le> 0 \<longrightarrow> a = b"
    using assms(1) by (auto simp: bb_cmp_le distinct_map inj_on_def)
  show "sorted_wrt (\<lambda>a b. bb_cmp a b \<le> 0) ys" using assms(3) by (simp add: bb_cmp_le sorted_map)
qed simp

section \<open>What is written\<close>

lemma put_text_Some: "put_text w tmp text piece = Some t \<Longrightarrow> t = text @ piece"
  by (simp add: put_text_def split: if_splits)

lemma copy_blocks_Some:
  "copy_blocks w tmp sz text copied data = Some (t, n) \<Longrightarrow> t = text @ data \<and> n = copied + length data"
proof (induction w tmp sz "text" copied data rule: copy_blocks.induct)
  case (1 w tmp sz "text" copied data)
  show ?case
  proof (cases "data = []")
    case True
    with "1.prems" show ?thesis by (simp add: copy_blocks.simps [of w tmp sz "text" copied "[]"])
  next
    case False
    with "1.prems" obtain t' where p: "\<not> sz - int copied < int (length (take 8192 data))"
      "put_text w tmp text (take 8192 data) = Some t'"
      "copy_blocks w tmp sz t' (copied + length (take 8192 data)) (drop 8192 data) = Some (t, n)"
      by (simp add: copy_blocks.simps [of w tmp sz "text" copied data] Let_def split: if_splits option.splits)
    from "1.IH" [OF False refl p(1,2,3)] put_text_Some [OF p(2)] show ?thesis by simp
  qed
qed

definition bundle_section :: "'v world_scheme \<Rightarrow> bb_entry \<Rightarrow> string" where
  "bundle_section later f =
     begin_line (bb_rel f) @ projr (w_data later (bb_abs f)) @ end_line (bb_rel f)"

text \<open>The file that is copied is the one that was collected.\<close>

definition unchanged :: "'v world_scheme \<Rightarrow> bb_entry \<Rightarrow> bool" where
  "unchanged later f \<longleftrightarrow>
     (\<exists>st data. w_stat later (bb_abs f) = Inr st \<and> w_data later (bb_abs f) = Inr data \<and>
        S_ISREG (st_mode st) \<and> int (st_size st) = bb_size f \<and> st_mtime st = bb_mtime f \<and>
        int (length data) = bb_size f)"

lemma bundle_file_Inr:
  assumes "bundle_file w later tmp f text = Inr t"
  shows "t = text @ bundle_section later f" "unchanged later f"
proof -
  from assms obtain l data st t1 t2 n where
    d: "w_lstat later (bb_abs f) = Inr l" "w_data later (bb_abs f) = Inr data"
      "w_stat later (bb_abs f) = Inr st" "S_ISREG (st_mode st)" "int (st_size st) = bb_size f" "st_mtime st = bb_mtime f"
    and p: "put_text w tmp text (begin_line (bb_rel f)) = Some t1"
      "copy_blocks w tmp (bb_size f) t1 0 data = Some (t2, n)" "int n = bb_size f"
      "put_text w tmp t2 (end_line (bb_rel f)) = Some t"
    by (auto simp: bundle_file_def split: sum.splits if_splits option.splits)
  show "t = text @ bundle_section later f"
    using put_text_Some [OF p(1)] copy_blocks_Some [OF p(2)] put_text_Some [OF p(4)] d(2)
    by (simp add: bundle_section_def)
  show "unchanged later f"
    using d p(3) copy_blocks_Some [OF p(2)] by (auto simp: unchanged_def)
qed

definition total_size :: "bb_entry list \<Rightarrow> int" where
  "total_size fs = (\<Sum>f \<leftarrow> fs. bb_size f)"

text \<open>The files that go in: the longest prefix within the limit (0 is no limit).\<close>

definition within :: "int \<Rightarrow> bb_entry list \<Rightarrow> nat \<Rightarrow> bool" where
  "within limit fs n \<longleftrightarrow> n \<le> length fs \<and>
     (limit \<noteq> 0 \<longrightarrow> total_size (take n fs) \<le> limit) \<and>
     (n < length fs \<longrightarrow> limit \<noteq> 0 \<and> limit < total_size (take (Suc n) fs))"

lemma bundle_files_Inr:
  assumes "bundle_files w later tmp limit sofar fs text = Inr (t, short)" "limit \<noteq> 0 \<longrightarrow> sofar \<le> limit"
  shows "\<exists>n \<le> length fs. t = text @ concat (map (bundle_section later) (take n fs)) \<and>
    (short \<longleftrightarrow> n < length fs) \<and> list_all (unchanged later) (take n fs) \<and>
    (limit \<noteq> 0 \<longrightarrow> sofar + total_size (take n fs) \<le> limit) \<and>
    (n < length fs \<longrightarrow> limit \<noteq> 0 \<and> limit < sofar + total_size (take (Suc n) fs))"
  using assms
proof (induction fs arbitrary: sofar "text")
  case (Cons f fs)
  show ?case
  proof (cases "limit \<noteq> 0 \<and> limit - sofar < bb_size f")
    case True
    with Cons.prems have "t = text" "short" by (auto split: if_splits)
    with True Cons.prems(2) show ?thesis by (intro exI [of _ 0]) (simp add: total_size_def)
  next
    case False
    with Cons.prems obtain text' where b: "bundle_file w later tmp f text = Inr text'"
      and r: "bundle_files w later tmp limit (sofar + bb_size f) fs text' = Inr (t, short)"
      by (auto split: if_splits sum.splits)
    have "limit \<noteq> 0 \<longrightarrow> sofar + bb_size f \<le> limit" using False by auto
    from Cons.IH [OF r this] obtain n where n: "n \<le> length fs"
      "t = text' @ concat (map (bundle_section later) (take n fs))" "short \<longleftrightarrow> n < length fs"
      "list_all (unchanged later) (take n fs)" "limit \<noteq> 0 \<longrightarrow> sofar + bb_size f + total_size (take n fs) \<le> limit"
      "n < length fs \<longrightarrow> limit \<noteq> 0 \<and> limit < sofar + bb_size f + total_size (take (Suc n) fs)" by blast
    with bundle_file_Inr [OF b] show ?thesis
      by (intro exI [of _ "Suc n"]) (simp add: total_size_def add.assoc)
  qed
qed (simp add: total_size_def)

section \<open>Publication\<close>

text \<open>What \<open>mkstemp\<close> promises: a name that was free, as long as the template; and the name can
  be removed again.\<close>

definition fresh_names :: "'w world_scheme \<Rightarrow> bool" where
  "fresh_names w \<longleftrightarrow>
     (\<forall>t p. w_mkstemp w t = Inr p \<longrightarrow> 6 \<le> length t \<longrightarrow> w_stat w p = Inl ENOENT \<and> w_lstat w p = Inl ENOENT \<and>
        w_data w p = Inl ENOENT \<and> w_unlink_err w p = 0 \<and> length p = length t)"

text \<open>The same files, by both metadata calls and contents.\<close>

definition same_files :: "'w world_scheme \<Rightarrow> 'w world_scheme \<Rightarrow> bool" where
  "same_files w w' \<longleftrightarrow> w_stat w' = w_stat w \<and> w_lstat w' = w_lstat w \<and> w_data w' = w_data w"

lemma same_files_refl [simp]: "same_files w w"
  by (simp add: same_files_def)

lemma same_files_warn [simp]: "same_files w (zwarnnam n m v) = same_files w v"
  by (simp add: same_files_def zwarnnam_def)

text \<open>Only the temporary file differs, and it exists.\<close>

definition with_temp :: "string \<Rightarrow> 'w world_scheme \<Rightarrow> 'w world_scheme \<Rightarrow> bool" where
  "with_temp tmp w v \<longleftrightarrow> same_except tmp w v \<and> w_dir v = w_dir w \<and>
     (\<exists>st. w_lstat v tmp = Inr st \<and> w_stat v tmp = Inr st \<and> S_ISREG (st_mode st)) \<and> w_unlink_err v = w_unlink_err w \<and>
     w_realpath v = w_realpath w \<and> w_read_err v = w_read_err w \<and> w_now v = w_now w"

lemma with_temp_mkstemp:
  "sys_mkstemp t w = Inr (tmp, v) \<Longrightarrow> with_temp tmp w v"
  by (auto simp: sys_mkstemp_def with_temp_def same_except_def set_node_def S_ISREG_def mode_consts
      split: sum.splits)

lemma with_temp_set_data: "with_temp tmp w v \<Longrightarrow> with_temp tmp w (set_data tmp s v)"
  by (auto simp: with_temp_def same_except_def set_data_def set_node_def)

lemma with_temp_warn: "with_temp tmp w v \<Longrightarrow> with_temp tmp w (zwarnnam n m v)"
  by (auto simp: with_temp_def same_except_def zwarnnam_def)

lemma abandon_same_files:
  assumes "with_temp tmp w v" "fresh_names w" "w_mkstemp w t = Inr tmp" "abandon tmp e v = (r, w')"
    "6 \<le> length t"
  shows "r = Some e \<and> same_files w w'"
proof -
  have f: "w_stat w tmp = Inl ENOENT" "w_lstat w tmp = Inl ENOENT" "w_data w tmp = Inl ENOENT" "w_unlink_err w tmp = 0"
    using assms(2,3,5) by (auto simp: fresh_names_def)
  have v: "\<And>q. q \<noteq> tmp \<Longrightarrow> w_stat v q = w_stat w q \<and> w_lstat v q = w_lstat w q \<and> w_data v q = w_data w q"
    "w_unlink_err v = w_unlink_err w" "\<exists>st. w_lstat v tmp = Inr st"
    using assms(1) by (auto simp: with_temp_def same_except_def)
  then obtain st where "sys_unlink tmp v = Inr (v\<lparr>w_stat := (w_stat v)(tmp := Inl ENOENT),
      w_lstat := (w_lstat v)(tmp := Inl ENOENT), w_data := (w_data v)(tmp := Inl ENOENT)\<rparr>)"
    using f by (auto simp: sys_unlink_def)
  then have "r = Some e" "w' = v\<lparr>w_stat := (w_stat v)(tmp := Inl ENOENT),
      w_lstat := (w_lstat v)(tmp := Inl ENOENT), w_data := (w_data v)(tmp := Inl ENOENT)\<rparr>"
    using assms(4) by (auto simp: abandon_def)
  then show ?thesis using f v by (auto simp: same_files_def fun_eq_iff)
qed

lemma rename_published:
  assumes "with_temp tmp w v" "tmp \<noteq> output" "sys_rename tmp output (set_data tmp t v) = Inr w'"
    "w_lstat w tmp = Inl ENOENT" "w_stat w tmp = Inl ENOENT" "w_data w tmp = Inl ENOENT"
  shows "\<exists>st. w_lstat w' output = Inr st \<and> w_stat w' output = Inr st \<and> w_data w' output = Inr t \<and>
      st_mtime st = w_now w \<and> S_ISREG (st_mode st)"
    "\<forall>q. q \<noteq> output \<longrightarrow> w_stat w' q = w_stat w q \<and> w_lstat w' q = w_lstat w q \<and> w_data w' q = w_data w q"
    "w_dir w' = w_dir w" "w_realpath w' = w_realpath w" "w_read_err w' = w_read_err w" "w_alloc w' = w_alloc w"
proof -
  obtain st where st: "w_stat v tmp = Inr st" "S_ISREG (st_mode st)" using assms(1) by (auto simp: with_temp_def)
  let ?v = "set_data tmp t v"
  have w': "w' = ?v\<lparr>w_stat := (w_stat ?v)(output := w_stat ?v tmp, tmp := Inl ENOENT),
      w_lstat := (w_lstat ?v)(output := w_lstat ?v tmp, tmp := Inl ENOENT),
      w_data := (w_data ?v)(output := w_data ?v tmp, tmp := Inl ENOENT)\<rparr>"
    using assms(2,3) by (simp add: sys_rename_def split: sum.splits if_splits)
  have n: "w_stat ?v tmp = Inr (st\<lparr>st_size := length t, st_mtime := w_now w\<rparr>)"
    "w_lstat ?v tmp = Inr (st\<lparr>st_size := length t, st_mtime := w_now w\<rparr>)"
    using st assms(1) by (simp_all add: set_data_def set_node_def with_temp_def)
  then show "\<exists>st. w_lstat w' output = Inr st \<and> w_stat w' output = Inr st \<and> w_data w' output = Inr t \<and>
      st_mtime st = w_now w \<and> S_ISREG (st_mode st)"
    using w' assms(2) st(2) by simp
  have "with_temp tmp w ?v" using assms(1) by (rule with_temp_set_data)
  then show "\<forall>q. q \<noteq> output \<longrightarrow> w_stat w' q = w_stat w q \<and> w_lstat w' q = w_lstat w q \<and> w_data w' q = w_data w q"
    "w_dir w' = w_dir w" "w_realpath w' = w_realpath w" "w_read_err w' = w_read_err w" "w_alloc w' = w_alloc w"
    using w' assms(4,5,6) by (auto simp: with_temp_def same_except_def)
qed

text \<open>The only way to succeed, and what it leaves behind.\<close>

lemma publish_cases:
  assumes "bundle_publish later nam output files max_kb w = (r, w')" "fresh_names w"
  obtains (fail) e where "r = Some e" "same_files w w'"
  | (ok) tmp v text0 "text" short st where "r = None" "tmp \<noteq> output" "with_temp tmp w v"
      "w_lstat w tmp = Inl ENOENT" "w_stat w tmp = Inl ENOENT" "w_data w tmp = Inl ENOENT"
      "text0 = bb_header max_kb"
      "bundle_files v later tmp (max_kb * 1024) 0 files text0 = Inr (text, short)"
      "w_lstat w' output = Inr st" "w_stat w' output = Inr st" "w_data w' output = Inr text"
      "st_mtime st = w_now w" "S_ISREG (st_mode st)"
      "\<forall>q. q \<noteq> output \<longrightarrow> w_stat w' q = w_stat w q \<and> w_lstat w' q = w_lstat w q \<and> w_data w' q = w_data w q"
      "w_dir w' = w_dir w" "w_realpath w' = w_realpath w" "w_read_err w' = w_read_err w" "w_alloc w' = w_alloc w"
proof -
  let ?t = "output @ ''.tmp.XXXXXX''"
  show thesis
  proof (cases "PATH_MAX \<le> length ?t \<or> isl (sys_mkstemp ?t w)")
    case True
    then have "\<exists>e. r = Some e" "w' = w"
      using assms(1) by (auto simp: bundle_publish_def Let_def split: sum.splits if_splits)
    then show thesis using fail by auto
  next
    case False
    then obtain tmp v where m: "sys_mkstemp ?t w = Inr (tmp, v)" by (cases "sys_mkstemp ?t w") auto
    then have mk: "w_mkstemp w ?t = Inr tmp" by (auto simp: sys_mkstemp_def split: sum.splits)
    have wt: "with_temp tmp w v" using m by (rule with_temp_mkstemp)
    have ab: "\<exists>e. r = Some e \<and> same_files w w'" if "with_temp tmp w u" "abandon tmp e u = (r, w')" for u e
      using abandon_same_files [OF that(1) assms(2) mk that(2)] by simp
    have free: "w_lstat w tmp = Inl ENOENT" "w_stat w tmp = Inl ENOENT" "w_data w tmp = Inl ENOENT" "length tmp = length ?t"
      using assms(2) mk unfolding fresh_names_def by fastforce+
    note run = assms(1) [unfolded bundle_publish_def Let_def m sum.case prod.case]
    show thesis
    proof (cases "put_text v tmp [] (bb_header max_kb)")
      case None
      with run False show thesis using ab [OF wt] fail by (auto split: if_splits)
    next
      case (Some t0)
      then have t0: "t0 = bb_header max_kb" using put_text_Some by fastforce
      show thesis
      proof (cases "bundle_files v later tmp (max_kb * 1024) 0 files t0")
        case (Inl e)
        with run False Some show thesis using ab [OF wt] fail by (auto split: if_splits)
      next
        case (Inr p)
        obtain t short where p: "p = (t, short)" by fastforce
        let ?v2 = "if short then zwarnnam nam (''bundle-build: truncated at --max '' @ render_int max_kb @ '' KiB'') v else v"
        let ?v3 = "set_data tmp t ?v2"
        have wt3: "with_temp tmp w ?v3" using wt by (auto intro: with_temp_set_data with_temp_warn)
        show thesis
        proof (cases "w_fdopen_err v tmp \<noteq> 0 \<or> w_close_err ?v3 tmp \<noteq> 0 \<or> isl (sys_rename tmp output ?v3)")
          case True
          with run False Some Inr p show thesis
            using ab [OF wt] ab [OF wt3] fail by (auto split: if_splits sum.splits)
        next
          case good: False
          then have r: "r = None" "sys_rename tmp output ?v3 = Inr w'"
            using run False Some Inr p by (auto split: sum.splits)
          have tmp: "tmp \<noteq> output" using free(4) by auto
          have wt2: "with_temp tmp w ?v2" using wt by (auto intro: with_temp_warn)
          note pub = rename_published [OF wt2 tmp r(2) free(1,2,3)]
          from pub(1) obtain st where st: "w_lstat w' output = Inr st" "w_stat w' output = Inr st"
            "w_data w' output = Inr t" "st_mtime st = w_now w" "S_ISREG (st_mode st)" by blast
          show thesis
            using ok [OF r(1) tmp wt free(1,2,3) t0 Inr [unfolded p] st pub(2-6)] .
        qed
      qed
    qed
  qed
qed

section \<open>The run as a whole\<close>

lemma bundle_run_None:
  assumes "bundle_run unmetafy later nam src dst max_kb w = (None, w')"
  obtains root "output" v where "w_realpath w (cstr (unmetafy src)) = Inr root"
    "resolve_output w (cstr (unmetafy dst)) = Inr output"
    "(case w_lstat w output of Inr st \<Rightarrow> S_ISREG (st_mode st) | Inl e \<Rightarrow> e = ENOENT)"
    "bb_collect bb_depth w root output [] bb_vec_init = Inr v"
    "(if bundle_fresh w output (qsort bb_cmp (vec_items v)) (bb_header max_kb) then w' = w
      else bundle_publish later nam output (qsort bb_cmp (vec_items v)) max_kb w = (None, w'))"
  using assms by (auto simp: bundle_run_def Let_def split: sum.splits if_splits)

lemma bundle_run_Some:
  assumes "bundle_run unmetafy later nam src dst max_kb w = (Some e, w')"
  obtains "w' = w" | "output" files where "bundle_publish later nam output files max_kb w = (Some e, w')"
  using assms by (auto simp: bundle_run_def Let_def split: sum.splits if_splits)

lemma core_cases:
  assumes "zp_bundle_build_core unmetafy later nam from_dir out_path max_kb w = (rc, w')"
  obtains (bad) "rc = 1" "w' = zwarnnam nam ''bundle-build: requires --from and --out and a valid --max'' w"
  | (fail) e v src dst where "rc = 1" "w' = zwarnnam nam (''bundle-build: '' @ w_strerror v e) v"
      "bundle_run unmetafy later nam src dst max_kb w = (Some e, v)"
  | (ok) src dst where "rc = 0" "from_dir = Some src" "out_path = Some dst" "src \<noteq> []" "dst \<noteq> []"
      "0 \<le> max_kb" "max_kb \<le> ULONG_MAX div 1024"
      "bundle_run unmetafy later nam src dst max_kb w = (None, w')"
proof (cases "from_dir \<in> {None, Some []} \<or> out_path \<in> {None, Some []} \<or> max_kb < 0 \<or> ULONG_MAX div 1024 < max_kb")
  case True
  with assms bad show thesis by (simp add: zp_bundle_build_core_def)
next
  case False
  then obtain src dst where f: "from_dir = Some src" "out_path = Some dst" by auto
  obtain r v where r: "bundle_run unmetafy later nam src dst max_kb w = (r, v)" by fastforce
  show thesis
  proof (cases r)
    case None
    with assms False f r ok show thesis by (auto simp: zp_bundle_build_core_def)
  next
    case (Some e)
    with assms False f r fail show thesis by (auto simp: zp_bundle_build_core_def)
  qed
qed

lemma bundle_run_atomic:
  assumes "bundle_run unmetafy later nam src dst max_kb w = (Some e, w')" "fresh_names w"
  shows "same_files w w'"
  using assms(1)
proof (cases rule: bundle_run_Some)
  case (2 "output" files)
  from 2 assms(2) show ?thesis by (cases rule: publish_cases) auto
qed simp

text \<open>The same directory tree gives the same collection.\<close>

lemma bb_scan_cong:
  assumes "\<And>rel v. rec' rel v = rec rel v" "w_alloc w' = w_alloc w"
    "\<And>q. q \<noteq> output \<Longrightarrow> w_lstat w' q = w_lstat w q"
  shows "bb_scan rec' w' root output sub e names out = bb_scan rec w root output sub e names out"
proof (induction names arbitrary: out)
  case (Cons name names)
  have "bb_vec_push w' = bb_vec_push w" by (intro ext) (simp add: bb_vec_push_def vec_push_def assms(2))
  then show ?case using assms Cons by (auto simp: Let_def split: sum.splits option.splits)
qed simp

lemma bb_collect_cong:
  assumes "w_alloc w' = w_alloc w" "w_dir w' = w_dir w" "\<And>q. q \<noteq> output \<Longrightarrow> w_lstat w' q = w_lstat w q"
  shows "bb_collect left w' root output sub out = bb_collect left w root output sub out"
proof (induction left arbitrary: sub out)
  case (Suc left)
  have "bb_scan (bb_collect left w' root output) w' root output = bb_scan (bb_collect left w root output) w root output"
    using Suc.IH assms by (intro ext bb_scan_cong) auto
  then show ?case by (simp only: bb_collect.simps assms(2))
qed simp

lemma header_line:
  assumes "0 \<le> m" "m \<le> ULONG_MAX div 1024"
  shows "fgets 96 (bb_header m @ r) = Some (bb_header m, r) \<and> cstr (bb_header m) = bb_header m"
proof -
  let ?l = "''# zpmod bundle-build max-kb:'' @ render_int m"
  have "long_range m" using assms by (simp add: long_range_def c_limits)
  from render_int_length [OF this] have l: "length ?l < 95" by simp
  then have h: "bb_header m = ?l @ [newline]" by (simp add: bb_header_def)
  have n: "newline \<notin> set ?l" "nul \<notin> set ?l"
    using render_no_char by (auto simp: c_chars)
  show ?thesis
    using fgets_line [of ?l 96 r] n l by (simp add: h cstr_id c_chars)
qed

lemma publish_None:
  assumes "bundle_publish later nam output files max_kb w = (None, w')" "fresh_names w"
    "0 \<le> max_kb"
  obtains n st where "within (max_kb * 1024) files n" "list_all (unchanged later) (take n files)"
    "w_data w' output = Inr (bb_header max_kb @ concat (map (bundle_section later) (take n files)))"
    "w_lstat w' output = Inr st" "st_mtime st = w_now w" "S_ISREG (st_mode st)"
    "\<forall>q. q \<noteq> output \<longrightarrow> w_stat w' q = w_stat w q \<and> w_lstat w' q = w_lstat w q \<and> w_data w' q = w_data w q"
    "w_dir w' = w_dir w" "w_realpath w' = w_realpath w" "w_read_err w' = w_read_err w" "w_alloc w' = w_alloc w"
  using assms(1,2)
proof (cases rule: publish_cases)
  case (ok tmp v text0 "text" short st)
  have "max_kb * 1024 \<noteq> 0 \<longrightarrow> 0 \<le> max_kb * 1024" using assms(3) by simp
  from bundle_files_Inr [OF ok(8) this] obtain n where n: "n \<le> length files"
    "text = text0 @ concat (map (bundle_section later) (take n files))" "list_all (unchanged later) (take n files)"
    "max_kb * 1024 \<noteq> 0 \<longrightarrow> 0 + total_size (take n files) \<le> max_kb * 1024"
    "n < length files \<longrightarrow> max_kb * 1024 \<noteq> 0 \<and> max_kb * 1024 < 0 + total_size (take (Suc n) files)" by blast
  then have "within (max_kb * 1024) files n" by (simp add: within_def)
  with n ok that show thesis by simp
qed simp

text \<open>The output named by the arguments.\<close>

definition output_of :: "(string \<Rightarrow> string) \<Rightarrow> 'w world_scheme \<Rightarrow> string option \<Rightarrow> string option" where
  "output_of unmetafy w out_path =
     (case out_path of
        None \<Rightarrow> None
      | Some out \<Rightarrow> (case resolve_output w (cstr (unmetafy out)) of Inl _ \<Rightarrow> None | Inr p \<Rightarrow> Some p))"

lemma core_ok:
  assumes "zp_bundle_build_core unmetafy later nam from_dir out_path max_kb w = (0, w')"
  obtains root "output" v src dst where "from_dir = Some src" "out_path = Some dst"
    "w_realpath w (cstr (unmetafy src)) = Inr root" "output_of unmetafy w out_path = Some output"
    "(case w_lstat w output of Inr st \<Rightarrow> S_ISREG (st_mode st) | Inl e \<Rightarrow> e = ENOENT)"
    "bb_collect bb_depth w root output [] bb_vec_init = Inr v" "0 \<le> max_kb" "max_kb \<le> ULONG_MAX div 1024"
    "bundle_run unmetafy later nam src dst max_kb w = (None, w')" "src \<noteq> []" "dst \<noteq> []"
    "(if bundle_fresh w output (qsort bb_cmp (vec_items v)) (bb_header max_kb) then w' = w
      else bundle_publish later nam output (qsort bb_cmp (vec_items v)) max_kb w = (None, w'))"
  using assms
proof (cases rule: core_cases)
  case (ok src dst)
  then obtain root "output" v where "w_realpath w (cstr (unmetafy src)) = Inr root"
    "resolve_output w (cstr (unmetafy dst)) = Inr output"
    "(case w_lstat w output of Inr st \<Rightarrow> S_ISREG (st_mode st) | Inl e \<Rightarrow> e = ENOENT)"
    "bb_collect bb_depth w root output [] bb_vec_init = Inr v"
    "(if bundle_fresh w output (qsort bb_cmp (vec_items v)) (bb_header max_kb) then w' = w
      else bundle_publish later nam output (qsort bb_cmp (vec_items v)) max_kb w = (None, w'))"
    by (blast elim: bundle_run_None)
  with ok that show thesis by (simp add: output_of_def)
qed simp_all

lemma collected_files:
  assumes "bb_collect bb_depth w root output [] bb_vec_init = Inr v"
  shows "set (qsort bb_cmp (vec_items v)) = {f. bundled w root output [] f}"
  using bb_collect_bundled [OF assms] qsort_mset [of bb_cmp "vec_items v"]
  by (auto simp: bb_vec_init_def vec_init_def dest: mset_eq_setD)

lemma bundle_atomic_lemma:
  assumes "fresh_names w" "zp_bundle_build_core unmetafy later nam from_dir out_path max_kb w = (rc, w')"
  shows "rc \<in> {0, 1} \<and> (rc = 1 \<longrightarrow> same_files w w') \<and>
    (rc = 0 \<longrightarrow> (\<exists>output. output_of unmetafy w out_path = Some output \<and>
       (\<forall>q. q \<noteq> output \<longrightarrow>
          w_stat w' q = w_stat w q \<and> w_lstat w' q = w_lstat w q \<and> w_data w' q = w_data w q)))"
  using assms(2)
proof (cases rule: core_cases)
  case (fail e v src dst)
  with bundle_run_atomic [OF fail(3) assms(1)] show ?thesis by simp
next
  case (ok src dst)
  with assms(2) have "zp_bundle_build_core unmetafy later nam from_dir out_path max_kb w = (0, w')" by simp
  then show ?thesis
  proof (cases rule: core_ok)
    case (1 root "output" v src dst)
    have "\<forall>q. q \<noteq> output \<longrightarrow> w_stat w' q = w_stat w q \<and> w_lstat w' q = w_lstat w q \<and> w_data w' q = w_data w q"
    proof (cases "bundle_fresh w output (qsort bb_cmp (vec_items v)) (bb_header max_kb)")
      case False
      with 1 have "bundle_publish later nam output (qsort bb_cmp (vec_items v)) max_kb w = (None, w')" by simp
      from publish_None [OF this assms(1) 1(7)] show ?thesis by blast
    qed (use 1 in simp)
    with 1 ok show ?thesis by auto
  qed
qed (simp add: same_files_def zwarnnam_def)

text \<open>A second run finds the bundle fresh.\<close>

lemma rebuild_lemma:
  assumes "fresh_names w" "zp_bundle_build_core unmetafy later nam from_dir (Some out) max_kb w = (0, w')"
    "output_of unmetafy w (Some out) = Some output" "w_read_err w output = 0"
    "\<forall>root f. bundled w root output [] f \<longrightarrow> bb_mtime f \<le> w_now w"
  shows "zp_bundle_build_core unmetafy later' nam from_dir (Some out) max_kb w' = (0, w')"
  using assms(2)
proof (cases rule: core_ok)
  case (1 root output' v src dst)
  then have o: "output' = output" using assms(3) by simp
  let ?fs = "qsort bb_cmp (vec_items v)"
  have res: "resolve_output w (cstr (unmetafy dst)) = Inr output"
    using 1 o by (simp add: output_of_def split: sum.splits)
  have again: "bundle_run unmetafy later' nam src dst max_kb u = (None, u)"
    if "w_realpath u = w_realpath w" "w_dir u = w_dir w" "w_alloc u = w_alloc w"
      "\<And>q. q \<noteq> output \<Longrightarrow> w_lstat u q = w_lstat w q" "bundle_fresh u output ?fs (bb_header max_kb)"
      "(case w_lstat u output of Inr st \<Rightarrow> S_ISREG (st_mode st) | Inl e \<Rightarrow> e = ENOENT)" for u :: "'a world_scheme"
  proof -
    have "resolve_output u (cstr (unmetafy dst)) = Inr output"
      using res unfolding resolve_output_def that(1) .
    moreover have "bb_collect bb_depth u root output [] bb_vec_init = Inr v"
      using bb_collect_cong [OF that(3,2,4)] 1 o by simp
    ultimately show ?thesis using 1 that by (auto simp: bundle_run_def Let_def split: sum.splits)
  qed
  have "bundle_run unmetafy later' nam src dst max_kb w' = (None, w')"
  proof (cases "bundle_fresh w output ?fs (bb_header max_kb)")
    case True
    with 1 o have "w' = w" by simp
    with again [of w] True 1 o show ?thesis by simp
  next
    case False
    with 1 o have "bundle_publish later nam output ?fs max_kb w = (None, w')" by simp
    from publish_None [OF this assms(1) 1(7)] obtain n st where p:
      "w_data w' output = Inr (bb_header max_kb @ concat (map (bundle_section later) (take n ?fs)))"
      "w_lstat w' output = Inr st" "st_mtime st = w_now w" "S_ISREG (st_mode st)"
      "\<forall>q. q \<noteq> output \<longrightarrow> w_stat w' q = w_stat w q \<and> w_lstat w' q = w_lstat w q \<and> w_data w' q = w_data w q"
      "w_dir w' = w_dir w" "w_realpath w' = w_realpath w" "w_read_err w' = w_read_err w" "w_alloc w' = w_alloc w"
      by blast
    have "list_all (\<lambda>f. bb_mtime f \<le> w_now w) ?fs"
      using assms(5) collected_files [of w root "output" v] 1 o by (auto simp: list_all_iff)
    then have "bundle_fresh w' output ?fs (bb_header max_kb)"
      using p header_line [OF 1(7,8)] assms(4) by (simp add: bundle_fresh_def)
    with again [of w'] p show ?thesis by simp
  qed
  with 1 show ?thesis by (auto simp: zp_bundle_build_core_def)
qed

lemma bb_collect_code [code]:
  "bb_collect left w root output sub out =
     (if left = 0 then Inl ELOOP
      else let path = (if sub \<noteq> [] then root @ slash # sub else root)
           in if PATH_MAX \<le> length path then Inl ENAMETOOLONG
              else case w_dir w path of
                     Inl e \<Rightarrow> Inl e
                   | Inr (names, e_end) \<Rightarrow>
                       bb_scan (bb_collect (left - 1) w root output) w root output sub e_end names out)"
  by (cases left) (auto simp: Let_def split: sum.splits)

text \<open>Two scripts in one directory, listed out of order.\<close>

definition world_scripts :: world where
  "world_scripts =
     (let f = (\<lambda>n. (w_fresh world0 [])\<lparr>st_mode := S_IFREG, st_size := n, st_mtime := 5\<rparr>);
          st = (\<lambda>p. if p = ''/s/a.zsh'' then Inr (f 1) else if p = ''/s/b.zsh'' then Inr (f 2)
                    else Inl ENOENT)
      in world0\<lparr>w_stat := st, w_lstat := st, w_now := 9,
           w_dir := (\<lambda>p. if p = ''/s'' then Inr ([''b.zsh'', ''.'', ''a.zsh''], 0) else Inl ENOENT),
           w_data := (\<lambda>p. if p = ''/s/a.zsh'' then Inr ''x'' else if p = ''/s/b.zsh'' then Inr ''yz''
                          else Inl ENOENT)\<rparr>)"

lemma world_scripts_run:
  obtains w' where
    "zp_bundle_build_core id world_scripts ''b'' (Some ''/s'') (Some ''/o/z'') 0 world_scripts = (0, w')"
    "w_data w' ''/o/z'' = Inr (''# zpmod bundle-build max-kb:0'' @ [newline] @
       ''# BEGIN a.zsh'' @ [newline] @ ''x'' @ [newline] @ ''# END a.zsh'' @ [newline] @
       ''# BEGIN b.zsh'' @ [newline] @ ''yz'' @ [newline] @ ''# END b.zsh'' @ [newline])"
proof -
  let ?r = "zp_bundle_build_core id world_scripts ''b'' (Some ''/s'') (Some ''/o/z'') 0 world_scripts"
  have "fst ?r = 0" by code_simp
  moreover have "w_data (snd ?r) ''/o/z'' = Inr (''# zpmod bundle-build max-kb:0'' @ [newline] @
       ''# BEGIN a.zsh'' @ [newline] @ ''x'' @ [newline] @ ''# END a.zsh'' @ [newline] @
       ''# BEGIN b.zsh'' @ [newline] @ ''yz'' @ [newline] @ ''# END b.zsh'' @ [newline])" by code_simp
  ultimately show thesis using that [of "snd ?r"] by (metis prod.collapse)
qed

lemma world_scripts_simps:
  "w_mkstemp world_scripts t = Inr (take (length t - 6) t @ ''a1b2c3'')"
  "p \<noteq> ''/s/a.zsh'' \<Longrightarrow> p \<noteq> ''/s/b.zsh'' \<Longrightarrow> w_stat world_scripts p = Inl ENOENT"
  "p \<noteq> ''/s/a.zsh'' \<Longrightarrow> p \<noteq> ''/s/b.zsh'' \<Longrightarrow> w_lstat world_scripts p = Inl ENOENT"
  "p \<noteq> ''/s/a.zsh'' \<Longrightarrow> p \<noteq> ''/s/b.zsh'' \<Longrightarrow> w_data world_scripts p = Inl ENOENT"
  "w_unlink_err world_scripts p = 0" "w_now world_scripts = 9"
  "w_lstat world_scripts p = Inr st \<Longrightarrow> st_mtime st = 5"
  by (auto simp: world_scripts_def world0_def Let_def split: if_splits)

lemma world_scripts_names: "fresh_names world_scripts"
proof -
  have diff: "take n t @ ''a1b2c3'' \<noteq> q" if "last q = CHR ''h''" for n t q
  proof
    assume "take n t @ ''a1b2c3'' = q"
    then have "last q = last ''a1b2c3''" by (metis last_appendR list.discI)
    with that show False by simp
  qed
  have "take n t @ ''a1b2c3'' \<noteq> ''/s/a.zsh''" "take n t @ ''a1b2c3'' \<noteq> ''/s/b.zsh''" for n t
    by (rule diff, simp)+
  then show ?thesis by (auto simp: fresh_names_def world_scripts_simps(1,5) intro!: world_scripts_simps(2-4))
qed

lemma world_scripts_output: "output_of id world_scripts (Some ''/o/z'') = Some ''/o/z''"
  by code_simp

section \<open>Properties\<close>

text \<open>
  C1: Publication is atomic.  If bundle-build answers 1, every file is as it was: the previous
  bundle is intact and no temporary file stays behind.  If it answers 0, no path but the output
  has changed.
\<close>

theorem bundle_publication_atomic:
  assumes "fresh_names w" "zp_bundle_build_core unmetafy later nam from_dir out_path max_kb w = (rc, w')"
  shows "rc \<in> {0, 1} \<and> (rc = 1 \<longrightarrow> same_files w w') \<and>
    (rc = 0 \<longrightarrow> (\<exists>output. output_of unmetafy w out_path = Some output \<and>
       (\<forall>q. q \<noteq> output \<longrightarrow>
          w_stat w' q = w_stat w q \<and> w_lstat w' q = w_lstat w q \<and> w_data w' q = w_data w q)))"
  using assms by (rule bundle_atomic_lemma)

theorem bundle_publication_atomic_witness:
  "\<exists>w'. zp_bundle_build_core id world_scripts ''b'' (Some ''/s'') (Some ''/o/z'') 0 world_scripts = (0, w') \<and>
     (\<exists>output. output_of id world_scripts (Some ''/o/z'') = Some output \<and>
        (\<forall>q. q \<noteq> output \<longrightarrow> w_data w' q = w_data world_scripts q)) \<and>
     w_data w' ''/o/z'' \<noteq> w_data world_scripts ''/o/z''"
proof -
  obtain w' where r: "zp_bundle_build_core id world_scripts ''b'' (Some ''/s'') (Some ''/o/z'') 0 world_scripts = (0, w')"
    and d: "isl (w_data w' ''/o/z'') = False"
    by (rule world_scripts_run) simp
  have "w_data world_scripts ''/o/z'' = Inl ENOENT" by code_simp
  with d have "w_data w' ''/o/z'' \<noteq> w_data world_scripts ''/o/z''" by auto
  with bundle_publication_atomic [OF world_scripts_names r] r show ?thesis by blast
qed

text \<open>
  C13: A successful bundle-build has left a fresh bundle alone, or the output now holds the header
  line and then, in the order of their relative paths, the sections of the script files below the
  directory, each copied whole from a file that is still the one collected: all of them, or the
  longest prefix whose sizes stay within --max.
\<close>

theorem bundle_holds_sorted_files:
  assumes "fresh_names w" "zp_bundle_build_core unmetafy later nam from_dir out_path max_kb w = (0, w')"
  shows "\<exists>root output files. w_realpath w (cstr (unmetafy (the from_dir))) = Inr root \<and>
    output_of unmetafy w out_path = Some output \<and>
    sorted (map bb_rel files) \<and> set files = {f. bundled w root output [] f} \<and>
    (w' = w \<and> bundle_fresh w output files (bb_header max_kb) \<or>
     (\<exists>n. within (max_kb * 1024) files n \<and> list_all (unchanged later) (take n files) \<and>
        w_data w' output = Inr (bb_header max_kb @ concat (map (bundle_section later) (take n files)))))"
  using assms(2)
proof (cases rule: core_ok)
  case (1 root "output" v src dst)
  let ?fs = "qsort bb_cmp (vec_items v)"
  have s: "sorted (map bb_rel ?fs) \<and> set ?fs = {f. bundled w root output [] f}"
    using bb_sorted collected_files [OF 1(6)] by blast
  have "w' = w \<and> bundle_fresh w output ?fs (bb_header max_kb) \<or>
     (\<exists>n. within (max_kb * 1024) ?fs n \<and> list_all (unchanged later) (take n ?fs) \<and>
        w_data w' output = Inr (bb_header max_kb @ concat (map (bundle_section later) (take n ?fs))))"
  proof (cases "bundle_fresh w output ?fs (bb_header max_kb)")
    case False
    with 1 have "bundle_publish later nam output ?fs max_kb w = (None, w')" by simp
    from publish_None [OF this assms(1) 1(7)] show ?thesis by blast
  qed (use 1 in simp)
  with s 1 show ?thesis by (intro exI [of _ root] exI [of _ "output"] exI [of _ ?fs]) simp
qed

theorem bundle_holds_sorted_files_witness:
  "\<exists>w' files. zp_bundle_build_core id world_scripts ''b'' (Some ''/s'') (Some ''/o/z'') 0 world_scripts = (0, w') \<and>
     sorted (map bb_rel files) \<and> set files = {f. bundled world_scripts ''/s'' ''/o/z'' [] f}"
proof -
  obtain w' where r: "zp_bundle_build_core id world_scripts ''b'' (Some ''/s'') (Some ''/o/z'') 0 world_scripts = (0, w')"
    by (rule world_scripts_run)
  have "w_realpath world_scripts (cstr (id ''/s'')) = Inr ''/s''" by code_simp
  with bundle_holds_sorted_files [OF world_scripts_names r] world_scripts_output r show ?thesis by auto
qed

text \<open>
  C33: Building again right after a successful run answers 0 and changes nothing, as long as no
  file is dated in the future: the bundle is recognised by its header line and its date.
\<close>

theorem bundle_rebuild_quiet:
  assumes "fresh_names w" "zp_bundle_build_core unmetafy later nam from_dir (Some out) max_kb w = (0, w')"
    "output_of unmetafy w (Some out) = Some output" "w_read_err w output = 0"
    "\<forall>root f. bundled w root output [] f \<longrightarrow> bb_mtime f \<le> w_now w"
  shows "zp_bundle_build_core unmetafy later' nam from_dir (Some out) max_kb w' = (0, w')"
  using assms by (rule rebuild_lemma)

theorem bundle_rebuild_quiet_witness:
  "\<exists>w'. zp_bundle_build_core id world_scripts ''b'' (Some ''/s'') (Some ''/o/z'') 0 world_scripts = (0, w') \<and>
     zp_bundle_build_core id world0 ''b'' (Some ''/s'') (Some ''/o/z'') 0 w' = (0, w')"
proof -
  obtain w' where r: "zp_bundle_build_core id world_scripts ''b'' (Some ''/s'') (Some ''/o/z'') 0 world_scripts = (0, w')"
    by (rule world_scripts_run)
  have n: "bb_mtime f \<le> w_now world_scripts" if "bundled world_scripts root ''/o/z'' sub f" for root sub f
    using that
    by (induction rule: bundled.induct)
      (auto simp: entry_of_def world_scripts_simps(6) dest: world_scripts_simps(7))
  have "w_read_err world_scripts ''/o/z'' = 0" by code_simp
  from bundle_rebuild_quiet [OF world_scripts_names r world_scripts_output this] n r show ?thesis by blast
qed

end
