(* ===== verification/Zp_Fpath.thy ===== *)
theory Zp_Fpath
  imports Zp_Utils
begin

text \<open>
  \<open>src/core/fpath.c\<close>: the index of the functions below \<open>fpath\<close>.  A header line per directory
  records its modification time, so that a later run can tell whether the index is still current.
  \<open>shfunctab\<close>, zsh's function table, is a map from names to the directories of their stubs
  (\<^const>\<open>None\<close> when there is no table); \<open>sizeof_shfunc\<close> is the size of its entries.
\<close>

section \<open>Arguments\<close>

record fpath_opts =
  fo_out :: "string option"
  fo_rebuild :: bool
  fo_preload :: bool

text \<open>\<^const>\<open>None\<close>: \<open>--out\<close> without its argument.\<close>

fun fpath_args :: "fpath_opts \<Rightarrow> string list \<Rightarrow> fpath_opts option" where
  "fpath_args o1 [] = Some o1"
| "fpath_args o1 (a # argv) =
     (if a = ''--rebuild'' then fpath_args (o1\<lparr>fo_rebuild := True\<rparr>) argv
      else if a = ''--preload'' then fpath_args (o1\<lparr>fo_preload := True\<rparr>) argv
      else if a = ''--out'' then
        (case argv of [] \<Rightarrow> None | f # argv' \<Rightarrow> fpath_args (o1\<lparr>fo_out := Some f\<rparr>) argv')
      else Some o1)"

section \<open>The header\<close>

definition fpath_magic :: string where
  "fpath_magic = ''# zpmod fpath-index v1''"

text \<open>One \<open>%Ns\<close> of \<open>sscanf\<close>: white space is skipped, then up to N other characters.\<close>

definition scan_word :: "nat \<Rightarrow> string \<Rightarrow> (string \<times> string) option" where
  "scan_word n s =
     (let t = dropWhile c_isspace s; word = take n (takeWhile (\<lambda>c. \<not> c_isspace c) t)
      in if word = [] then None else Some (word, drop (length word) t))"

text \<open>\<open>sscanf (line, "# %7s %23s %2047s %23s", ...) == 4\<close>\<close>

definition scan_header :: "string \<Rightarrow> (string \<times> string \<times> string \<times> string) option" where
  "scan_header line =
     (case line of
        [] \<Rightarrow> None
      | c # s0 \<Rightarrow>
          if c \<noteq> CHR ''#'' then None
          else case scan_word 7 s0 of
                 None \<Rightarrow> None
               | Some (tag, s1) \<Rightarrow>
                   (case scan_word 23 s1 of
                      None \<Rightarrow> None
                    | Some (idxbuf, s2) \<Rightarrow>
                        (case scan_word 2047 s2 of
                           None \<Rightarrow> None
                         | Some (pathbuf, s3) \<Rightarrow>
                             (case scan_word 23 s3 of
                                None \<Rightarrow> None
                              | Some (mtbuf, _) \<Rightarrow> Some (tag, idxbuf, pathbuf, mtbuf)))))"

definition dir_mtime :: "'w world_scheme \<Rightarrow> string \<Rightarrow> int" where
  "dir_mtime w d = (case w_stat w d of Inr st \<Rightarrow> st_mtime st | Inl _ \<Rightarrow> -1)"

text \<open>The loop over the header lines; \<open>rest\<close> is \<open>fpath + idx\<close>.  The result is \<open>header_ok\<close>
  and the directories not consumed.\<close>

fun check_header :: "'w world_scheme \<Rightarrow> nat \<Rightarrow> string list \<Rightarrow> string list \<Rightarrow> bool \<times> string list" where
  "check_header w idx rest [] = (True, rest)"
| "check_header w idx rest (line # lines) =
     (if \<not> starts_with ''# dir '' (cstr line) then (True, rest)
      else case scan_header (cstr line) of
             None \<Rightarrow> (False, rest)
           | Some (tag, idxbuf, pathbuf, mtbuf) \<Rightarrow>
               (case (zp_parse_long (Some idxbuf), zp_parse_long (Some mtbuf)) of
                  (Some i_hdr, Some mt_recorded) \<Rightarrow>
                    if tag \<noteq> ''dir'' \<or> i_hdr \<noteq> int idx then (False, rest)
                    else (case rest of
                            [] \<Rightarrow> (False, rest)
                          | d # ds \<Rightarrow>
                              if d \<noteq> pathbuf then (False, rest)
                              else if dir_mtime w d \<noteq> mt_recorded then (False, rest)
                              else check_header w (Suc idx) ds lines)
                | _ \<Rightarrow> (False, rest)))"

text \<open>Is the index file current?  A stream that cannot be read yields no line.\<close>

definition index_current :: "'w world_scheme \<Rightarrow> string \<Rightarrow> string list \<Rightarrow> bool" where
  "index_current w outfile fpath \<longleftrightarrow>
     (case w_data w outfile of
        Inl _ \<Rightarrow> False
      | Inr data \<Rightarrow>
          (case (if w_read_err w outfile = 0 then fgets_all 2048 data else []) of
             [] \<Rightarrow> False
           | first # lines \<Rightarrow>
               starts_with fpath_magic (cstr first) \<and> check_header w 0 fpath lines = (True, [])))"

section \<open>The directories\<close>

definition skipped_name :: "string \<Rightarrow> bool" where
  "skipped_name name \<longleftrightarrow> (case name of c # _ \<Rightarrow> c = CHR ''.'' \<or> c = CHR ''_'' | [] \<Rightarrow> False)"

definition names_in :: "'w world_scheme \<Rightarrow> string \<Rightarrow> string list" where
  "names_in w d =
     (case w_dir w d of Inl _ \<Rightarrow> [] | Inr (names, _) \<Rightarrow> filter (\<lambda>n. \<not> skipped_name n) names)"

text \<open>\<open>if (shfunctab && !gethashnode2 (...)) ... addhashnode (...)\<close>\<close>

definition add_stub ::
    "nat \<Rightarrow> 'w world_scheme \<Rightarrow> string \<Rightarrow> string \<Rightarrow> (string \<rightharpoonup> string) option \<Rightarrow> (string \<rightharpoonup> string) option" where
  "add_stub sizeof_shfunc w d name ftab =
     (case ftab of
        None \<Rightarrow> None
      | Some t \<Rightarrow>
          if t name \<noteq> None then ftab
          else if \<not> w_alloc w sizeof_shfunc then ftab
          else Some (t(name \<mapsto> d)))"

definition preload_dirs ::
    "nat \<Rightarrow> 'w world_scheme \<Rightarrow> string list \<Rightarrow> (string \<rightharpoonup> string) option \<Rightarrow> (string \<rightharpoonup> string) option" where
  "preload_dirs sizeof_shfunc w fpath ftab =
     foldl (\<lambda>t d. foldl (\<lambda>t n. add_stub sizeof_shfunc w d n t) t (names_in w d)) ftab fpath"

definition header_line :: "'w world_scheme \<Rightarrow> nat \<Rightarrow> string \<Rightarrow> string" where
  "header_line w i d =
     ''# dir '' @ render_nat 10 i @ '' '' @ d @ '' '' @ render_int (dir_mtime w d) @ [newline]"

definition index_line :: "string \<Rightarrow> string \<Rightarrow> string" where
  "index_line d name = name @ '' '' @ d @ [slash] @ name @ [newline]"

definition index_header :: "'w world_scheme \<Rightarrow> string list \<Rightarrow> string" where
  "index_header w fpath =
     fpath_magic @ [newline] @ concat (map (\<lambda>(i, d). header_line w i d) (enumerate 0 fpath))"

definition index_body :: "'w world_scheme \<Rightarrow> string list \<Rightarrow> string" where
  "index_body w fpath = concat (map (\<lambda>d. concat (map (index_line d) (names_in w d))) fpath)"

section \<open>The command\<close>

definition fpath_build ::
    "nat \<Rightarrow> string \<Rightarrow> fpath_opts \<Rightarrow> string list \<Rightarrow> (string \<rightharpoonup> string) option \<Rightarrow> 'w world_scheme \<Rightarrow>
     int \<times> (string \<rightharpoonup> string) option \<times> 'w world_scheme" where
  "fpath_build sizeof_shfunc nam o1 fpath ftab w =
     (let tab_of = (\<lambda>v. if fo_preload o1 then preload_dirs sizeof_shfunc v fpath ftab else ftab);
          body_of = (\<lambda>v. if fo_preload o1 then [] else index_body v fpath)
      in case fo_out o1 of
           None \<Rightarrow> (0, tab_of w, emit (body_of w) w)
         | Some outfile \<Rightarrow>
             (case zp_fopen_write_nofollow outfile 420 False w of
                (Inl _, w1) \<Rightarrow> (1, ftab, zwarnnam nam (''cannot open for writing: '' @ outfile) w1)
              | (Inr p, w1) \<Rightarrow>
                  (0, tab_of w1, write_file p (index_header w1 fpath @ body_of w1) w1)))"

definition cmd_fpath_index ::
    "nat \<Rightarrow> string \<Rightarrow> string list \<Rightarrow> (string \<rightharpoonup> string) option \<Rightarrow> 'w world_scheme \<Rightarrow>
     int \<times> (string \<rightharpoonup> string) option \<times> 'w world_scheme" where
  "cmd_fpath_index sizeof_shfunc nam argv ftab w =
     (case fpath_args \<lparr>fo_out = None, fo_rebuild = False, fo_preload = False\<rparr> argv of
        None \<Rightarrow> (1, ftab, zwarnnam nam ''--out requires an argument'' w)
      | Some o1 \<Rightarrow>
          (case w_aparam w ''fpath'' of
             None \<Rightarrow> (0, ftab, w)
           | Some fpath \<Rightarrow>
               if (case fo_out o1 of
                     None \<Rightarrow> False
                   | Some outfile \<Rightarrow> \<not> fo_rebuild o1 \<and> index_current w outfile fpath)
               then (0, if fo_preload o1 then preload_dirs sizeof_shfunc w fpath ftab else ftab, w)
               else fpath_build sizeof_shfunc nam o1 fpath ftab w))"

section \<open>Lemmas on the header\<close>

text \<open>A directory whose header line can be read back.\<close>

definition fine_dir :: "string \<Rightarrow> bool" where
  "fine_dir d \<longleftrightarrow> d \<noteq> [] \<and> list_all (\<lambda>c. \<not> c_isspace c \<and> c \<noteq> nul) d \<and> length d \<le> 1900"

lemma scan_word_word:
  assumes "word \<noteq> []" "list_all (\<lambda>c. \<not> c_isspace c) word" "length word \<le> n"
    "r = [] \<or> c_isspace (hd r)"
  shows "scan_word n (CHR '' '' # word @ r) = Some (word, r)"
proof -
  have s: "c_isspace (CHR '' '')" by (simp add: c_isspace_def)
  have "dropWhile c_isspace (word @ r) = word @ r"
    using assms(1,2) by (cases word) auto
  moreover have "takeWhile (\<lambda>c. \<not> c_isspace c) (word @ r) = word"
    using assms(2,4) by (cases r) (auto simp: takeWhile_append list_all_iff takeWhile_eq_all_conv)
  moreover have "n \<noteq> 0" using assms(1,3) by (cases word) auto
  ultimately show ?thesis using assms(1,3) s by (simp add: scan_word_def Let_def)
qed

lemma render_no_space:
  "list_all (\<lambda>c. \<not> c_isspace c \<and> c \<noteq> nul \<and> c \<noteq> newline) (render_nat 10 n)"
  "list_all (\<lambda>c. \<not> c_isspace c \<and> c \<noteq> nul \<and> c \<noteq> newline) (render_int v)"
proof -
  show r: "list_all (\<lambda>c. \<not> c_isspace c \<and> c \<noteq> nul \<and> c \<noteq> newline) (render_nat 10 n)" for n
    using render_nat_digits [of 10 n] digit_not_special [of 10] by (auto simp: list_all_iff)
  show "list_all (\<lambda>c. \<not> c_isspace c \<and> c \<noteq> nul \<and> c \<noteq> newline) (render_int v)"
    using r by (simp add: render_int_def c_isspace_def c_chars)
qed

lemma render_int_nonempty [simp]: "render_int v \<noteq> []"
  by (simp add: render_int_def)

lemma render_int_of_nat: "render_nat 10 n = render_int (int n)"
  by (simp add: render_int_def)

lemma scan_header_line:
  assumes "fine_dir d" "int i \<le> INT_MAX" "long_range (dir_mtime w d)"
  shows "scan_header (header_line w i d) =
    Some (''dir'', render_nat 10 i, d, render_int (dir_mtime w d))"
proof -
  let ?m = "render_int (dir_mtime w d)" and ?i = "render_nat 10 i"
  have li: "length ?i \<le> 23" using render_nat_length [of 10 23 i] assms(2) by (simp add: c_limits)
  have lm: "length ?m \<le> 23" using render_int_length [OF assms(3)] by simp
  have ns: "list_all (\<lambda>c. \<not> c_isspace c) ?i" "list_all (\<lambda>c. \<not> c_isspace c) ?m"
    "list_all (\<lambda>c. \<not> c_isspace c) d" "list_all (\<lambda>c. \<not> c_isspace c) ''dir''"
    using render_no_space assms(1) by (auto simp: list_all_iff fine_dir_def c_isspace_def)
  have sp: "c_isspace (CHR '' '')" "c_isspace newline" by (simp_all add: c_isspace_def c_chars)
  have "scan_word 7 (CHR '' '' # ''dir'' @ CHR '' '' # ?i @ CHR '' '' # d @ CHR '' '' # ?m @ [newline]) =
      Some (''dir'', CHR '' '' # ?i @ CHR '' '' # d @ CHR '' '' # ?m @ [newline])"
    using ns sp by (intro scan_word_word) simp_all
  moreover have "scan_word 23 (CHR '' '' # ?i @ CHR '' '' # d @ CHR '' '' # ?m @ [newline]) =
      Some (?i, CHR '' '' # d @ CHR '' '' # ?m @ [newline])"
    using ns sp li by (intro scan_word_word) simp_all
  moreover have "scan_word 2047 (CHR '' '' # d @ CHR '' '' # ?m @ [newline]) = Some (d, CHR '' '' # ?m @ [newline])"
    using ns sp assms(1) by (intro scan_word_word) (simp_all add: fine_dir_def)
  moreover have "scan_word 23 (CHR '' '' # ?m @ [newline]) = Some (?m, [newline])"
    using ns sp lm by (intro scan_word_word) simp_all
  ultimately show ?thesis by (simp add: scan_header_def header_line_def)
qed

definition header_text :: "'w world_scheme \<Rightarrow> nat \<Rightarrow> string \<Rightarrow> string" where
  "header_text w i d = ''# dir '' @ render_nat 10 i @ '' '' @ d @ '' '' @ render_int (dir_mtime w d)"

lemma header_line_text: "header_line w i d = header_text w i d @ [newline]"
  by (simp add: header_line_def header_text_def)

lemma header_text_ok:
  assumes "fine_dir d" "int i \<le> INT_MAX" "long_range (dir_mtime w d)"
  shows "line_ok 2048 (header_text w i d)"
proof -
  have "length (render_nat 10 i) \<le> 23" using render_nat_length [of 10 23 i] assms(2) by (simp add: c_limits)
  moreover note render_int_length [OF assms(3)]
  moreover have "newline \<notin> set d" "nul \<notin> set d"
    using assms(1) by (auto simp: fine_dir_def list_all_iff c_isspace_def c_chars)
  moreover have "newline \<notin> set (render_nat 10 i)" "nul \<notin> set (render_nat 10 i)"
    "newline \<notin> set (render_int (dir_mtime w d))" "nul \<notin> set (render_int (dir_mtime w d))"
    using render_no_space by (auto simp: list_all_iff)
  ultimately show ?thesis using assms(1)
    by (auto simp: line_ok_def header_text_def fine_dir_def c_chars)
qed

lemma header_line_cstr:
  assumes "fine_dir d" "int i \<le> INT_MAX" "long_range (dir_mtime w d)"
  shows "cstr (header_line w i d) = header_line w i d"
  using header_text_ok [OF assms] by (intro cstr_id) (auto simp: header_line_text line_ok_def c_chars)

text \<open>The header of an index is accepted for exactly the directories and times it records.\<close>

lemma check_header_exact:
  assumes "\<forall>d \<in> set ds. fine_dir d \<and> long_range (dir_mtime w d)" "int (i + length ds) \<le> INT_MAX"
    "tail = [] \<or> \<not> starts_with ''# dir '' (cstr (hd tail))"
  shows "check_header w2 i rest (map (\<lambda>(j, d). header_line w j d) (enumerate i ds) @ tail) = (True, []) \<longleftrightarrow>
    rest = ds \<and> (\<forall>d \<in> set ds. dir_mtime w2 d = dir_mtime w d)"
  using assms
proof (induction ds arbitrary: i rest)
  case Nil
  then show ?case by (cases tail) auto
next
  case (Cons d ds)
  have d: "fine_dir d" "int i \<le> INT_MAX" "long_range (dir_mtime w d)" using Cons.prems by auto
  have c: "cstr (header_line w i d) = header_line w i d" using d by (rule header_line_cstr)
  have st: "starts_with ''# dir '' (header_line w i d)" by (simp add: header_line_def starts_with_def)
  have p: "zp_parse_long (Some (render_nat 10 i)) = Some (int i)"
    "zp_parse_long (Some (render_int (dir_mtime w d))) = Some (dir_mtime w d)"
    using d(2,3) parse_long_render by (auto simp: render_int_of_nat long_range_def c_limits)
  have step: "check_header w2 i r (header_line w i d # ls) =
      (case r of [] \<Rightarrow> (False, r)
       | e # es \<Rightarrow> if e \<noteq> d then (False, r)
                   else if dir_mtime w2 e \<noteq> dir_mtime w d then (False, r)
                   else check_header w2 (Suc i) es ls)" for r ls
    by (simp add: c st scan_header_line [OF d] p)
  show ?case
    using Cons.IH [of "Suc i" "tl rest"] Cons.prems
    by (cases rest) (auto simp: step simp del: check_header.simps)
qed

lemma fgets_all_first:
  assumes "fgets_all n s = l # ls"
  shows "s \<noteq> [] \<and> (l = [] \<or> hd l = hd s)"
proof -
  obtain a r where a: "fgets n s = Some (a, r)" "l = cstr a"
    using assms by (subst (asm) fgets_all.simps) (auto split: option.splits)
  then have s: "s \<noteq> []" "fgets_take (n - 1) s = (a, r)" by (auto simp: fgets_def split: if_splits)
  from fgets_take_append [OF s(2)] have "a = [] \<or> hd a = hd s" by (cases a) auto
  with a s show ?thesis by (cases a) (auto simp: cstr_def)
qed

lemma fgets_all_lines_more:
  "list_all (line_ok n) ls \<Longrightarrow>
     fgets_all n (concat (map (\<lambda>l. l @ [newline]) ls) @ s) = map (\<lambda>l. l @ [newline]) ls @ fgets_all n s"
  by (induction ls) (simp_all add: fgets_all_line)

text \<open>Names that an index line may start with.\<close>

definition plain_names :: "'w world_scheme \<Rightarrow> string list \<Rightarrow> bool" where
  "plain_names w fpath \<longleftrightarrow>
     (\<forall>d \<in> set fpath. \<forall>n \<in> set (names_in w d). n \<noteq> [] \<and> hd n \<noteq> CHR ''#'')"

lemma index_body_first:
  "plain_names w fpath \<Longrightarrow> index_body w fpath \<noteq> [] \<Longrightarrow> hd (index_body w fpath) \<noteq> CHR ''#''"
proof (induction fpath)
  case (Cons d ds)
  show ?case
  proof (cases "names_in w d")
    case Nil
    then show ?thesis using Cons by (auto simp: plain_names_def index_body_def)
  next
    case (Cons n ns)
    then show ?thesis using Cons.prems by (auto simp: plain_names_def index_body_def index_line_def)
  qed
qed (simp add: index_body_def)

lemma index_current_exact:
  assumes "\<forall>d \<in> set fpath. fine_dir d \<and> long_range (dir_mtime w d)" "int (length fpath) \<le> INT_MAX"
    "b = [] \<or> hd b \<noteq> CHR ''#''" "w_data w2 outfile = Inr (index_header w fpath @ b)" "w_read_err w2 outfile = 0"
  shows "index_current w2 outfile fpath2 \<longleftrightarrow>
    fpath2 = fpath \<and> (\<forall>d \<in> set fpath. dir_mtime w2 d = dir_mtime w d)"
proof -
  let ?ls = "fpath_magic # map (\<lambda>(i, d). header_text w i d) (enumerate 0 fpath)"
  have h: "index_header w fpath = concat (map (\<lambda>l. l @ [newline]) ?ls)"
    by (simp add: index_header_def header_line_text comp_def split_def)
  have "line_ok 2048 fpath_magic" by (simp add: line_ok_def fpath_magic_def c_chars)
  moreover have "line_ok 2048 (header_text w i d)" if "(i, d) \<in> set (enumerate 0 fpath)" for i d
    using that assms(1,2) by (intro header_text_ok) (auto simp: in_set_enumerate_eq)
  ultimately have "list_all (line_ok 2048) ?ls" by (auto simp: list_all_iff)
  from fgets_all_lines_more [OF this, of b]
  have f: "fgets_all 2048 (index_header w fpath @ b) = (fpath_magic @ [newline]) #
      map (\<lambda>(i, d). header_line w i d) (enumerate 0 fpath) @ fgets_all 2048 b"
    unfolding h by (simp add: header_line_text comp_def split_def)
  have m: "starts_with fpath_magic (cstr (fpath_magic @ [newline]))"
    by (simp add: starts_with_def fpath_magic_def cstr_def c_chars)
  have "fgets_all 2048 b = [] \<or> \<not> starts_with ''# dir '' (cstr (hd (fgets_all 2048 b)))"
  proof (cases "fgets_all 2048 b")
    case (Cons l ls)
    from fgets_all_first [OF Cons] assms(3) have "l = [] \<or> hd l \<noteq> CHR ''#''" by auto
    then have "\<not> starts_with ''# dir '' (cstr l)" by (cases l) (auto simp: starts_with_def cstr_def)
    with Cons show ?thesis by simp
  qed simp
  from check_header_exact [OF assms(1) _ this, of 0 w2 fpath2] assms(2,4,5) show ?thesis
    by (simp add: index_current_def f m)
qed

section \<open>Lemmas on writing and reusing an index\<close>

lemma dir_mtime_range: "times_fit w \<Longrightarrow> long_range (dir_mtime w d)"
  by (auto simp: dir_mtime_def long_range_def c_limits times_fit_def split: sum.splits)

definition no_opts :: fpath_opts where
  "no_opts = \<lparr>fo_out = None, fo_rebuild = False, fo_preload = False\<rparr>"

text \<open>What a run that writes leaves in the file.\<close>

lemma build_writes:
  assumes "fpath_build sz nam o1 fpath ftab w = (0, ftab1, w1)" "fo_out o1 = Some outfile"
    "w_room w outfile = None" "outfile \<notin> set fpath"
  shows "\<exists>v. (\<forall>d \<in> set fpath. dir_mtime v d = dir_mtime w d) \<and> same_except outfile w v \<and>
    w_data w1 outfile = Inr (index_header w fpath @ (if fo_preload o1 then [] else index_body v fpath))"
proof -
  obtain v where v: "zp_fopen_write_nofollow outfile 420 False w = (Inr outfile, v)"
    "w1 = write_file outfile (index_header v fpath @ (if fo_preload o1 then [] else index_body v fpath)) v"
    using assms(1,2)
    by (auto simp: fpath_build_def Let_def split: sum.splits prod.splits dest: fopen_Inr)
  have s: "same_except outfile w v" using fopen_same_except [OF v(1)] .
  then have t: "\<forall>d \<in> set fpath. dir_mtime v d = dir_mtime w d"
    using assms(4) by (auto simp: dir_mtime_def same_except_def)
  have "map (\<lambda>(i, d). header_line v i d) (enumerate 0 fpath) = map (\<lambda>(i, d). header_line w i d) (enumerate 0 fpath)"
    using t by (auto simp: header_line_def in_set_enumerate_eq)
  then have "index_header v fpath = index_header w fpath" by (simp only: index_header_def)
  moreover have "w_room v outfile = None" using s assms(3) by (simp add: same_except_def)
  ultimately show ?thesis using v s t write_file_data [of v outfile]
    by (intro exI [of _ v]) simp
qed

lemma plain_names_after_open:
  assumes "same_except outfile w v" "outfile \<notin> set fpath" "plain_names w fpath"
  shows "plain_names v fpath"
proof -
  have "names_in v d = names_in w d" if "d \<in> set fpath" for d
    using that assms(1,2) by (auto simp: names_in_def same_except_def)
  with assms(3) show ?thesis by (simp add: plain_names_def)
qed

lemma run_out:
  "cmd_fpath_index sz nam [''--out'', outfile] ftab w =
     (case w_aparam w ''fpath'' of
        None \<Rightarrow> (0, ftab, w)
      | Some fpath \<Rightarrow>
          if index_current w outfile fpath then (0, ftab, w)
          else fpath_build sz nam (no_opts\<lparr>fo_out := Some outfile\<rparr>) fpath ftab w)"
  by (simp add: cmd_fpath_index_def no_opts_def split: option.splits)

lemma run_rebuild:
  "cmd_fpath_index sz nam [''--rebuild'', ''--out'', outfile] ftab w =
     (case w_aparam w ''fpath'' of
        None \<Rightarrow> (0, ftab, w)
      | Some fpath \<Rightarrow>
          fpath_build sz nam (no_opts\<lparr>fo_rebuild := True, fo_out := Some outfile\<rparr>) fpath ftab w)"
  by (simp add: cmd_fpath_index_def no_opts_def split: option.splits)

lemma run_preload_out:
  "cmd_fpath_index sz nam [''--preload'', ''--rebuild'', ''--out'', outfile] ftab w =
     (case w_aparam w ''fpath'' of
        None \<Rightarrow> (0, ftab, w)
      | Some fpath \<Rightarrow>
          fpath_build sz nam (no_opts\<lparr>fo_preload := True, fo_rebuild := True, fo_out := Some outfile\<rparr>) fpath ftab w)"
  by (simp add: cmd_fpath_index_def no_opts_def split: option.splits)

text \<open>The divergence: an index written in preload mode has no function lines, yet counts as
  current, so a later run leaves it like that.\<close>

lemma preload_index_stays_empty:
  assumes "cmd_fpath_index sz nam [''--preload'', ''--rebuild'', ''--out'', outfile] ftab w = (0, ftab1, w1)"
    "w_aparam w ''fpath'' = Some fpath" "w_room w outfile = None" "outfile \<notin> set fpath" "times_fit w"
    "\<forall>d \<in> set fpath. fine_dir d" "int (length fpath) \<le> INT_MAX"
    "w_data w2 outfile = w_data w1 outfile" "w_read_err w2 outfile = 0" "w_aparam w2 ''fpath'' = Some fpath"
    "\<forall>d \<in> set fpath. dir_mtime w2 d = dir_mtime w d"
  shows "w_data w2 outfile = Inr (index_header w fpath) \<and>
    cmd_fpath_index sz nam [''--out'', outfile] ftab2 w2 = (0, ftab2, w2)"
proof -
  have "fpath_build sz nam (no_opts\<lparr>fo_preload := True, fo_rebuild := True, fo_out := Some outfile\<rparr>) fpath ftab w = (0, ftab1, w1)"
    using assms(1,2) by (simp add: run_preload_out)
  from build_writes [OF this _ assms(3,4)] assms(8) have d: "w_data w2 outfile = Inr (index_header w fpath @ [])" by auto
  have r: "\<forall>d \<in> set fpath. fine_dir d \<and> long_range (dir_mtime w d)"
    using assms(5,6) dir_mtime_range by blast
  from index_current_exact [OF r assms(7) _ d assms(9), of fpath] assms(11)
  have "index_current w2 outfile fpath" by simp
  with d assms(10) show ?thesis by (simp add: run_out)
qed

section \<open>Lemmas on preloading\<close>

lemma add_stub_Some:
  "(\<And>n. w_alloc w n) \<Longrightarrow> add_stub sz w d name (Some t) = Some (if t name = None then t(name \<mapsto> d) else t)"
  by (simp add: add_stub_def)

lemma preload_dir_map:
  assumes "\<And>n. w_alloc w n"
  shows "\<exists>t'. foldl (\<lambda>t n. add_stub sz w d n t) (Some t) names = Some t' \<and>
    (\<forall>n. t' n = (if t n = None \<and> n \<in> set names then Some d else t n))"
proof (induction names arbitrary: t)
  case (Cons m names)
  let ?t = "if t m = None then t(m \<mapsto> d) else t"
  have a: "add_stub sz w d m (Some t) = Some ?t" using assms by (rule add_stub_Some)
  from Cons.IH [of ?t] obtain t' where t': "foldl (\<lambda>t n. add_stub sz w d n t) (Some ?t) names = Some t'"
    "\<forall>n. t' n = (if ?t n = None \<and> n \<in> set names then Some d else ?t n)" by blast
  from t'(2) have "\<forall>n. t' n = (if t n = None \<and> n \<in> set (m # names) then Some d else t n)" by auto
  with t'(1) show ?case by (simp only: foldl_Cons a) blast
qed simp

lemma preload_map:
  assumes "\<And>n. w_alloc w n"
  shows "\<exists>t'. preload_dirs sz w fpath (Some t) = Some t' \<and>
    (\<forall>n. t' n = (case t n of Some d \<Rightarrow> Some d | None \<Rightarrow> find (\<lambda>d. n \<in> set (names_in w d)) fpath))"
proof (induction fpath arbitrary: t)
  case Nil
  then show ?case by (simp add: preload_dirs_def split: option.splits)
next
  case (Cons d ds)
  from preload_dir_map [of w, OF assms] obtain t1 where t1:
    "foldl (\<lambda>t n. add_stub sz w d n t) (Some t) (names_in w d) = Some t1"
    "\<forall>n. t1 n = (if t n = None \<and> n \<in> set (names_in w d) then Some d else t n)" by blast
  from Cons.IH [of t1] obtain t' where t': "preload_dirs sz w ds (Some t1) = Some t'"
    "\<forall>n. t' n = (case t1 n of Some d \<Rightarrow> Some d | None \<Rightarrow> find (\<lambda>d. n \<in> set (names_in w d)) ds)" by blast
  have "preload_dirs sz w (d # ds) (Some t) = Some t'" using t1(1) t'(1) by (simp add: preload_dirs_def)
  moreover have "\<forall>n. t' n = (case t n of Some e \<Rightarrow> Some e | None \<Rightarrow> find (\<lambda>d. n \<in> set (names_in w d)) (d # ds))"
    using t1(2) t'(2) by (auto split: option.splits)
  ultimately show ?case by blast
qed

section \<open>Properties\<close>

text \<open>
  C20: An index file written for a search path is reused by a later run exactly when the search
  path is the same list of directories and every directory still has the modification time
  recorded (-1 standing for a directory that cannot be examined); then nothing is written.
  Otherwise the index is built again.  The directories contain no white space.
\<close>

theorem fpath_index_reused_iff_current:
  assumes "cmd_fpath_index sz nam [''--rebuild'', ''--out'', outfile] ftab w = (0, ftab1, w1)"
    "w_aparam w ''fpath'' = Some fpath" "w_room w outfile = None" "outfile \<notin> set fpath" "times_fit w"
    "\<forall>d \<in> set fpath. fine_dir d" "int (length fpath) \<le> INT_MAX" "plain_names w fpath"
    "w_data w2 outfile = w_data w1 outfile" "w_read_err w2 outfile = 0" "w_aparam w2 ''fpath'' = Some fpath2"
  shows "cmd_fpath_index sz nam [''--out'', outfile] ftab2 w2 =
    (if fpath2 = fpath \<and> (\<forall>d \<in> set fpath. dir_mtime w2 d = dir_mtime w d) then (0, ftab2, w2)
     else fpath_build sz nam \<lparr>fo_out = Some outfile, fo_rebuild = False, fo_preload = False\<rparr> fpath2 ftab2 w2)"
proof -
  have "fpath_build sz nam (no_opts\<lparr>fo_rebuild := True, fo_out := Some outfile\<rparr>) fpath ftab w = (0, ftab1, w1)"
    using assms(1,2) by (simp add: run_rebuild)
  from build_writes [OF this _ assms(3,4)] assms(9) obtain v where
    v: "same_except outfile w v" "w_data w2 outfile = Inr (index_header w fpath @ index_body v fpath)"
    by (auto simp: no_opts_def)
  have b: "index_body v fpath = [] \<or> hd (index_body v fpath) \<noteq> CHR ''#''"
    using index_body_first plain_names_after_open [OF v(1) assms(4,8)] by blast
  have r: "\<forall>d \<in> set fpath. fine_dir d \<and> long_range (dir_mtime w d)"
    using assms(5,6) dir_mtime_range by blast
  from index_current_exact [OF r assms(7) b v(2) assms(10), of fpath2] assms(11)
  show ?thesis by (simp add: run_out no_opts_def)
qed

definition world_fpath :: world where
  "world_fpath = world0\<lparr>w_aparam := [''fpath'' \<mapsto> [''/f'', ''/g'']],
     w_dir := (\<lambda>d. if d = ''/f'' then Inr ([''.'', ''b''], 0)
                   else if d = ''/g'' then Inr ([''a'', ''b'', ''_x''], 0) else Inl ENOENT)\<rparr>"

theorem fpath_index_reused_iff_current_witness:
  "\<exists>w1. cmd_fpath_index 64 ''i'' [''--rebuild'', ''--out'', ''/o''] None world_fpath = (0, None, w1) \<and>
     cmd_fpath_index 64 ''i'' [''--out'', ''/o''] None
       (world_fpath\<lparr>w_data := w_data w1, w_stat := w_stat world_fpath\<rparr>) =
     (0, None, world_fpath\<lparr>w_data := w_data w1, w_stat := w_stat world_fpath\<rparr>)"
proof -
  let ?r = "cmd_fpath_index 64 ''i'' [''--rebuild'', ''--out'', ''/o''] None world_fpath"
  have "fst ?r = 0" "fst (snd ?r) = None" by code_simp+
  then obtain w1 where r: "?r = (0, None, w1)" by (metis prod.collapse)
  let ?w2 = "world_fpath\<lparr>w_data := w_data w1, w_stat := w_stat world_fpath\<rparr>"
  have h: "w_aparam world_fpath ''fpath'' = Some [''/f'', ''/g'']" "w_room world_fpath ''/o'' = None"
    "times_fit world_fpath" "w_read_err ?w2 ''/o'' = 0" "w_aparam ?w2 ''fpath'' = Some [''/f'', ''/g'']"
    by (simp_all add: world_fpath_def world0_def times_fit_def long_range_def c_limits)
  have f: "\<forall>d \<in> set [''/f'', ''/g'']. fine_dir d"
    by (simp add: fine_dir_def c_isspace_def c_chars)
  have p: "plain_names world_fpath [''/f'', ''/g'']"
    by (auto simp: plain_names_def names_in_def world_fpath_def skipped_name_def)
  have m: "dir_mtime ?w2 d = dir_mtime world_fpath d" for d by (simp add: dir_mtime_def)
  from fpath_index_reused_iff_current [OF r h(1,2) _ h(3) f _ p _ h(4,5), of None] m r
  show ?thesis by (simp add: c_limits)
qed

text \<open>
  Preloading keeps every function that is already defined and gives each other visible name the
  first directory of the search path that lists it.
\<close>

theorem fpath_preload_first_wins:
  assumes "mem_ok w" "w_aparam w ''fpath'' = Some fpath"
  shows "\<exists>t'. cmd_fpath_index sz nam [''--preload''] (Some t) w = (0, Some t', w) \<and>
    (\<forall>n. t' n = (case t n of
                   Some d \<Rightarrow> Some d
                 | None \<Rightarrow> find (\<lambda>d. \<exists>names e. w_dir w d = Inr (names, e) \<and> n \<in> set names \<and> \<not> skipped_name n) fpath))"
proof -
  have eq: "(\<lambda>d. \<exists>names e. w_dir w d = Inr (names, e) \<and> n \<in> set names \<and> \<not> skipped_name n) =
      (\<lambda>d. n \<in> set (names_in w d))" for n
  proof (intro ext)
    fix d
    show "(\<exists>names e. w_dir w d = Inr (names, e) \<and> n \<in> set names \<and> \<not> skipped_name n) = (n \<in> set (names_in w d))"
      by (cases "w_dir w d") (auto simp: names_in_def)
  qed
  have "\<And>n. w_alloc w n" using assms(1) by (simp add: mem_okD)
  from preload_map [of w, OF this, of sz fpath t] assms(2) show ?thesis
    unfolding eq by (simp add: cmd_fpath_index_def fpath_build_def emit_def Let_def)
qed

theorem fpath_preload_first_wins_witness:
  "\<exists>t'. cmd_fpath_index 64 ''i'' [''--preload''] (Some [''a'' \<mapsto> ''/old'']) world_fpath = (0, Some t', world_fpath) \<and>
     t' ''a'' = Some ''/old'' \<and> t' ''b'' = Some ''/f'' \<and> t' ''_x'' = None"
proof -
  have w: "mem_ok world_fpath" "w_aparam world_fpath ''fpath'' = Some [''/f'', ''/g'']"
    "w_dir world_fpath ''/f'' = Inr ([''.'', ''b''], 0)" "w_dir world_fpath ''/g'' = Inr ([''a'', ''b'', ''_x''], 0)"
    by (simp_all add: world_fpath_def world0_def mem_ok_def)
  from fpath_preload_first_wins [OF w(1,2), of 64 "''i''" "[''a'' \<mapsto> ''/old'']"]
  show ?thesis by (auto simp: w skipped_name_def)
qed

end
