(* ===== verification/Zp_Hot.thy ===== *)
theory Zp_Hot
  imports Zp_Sort Zp_Utils
begin

text \<open>
  \<open>src/core/source_hot.c\<close>: the scripts of the history parameter are added up by path and the
  slowest ones compiled.  \<^const>\<open>None\<close> is a fault: a signed addition that leaves the range of
  long.
\<close>

section \<open>Arguments\<close>

record hot_opts =
  ho_count :: int
  ho_threshold :: int
  ho_zwc :: "string option"

text \<open>A number option: strict, and in the range of int.\<close>

definition hot_number :: "string \<Rightarrow> int option" where
  "hot_number s =
     (case zp_parse_long (Some s) of
        None \<Rightarrow> None
      | Some v \<Rightarrow> if v < INT_MIN \<or> INT_MAX < v then None else Some v)"

text \<open>The options, or the diagnostic of the failure.\<close>

fun hot_args :: "hot_opts \<Rightarrow> string list \<Rightarrow> string + hot_opts" where
  "hot_args o1 [] = Inr o1"
| "hot_args o1 (a # argv) =
     (if a = ''-n'' then
        (case argv of
           [] \<Rightarrow> Inl ''-n requires an argument''
         | v # argv' \<Rightarrow>
             (case hot_number v of
                None \<Rightarrow> Inl (''-n: invalid number: '' @ v)
              | Some n \<Rightarrow> hot_args (o1\<lparr>ho_count := n\<rparr>) argv'))
      else if a = ''--threshold'' then
        (case argv of
           [] \<Rightarrow> Inl ''--threshold requires an argument''
         | v # argv' \<Rightarrow>
             (case hot_number v of
                None \<Rightarrow> Inl (''--threshold: invalid number: '' @ v)
              | Some n \<Rightarrow> hot_args (o1\<lparr>ho_threshold := n\<rparr>) argv'))
      else if a = ''--zwc'' then
        (case argv of
           [] \<Rightarrow> Inl ''--zwc requires an argument''
         | v # argv' \<Rightarrow> hot_args (o1\<lparr>ho_zwc := Some v\<rparr>) argv')
      else Inr o1)"

section \<open>Adding up\<close>

record hot_script =
  hs_path :: string
  hs_total_ms :: int
  hs_count :: int

text \<open>A history line: path and milliseconds, as the first two words.\<close>

definition hot_record :: "int \<Rightarrow> string \<Rightarrow> (string \<times> int) option" where
  "hot_record threshold line =
     (case strtoks (CHR '' '') line of
        path # ms_str # _ \<Rightarrow>
          (case zp_parse_long (Some ms_str) of
             None \<Rightarrow> None
           | Some ms \<Rightarrow> if 0 < threshold \<and> ms < threshold then None else Some (path, ms))
      | _ \<Rightarrow> None)"

fun hot_add :: "string \<Rightarrow> int \<Rightarrow> hot_script list \<Rightarrow> hot_script list option" where
  "hot_add path ms [] = Some [\<lparr>hs_path = path, hs_total_ms = ms, hs_count = 1\<rparr>]"
| "hot_add path ms (s # ss) =
     (if hs_path s = path then
        if long_range (hs_total_ms s + ms)
        then Some (s\<lparr>hs_total_ms := hs_total_ms s + ms, hs_count := hs_count s + 1\<rparr> # ss) else None
      else map_option (Cons s) (hot_add path ms ss))"

fun hot_collect :: "int \<Rightarrow> string list \<Rightarrow> hot_script list \<Rightarrow> hot_script list option" where
  "hot_collect threshold [] ss = Some ss"
| "hot_collect threshold (line # history) ss =
     (case hot_record threshold line of
        None \<Rightarrow> hot_collect threshold history ss
      | Some (path, ms) \<Rightarrow>
          (case hot_add path ms ss of
             None \<Rightarrow> None
           | Some ss' \<Rightarrow> hot_collect threshold history ss'))"

section \<open>Ranking\<close>

text \<open>\<open>return sb->total_ms - sa->total_ms\<close>, a long returned as an int.\<close>

definition compare_hot_scripts :: "hot_script \<Rightarrow> hot_script \<Rightarrow> int" where
  "compare_hot_scripts a b = to_int (hs_total_ms b - hs_total_ms a)"

definition hot_rank :: "hot_script list \<Rightarrow> hot_script list" where
  "hot_rank ss = qsort compare_hot_scripts ss"

definition hot_limit :: "int \<Rightarrow> nat \<Rightarrow> nat" where
  "hot_limit cnt n = (if 0 < cnt \<and> cnt < int n then nat cnt else n)"

definition hot_command :: "string option \<Rightarrow> string \<Rightarrow> string" where
  "hot_command zwc path =
     (case zwc of
        Some f \<Rightarrow> ''zcompile -o '' @ f @ '' '' @ path
      | None \<Rightarrow> ''zcompile '' @ path)"

definition cmd_source_hot :: "string \<Rightarrow> string list \<Rightarrow> 'w world_scheme \<Rightarrow> (int \<times> 'w world_scheme) option" where
  "cmd_source_hot nam argv w =
     (case hot_args \<lparr>ho_count = 10, ho_threshold = 0, ho_zwc = None\<rparr> argv of
        Inl msg \<Rightarrow> Some (1, zwarnnam nam msg w)
      | Inr o1 \<Rightarrow>
          (case w_aparam w ''zsh_source_history'' of
             None \<Rightarrow> Some (0, w)
           | Some history \<Rightarrow>
               (case hot_collect (ho_threshold o1) history [] of
                  None \<Rightarrow> None
                | Some scripts \<Rightarrow>
                    Some (0, foldl (\<lambda>v s. execstring (hot_command (ho_zwc o1) (hs_path s)) v) w
                               (take (hot_limit (ho_count o1) (length scripts)) (hot_rank scripts))))))"

section \<open>Lemmas\<close>

text \<open>The total of a path over a list of records.\<close>

definition total_of :: "(string \<times> int) list \<Rightarrow> string \<Rightarrow> int" where
  "total_of rs p = (\<Sum>r \<leftarrow> filter (\<lambda>r. fst r = p) rs. snd r)"

definition weight :: "(string \<times> int) list \<Rightarrow> int" where
  "weight rs = (\<Sum>r \<leftarrow> rs. \<bar>snd r\<bar>)"

lemma total_of_snoc: "total_of (rs @ [(p, ms)]) q = total_of rs q + (if p = q then ms else 0)"
  by (simp add: total_of_def)

lemma weight_bounds: "\<bar>total_of rs p\<bar> \<le> weight rs"
proof (induction rs)
  case (Cons r rs)
  have "0 \<le> \<bar>snd r\<bar>" by simp
  with Cons show ?case by (auto simp: total_of_def weight_def)
qed (simp add: total_of_def weight_def)

definition records_of :: "int \<Rightarrow> string list \<Rightarrow> (string \<times> int) list" where
  "records_of threshold history = List.map_filter (hot_record threshold) history"

text \<open>What the table of scripts holds after a list of records.\<close>

definition table_of :: "(string \<times> int) list \<Rightarrow> hot_script list \<Rightarrow> bool" where
  "table_of rs ss \<longleftrightarrow> distinct (map hs_path ss) \<and> hs_path ` set ss = fst ` set rs \<and>
     (\<forall>s \<in> set ss. hs_total_ms s = total_of rs (hs_path s))"

lemma hot_add_spec:
  assumes "\<forall>s \<in> set ss. hs_path s = p \<longrightarrow> long_range (hs_total_ms s + ms)"
  shows "\<exists>ss'. hot_add p ms ss = Some ss' \<and>
    map hs_path ss' = map hs_path ss @ (if p \<in> hs_path ` set ss then [] else [p]) \<and>
    (distinct (map hs_path ss) \<longrightarrow>
     (\<forall>s' \<in> set ss'. if hs_path s' \<noteq> p then s' \<in> set ss
       else if p \<in> hs_path ` set ss then \<exists>s \<in> set ss. hs_path s = p \<and> hs_total_ms s' = hs_total_ms s + ms
       else hs_total_ms s' = ms))"
  using assms
proof (induction ss)
  case (Cons s ss)
  show ?case
  proof (cases "hs_path s = p")
    case True
    with Cons.prems show ?thesis by (auto simp: image_iff)
  next
    case False
    from Cons obtain ss' where ss': "hot_add p ms ss = Some ss'"
      "map hs_path ss' = map hs_path ss @ (if p \<in> hs_path ` set ss then [] else [p])"
      "distinct (map hs_path ss) \<longrightarrow>
       (\<forall>s' \<in> set ss'. if hs_path s' \<noteq> p then s' \<in> set ss
         else if p \<in> hs_path ` set ss then \<exists>s \<in> set ss. hs_path s = p \<and> hs_total_ms s' = hs_total_ms s + ms
         else hs_total_ms s' = ms)" by auto
    have "hot_add p ms (s # ss) = Some (s # ss')" using False ss'(1) by simp
    moreover have "map hs_path (s # ss') = map hs_path (s # ss) @ (if p \<in> hs_path ` set (s # ss) then [] else [p])"
      using False ss'(2) by auto
    moreover have "distinct (map hs_path (s # ss)) \<longrightarrow>
       (\<forall>s' \<in> set (s # ss'). if hs_path s' \<noteq> p then s' \<in> set (s # ss)
         else if p \<in> hs_path ` set (s # ss)
              then \<exists>s \<in> set (s # ss). hs_path s = p \<and> hs_total_ms s' = hs_total_ms s + ms
         else hs_total_ms s' = ms)"
      using False ss'(3) by (auto split: if_splits)
    ultimately show ?thesis by blast
  qed
qed simp

lemma hot_add_table:
  assumes "table_of rs ss" "weight (rs @ [(p, ms)]) \<le> LONG_MAX"
  shows "\<exists>ss'. hot_add p ms ss = Some ss' \<and> table_of (rs @ [(p, ms)]) ss'"
proof -
  have "long_range (total_of rs p + ms)"
    using weight_bounds [of "rs @ [(p, ms)]" p] assms(2)
    by (simp add: total_of_snoc long_range_def c_limits abs_le_iff)
  then have "\<forall>s \<in> set ss. hs_path s = p \<longrightarrow> long_range (hs_total_ms s + ms)"
    using assms(1) by (auto simp: table_of_def)
  from hot_add_spec [OF this] obtain ss' where a: "hot_add p ms ss = Some ss'"
    "map hs_path ss' = map hs_path ss @ (if p \<in> hs_path ` set ss then [] else [p])"
    "\<forall>s' \<in> set ss'. if hs_path s' \<noteq> p then s' \<in> set ss
       else if p \<in> hs_path ` set ss then \<exists>s \<in> set ss. hs_path s = p \<and> hs_total_ms s' = hs_total_ms s + ms
       else hs_total_ms s' = ms"
    using assms(1) unfolding table_of_def by blast
  have paths: "hs_path ` set ss' = insert p (hs_path ` set ss)"
    using arg_cong [OF a(2), of set] by (auto split: if_splits)
  have none: "total_of rs p = 0" if "p \<notin> hs_path ` set ss"
  proof -
    have "filter (\<lambda>r. fst r = p) rs = []" using that assms(1) by (auto simp: table_of_def filter_empty_conv)
    then show ?thesis by (simp add: total_of_def)
  qed
  have "distinct (map hs_path ss')" using a(2) assms(1) by (auto simp: table_of_def)
  moreover have "\<forall>s' \<in> set ss'. hs_total_ms s' = total_of (rs @ [(p, ms)]) (hs_path s')"
    using a(3) assms(1) none by (auto simp: table_of_def total_of_snoc split: if_splits)
  ultimately show ?thesis using a(1) paths assms(1) by (auto simp: table_of_def)
qed

lemma weight_append: "weight (rs @ qs) = weight rs + weight qs"
  by (simp add: weight_def)

lemma weight_nonneg: "0 \<le> weight rs"
  unfolding weight_def by (rule sum_list_nonneg) auto

lemma hot_collect_table:
  assumes "table_of rs ss" "weight (rs @ records_of threshold history) \<le> LONG_MAX"
  shows "\<exists>ss'. hot_collect threshold history ss = Some ss' \<and> table_of (rs @ records_of threshold history) ss'"
  using assms
proof (induction history arbitrary: rs ss)
  case (Cons line history)
  show ?case
  proof (cases "hot_record threshold line")
    case None
    with Cons show ?thesis by (simp add: records_of_def map_filter_simps)
  next
    case (Some r)
    obtain p ms where r: "r = (p, ms)" by fastforce
    have rec: "records_of threshold (line # history) = (p, ms) # records_of threshold history"
      using Some r by (simp add: records_of_def map_filter_simps)
    have "weight (rs @ [(p, ms)]) \<le> LONG_MAX"
      using Cons.prems(2) weight_nonneg [of "records_of threshold history"]
      by (simp add: rec weight_def)
    from hot_add_table [OF Cons.prems(1) this] obtain ss1 where s1: "hot_add p ms ss = Some ss1"
      "table_of (rs @ [(p, ms)]) ss1" by blast
    from Cons.IH [OF s1(2)] Cons.prems(2) s1(1) Some r show ?thesis by (simp add: rec)
  qed
qed (simp add: records_of_def map_filter_simps)

text \<open>Totals whose differences fit an int.\<close>

definition comparable :: "hot_script set \<Rightarrow> bool" where
  "comparable S \<longleftrightarrow> (\<forall>a \<in> S. \<forall>b \<in> S.
     INT_MIN \<le> hs_total_ms a - hs_total_ms b \<and> hs_total_ms a - hs_total_ms b \<le> INT_MAX)"

lemma compare_le:
  assumes "comparable S" "a \<in> S" "b \<in> S"
  shows "compare_hot_scripts a b \<le> 0 \<longleftrightarrow> hs_total_ms b \<le> hs_total_ms a"
proof -
  have "to_int (hs_total_ms b - hs_total_ms a) = hs_total_ms b - hs_total_ms a"
    using assms by (intro to_int_id) (auto simp: comparable_def)
  then show ?thesis by (simp add: compare_hot_scripts_def)
qed

interpretation hot_order: comparator compare_hot_scripts comparable
proof unfold_locales
  fix S :: "hot_script set" and a b c :: hot_script
  assume S: "comparable S" "a \<in> S" "b \<in> S"
  show "compare_hot_scripts a b \<le> 0 \<or> compare_hot_scripts b a \<le> 0"
    using compare_le [OF S] compare_le [OF S(1,3,2)] by linarith
  assume "c \<in> S" "compare_hot_scripts a b \<le> 0" "compare_hot_scripts b c \<le> 0"
  then show "compare_hot_scripts a c \<le> 0" using compare_le [OF S(1)] S by force
qed

lemma hot_rank_mset: "mset (hot_rank ss) = mset ss"
  by (simp add: hot_rank_def qsort_mset)

lemma hot_rank_sorted:
  assumes "comparable (set ss)" shows "sorted_wrt (\<lambda>a b. hs_total_ms b \<le> hs_total_ms a) (hot_rank ss)"
  using hot_order.qsort_sorted [OF assms] compare_le [OF assms]
  by (auto simp: hot_rank_def qsort_set intro: sorted_wrt_mono_rel [rotated])

text \<open>Beyond that the truncated difference has the wrong sign: the slower script comes last.\<close>

lemma hot_rank_wraps:
  "hot_rank [\<lparr>hs_path = a, hs_total_ms = 0, hs_count = 1\<rparr>, \<lparr>hs_path = b, hs_total_ms = 2147483648, hs_count = 1\<rparr>] =
     [\<lparr>hs_path = a, hs_total_ms = 0, hs_count = 1\<rparr>, \<lparr>hs_path = b, hs_total_ms = 2147483648, hs_count = 1\<rparr>]"
  by (simp add: hot_rank_def qsort_def compare_hot_scripts_def to_int_def)

text \<open>The command line fits the block allocated for it.\<close>

lemma hot_command_fits:
  "length (hot_command (Some f) p) + 1 \<le> length p + length f + 20"
  "length (hot_command None p) + 1 \<le> length p + 12"
  by (simp_all add: hot_command_def)

lemma execs_foldl: "w_execs (foldl (\<lambda>v s. execstring (f s) v) w ss) = w_execs w @ map f ss"
  by (induction ss arbitrary: w) simp_all

section \<open>Properties\<close>

text \<open>
  C29: source-hot hands zsh one zcompile command for each of the slowest scripts of the history:
  the ranking holds every path of a valid record once, with the exact sum of its times, in
  decreasing order of that sum, and is cut at the count asked for.  The sums fit a long and their
  differences an int.
\<close>

theorem source_hot_compiles_slowest:
  assumes "hot_args \<lparr>ho_count = 10, ho_threshold = 0, ho_zwc = None\<rparr> argv = Inr o1"
    "w_aparam w ''zsh_source_history'' = Some history"
    "weight (records_of (ho_threshold o1) history) \<le> LONG_MAX"
    "\<forall>p q. INT_MIN \<le> total_of (records_of (ho_threshold o1) history) p - total_of (records_of (ho_threshold o1) history) q \<and>
       total_of (records_of (ho_threshold o1) history) p - total_of (records_of (ho_threshold o1) history) q \<le> INT_MAX"
  shows "\<exists>(ranked :: hot_script list) w'. cmd_source_hot nam argv w = Some (0, w') \<and>
    distinct (map hs_path ranked) \<and>
    hs_path ` set ranked = fst ` set (records_of (ho_threshold o1) history) \<and>
    (\<forall>s \<in> set ranked. hs_total_ms s = total_of (records_of (ho_threshold o1) history) (hs_path s)) \<and>
    sorted_wrt (\<lambda>a b. hs_total_ms b \<le> hs_total_ms a) ranked \<and>
    w_execs w' = w_execs w @ map (\<lambda>s. hot_command (ho_zwc o1) (hs_path s))
      (take (hot_limit (ho_count o1) (length ranked)) ranked)"
proof -
  let ?rs = "records_of (ho_threshold o1) history"
  have "table_of [] []" by (simp add: table_of_def)
  from hot_collect_table [OF this, of "ho_threshold o1" history] assms(3) obtain ss where
    ss: "hot_collect (ho_threshold o1) history [] = Some ss" "table_of ?rs ss" by auto
  then have "comparable (set ss)" using assms(4) by (auto simp: comparable_def table_of_def)
  then have sorted: "sorted_wrt (\<lambda>a b. hs_total_ms b \<le> hs_total_ms a) (hot_rank ss)" by (rule hot_rank_sorted)
  have m: "mset (hot_rank ss) = mset ss" by (rule hot_rank_mset)
  have d: "distinct (map hs_path (hot_rank ss))"
  proof -
    have "mset (map hs_path (hot_rank ss)) = mset (map hs_path ss)" using m by simp
    then show ?thesis using ss(2) mset_eq_imp_distinct_iff unfolding table_of_def by blast
  qed
  have l: "length (hot_rank ss) = length ss" using m by (metis size_mset)
  show ?thesis
    using assms(1,2) ss sorted d mset_eq_setD [OF m] l
    by (intro exI [of _ "hot_rank ss"]) (simp add: cmd_source_hot_def execs_foldl table_of_def)
qed

theorem source_hot_compiles_slowest_witness:
  "let w = world0\<lparr>w_aparam := [''zsh_source_history'' \<mapsto> [''/a 5'', ''/b 7'', ''bad'', ''/a 4'']]\<rparr>
   in \<exists>(ranked :: hot_script list) w'. cmd_source_hot ''h'' [''-n'', ''1''] w = Some (0, w') \<and>
        hs_path ` set ranked = {''/a'', ''/b''} \<and> sorted_wrt (\<lambda>a b. hs_total_ms b \<le> hs_total_ms a) ranked \<and>
        w_execs w' = map (\<lambda>s. hot_command None (hs_path s)) (take (hot_limit 1 (length ranked)) ranked)"
proof -
  let ?w = "world0\<lparr>w_aparam := [''zsh_source_history'' \<mapsto> [''/a 5'', ''/b 7'', ''bad'', ''/a 4'']]\<rparr>"
  have a: "hot_args \<lparr>ho_count = 10, ho_threshold = 0, ho_zwc = None\<rparr> [''-n'', ''1''] =
      Inr \<lparr>ho_count = 1, ho_threshold = 0, ho_zwc = None\<rparr>" by code_simp
  have r: "records_of 0 [''/a 5'', ''/b 7'', ''bad'', ''/a 4''] = [(''/a'', 5), (''/b'', 7), (''/a'', 4)]"
    by code_simp
  have t: "total_of [(''/a'', 5), (''/b'', 7), (''/a'', 4)] p = (if p = ''/a'' then 9 else if p = ''/b'' then 7 else 0)" for p
    by (simp add: total_of_def)
  have h: "w_aparam ?w ''zsh_source_history'' = Some [''/a 5'', ''/b 7'', ''bad'', ''/a 4'']" "w_execs ?w = []"
    by (simp_all add: world0_def)
  have b: "\<forall>p q. INT_MIN \<le> total_of [(''/a'', 5), (''/b'', 7), (''/a'', 4)] p - total_of [(''/a'', 5), (''/b'', 7), (''/a'', 4)] q \<and>
      total_of [(''/a'', 5), (''/b'', 7), (''/a'', 4)] p - total_of [(''/a'', 5), (''/b'', 7), (''/a'', 4)] q \<le> INT_MAX"
    unfolding t by (simp add: c_limits)
  have c: "weight [(''/a'', 5), (''/b'', 7), (''/a'', 4)] \<le> LONG_MAX" by (simp add: weight_def c_limits)
  have f: "fst ` set [(''/a'', 5::int), (''/b'', 7), (''/a'', 4)] = {''/a'', ''/b''}" by auto
  from source_hot_compiles_slowest [OF a h(1), unfolded hot_opts.simps r f h(2) append_Nil, OF c b, of "''h''"]
  obtain ranked :: "hot_script list" and w' where "cmd_source_hot ''h'' [''-n'', ''1''] ?w = Some (0, w')"
    "hs_path ` set ranked = {''/a'', ''/b''}" "sorted_wrt (\<lambda>a b. hs_total_ms b \<le> hs_total_ms a) ranked"
    "w_execs w' = map (\<lambda>s. hot_command None (hs_path s)) (take (hot_limit 1 (length ranked)) ranked)"
    by (elim exE conjE) (rule that)
  then show ?thesis unfolding Let_def by (intro exI conjI)
qed

end
