(* ===== verification/Zp_Zpmod.thy ===== *)
theory Zp_Zpmod
  imports Zp_Commands Zp_Source Zp_Compaudit Zp_Rehash Zp_Bundle Zp_Fpath Zp_Hot
begin

text \<open>
  The builtin \<open>zpmod\<close> of \<open>src/builtins/zpmod_builtin.c\<close>: usage, version and the dispatch of its
  subcommands.  The state is the shell with the report table and the function table; what belongs
  to zsh, to the build or to other processes is collected in a record.  \<^const>\<open>None\<close> is a fault of
  the subcommand.
\<close>

section \<open>State and surroundings\<close>

record session =
  ss_shell :: shell
  ss_reports :: reports
  ss_shfunctab :: "(string \<rightharpoonup> string) option"

record surroundings =
  su_metafy :: "string \<Rightarrow> string"
  su_unmetafy :: "string \<Rightarrow> string"
  su_unmeta :: "string \<Rightarrow> string"
  su_later :: world
  su_sizeof_shfunc :: nat
  su_version :: string
  su_git :: string

text \<open>A subcommand that only works on the shell.\<close>

definition on_shell :: "(shell \<Rightarrow> int \<times> shell) \<Rightarrow> session \<Rightarrow> (int \<times> session) option" where
  "on_shell f s = (let (rc, sh) = f (ss_shell s) in Some (rc, s\<lparr>ss_shell := sh\<rparr>))"

definition on_shell_opt :: "(shell \<Rightarrow> (int \<times> shell) option) \<Rightarrow> session \<Rightarrow> (int \<times> session) option" where
  "on_shell_opt f s = map_option (\<lambda>(rc, sh). (rc, s\<lparr>ss_shell := sh\<rparr>)) (f (ss_shell s))"

section \<open>Usage\<close>

definition icon_book :: string where "icon_book = [CHR 0xF0, CHR 0x9F, CHR 0x93, CHR 0x98, CHR '' '']"
definition icon_tools :: string where "icon_tools = [CHR 0xF0, CHR 0x9F, CHR 0xA7, CHR 0xB0, CHR '' '']"
definition icon_gear :: string where
  "icon_gear = [CHR 0xE2, CHR 0x9A, CHR 0x99, CHR 0xEF, CHR 0xB8, CHR 0x8F, CHR '' '']"
definition icon_piece :: string where "icon_piece = [CHR 0xF0, CHR 0x9F, CHR 0xA7, CHR 0xA9, CHR '' '']"

text \<open>\<open>"  %-14s %s\n"\<close>\<close>

definition usage_row :: "string \<Rightarrow> string \<Rightarrow> string" where
  "usage_row label text_of =
     ''  '' @ label @ replicate (14 - length label) (CHR '' '') @ '' '' @ text_of @ [newline]"

definition zpmod_usage :: "'w world_scheme \<Rightarrow> 'w world_scheme" where
  "zpmod_usage w =
     (let w1 = emit_icon icon_book ('' Usage:'' @ [newline]) w;
          w2 = emit (concat (map (\<lambda>l. l @ [newline])
             [''  zpmod [--help|-h] [--version|-V]'',
              ''  zpmod report-append <plugin-id> <text>'',
              ''  zpmod source-study [-l] [--json] [count]'',
              ''  zpmod dir-list [-a] [-d|-f] out_array dir'',
              ''  zpmod path-stat [-L] [-f fields] out_array in_array'',
              ''  zpmod path-warmup [-q] [--prune-missing] [--dry-run]'',
              ''  zpmod compaudit-cache [--rebuild] [--show] [--json]'',
              ''  zpmod rehash-diff'',
              ''  zpmod bundle-build --from DIR --out FILE [--max KB]'',
              ''  zpmod read-file [-m] [-d delim|-0] var file'', []])) w1;
          w3 = emit_icon icon_tools ('' Subcommands:'' @ [newline]) w2;
          w4 = emit (usage_row ''report-append'' ''Append <text> to $ZI_REPORTS[<plugin-id>].'' @
                     usage_row ''source-study'' ''Show sourced files with durations (ms).'' @
                     usage_row ''dir-list'' ''List entries in directory into array.'' @
                     usage_row ''path-stat'' ''Batch stat for input array into output array.'' @
                     usage_row ''path-warmup'' ''Touch PATH dirs to warm kernel VFS caches.'' @
                     usage_row ''read-file'' ''Read file into scalar or split into array.'' @ [newline]) w3
      in emit_icon icon_gear ('' Options:'' @ [newline]) w4)"

section \<open>Arguments of the inline subcommands\<close>

record warmup_opts =
  wo_quiet :: bool
  wo_prune :: bool
  wo_dry :: bool

fun warmup_args :: "warmup_opts \<Rightarrow> string list \<Rightarrow> warmup_opts" where
  "warmup_args o1 [] = o1"
| "warmup_args o1 (a # argv) =
     (if a = ''-q'' \<or> a = ''--quiet'' then warmup_args (o1\<lparr>wo_quiet := True\<rparr>) argv
      else if a = ''--prune-missing'' then warmup_args (o1\<lparr>wo_prune := True\<rparr>) argv
      else if a = ''--dry-run'' then warmup_args (o1\<lparr>wo_dry := True\<rparr>) argv
      else o1)"

record audit_opts =
  ao_rebuild :: bool
  ao_show :: bool
  ao_json :: bool

fun audit_args :: "audit_opts \<Rightarrow> string list \<Rightarrow> audit_opts" where
  "audit_args o1 [] = o1"
| "audit_args o1 (a # argv) =
     (if a = ''--rebuild'' then audit_args (o1\<lparr>ao_rebuild := True\<rparr>) argv
      else if a = ''--show'' then audit_args (o1\<lparr>ao_show := True\<rparr>) argv
      else if a = ''--json'' then audit_args (o1\<lparr>ao_json := True\<rparr>) argv
      else o1)"

text \<open>\<open>ret\<close> and the diagnostics so far; an invalid \<open>--max\<close> does not end the loop.\<close>

record bundle_opts =
  bo_from :: "string option"
  bo_out :: "string option"
  bo_max :: int
  bo_ret :: int
  bo_msgs :: "string list"

definition bundle_max :: "string \<Rightarrow> int option" where
  "bundle_max a =
     (let (v, rest, erange) = strtol 10 a
      in if rest \<noteq> a \<and> rest = [] \<and> \<not> erange \<and> 0 \<le> v \<and> v \<le> ULONG_MAX div 1024 then Some v else None)"

fun bundle_args :: "bundle_opts \<Rightarrow> string list \<Rightarrow> bundle_opts" where
  "bundle_args o1 [] = o1"
| "bundle_args o1 (a # argv) =
     (if a = ''--from'' then
        (case argv of
           [] \<Rightarrow> o1\<lparr>bo_ret := 1, bo_msgs := bo_msgs o1 @ [''bundle-build: --from requires value'']\<rparr>
         | v # argv' \<Rightarrow> bundle_args (o1\<lparr>bo_from := Some v\<rparr>) argv')
      else if a = ''--out'' then
        (case argv of
           [] \<Rightarrow> o1\<lparr>bo_ret := 1, bo_msgs := bo_msgs o1 @ [''bundle-build: --out requires value'']\<rparr>
         | v # argv' \<Rightarrow> bundle_args (o1\<lparr>bo_out := Some v\<rparr>) argv')
      else if a = ''--max'' then
        (case argv of
           [] \<Rightarrow> o1\<lparr>bo_ret := 1, bo_msgs := bo_msgs o1 @ [''bundle-build: --max requires value'']\<rparr>
         | v # argv' \<Rightarrow>
             (case bundle_max v of
                Some n \<Rightarrow> bundle_args (o1\<lparr>bo_max := n\<rparr>) argv'
              | None \<Rightarrow> bundle_args (o1\<lparr>bo_ret := 1,
                  bo_msgs := bo_msgs o1 @ [''bundle-build: invalid --max value: '' @ v]\<rparr>) argv'))
      else o1)"

definition run_bundle :: "surroundings \<Rightarrow> string \<Rightarrow> string list \<Rightarrow> 'w world_scheme \<Rightarrow> int \<times> 'w world_scheme" where
  "run_bundle su nam argv w =
     (let o1 = bundle_args \<lparr>bo_from = None, bo_out = None, bo_max = 0, bo_ret = 0, bo_msgs = []\<rparr> argv;
          w1 = foldl (\<lambda>v m. zwarnnam nam m v) w (bo_msgs o1)
      in if bo_ret o1 = 0
         then zp_bundle_build_core (su_unmetafy su) (su_later su) nam (bo_from o1) (bo_out o1) (bo_max o1) w1
         else (bo_ret o1, w1))"

definition cmd_source_study :: "surroundings \<Rightarrow> string \<Rightarrow> string list \<Rightarrow> shell \<Rightarrow> int \<times> shell" where
  "cmd_source_study su nam argv sh =
     (case study_args \<lparr>so_full = False, so_json = False\<rparr> argv of
        Inl msg \<Rightarrow> (1, zwarnnam nam msg sh)
      | Inr (o1, rest) \<Rightarrow>
          (case study_count rest of
             Inl msg \<Rightarrow> (1, zwarnnam nam msg sh)
           | Inr n \<Rightarrow> zp_source_study_core (su_unmeta su) nam n (so_full o1) (so_json o1) sh))"

section \<open>Dispatch\<close>

definition dispatch ::
    "surroundings \<Rightarrow> string \<Rightarrow> string \<Rightarrow> string list \<Rightarrow> session \<Rightarrow> (int \<times> session) option" where
  "dispatch su nam subcmd argv s =
     (if subcmd = ''report-append'' then
        map_option (\<lambda>(rc, reps, sh). (rc, s\<lparr>ss_reports := reps, ss_shell := sh\<rparr>))
          (cmd_report_append (su_unmetafy su) nam argv (ss_reports s) (ss_shell s))
      else if subcmd = ''source-study'' then on_shell (cmd_source_study su nam argv) s
      else if subcmd = ''source-hot'' then on_shell_opt (cmd_source_hot nam argv) s
      else if subcmd = ''path-warmup'' then
        on_shell (\<lambda>sh.
          let o1 = warmup_args \<lparr>wo_quiet = False, wo_prune = False, wo_dry = False\<rparr> argv
          in (0, snd (zp_path_warmup_core (wo_quiet o1) (wo_prune o1) (wo_dry o1) sh))) s
      else if subcmd = ''fpath-index'' then
        (let (rc, ftab, sh) = cmd_fpath_index (su_sizeof_shfunc su) nam argv (ss_shfunctab s) (ss_shell s)
         in Some (rc, s\<lparr>ss_shfunctab := ftab, ss_shell := sh\<rparr>))
      else if subcmd = ''compaudit-cache'' then
        on_shell (\<lambda>sh.
          let o1 = audit_args \<lparr>ao_rebuild = False, ao_show = False, ao_json = False\<rparr> argv
          in zp_compaudit_cache_core nam (ao_rebuild o1) (ao_show o1) (ao_json o1) sh) s
      else if subcmd = ''rehash-diff'' then on_shell (zp_rehash_diff_core nam) s
      else if subcmd = ''bundle-build'' then on_shell (run_bundle su nam argv) s
      else if subcmd = ''dir-list'' then on_shell (cmd_dirlist (su_metafy su) (su_unmetafy su) nam argv) s
      else if subcmd = ''path-stat'' then
        on_shell_opt (cmd_pathstat (su_metafy su) (su_unmetafy su) nam argv) s
      else if subcmd = ''read-file'' then
        on_shell_opt (cmd_readfile (su_metafy su) (su_unmetafy su) nam argv) s
      else on_shell (\<lambda>sh. (0, zwarnnam nam (''unknown subcommand: '' @ subcmd @ ''. See -h.'') sh)) s)"

definition bin_zpmod ::
    "surroundings \<Rightarrow> string \<Rightarrow> string list \<Rightarrow> options \<Rightarrow> session \<Rightarrow> (int \<times> session) option" where
  "bin_zpmod su nam argv ops s =
     (if opt_isset ops CHR ''V'' \<or> (case argv of a # _ \<Rightarrow> a = ''--version'' \<or> a = ''-V'' | [] \<Rightarrow> False) then
        on_shell (\<lambda>sh. (0, emit_icon icon_piece
          (''zpmod '' @ su_version su @ '' (git: '' @ su_git su @ '')'' @ [newline]) sh)) s
      else if opt_isset ops CHR ''h'' then on_shell (\<lambda>sh. (0, zpmod_usage sh)) s
      else case argv of
             [] \<Rightarrow> on_shell (\<lambda>sh. (1, zwarnnam nam ''missing subcommand. See -h.'' sh)) s
           | subcmd # args \<Rightarrow> dispatch su nam subcmd args s)"

section \<open>Exit codes of the subcommands\<close>

named_theorems exit01 "commands that answer 0 or 1"

lemma study_exit [exit01]: "zp_source_study_core unmeta nam n full json sh = (rc, sh') \<Longrightarrow> rc = 0 \<or> rc = 1"
  by (auto simp: zp_source_study_core_def finish_report_def Let_def split: if_splits sum.splits)

lemma source_study_exit [exit01]: "cmd_source_study su nam argv sh = (rc, sh') \<Longrightarrow> rc = 0 \<or> rc = 1"
  by (auto simp: cmd_source_study_def split: sum.splits dest: study_exit)

lemma hot_exit [exit01]: "cmd_source_hot nam argv w = Some (rc, w') \<Longrightarrow> rc = 0 \<or> rc = 1"
  by (auto simp: cmd_source_hot_def split: sum.splits option.splits)

lemma fpath_exit [exit01]: "cmd_fpath_index sz nam argv ftab w = (rc, ftab', w') \<Longrightarrow> rc = 0 \<or> rc = 1"
  by (auto simp: cmd_fpath_index_def fpath_build_def Let_def
      split: option.splits if_splits sum.splits prod.splits)

lemma bundle_exit [exit01]: "zp_bundle_build_core un fs2 nam from_dir out m w = (rc, w') \<Longrightarrow> rc = 0 \<or> rc = 1"
  by (auto elim: core_cases)

lemma bundle_args_ret: "bo_ret o1 = 0 \<or> bo_ret o1 = 1 \<Longrightarrow> bo_ret (bundle_args o1 argv) = 0 \<or> bo_ret (bundle_args o1 argv) = 1"
  by (induction o1 argv rule: bundle_args.induct) (auto split: list.splits option.splits)

lemma run_bundle_exit [exit01]: "run_bundle su nam argv w = (rc, w') \<Longrightarrow> rc = 0 \<or> rc = 1"
  using bundle_args_ret [of "\<lparr>bo_from = None, bo_out = None, bo_max = 0, bo_ret = 0, bo_msgs = []\<rparr>" argv]
  by (auto simp: run_bundle_def Let_def split: if_splits dest: bundle_exit)

lemma dirlist_exit [exit01]: "cmd_dirlist metafy unmetafy nam argv w = (rc, w') \<Longrightarrow> rc = 0 \<or> rc = 1"
  by (auto simp: cmd_dirlist_def zp_dirlist_core_def split: prod.splits list.splits option.splits sum.splits)

lemma pathstat_loop_exit:
  "pathstat_loop metafy unmetafy nam outname follow flds idx ps w = Some (rc, w') \<Longrightarrow> rc = 0 \<or> rc = 1"
  by (induction metafy unmetafy nam outname follow flds idx ps w rule: pathstat_loop.induct)
    (auto split: option.splits)

lemma pathstat_exit [exit01]: "cmd_pathstat metafy unmetafy nam argv w = Some (rc, w') \<Longrightarrow> rc = 0 \<or> rc = 1"
  by (auto simp: cmd_pathstat_def zp_pathstat_core_def
      split: prod.splits list.splits option.splits sum.splits if_splits dest: pathstat_loop_exit)

lemma readfile_exit [exit01]: "cmd_readfile metafy unmetafy nam argv w = Some (rc, w') \<Longrightarrow> rc = 0 \<or> rc = 1"
  by (auto simp: cmd_readfile_def split: prod.splits list.splits sum.splits dest: readfile_failure)

lemma report_exit [exit01]:
  "cmd_report_append unmetafy nam argv reps w = Some (rc, reps', w') \<Longrightarrow> rc = 0 \<or> rc = 1"
  by (auto simp: cmd_report_append_def zp_append_report_def Let_def split: list.splits option.splits if_splits)

lemma compaudit_exit [exit01]: "zp_compaudit_cache_core nam rebuild show_it json w = (rc, w') \<Longrightarrow> rc = 0 \<or> rc = 1"
  by (auto simp: zp_compaudit_cache_core_def Let_def split: option.splits prod.splits if_splits)

lemma rehash_exit [exit01]: "zp_rehash_diff_core nam w = (rc, w') \<Longrightarrow> rc = 0 \<or> rc = 1"
  by (auto simp: zp_rehash_diff_core_def rh_write_def Let_def split: option.splits prod.splits if_splits sum.splits)

lemma dispatch_exit: "dispatch su nam subcmd argv s = Some (rc, s') \<Longrightarrow> rc = 0 \<or> rc = 1"
  by (auto simp: dispatch_def on_shell_def on_shell_opt_def Let_def split: if_splits prod.splits
      dest: exit01)

section \<open>Properties\<close>

lemma emit_icon_prints: "\<exists>out cached. emit_icon i t w = w\<lparr>w_out := w_out w @ out @ t, w_icons_cached := cached\<rparr>"
  by (intro exI [of _ "icon_text i w"] exI [of _ "fst (zp_icons_enabled w)"])
    (simp add: emit_icon_eq emit_def zp_icon_state)

lemma usage_prints:
  fixes w :: "'w world_scheme"
  shows "\<exists>out cached. zpmod_usage w = w\<lparr>w_out := w_out w @ out, w_icons_cached := cached\<rparr>"
proof -
  have step: "\<exists>out cached. f u = w\<lparr>w_out := w_out w @ out, w_icons_cached := cached\<rparr>"
    if a: "\<exists>out cached. u = w\<lparr>w_out := w_out w @ out, w_icons_cached := cached\<rparr>"
      and b: "\<And>v. \<exists>out cached. f v = v\<lparr>w_out := w_out v @ out, w_icons_cached := cached\<rparr>"
    for f and u :: "'w world_scheme"
  proof -
    obtain o1 c1 where u: "u = w\<lparr>w_out := w_out w @ o1, w_icons_cached := c1\<rparr>" using a by blast
    obtain o2 c2 where f: "f u = u\<lparr>w_out := w_out u @ o2, w_icons_cached := c2\<rparr>" using b by blast
    show ?thesis unfolding f by (intro exI [of _ "o1 @ o2"] exI [of _ c2]) (simp add: u)
  qed
  have icon: "\<exists>out cached. emit_icon i t v = v\<lparr>w_out := w_out v @ out, w_icons_cached := cached\<rparr>" for i t
    and v :: "'w world_scheme"
    using emit_icon_prints [of i t v] by blast
  have text_of: "\<exists>out cached. emit t v = v\<lparr>w_out := w_out v @ out, w_icons_cached := cached\<rparr>" for t
    and v :: "'w world_scheme"
    by (intro exI [of _ t] exI [of _ "w_icons_cached v"]) (simp add: emit_def)
  show ?thesis
    unfolding zpmod_usage_def Let_def
    by (intro step [where f = "emit_icon _ _"] step [where f = "emit _"] icon text_of)
qed

text \<open>An unknown subcommand is diagnosed, and the answer is 0.\<close>

lemma unknown_subcommand_answers_0:
  assumes "c \<notin> {''--version'', ''-V'', ''report-append'', ''source-study'', ''source-hot'', ''path-warmup'',
        ''fpath-index'', ''compaudit-cache'', ''rehash-diff'', ''bundle-build'', ''dir-list'', ''path-stat'',
        ''read-file''}"
  shows "bin_zpmod su nam (c # argv) (\<lambda>_. None) s =
        Some (0, s\<lparr>ss_shell := zwarnnam nam (''unknown subcommand: '' @ c @ ''. See -h.'') (ss_shell s)\<rparr>)"
  using assms by (simp add: bin_zpmod_def dispatch_def on_shell_def opt_isset_def)

text \<open>
  C39: Whatever its arguments, zpmod answers 0 or 1.  Asked for its version, with -V or --version in
  front, it prints it and answers 0, and asked for help it prints something and answers 0; further
  arguments are ignored, and but for the output nothing changes except the remembered choice
  whether icons are wanted.  Without a subcommand it answers 1 with a diagnostic and changes nothing.
\<close>

theorem bin_zpmod_exit_codes:
  "(\<forall>rc s'. bin_zpmod su nam argv ops s = Some (rc, s') \<longrightarrow> rc = 0 \<or> rc = 1) \<and>
   (opt_isset ops CHR ''V'' \<or> take 1 argv = [''--version''] \<or> take 1 argv = [''-V''] \<longrightarrow>
      (\<exists>out cached. bin_zpmod su nam argv ops s = Some (0, s\<lparr>ss_shell := (ss_shell s)
         \<lparr>w_out := w_out (ss_shell s) @ out @ ''zpmod '' @ su_version su @ '' (git: '' @ su_git su @ '')'' @ [newline],
          w_icons_cached := cached\<rparr>\<rparr>))) \<and>
   (opt_isset ops CHR ''h'' \<longrightarrow>
      (\<exists>out cached. bin_zpmod su nam argv ops s = Some (0, s\<lparr>ss_shell := (ss_shell s)
         \<lparr>w_out := w_out (ss_shell s) @ out, w_icons_cached := cached\<rparr>\<rparr>))) \<and>
   (\<not> opt_isset ops CHR ''V'' \<and> \<not> opt_isset ops CHR ''h'' \<longrightarrow>
      bin_zpmod su nam [] ops s =
        Some (1, s\<lparr>ss_shell := zwarnnam nam ''missing subcommand. See -h.'' (ss_shell s)\<rparr>))"
proof (intro conjI allI impI)
  fix rc s'
  assume "bin_zpmod su nam argv ops s = Some (rc, s')"
  then show "rc = 0 \<or> rc = 1"
    by (auto simp: bin_zpmod_def on_shell_def split: if_splits list.splits dest: dispatch_exit)
next
  let ?text = "''zpmod '' @ su_version su @ '' (git: '' @ su_git su @ '')'' @ [newline]"
  let ?V = "opt_isset ops CHR ''V'' \<or> (case argv of a # _ \<Rightarrow> a = ''--version'' \<or> a = ''-V'' | [] \<Rightarrow> False)"
  have V: "?V \<longleftrightarrow> opt_isset ops CHR ''V'' \<or> take 1 argv = [''--version''] \<or> take 1 argv = [''-V'']"
    by (cases argv) auto
  have version: "\<exists>out cached. bin_zpmod su nam argv ops s = Some (0, s\<lparr>ss_shell := (ss_shell s)
         \<lparr>w_out := w_out (ss_shell s) @ out @ ?text, w_icons_cached := cached\<rparr>\<rparr>)" if ?V
  proof -
    obtain out cached where e: "emit_icon icon_piece ?text (ss_shell s) =
        (ss_shell s)\<lparr>w_out := w_out (ss_shell s) @ out @ ?text, w_icons_cached := cached\<rparr>"
      using emit_icon_prints by blast
    have "bin_zpmod su nam argv ops s = Some (0, s\<lparr>ss_shell := emit_icon icon_piece ?text (ss_shell s)\<rparr>)"
      using that by (simp only: bin_zpmod_def if_True on_shell_def prod.case Let_def)
    then show ?thesis unfolding e by blast
  qed
  then show "opt_isset ops CHR ''V'' \<or> take 1 argv = [''--version''] \<or> take 1 argv = [''-V''] \<Longrightarrow>
      \<exists>out cached. bin_zpmod su nam argv ops s = Some (0, s\<lparr>ss_shell := (ss_shell s)
         \<lparr>w_out := w_out (ss_shell s) @ out @ ?text, w_icons_cached := cached\<rparr>\<rparr>)"
    unfolding V .
  assume h: "opt_isset ops CHR ''h''"
  show "\<exists>out cached. bin_zpmod su nam argv ops s = Some (0, s\<lparr>ss_shell := (ss_shell s)
         \<lparr>w_out := w_out (ss_shell s) @ out, w_icons_cached := cached\<rparr>\<rparr>)"
  proof (cases ?V)
    case True
    from version [OF this] show ?thesis by blast
  next
    case False
    then have "bin_zpmod su nam argv ops s = Some (0, s\<lparr>ss_shell := zpmod_usage (ss_shell s)\<rparr>)"
      using h by (simp only: bin_zpmod_def if_True if_False on_shell_def prod.case Let_def)
    moreover obtain out cached where "zpmod_usage (ss_shell s) =
        (ss_shell s)\<lparr>w_out := w_out (ss_shell s) @ out, w_icons_cached := cached\<rparr>"
      using usage_prints [of "ss_shell s"] by blast
    ultimately show ?thesis by (intro exI [of _ out] exI [of _ cached]) simp
  qed
next
  assume "\<not> opt_isset ops CHR ''V'' \<and> \<not> opt_isset ops CHR ''h''"
  then show "bin_zpmod su nam [] ops s =
        Some (1, s\<lparr>ss_shell := zwarnnam nam ''missing subcommand. See -h.'' (ss_shell s)\<rparr>)"
    by (simp add: bin_zpmod_def on_shell_def)
qed

definition session0 :: session where
  "session0 = \<lparr>ss_shell = shell0, ss_reports = None, ss_shfunctab = None\<rparr>"

definition surroundings0 :: surroundings where
  "surroundings0 = \<lparr>su_metafy = id, su_unmetafy = id, su_unmeta = id, su_later = world0,
     su_sizeof_shfunc = 64, su_version = ''1'', su_git = ''x''\<rparr>"

theorem bin_zpmod_exit_codes_witness:
  "bin_zpmod surroundings0 ''zpmod'' [] (\<lambda>_. None) session0 =
     Some (1, session0\<lparr>ss_shell := zwarnnam ''zpmod'' ''missing subcommand. See -h.'' shell0\<rparr>) \<and>
   (\<exists>out cached. bin_zpmod surroundings0 ''zpmod'' [''-V'', ''rehash-diff''] (\<lambda>_. None) session0 =
     Some (0, session0\<lparr>ss_shell := shell0\<lparr>w_out := out @ ''zpmod 1 (git: x)'' @ [newline], w_icons_cached := cached\<rparr>\<rparr>))"
proof -
  have n: "\<not> opt_isset (\<lambda>_. None) c" for c by (simp add: opt_isset_def)
  have o: "w_out shell0 = []" "ss_shell session0 = shell0"
    by (simp_all add: session0_def shell0_def world.defs world0_def)
  have "take 1 [''-V'', ''rehash-diff''] = [''-V'']" by simp
  then show ?thesis
    using bin_zpmod_exit_codes [of surroundings0 "''zpmod''" "[''-V'', ''rehash-diff'']" "\<lambda>_. None" session0] n
    by (simp add: o surroundings0_def)
qed

end
