(* ===== verification/Zp_Session.thy ===== *)
theory Zp_Session
  imports Zp_Zpmod
begin

text \<open>
  A session: the user's commands in any order, between them the shell does what it likes except
  touch the static state of the module.  The frame lemmas say that no command other than sourcing
  touches the shell's own part of the state, of which the profile is one field; the invariant of
  the step relation then follows the events from the script that was sourced to the report that is
  printed.
\<close>

section \<open>Frame\<close>

text \<open>\<open>world.more\<close> is the part of a shell outside the world: every field of \<^typ>\<open>shell\<close> that is
  not one of \<^typ>\<open>world\<close>.\<close>

named_theorems frame "calls that keep the part of the state outside the world"
named_theorems framed "the same of calls that return a result with the state"

lemma more_output [frame]:
  "world.more (emit t w) = world.more w" "world.more (zwarnnam nam m w) = world.more w"
  "world.more (emit_err t w) = world.more w" "world.more (execstring c w) = world.more w"
  by (simp_all add: emit_def zwarnnam_def emit_err_def execstring_def)

lemma more_params [frame]:
  "world.more (unsetparam n w) = world.more w" "world.more (setaparam n vs w) = world.more w"
  "world.more (setsparam n v w) = world.more w"
  by (simp_all add: unsetparam_def setaparam_def setsparam_def pcall_do_def)

lemma more_icons [frame]:
  "world.more (snd (zp_icon i w)) = world.more w" "world.more (warn_icon nam i m w) = world.more w"
  "world.more (emit_icon i m w) = world.more w"
  by (simp_all add: zp_icon_state warn_icon_def emit_icon_def split_beta more_output)

lemma more_files [frame]:
  "world.more (set_node p st w) = world.more w" "world.more (set_data p t w) = world.more w"
  "world.more (write_file p t w) = world.more w"
  by (simp_all add: set_node_def set_data_def write_file_def split: sum.splits)

lemma more_mkdir [framed]: "sys_mkdir p m w = Inr w' \<Longrightarrow> world.more w' = world.more w"
  by (auto simp: sys_mkdir_def frame split: if_splits)

lemma more_unlink [framed]: "sys_unlink p w = Inr w' \<Longrightarrow> world.more w' = world.more w"
  by (auto simp: sys_unlink_def split: sum.splits if_splits)

lemma more_mkstemp [framed]: "sys_mkstemp t w = Inr (p, w') \<Longrightarrow> world.more w' = world.more w"
  by (auto simp: sys_mkstemp_def frame split: sum.splits)

lemma more_rename [framed]: "sys_rename p q w = Inr w' \<Longrightarrow> world.more w' = world.more w"
  by (auto simp: sys_rename_def split: sum.splits if_splits)

lemma more_fopen [framed]: "zp_fopen_write_nofollow p m b w = (r, w') \<Longrightarrow> world.more w' = world.more w"
  by (auto simp: zp_fopen_write_nofollow_def sys_open_create_def sys_fchmod_def sys_ftruncate0_def frame
      split: sum.splits if_splits)

subsection \<open>Commands\<close>

lemma more_pathstat [framed]:
  "pathstat_loop metafy unmetafy nam outname follow flds idx ps w = Some (rc, w') \<Longrightarrow> world.more w' = world.more w"
  by (induction metafy unmetafy nam outname follow flds idx ps w rule: pathstat_loop.induct)
    (auto simp: frame split: option.splits)

lemma more_pathstat_core [framed]:
  "zp_pathstat_core metafy unmetafy nam out inp follow flds w = Some (rc, w') \<Longrightarrow> world.more w' = world.more w"
  by (auto simp: zp_pathstat_core_def frame split: option.splits if_splits dest!: more_pathstat)

lemma more_dirlist [frame]:
  "world.more (dirlist_loop metafy outname a d f udir idx names w) = world.more w"
  by (induction metafy outname a d f udir idx names w rule: dirlist_loop.induct) (auto simp: frame)

lemma more_dirlist_core [framed]:
  "zp_dirlist_core metafy unmetafy nam out dir a d f w = (rc, w') \<Longrightarrow> world.more w' = world.more w"
  by (auto simp: zp_dirlist_core_def frame split: option.splits sum.splits prod.splits)

lemma more_warmup [frame]: "world.more (snd (zp_path_warmup_core quiet prune dry w)) = world.more w"
  by (auto simp: zp_path_warmup_core_def prune_path_def Let_def frame split: option.splits list.splits)

lemma more_store [framed]: "store_records metafy outname idx rs w = Some w' \<Longrightarrow> world.more w' = world.more w"
  by (induction metafy outname idx rs w rule: store_records.induct) (auto simp: frame split: option.splits)

lemma more_finish_read [framed]:
  "finish_read metafy outname m s d k buf cap w = Some (rc, w') \<Longrightarrow> world.more w' = world.more w"
  by (auto simp: finish_read_def Let_def frame split: option.splits if_splits dest!: more_store)

lemma more_readfile [framed]:
  "zp_readfile_core metafy unmetafy nam outname path m s d w = Some (rc, w') \<Longrightarrow> world.more w' = world.more w"
  by (auto simp: zp_readfile_core_def Let_def frame dest: more_finish_read
      split: option.splits sum.splits if_splits read_result.splits)

lemma more_store_record [framed]: "store_record o1 nm i line w = Some w' \<Longrightarrow> world.more w' = world.more w"
  by (auto simp: store_record_def pcall_do_def Let_def frame split: option.splits if_splits)

lemma more_lines [framed]: "line_loop o1 nm skip i ls w = Some w' \<Longrightarrow> world.more w' = world.more w"
  by (induction o1 nm skip i ls w rule: line_loop.induct)
    (auto split: option.splits if_splits dest: more_store_record)

lemma more_delims [framed]: "delim_loop o1 nam nm skip i buf cap cs w = Some w' \<Longrightarrow> world.more w' = world.more w"
  by (induction o1 nam nm skip i buf cap cs w rule: delim_loop.induct)
    (auto simp: pcall_do_def Let_def frame split: option.splits if_splits dest: more_store_record)

lemma more_readarray [framed]:
  "bin_zpreadarray hg descr nam argv ops w = Some (rc, w') \<Longrightarrow> world.more w' = world.more w"
  by (auto simp: bin_zpreadarray_def read_records_def Let_def frame dest!: more_lines more_delims
      split: sum.splits list.splits if_splits)

lemma more_hot [framed]: "cmd_source_hot nam argv w = Some (rc, w') \<Longrightarrow> world.more w' = world.more w"
proof -
  have "world.more (foldl (\<lambda>v s. execstring (hot_command z (hs_path s)) v) w ss) = world.more w"
    for z and ss :: "hot_script list"
    by (induction ss arbitrary: w) (simp_all add: frame)
  then show "cmd_source_hot nam argv w = Some (rc, w') \<Longrightarrow> world.more w' = world.more w"
    by (auto simp: cmd_source_hot_def frame split: sum.splits option.splits)
qed

lemma more_fpath [framed]: "cmd_fpath_index sz nam argv t w = (rc, t', w') \<Longrightarrow> world.more w' = world.more w"
  by (auto simp: cmd_fpath_index_def fpath_build_def Let_def frame dest!: more_fopen
      split: option.splits prod.splits sum.splits if_splits)

lemma more_report [framed]:
  "cmd_report_append unmetafy nam argv reps w = Some (rc, reps', w') \<Longrightarrow> world.more w' = world.more w"
  by (auto simp: cmd_report_append_def zp_append_report_def Let_def frame
      split: list.splits option.splits if_splits)

lemma more_rehash [framed]: "zp_rehash_diff_core nam w = (rc, w') \<Longrightarrow> world.more w' = world.more w"
proof -
  have dir: "zp_rh_dir nam w = (d, w1) \<Longrightarrow> world.more w1 = world.more w" for d w1
    by (auto simp: zp_rh_dir_def Let_def frame dest: more_mkdir split: option.splits if_splits sum.splits)
  have path_of: "zp_rh_file nam w = (d, w1) \<Longrightarrow> world.more w1 = world.more w" for d w1
    by (auto simp: zp_rh_file_def dest: dir split: prod.splits option.splits if_splits)
  have wr: "rh_write nam f ps v = (r, v1) \<Longrightarrow> world.more v1 = world.more v" for f ps v r and v1 :: "'a world_scheme"
    by (auto simp: rh_write_def frame dest!: more_fopen split: prod.splits sum.splits)
  show "zp_rehash_diff_core nam w = (rc, w') \<Longrightarrow> world.more w' = world.more w"
    by (auto simp: zp_rehash_diff_core_def rh_report_def Let_def frame dest!: path_of wr
        split: prod.splits option.splits if_splits)
qed

lemma more_publish [framed]: "bundle_publish fs2 nam output es m w = (r, w') \<Longrightarrow> world.more w' = world.more w"
proof -
  have ab: "world.more (snd (abandon p e v)) = world.more v" for p e and v :: "'a world_scheme"
    by (auto simp: abandon_def dest: more_unlink split: sum.splits)
  have ab2: "abandon p e v = (r, v') \<Longrightarrow> world.more v' = world.more v" for p e r and v v' :: "'a world_scheme"
    using ab [of p e v] by simp
  show "bundle_publish fs2 nam output es m w = (r, w') \<Longrightarrow> world.more w' = world.more w"
    by (auto simp: bundle_publish_def Let_def frame dest!: more_mkstemp ab2 more_rename
        split: sum.splits option.splits if_splits prod.splits)
qed

lemma more_bundle [framed]: "zp_bundle_build_core un fs2 nam f out m w = (rc, w') \<Longrightarrow> world.more w' = world.more w"
  by (auto simp: zp_bundle_build_core_def bundle_run_def Let_def frame dest!: more_publish
      split: sum.splits option.splits if_splits prod.splits)

lemma more_run_bundle [framed]: "run_bundle su nam argv w = (rc, w') \<Longrightarrow> world.more w' = world.more w"
proof -
  have "world.more (foldl (\<lambda>v m. zwarnnam nam m v) w ms) = world.more w" for ms
    by (induction ms arbitrary: w) (simp_all add: frame)
  then show "run_bundle su nam argv w = (rc, w') \<Longrightarrow> world.more w' = world.more w"
    by (auto simp: run_bundle_def Let_def dest!: more_bundle split: if_splits)
qed

lemma more_learned: assumes "learned w w'" shows "world.more w' = world.more w"
proof -
  have "w' = w\<lparr>w_exe_owner := w_exe_owner w'\<rparr>" using assms by (simp add: learned_def)
  then have "world.more w' = world.more (w\<lparr>w_exe_owner := w_exe_owner w'\<rparr>)" by simp
  then show ?thesis by simp
qed

lemma more_cc_write [framed]: "cc_write verb nam p ps w = (r, w') \<Longrightarrow> world.more w' = world.more w"
  by (auto simp: cc_write_def Let_def frame dest!: more_fopen cc_audit_all_policy
      dest: more_learned split: prod.splits sum.splits)

lemma more_cc_output [frame]: "world.more (cc_output sh js n es w) = world.more w"
  using more_learned [OF json_dirs_learned [of w "w_euid w" True es]]
  by (auto simp: cc_output_def frame split: prod.splits)

lemma more_compaudit [framed]: "zp_compaudit_cache_core nam r sh js w = (rc, w') \<Longrightarrow> world.more w' = world.more w"
proof -
  have dir: "zp_cc_ensure_dir nam w = (d, w1) \<Longrightarrow> world.more w1 = world.more w" for d w1
    by (auto simp: zp_cc_ensure_dir_def Let_def frame dest: more_mkdir split: option.splits if_splits sum.splits)
  have path_of: "zp_cc_cache_file_path nam w = (d, w1) \<Longrightarrow> world.more w1 = world.more w" for d w1
    by (auto simp: zp_cc_cache_file_path_def dest: dir split: prod.splits option.splits if_splits)
  have mig: "cc_migrate p v = (b, v') \<Longrightarrow> world.more v' = world.more v" for p b and v v' :: "'a world_scheme"
    by (auto simp: cc_migrate_def dest: more_unlink split: sum.splits option.splits if_splits)
  have cache: "cc_have_cache nam p v = (b, v') \<Longrightarrow> world.more v' = world.more v" for p b and v v' :: "'a world_scheme"
    by (auto simp: cc_have_cache_def zp_cc_incremental_update_def dest!: validate_policy more_cc_write
        dest: more_learned split: prod.splits option.splits bool.splits)
  show "zp_compaudit_cache_core nam r sh js w = (rc, w') \<Longrightarrow> world.more w' = world.more w"
    by (auto simp: zp_compaudit_cache_core_def zp_cc_rebuild_def Let_def frame
        dest!: path_of mig cache more_cc_write split: prod.splits option.splits if_splits)
qed

lemma more_try_emit:
  "try_emit t w = Inr w' \<Longrightarrow> world.more w' = world.more w" "try_emit t w = Inl w' \<Longrightarrow> world.more w' = world.more w"
  by (auto simp: try_emit_def emit_def split: option.splits if_splits)

lemma more_study_events:
  "study_events um js fp tbl ids n sh = Inr sh' \<Longrightarrow> world.more sh' = world.more sh"
  "study_events um js fp tbl ids n sh = Inl sh' \<Longrightarrow> world.more sh' = world.more sh"
proof (induction um js fp tbl ids n sh rule: study_events.induct)
  case (2 um js fp tbl idx ids n sh)
  have icon: "zp_icon i sh = (ic, sh1) \<Longrightarrow> world.more sh1 = world.more sh" for i ic sh1
    using more_icons(1) [of i sh] by simp
  {
    case 1
    then show ?case using 2 by (auto simp: Let_def dest!: more_try_emit icon
        split: option.splits prod.splits sum.splits if_splits)
  next
    case 2
    then show ?case using "2.IH" by (auto simp: Let_def dest!: more_try_emit icon
        split: option.splits prod.splits sum.splits if_splits)
  }
qed simp_all

lemma more_study [framed]: "zp_source_study_core um nam n fp js sh = (rc, sh') \<Longrightarrow> world.more sh' = world.more sh"
  by (auto simp: zp_source_study_core_def finish_report_def Let_def frame dest!: more_try_emit more_study_events
      split: sum.splits if_splits)

lemma more_source_study [framed]: "cmd_source_study su nam argv sh = (rc, sh') \<Longrightarrow> world.more sh' = world.more sh"
  by (auto simp: cmd_source_study_def frame dest!: more_study split: sum.splits prod.splits)

lemma more_cmd_dirlist [framed]:
  "cmd_dirlist metafy unmetafy nam argv w = (rc, w') \<Longrightarrow> world.more w' = world.more w"
  by (auto simp: cmd_dirlist_def frame dest!: more_dirlist_core split: prod.splits list.splits)

lemma more_cmd_pathstat [framed]:
  "cmd_pathstat metafy unmetafy nam argv w = Some (rc, w') \<Longrightarrow> world.more w' = world.more w"
  by (auto simp: cmd_pathstat_def frame dest!: more_pathstat_core split: sum.splits prod.splits list.splits)

lemma more_cmd_readfile [framed]:
  "cmd_readfile metafy unmetafy nam argv w = Some (rc, w') \<Longrightarrow> world.more w' = world.more w"
  by (auto simp: cmd_readfile_def frame dest!: more_readfile split: sum.splits prod.splits list.splits)

text \<open>A subcommand keeps every field of the shell that is not one of the world.\<close>

lemma more_dispatch: "dispatch su nam c argv s = Some (rc, s') \<Longrightarrow> world.more (ss_shell s') = world.more (ss_shell s)"
  by (auto simp: dispatch_def on_shell_def on_shell_opt_def Let_def frame dest!: framed
      split: if_splits prod.splits)

lemma more_zpmod: "bin_zpmod su nam argv ops s = Some (rc, s') \<Longrightarrow> world.more (ss_shell s') = world.more (ss_shell s)"
  by (auto simp: bin_zpmod_def on_shell_def zpmod_usage_def Let_def frame dest: more_dispatch
      split: if_splits list.splits)

lemma profile_of_more: "world.more sh' = world.more sh \<Longrightarrow> sh_profile sh' = sh_profile (sh :: shell)"
  by (cases sh; cases sh') simp

lemma more_builtins [framed]:
  "bin_zppathstat metafy unmetafy nam argv ops w = Some (rc, w') \<Longrightarrow> world.more w' = world.more w"
  "bin_zpdirlist metafy unmetafy nam argv ops w = (rc, w') \<Longrightarrow> world.more w' = world.more w"
  "bin_zpreadfile metafy unmetafy nam argv ops w = Some (rc, w') \<Longrightarrow> world.more w' = world.more w"
  by (auto simp: bin_zppathstat_def bin_zpdirlist_def bin_zpreadfile_def Let_def frame
      dest!: more_pathstat_core more_dirlist_core more_readfile split: list.splits prod.splits if_splits)

section \<open>Steps\<close>

text \<open>The builtins of the module that work on the shell alone.\<close>

inductive builtin_call :: "surroundings \<Rightarrow> callbacks \<Rightarrow> shell \<Rightarrow> shell \<Rightarrow> bool" for su cb where
  dot: "bin_custom_dot cb name argv sh = Some (rc, sh') \<Longrightarrow> builtin_call su cb sh sh'"
| pathstat: "bin_zppathstat (su_metafy su) (su_unmetafy su) nam argv ops sh = Some (rc, sh') \<Longrightarrow> builtin_call su cb sh sh'"
| dirlist: "bin_zpdirlist (su_metafy su) (su_unmetafy su) nam argv ops sh = (rc, sh') \<Longrightarrow> builtin_call su cb sh sh'"
| readfile: "bin_zpreadfile (su_metafy su) (su_unmetafy su) nam argv ops sh = Some (rc, sh') \<Longrightarrow> builtin_call su cb sh sh'"
| readarray: "bin_zpreadarray have_getline descr nam argv ops sh = Some (rc, sh') \<Longrightarrow> builtin_call su cb sh sh'"

text \<open>A command of the user; or whatever the shell does by itself, which leaves the module's
  profile alone.\<close>

inductive session_step :: "surroundings \<Rightarrow> callbacks \<Rightarrow> session \<Rightarrow> session \<Rightarrow> bool" for su cb where
  zpmod: "bin_zpmod su nam argv ops s = Some (rc, s') \<Longrightarrow> session_step su cb s s'"
| call: "builtin_call su cb (ss_shell s) sh \<Longrightarrow> session_step su cb s (s\<lparr>ss_shell := sh\<rparr>)"
| shell: "sh_profile (ss_shell s') = sh_profile (ss_shell s) \<Longrightarrow> session_step su cb s s'"

inductive_cases session_step_cases: "session_step su cb s s'"

text \<open>What a command does to the profile: its books stay in order and its depth is what it was.\<close>

definition profile_step :: "shell \<Rightarrow> shell \<Rightarrow> bool" where
  "profile_step sh sh' \<longleftrightarrow> keeps_books sh sh' \<and>
     zp_source_depth (sh_profile sh') = zp_source_depth (sh_profile sh)"

lemma profile_step_same: "sh_profile sh' = sh_profile sh \<Longrightarrow> profile_step sh sh'"
  by (simp add: profile_step_def keeps_books_same)

lemma profile_step_trans: "profile_step a b \<Longrightarrow> profile_step b c \<Longrightarrow> profile_step a c"
  by (auto simp: profile_step_def dest: keeps_books_trans)

text \<open>What the module asks of zsh over a session: its callbacks are well behaved, keep the books,
  and report an error without touching the profile.\<close>

definition session_callbacks :: "callbacks \<Rightarrow> bool" where
  "session_callbacks cb \<longleftrightarrow> well_behaved cb \<and> bookkeeping_callbacks cb \<and>
     (\<forall>nam msg sh. sh_profile (cb_zerrnam cb nam msg sh) = sh_profile sh)"

lemma profile_step_source:
  assumes "session_callbacks cb" "custom_source cb so sh = Some (ret, sh')"
  shows "profile_step sh sh'"
  using assms sourcing_keeps_books custom_source_frame
  by (fastforce simp: session_callbacks_def profile_step_def stacks_of_iff)

lemma profile_step_attempts:
  assumes cb: "session_callbacks cb" and d: "dot_attempts cb name arg0 sh = Some (ret, enam, sh')"
  shows "profile_step sh sh'"
proof -
  have maybe: "(if c then custom_source cb so v else Some (SOURCE_NOT_FOUND, v)) = Some (r, v') \<Longrightarrow> profile_step v v'"
    for c so v r v'
    using profile_step_source [OF cb] profile_step_same by (auto split: if_splits)
  obtain ret1 sh1 where 1: "(if take 1 name \<noteq> ''.'' \<and> sourceable sh (cb_unmeta cb arg0)
      then custom_source cb (Some arg0) sh else Some (SOURCE_NOT_FOUND, sh)) = Some (ret1, sh1)"
    and one: "profile_step sh sh1"
    using d maybe by (fastforce simp: dot_attempts_def Let_def split: option.splits)
  have "profile_step sh1 sh'"
  proof (cases "ret1 = SOURCE_NOT_FOUND")
    case True
    then obtain ret2 sh2 where 2: "(if slash \<in> set arg0 then custom_source cb (Some arg0) sh1
        else Some (SOURCE_NOT_FOUND, sh1)) = Some (ret2, sh2)"
      using d 1 by (fastforce simp: dot_attempts_def Let_def split: option.splits)
    have "profile_step sh2 sh'"
      using d 1 2 True profile_step_source [OF cb] profile_step_same
      by (auto simp: dot_attempts_def Let_def split: option.splits if_splits)
    with maybe [OF 2] show ?thesis by (rule profile_step_trans)
  next
    case False
    then show ?thesis using d 1 profile_step_same by (auto simp: dot_attempts_def Let_def)
  qed
  with one show ?thesis by (rule profile_step_trans)
qed

lemma profile_step_dot:
  assumes cb: "session_callbacks cb" and d: "bin_custom_dot cb name argv sh = Some (rc, sh')"
  shows "profile_step sh sh'"
proof (cases argv)
  case (Cons arg0 args)
  then obtain ret enam sh3 where 3: "dot_attempts cb name arg0 (during_dot arg0 args sh) = Some (ret, enam, sh3)"
    and p: "sh_profile sh' = sh_profile sh3"
    using d cb by (auto simp: bin_custom_dot_during Let_def session_callbacks_def zwarnnam_def split: option.splits)
  have "sh_profile (during_dot arg0 args sh) = sh_profile sh" by (simp add: during_dot_def Let_def)
  then show ?thesis
    using profile_step_attempts [OF cb 3] p by (metis profile_step_same profile_step_trans)
qed (use d in \<open>simp add: bin_custom_dot_def profile_step_same\<close>)

lemma profile_step_call:
  assumes "session_callbacks cb" "builtin_call su cb sh sh'"
  shows "profile_step sh sh'"
  using assms(2)
  by (cases rule: builtin_call.cases)
    (auto intro: profile_step_dot [OF assms(1)] profile_step_same profile_of_more dest: framed)

lemma profile_step_session:
  assumes "session_callbacks cb" "session_step su cb s s'"
  shows "profile_step (ss_shell s) (ss_shell s')"
  using assms(2)
  by (cases rule: session_step.cases)
    (auto intro: profile_step_call [OF assms(1)] profile_step_same profile_of_more dest: more_zpmod)

lemma profile_step_reachable:
  assumes "session_callbacks cb" "(session_step su cb)\<^sup>*\<^sup>* s0 s"
  shows "profile_step (ss_shell s0) (ss_shell s)"
  using assms(2)
proof (induction rule: rtranclp_induct)
  case base
  show ?case by (rule profile_step_same) simp
next
  case (step s s')
  then show ?case using profile_step_session [OF assms(1)] profile_step_trans by blast
qed

section \<open>Properties\<close>

lemma session_report:
  assumes ok: "prof_ok (sh_profile (ss_shell s))"
    and complete: "zp_source_events (sh_profile (ss_shell s)) \<noteq> None" "\<not> zp_profile_incomplete (sh_profile (ss_shell s))"
    and out: "w_out_room (ss_shell s) = None" "w_flush_ok (ss_shell s)"
  shows "\<exists>s'. bin_zpmod su nam [''source-study'', ''--json''] (\<lambda>_. None) s = Some (0, s') \<and>
     w_out (ss_shell s') = w_out (ss_shell s) @ json_document (su_unmeta su) 0 (sh_profile (ss_shell s))"
proof -
  obtain rc sh where r: "zp_source_study_core (su_unmeta su) nam 0 False True (ss_shell s) = (rc, sh)" by fastforce
  have "cmd_source_study su nam [''--json''] (ss_shell s) = (rc, sh)"
    by (simp add: cmd_source_study_def study_count_def r)
  then have "bin_zpmod su nam [''source-study'', ''--json''] (\<lambda>_. None) s = Some (rc, s\<lparr>ss_shell := sh\<rparr>)"
    by (simp add: bin_zpmod_def dispatch_def on_shell_def opt_isset_def)
  with study_json_document [OF ok r] complete out show ?thesis by simp
qed

text \<open>
  C2: Whatever the user does in a session, in any order (subcommands of zpmod, the builtins, sourced
  scripts, anything of the shell's own), the profile stays sound: no recorded event is lost, renumbered
  or changed, the table holds exactly the events 1 to the count, a mark of incompleteness stays, and
  the nesting depth is back where it was.  At any point \<open>zpmod source-study --json\<close> then
  reports exactly the recorded events, if none was lost and the output takes them.
\<close>

theorem session_events_reported:
  assumes "session_callbacks cb" "prof_ok (sh_profile (ss_shell s0))" "(session_step su cb)\<^sup>*\<^sup>* s0 s"
  shows "let p0 = sh_profile (ss_shell s0); p = sh_profile (ss_shell s)
    in later p0 p \<and> prof_ok p \<and> zp_source_depth p = zp_source_depth p0 \<and>
       (zp_source_events p \<noteq> None \<and> \<not> zp_profile_incomplete p \<and>
          w_out_room (ss_shell s) = None \<and> w_flush_ok (ss_shell s) \<longrightarrow>
        (\<exists>s'. bin_zpmod su nam [''source-study'', ''--json''] (\<lambda>_. None) s = Some (0, s') \<and>
           w_out (ss_shell s') = w_out (ss_shell s) @ json_document (su_unmeta su) 0 p))"
  using profile_step_reachable [OF assms(1,3)] assms(2) session_report [of s su nam]
  by (simp add: profile_step_def keeps_books_def Let_def)

text \<open>A session that sources a script and asks for something unknown.\<close>

lemma cb_example_session: "session_callbacks cb_example"
  using cb_example_ok by (simp add: session_callbacks_def cb_example_def)

lemma shell0_output: "w_out_room shell0 = None" "w_flush_ok shell0"
  by (simp_all add: shell0_def world0_def world.defs)

lemma dot_example:
  "\<exists>out. bin_custom_dot cb_example ''.'' [''./a''] shell0 = Some (3, out) \<and>
     \<not> zp_profile_incomplete (sh_profile out) \<and> w_out_room out = None \<and> w_flush_ok out"
proof -
  obtain out where o: "custom_source cb_example (Some ''./a'') shell0 = Some (SOURCE_OK, out)"
    "sh_lastval out = 3" "\<not> zp_profile_incomplete (sh_profile out)" "w_out_room out = None" "w_flush_ok out"
    using one_source_example [of shell0 "''./a''"]
    by (auto simp: shell0_simps shell0_output has_suffix_def FD_EXT_def)
  moreover have "during_dot ''./a'' [] shell0 = shell0"
    by (simp add: during_dot_def Let_def opt_set_def shell0_def world.defs)
  moreover have "\<not> opt_set shell0 FUNCTIONARGZERO"
    by (simp add: opt_set_def shell0_def world.defs)
  moreover have "slash \<in> set ''./a''" by (simp add: c_chars)
  ultimately have "dot_attempts cb_example ''.'' ''./a'' shell0 = Some (SOURCE_OK, ''./a'', out)"
    by (simp add: dot_attempts_def)
  with o \<open>during_dot ''./a'' [] shell0 = shell0\<close> \<open>\<not> opt_set shell0 FUNCTIONARGZERO\<close> show ?thesis
    by (simp add: bin_custom_dot_during Let_def exit_status_of_def)
qed

theorem session_events_reported_witness:
  "\<exists>s s'. (session_step surroundings0 cb_example)\<^sup>*\<^sup>* session0 s \<and>
     zp_source_depth (sh_profile (ss_shell s)) = 0 \<and>
     bin_zpmod surroundings0 ''zpmod'' [''source-study'', ''--json''] (\<lambda>_. None) s = Some (0, s') \<and>
     w_out (ss_shell s') = w_out (ss_shell s) @ json_document id 0 (sh_profile (ss_shell s))"
proof -
  obtain out where d: "bin_custom_dot cb_example ''.'' [''./a''] shell0 = Some (3, out)"
    and o: "\<not> zp_profile_incomplete (sh_profile out)" "w_out_room out = None" "w_flush_ok out"
    using dot_example by blast
  let ?s = "session0\<lparr>ss_shell := out\<rparr>"
  have "session_step surroundings0 cb_example session0 ?s"
    by (rule session_step.call, rule builtin_call.dot [where name = "''.''" and argv = "[''./a'']" and rc = 3])
      (simp add: session0_def d)
  then have r: "(session_step surroundings0 cb_example)\<^sup>*\<^sup>* session0 ?s" by simp
  have p: "sh_profile (ss_shell session0) = profile0" by (simp add: session0_def shell0_simps)
  then have k: "prof_ok (sh_profile (ss_shell session0))" by simp
  note sound = session_events_reported [OF cb_example_session k r, of "''zpmod''", unfolded Let_def]
  then have "zp_source_events (sh_profile out) \<noteq> None" "zp_source_depth (sh_profile out) = 0"
    using p by (auto simp: later_def profile0_def)
  moreover have "su_unmeta surroundings0 = id" by (simp add: surroundings0_def)
  ultimately have "\<exists>s'. bin_zpmod surroundings0 ''zpmod'' [''source-study'', ''--json''] (\<lambda>_. None) ?s = Some (0, s') \<and>
      w_out (ss_shell s') = w_out (ss_shell ?s) @ json_document id 0 (sh_profile (ss_shell ?s))"
    and "zp_source_depth (sh_profile (ss_shell ?s)) = 0"
    using sound o by simp_all
  with r show ?thesis by blast
qed

end
