(* ===== verification/Zp_Module.thy ===== *)
theory Zp_Module
  imports Zp_Options Zp_Profile
begin

text \<open>
  \<open>src/module/module.c\<close>: the table of builtins and the hooks zsh calls over the life of the
  module, with the tables the other files export.  \<open>featuresarray\<close>, \<open>handlefeatures\<close> and
  \<open>setfeatureenables\<close> belong to zsh and are arguments, \<open>'m\<close> is its module handle.
\<close>

section \<open>The tables of builtins\<close>

record builtin =
  bn_name :: string
  bn_minargs :: int
  bn_maxargs :: int
  bn_optstr :: "string option"

definition BUILTIN :: "string \<Rightarrow> int \<Rightarrow> int \<Rightarrow> string option \<Rightarrow> builtin" where
  "BUILTIN nm lo hi opts = \<lparr>bn_name = nm, bn_minargs = lo, bn_maxargs = hi, bn_optstr = opts\<rparr>"

definition bintab :: "builtin list" where
  "bintab =
     [BUILTIN ''custom_dot'' 1 (-1) None,
      BUILTIN ''zpreadarray'' 1 1 (Some ''d:n:O:s:tu:C:c:h''),
      BUILTIN ''zppathstat'' 2 2 (Some ''Lf:''),
      BUILTIN ''zpdirlist'' 2 2 (Some ''adf''),
      BUILTIN ''zpreadfile'' 2 2 (Some ''md:0''),
      BUILTIN ''zpmod'' 0 (-1) (Some ''hV'')]"

definition fs_builtins :: "builtin list" where
  "fs_builtins =
     [BUILTIN ''zppathstat'' 2 2 (Some ''Lf:''),
      BUILTIN ''zpdirlist'' 2 2 (Some ''adf''),
      BUILTIN ''zpreadfile'' 2 2 (Some ''md:0'')]"

definition self_builtins :: "builtin list" where
  "self_builtins = [BUILTIN ''zpmod'' 0 (-1) (Some ''hV'')]"

text \<open>The count is written only through a pointer that is not NULL.\<close>

definition zp_get_fs_builtins :: "bool \<Rightarrow> builtin list \<times> nat option" where
  "zp_get_fs_builtins want_count = (fs_builtins, if want_count then Some (length fs_builtins) else None)"

definition zp_get_self_builtins :: "bool \<Rightarrow> builtin list \<times> nat option" where
  "zp_get_self_builtins want_count = (self_builtins, if want_count then Some (length self_builtins) else None)"

section \<open>Hooks\<close>

record 'h module_state =
  ms_opts :: "int list"
  ms_over :: "'h override_state"

text \<open>\<open>optlookup\<close> is zsh's; \<open>table_ok\<close> is whether the event table could be created.\<close>

definition mod_setup :: "(string \<Rightarrow> int) \<Rightarrow> bool \<Rightarrow> 'h module_state \<Rightarrow> int \<times> 'h module_state" where
  "mod_setup optlookup table_ok s =
     (0, s\<lparr>ms_opts := zp_setup_options_table optlookup (ms_opts s),
           ms_over := zp_source_setup_overrides table_ok (ms_over s)\<rparr>)"

definition mod_features :: "('m \<Rightarrow> builtin list \<Rightarrow> string list) \<Rightarrow> 'm \<Rightarrow> int \<times> string list" where
  "mod_features featuresarray m = (0, featuresarray m bintab)"

definition mod_enables :: "('m \<Rightarrow> builtin list \<Rightarrow> 'e \<Rightarrow> int \<times> 'e) \<Rightarrow> 'm \<Rightarrow> 'e \<Rightarrow> int \<times> 'e" where
  "mod_enables handlefeatures m enables = handlefeatures m bintab enables"

definition mod_boot :: "'m \<Rightarrow> int" where
  "mod_boot m = 0"

definition mod_cleanup :: "('m \<Rightarrow> builtin list \<Rightarrow> 'e option \<Rightarrow> int) \<Rightarrow> 'm \<Rightarrow> int" where
  "mod_cleanup setfeatureenables m = setfeatureenables m bintab None"

definition mod_finish :: "'h module_state \<Rightarrow> int \<times> 'h module_state" where
  "mod_finish s = (0, s\<lparr>ms_over := zp_source_restore_overrides (ms_over s)\<rparr>)"

section \<open>The life of the module\<close>

datatype phase = Unloaded | Running | Unloaded_again

text \<open>While it runs, the module only changes its profile.\<close>

inductive module_step ::
    "(string \<Rightarrow> int) \<Rightarrow> phase \<times> 'h module_state \<Rightarrow> phase \<times> 'h module_state \<Rightarrow> bool" for optlookup where
  load: "mod_setup optlookup ok s = (0, s') \<Longrightarrow> module_step optlookup (Unloaded, s) (Running, s')"
| work: "module_step optlookup (Running, s) (Running, s\<lparr>ms_over := (ms_over s)\<lparr>ov_profile := p\<rparr>\<rparr>)"
| unload: "mod_finish s = (0, s') \<Longrightarrow> module_step optlookup (Running, s) (Unloaded_again, s')"

inductive_cases module_step_cases: "module_step optlookup c c'"

text \<open>What holds of every state reached from \<open>s0\<close>.\<close>

definition module_inv :: "(string \<Rightarrow> int) \<Rightarrow> 'h module_state \<Rightarrow> phase \<times> 'h module_state \<Rightarrow> bool" where
  "module_inv optlookup s0 c =
     (case c of
        (Unloaded, s) \<Rightarrow> s = s0
      | (Running, s) \<Rightarrow>
          (\<exists>ok p. ms_over s = (zp_source_setup_overrides ok (ms_over s0))\<lparr>ov_profile := p\<rparr>) \<and>
          ms_opts s = zp_setup_options_table optlookup (ms_opts s0)
      | (Unloaded_again, s) \<Rightarrow>
          builtintab (ms_over s) = builtintab (ms_over s0) \<and>
          zp_source_events (ov_profile (ms_over s)) = None)"

lemma restore_any_profile:
  "builtintab (zp_source_restore_overrides ((zp_source_setup_overrides ok s)\<lparr>ov_profile := p\<rparr>)) = builtintab s"
  "zp_source_events (ov_profile (zp_source_restore_overrides t)) = None"
  by (auto simp: zp_source_setup_overrides_def zp_source_restore_overrides_def take_over_def
      give_back_def Let_def fun_eq_iff split: option.splits)

lemma module_inv_step:
  "module_step optlookup c c' \<Longrightarrow> module_inv optlookup s0 c \<Longrightarrow> module_inv optlookup s0 c'"
proof (induction rule: module_step.induct)
  case (load ok s s')
  have "\<exists>ok' p. t ok = (t ok')\<lparr>ov_profile := p\<rparr>" for t :: "bool \<Rightarrow> 'a override_state"
    by (intro exI [of _ ok] exI [of _ "ov_profile (t ok)"]) simp
  with load show ?case by (auto simp: module_inv_def mod_setup_def)
next
  case (work s p)
  have "\<exists>ok' q. (t ok)\<lparr>ov_profile := p\<rparr> = (t ok')\<lparr>ov_profile := q\<rparr>" for t :: "bool \<Rightarrow> 'a override_state" and ok
    by (intro exI [of _ ok] exI [of _ p]) simp
  with work show ?case by (auto simp: module_inv_def)
next
  case (unload s s')
  then show ?case by (auto simp: module_inv_def mod_finish_def restore_any_profile)
qed

lemma module_inv_reachable:
  assumes "(module_step optlookup)\<^sup>*\<^sup>* (Unloaded, s0) c"
  shows "module_inv optlookup s0 c"
  using assms
proof (induction rule: rtranclp_induct)
  case base
  then show ?case by (simp add: module_inv_def)
next
  case (step c c')
  then show ?case using module_inv_step by blast
qed

section \<open>Properties\<close>

text \<open>
  C31: Over the life of the module, whatever scripts it profiles: while it runs, exactly the builtins
  \<open>.\<close> and \<open>source\<close> (those the shell has) are handled by the module, and after it is unloaded every
  builtin has the handler it had before and the event table is gone.  Loading and unloading answer
  0, and the tables exported by the other files agree with the module's own.
\<close>

theorem module_life_restores_builtins:
  assumes "(module_step optlookup)\<^sup>*\<^sup>* (Unloaded, s0) (ph, s)"
  shows "(ph = Running \<longrightarrow> (\<forall>nm. builtintab (ms_over s) nm =
            (if nm \<in> {''.'', ''source''} \<and> builtintab (ms_over s0) nm \<noteq> None then Some Bin_custom_dot
             else builtintab (ms_over s0) nm))) \<and>
    (ph = Unloaded_again \<longrightarrow> builtintab (ms_over s) = builtintab (ms_over s0) \<and>
       zp_source_events (ov_profile (ms_over s)) = None) \<and>
    fst (mod_setup optlookup ok s0) = 0 \<and> fst (mod_finish s) = 0 \<and>
    set (fst (zp_get_fs_builtins b) @ fst (zp_get_self_builtins b)) \<subseteq> set bintab"
proof -
  have "module_inv optlookup s0 (ph, s)" using assms by (rule module_inv_reachable)
  then show ?thesis
    by (auto simp: module_inv_def mod_setup_def mod_finish_def zp_get_fs_builtins_def zp_get_self_builtins_def
        fs_builtins_def self_builtins_def bintab_def zp_source_setup_overrides_def take_over_def Let_def
        split: option.splits phase.splits)
qed

definition dot_shell :: "nat module_state" where
  "dot_shell =
     \<lparr>ms_opts = opt_table0,
      ms_over = \<lparr>builtintab = [''.'' \<mapsto> Native 1, ''source'' \<mapsto> Native 2, ''cd'' \<mapsto> Native 3],
                 original_dot = Null_handler, original_source = Null_handler, ov_profile = profile0\<rparr>\<rparr>"

lemma load_and_unload:
  "(module_step (\<lambda>_. 7))\<^sup>*\<^sup>* (Unloaded, s0)
     (Unloaded_again, snd (mod_finish (snd (mod_setup (\<lambda>_. 7) True s0))))"
proof -
  let ?s = "snd (mod_setup (\<lambda>_. 7) True s0)"
  have "module_step (\<lambda>_. 7) (Unloaded, s0) (Running, ?s)"
    by (rule module_step.load [where ok = True]) (simp add: mod_setup_def)
  moreover have "module_step (\<lambda>_. 7) (Running, ?s) (Unloaded_again, snd (mod_finish ?s))"
    by (rule module_step.unload) (simp add: mod_finish_def)
  ultimately show ?thesis by (meson converse_rtranclp_into_rtranclp rtranclp.rtrancl_refl)
qed

lemma module_life_restores_builtins_witness:
  "builtintab (ms_over (snd (mod_finish (snd (mod_setup (\<lambda>_. 7) True dot_shell)))))
     = [''.'' \<mapsto> Native 1, ''source'' \<mapsto> Native 2, ''cd'' \<mapsto> Native 3]"
  using module_life_restores_builtins [OF load_and_unload [of dot_shell], where ok = True and b = True]
  by (simp add: dot_shell_def)

end
