(* ===== verification/Zp_Dump.thy ===== *)
theory Zp_Dump
  imports Zp_Source
begin

text \<open>
  Looking up and sourcing a script in a well-formed compiled dump (\<open>src/core/source.c\<close>): the header is accepted,
  and the program handed over has exactly the code the dump holds for the script, whether the dump
  is mapped or the code is read from it, and whichever of the two halves of the file (one for each
  byte order) is the one for this machine.
\<close>

section \<open>Words and bytes\<close>

lemma bytes_of_word_of_bytes:
  "bytes_of_word (word_of_nat (of_char a + 256 * of_char b + 65536 * of_char c + 16777216 * of_char d)) = [a, b, c, d]"
proof -
  define x y z u :: nat where "x = of_char a" and "y = of_char b" and "z = of_char c" and "u = of_char d"
  note defs = this
  have bound: "x < 256" "y < 256" "z < 256" "u < 256" by (simp_all add: defs nat_of_char_less_256)
  let ?n = "x + 256 * (y + 256 * (z + 256 * u))"
  have n: "x + 256 * y + 65536 * z + 16777216 * u = ?n" by simp
  have u: "unat (word_of_nat ?n :: u32) = ?n"
    using bound by (simp add: unsigned_of_nat take_bit_nat_eq_self del: of_nat_add of_nat_mult)
  have low: "(v + 256 * m) mod 256 = v" "(v + 256 * m) div 256 = m" if "v < 256" for v m :: nat
    using that by (simp_all only: mod_mult_self2 mod_less div_mult_self2 div_less)
  have "k div 65536 = k div 256 div 256" "k div 16777216 = k div 256 div 256 div 256" for k :: nat
    by (simp_all flip: div_mult2_eq)
  then have "bytes_of_word (word_of_nat ?n) = map char_of [x, y, z, u]"
    by (simp only: bytes_of_word_def Let_def list.map u low bound)
  then show ?thesis unfolding defs [symmetric] n by (simp add: defs)
qed

lemma length_bytes [simp]: "length (bytes_of_words ws) = 4 * length ws"
  by (induction ws) (simp_all add: bytes_of_words_def bytes_of_word_def Let_def)

lemma bytes_append: "bytes_of_words (a @ b) = bytes_of_words a @ bytes_of_words b"
  by (simp add: bytes_of_words_def)

lemma bytes_words: "4 dvd length s \<Longrightarrow> bytes_of_words (words_of_bytes s) = s"
proof (induction s rule: words_of_bytes.induct)
  case (1 a b c d r)
  then have "4 dvd length r" by simp presburger
  with 1 have "bytes_of_words (words_of_bytes r) = r" by blast
  then show ?case
    by (simp only: words_of_bytes.simps bytes_of_words_def list.map concat.simps bytes_of_word_of_bytes append.simps)
qed (auto simp: bytes_of_words_def dest: dvd_imp_le)

lemma words_drop: "drop n (words_of_bytes s) = words_of_bytes (drop (4 * n) s)"
proof (induction n arbitrary: s)
  case (Suc n)
  have n: "4 * Suc n = Suc (Suc (Suc (Suc (4 * n))))" by simp
  show ?case
    using Suc unfolding n by (cases s rule: words_of_bytes.cases) simp_all
qed simp

section \<open>A header at the front of a longer part\<close>

lemma name_mem_append:
  assumes "n + 6 \<le> length d" "take k (h_name_mem d n) = t" "length t = k"
  shows "take k (h_name_mem (d @ r) n) = t"
proof -
  have "k \<le> length (h_name_mem d n)" using assms(2,3) by (metis length_take min.cobounded1 min_def)
  then show ?thesis
    using assms(1,2) by (simp add: h_name_mem_def h_flags_def nth_append bytes_append)
qed

lemma heads_at_append: "heads_at d e n es \<Longrightarrow> heads_at (d @ r) e n es"
proof (induction d e n es rule: heads_at.induct)
  case (2 d e n p nm es)
  then have "take (length nm + 1) (h_name_mem (d @ r) n) = nm @ [nul]"
    by (intro name_mem_append) auto
  with 2 show ?case by (simp add: h_hlen_def nth_append)
qed simp

lemma head_fields_append:
  assumes "n + 6 \<le> length d"
  shows "h_start (d @ r) n = h_start d n" "h_len (d @ r) n = h_len d n" "h_npats (d @ r) n = h_npats d n"
    "h_strs (d @ r) n = h_strs d n"
  using assms by (simp_all add: h_start_def h_len_def h_npats_def h_strs_def nth_append)

lemma heads_at_inside: "heads_at d e n es \<Longrightarrow> (p, nm) \<in> set es \<Longrightarrow> p + 6 \<le> length d"
  by (induction d e n es rule: heads_at.induct) auto

lemma find_func_heads:
  assumes "heads_at d (FDHEADERLEN d) FD_PRELEN es" "FD_PRELEN < length d" "nul \<notin> set name"
    "find (\<lambda>(p, nm). nm = name) es = Some (p, nm)"
  shows "custom_dump_find_func (d @ r) name = Some (ZOk p)"
proof -
  have "FDHEADERLEN (d @ r) = FDHEADERLEN d" using assms(2) by (simp add: FDHEADERLEN_def nth_append)
  with assms find_from_heads [OF heads_at_append [OF assms(1)] assms(3), of r]
  show ?thesis by (simp add: custom_dump_find_func_def)
qed


section \<open>Well-formed dumps\<close>

text \<open>Where the half of the file begins that a header belongs to.\<close>

definition dump_base :: "u32 list \<Rightarrow> nat" where
  "dump_base d = (if fd_flag d FDF_OTHER then FDOTHER d else 0)"

text \<open>The file \<open>dat\<close> holds the header \<open>d\<close>, for this machine and version: the half it begins is whole
  and in the file, the first half begins with the magic number of the other byte order exactly when
  \<open>d\<close> is that of the second one, and the entries \<open>es\<close> of \<open>d\<close> follow each other.\<close>

definition dump_ok :: "string \<Rightarrow> string \<Rightarrow> u32 list \<Rightarrow> (nat \<times> string) list \<Rightarrow> bool" where
  "dump_ok version dat d es \<longleftrightarrow>
     d = words_of_bytes (take (4 * length d) (drop (dump_base d) dat)) \<and>
     FD_PRELEN < length d \<and> length d = FDHEADERLEN d \<and>
     4 * length d \<le> FDOTHER d \<and> 4 dvd FDOTHER d \<and> dump_base d + FDOTHER d \<le> length dat \<and>
     FDVERSION (take 52 dat) = version \<and>
     (if fd_flag d FDF_OTHER
      then FDMAGIC (words_of_bytes (take 52 dat)) = FD_OMAGIC \<and> FDOTHER (words_of_bytes (take 52 dat)) = FDOTHER d
      else FDMAGIC d = FD_MAGIC) \<and>
     heads_at d (FDHEADERLEN d) FD_PRELEN es"

lemma FDOTHER_bound: "FDOTHER d < 16777216"
proof -
  have "unat (d ! 1) < 4294967296" using unsigned_less [of "d ! 1", where 'a = nat] by simp
  then show ?thesis by (simp add: FDOTHER_def div_less_iff_less_mult)
qed

lemma words_front:
  assumes "13 \<le> n" "4 * n \<le> length s"
  shows "take (4 * n) s = take 52 s @ take (4 * n - 52) (drop 52 s)"
    and "words_of_bytes (take (4 * n) s) = words_of_bytes (take 52 s) @ words_of_bytes (take (4 * n - 52) (drop 52 s))"
    and "k < 13 \<Longrightarrow> words_of_bytes (take (4 * n) s) ! k = words_of_bytes (take 52 s) ! k"
proof -
  show t: "take (4 * n) s = take 52 s @ take (4 * n - 52) (drop 52 s)"
    using assms(1) take_add [of 52 "4 * n - 52" s] by simp
  have l: "length (take 52 s) = 52" using assms by simp
  then show w: "words_of_bytes (take (4 * n) s) = words_of_bytes (take 52 s) @ words_of_bytes (take (4 * n - 52) (drop 52 s))"
    unfolding t by (intro words_append) simp
  show "words_of_bytes (take (4 * n) s) ! k = words_of_bytes (take 52 s) ! k" if "k < 13"
    unfolding w using that l by (simp add: nth_append)
qed

lemma load_header_whole:
  assumes "d = words_of_bytes (take (4 * length d) (drop off dat))" "FD_PRELEN < length d"
    "length d = FDHEADERLEN d" "4 * length d \<le> FDOTHER d" "off + 4 * length d \<le> length dat"
  shows "load_header_at dat off = ZOk d"
proof -
  define buf where "buf = read_at dat off prelude_bytes"
  have n: "13 \<le> length d" "4 * length d < 16777216"
    using assms(2,4) FDOTHER_bound [of d] by (simp_all add: FD_PRELEN_def)
  have buf: "buf = take 52 (drop off dat)" "length buf = 52"
    using n assms(5) by (auto simp: buf_def read_at_def prelude_bytes_def)
  let ?got = "read_at dat (off + 52) (4 * length d - 52)"
  have "take (4 * length d) (drop off dat) = buf @ ?got"
    using words_front(1) [of "length d" "drop off dat"] n(1) assms(5) by (simp add: buf(1) read_at_def add.commute)
  with assms(1) have dd: "words_of_bytes (buf @ ?got) = d" by metis
  have got: "length ?got = 4 * length d - 52" using assms(5) n(1) by (auto simp: read_at_def)
  have "d ! 12 = words_of_bytes buf ! 12"
    using words_front(3) [of "length d" "drop off dat" 12] n(1) assms(1,5) buf(1) by simp
  then have "FDHEADERLEN (words_of_bytes buf) = FDHEADERLEN d" by (simp add: FDHEADERLEN_def FD_PRELEN_def)
  then have l: "to_int (4 * int (FDHEADERLEN (words_of_bytes buf))) = 4 * int (length d)"
    using n(2) assms(3) by (subst to_int_id) (simp_all add: c_limits)
  have nat: "nat (4 * int (length d)) = 4 * length d" by simp
  show ?thesis
    unfolding load_header_at_def buf_def [symmetric] Let_def l nat
    using n(1) buf(2) got dd by (simp add: prelude_bytes_def)
qed

lemma load_header_ok:
  assumes "w_data sh file = Inr dat" "w_sparam sh ''ZSH_VERSION'' = Some version" "dump_ok version dat d es"
  shows "custom_load_dump_header nam file err sh = (ZOk d, sh)"
proof -
  note ok = assms(3) [unfolded dump_ok_def]
  have l: "load_header_at dat (dump_base d) = ZOk d"
    using ok by (intro load_header_whole) auto
  have n: "13 \<le> length d" using ok by (simp add: FD_PRELEN_def)
  then have s: "length (take 52 dat) = 52" using ok by (auto simp: dump_base_def)
  let ?w = "words_of_bytes (take 52 dat)"
  have "FDMAGIC ?w = (if fd_flag d FDF_OTHER then FD_OMAGIC else FD_MAGIC)"
  proof (cases "fd_flag d FDF_OTHER")
    case True
    with ok show ?thesis by simp
  next
    case False
    have "d = words_of_bytes (take (4 * length d) dat)" "4 * length d \<le> length dat"
      using ok False by (auto simp: dump_base_def)
    then have "d ! 0 = ?w ! 0" using words_front(3) [of "length d" dat 0] n by (metis zero_less_numeral)
    with ok False show ?thesis by (simp add: FDMAGIC_def)
  qed
  then show ?thesis
    using assms(1,2) ok l s
    by (simp add: custom_load_dump_header_def Let_def read_at_def prelude_bytes_def dump_base_def fd_consts
        split: if_splits)
qed

lemma page_up_le: "n \<le> page_up n"
proof -
  have "n + 4095 = (n + 4095) div 4096 * 4096 + (n + 4095) mod 4096" by (rule div_mult_mod_eq [symmetric])
  moreover have "(n + 4095) mod 4096 < 4096" by simp
  ultimately show ?thesis by (simp add: page_up_def page_size_def)
qed

lemma mapped_pages_front:
  assumes "m \<le> length (drop off dat)"
  shows "\<exists>s. mapped_pages dat off m = take m (drop off dat) @ s"
proof -
  let ?rest = "drop off dat" and ?all = "drop off dat @ replicate (page_up (length (drop off dat)) - length (drop off dat)) nul"
  have "take (page_up m) ?all = take m ?all @ take (page_up m - m) (drop m ?all)"
    using page_up_le [of m] take_add [of m "page_up m - m" ?all] by simp
  moreover have "take m ?all = take m ?rest" using assms by simp
  ultimately show ?thesis by (auto simp: mapped_pages_def Let_def)
qed

text \<open>A mapped dump has the whole half of the file, and perhaps more.\<close>

lemma load_dump_maps:
  assumes "w_data sh file = Inr dat" "sh_mmap_ok sh file" "4 dvd FDOTHER d" "0 < FDOTHER d"
    "dump_base d + FDOTHER d \<le> length dat"
  shows "\<exists>f r. custom_load_dump_file file st (fd_flag d FDF_OTHER) (FDOTHER d) sh = sh\<lparr>sh_dumps := f # sh_dumps sh\<rparr> \<and>
    fd_map f = words_of_bytes (take (FDOTHER d) (drop (dump_base d) dat)) @ r \<and>
    fd_dev f = st_dev st \<and> fd_ino f = st_ino st"
proof (cases "fd_flag d FDF_OTHER")
  case False
  then have "FDOTHER d \<le> length (drop 0 dat)" using assms(5) by (simp add: dump_base_def)
  from mapped_pages_front [OF this] obtain s where s: "mapped_pages dat 0 (FDOTHER d) = take (FDOTHER d) dat @ s"
    by auto
  have "length (take (FDOTHER d) dat) = FDOTHER d" using assms(5) by simp
  then have w: "words_of_bytes (mapped_pages dat 0 (FDOTHER d)) = words_of_bytes (take (FDOTHER d) dat) @ words_of_bytes s"
    unfolding s using assms(3) by (intro words_append) (simp only:)
  let ?f = "\<lparr>fd_filename = file, fd_dev = st_dev st, fd_ino = st_ino st,
    fd_map = words_of_bytes (take (FDOTHER d) dat) @ words_of_bytes s, fd_len = int (FDOTHER d), fd_count = 0\<rparr>"
  from False assms w show ?thesis
    by (intro exI [of _ ?f] exI [of _ "words_of_bytes s"]) (simp add: custom_load_dump_file_def Let_def dump_base_def)
next
  case True
  define len where "len = FDOTHER d"
  define r where "r = len mod page_size"
  have r: "r \<le> len" "4 dvd r" "len - (len - r) = r" "0 < len"
    using assms(3,4) by (simp_all add: r_def len_def page_size_def dvd_mod)
  have len: "len + len \<le> length dat" using True assms(5) by (simp add: dump_base_def len_def)
  then have "len + r \<le> length (drop (len - r) dat)" using r(1) by simp
  from mapped_pages_front [OF this] obtain s where
    s: "mapped_pages dat (len - r) (len + r) = take (len + r) (drop (len - r) dat) @ s" by blast
  have "drop (r div 4) (words_of_bytes (mapped_pages dat (len - r) (len + r))) =
      words_of_bytes (drop r (take (len + r) (drop (len - r) dat) @ s))"
    unfolding s using r(2) by (simp add: words_drop)
  also have "drop r (take (len + r) (drop (len - r) dat) @ s) = take len (drop len dat) @ s"
    using r(1) len by (simp add: drop_take)
  also have "words_of_bytes (take len (drop len dat) @ s) = words_of_bytes (take len (drop len dat)) @ words_of_bytes s"
  proof (rule words_append)
    have "length (take len (drop len dat)) = len" using len by simp
    then show "4 dvd length (take len (drop len dat))" using assms(3) unfolding len_def by (simp only:)
  qed
  finally have map: "drop (r div 4) (words_of_bytes (mapped_pages dat (len - r) (len + r))) =
      words_of_bytes (take len (drop len dat)) @ words_of_bytes s" .
  let ?f = "\<lparr>fd_filename = file, fd_dev = st_dev st, fd_ino = st_ino st,
    fd_map = words_of_bytes (take len (drop len dat)) @ words_of_bytes s, fd_len = int len, fd_count = 0\<rparr>"
  show ?thesis
    using True assms(1,2) r(3,4) map
    by (intro exI [of _ ?f] exI [of _ "words_of_bytes s"])
      (simp add: custom_load_dump_file_def Let_def dump_base_def flip: len_def r_def)
qed

text \<open>The program of the header at word \<open>p\<close>; a read one has its pattern slots in the same block.\<close>

definition dump_prog :: "string \<Rightarrow> u32 list \<Rightarrow> nat \<Rightarrow> eprog" where
  "dump_prog dat d p =
     Eprog (if fd_flag d FDF_MAP then EF_MAP else EF_REAL)
       (if fd_flag d FDF_MAP then h_len d p else h_len d p + 8 * h_npats d p) (h_npats d p)
       (take (h_len d p) (drop (dump_base d + 4 * h_start d p) dat)) (h_strs d p)"

lemma check_mapped_prog:
  assumes "dump_ok version dat d es" "nul \<notin> set name" "find (\<lambda>(p, nm). nm = name) es = Some (p, nm)"
    "4 * h_start d p + h_len d p \<le> FDOTHER d" "h_npats d p < 2147483648" "fd_flag d FDF_MAP"
    "fd_map f = words_of_bytes (take (FDOTHER d) (drop (dump_base d) dat)) @ tl_words"
  shows "check_mapped st name False sh f =
    Some (ZOk (dump_prog dat d p), sh\<lparr>sh_dumps := incrdumpcount st (sh_dumps sh)\<rparr>)"
proof -
  note ok = assms(1) [unfolded dump_ok_def]
  let ?half = "take (FDOTHER d) (drop (dump_base d) dat)"
  have "dump_base d + FDOTHER d \<le> length dat" using ok by blast
  then have len: "length ?half = FDOTHER d" by simp
  have "take (FDOTHER d) (drop (dump_base d) dat) =
      take (4 * length d) (drop (dump_base d) dat) @ drop (4 * length d) ?half"
    using ok append_take_drop_id [of "4 * length d" ?half] by (simp add: min_absorb1)
  moreover have "4 * length d \<le> FDOTHER d" using ok by blast
  then have "length (take (4 * length d) (drop (dump_base d) dat)) = 4 * length d" using len by simp
  then have "4 dvd length (take (4 * length d) (drop (dump_base d) dat))" by (simp only: dvd_triv_left)
  ultimately have "fd_map f = words_of_bytes (take (4 * length d) (drop (dump_base d) dat)) @
      words_of_bytes (drop (4 * length d) ?half) @ tl_words"
    unfolding assms(7) by (metis words_append append_assoc)
  then obtain r where m: "fd_map f = d @ r" using ok by metis
  have find: "custom_dump_find_func (fd_map f) name = Some (ZOk p)"
    unfolding m using ok assms(2,3) by (intro find_func_heads) auto
  have "(p, nm) \<in> set es" using assms(3) by (metis find_Some_iff nth_mem)
  then have p: "p + 6 \<le> length d" using ok heads_at_inside by blast
  have "bytes_of_words (fd_map f) = ?half @ bytes_of_words tl_words"
    unfolding assms(7) bytes_append using ok len by (simp add: bytes_words)
  then have "take (h_len d p) (drop (4 * h_start d p) (bytes_of_words (fd_map f))) =
      take (h_len d p) (drop (dump_base d + 4 * h_start d p) dat)"
    using assms(4) len by (simp add: drop_take min_absorb1 add.commute)
  then have "mapped_prog (fd_map f) p = ZOk (dump_prog dat d p)"
    using p assms(5,6) by (simp add: mapped_prog_def dump_prog_def m head_fields_append)
  with find show ?thesis by (simp add: check_mapped_def)
qed

lemma real_prog_exact:
  assumes "dump_ok version dat d es" "4 * h_start d p + h_len d p \<le> FDOTHER d" "\<not> fd_flag d FDF_MAP"
    "h_len d p + 8 * h_npats d p < 2147483648"
  shows "real_prog dat d p = ZOk (dump_prog dat d p)"
proof -
  note ok = assms(1) [unfolded dump_ok_def]
  let ?got = "read_at dat (4 * h_start d p + (if fd_flag d FDF_OTHER then FDOTHER d else 0)) (h_len d p)"
  have got: "?got = take (h_len d p) (drop (dump_base d + 4 * h_start d p) dat)"
    by (simp add: read_at_def dump_base_def add.commute)
  have "dump_base d + FDOTHER d \<le> length dat" using ok by blast
  then have l: "length ?got = h_len d p" using assms(2) by (simp add: got)
  have "to_int (8 * int (h_npats d p)) = 8 * int (h_npats d p)" "to_int (int (h_len d p)) = int (h_len d p)"
    using assms(4) by (simp_all add: to_int_id c_limits)
  moreover have "(int (h_len d p) + 8 * int (h_npats d p)) mod 4294967296 = int (h_len d p) + 8 * int (h_npats d p)"
    using assms(4) by simp
  ultimately show ?thesis
    using l assms(3) unfolding real_prog_def Let_def got dump_prog_def by simp
qed

lemma dump_lookup:
  assumes "w_data sh file = Inr dat" "w_sparam sh ''ZSH_VERSION'' = Some version" "dump_ok version dat d es"
    and "nul \<notin> set name" "find_dump st (sh_dumps sh) = None" "sh_mmap_ok sh file"
    and "\<forall>p \<in> fst ` set es. 4 * h_start d p + h_len d p \<le> FDOTHER d \<and> h_len d p + 8 * h_npats d p < 2147483648"
  shows "\<exists>r sh'. r = (case find (\<lambda>(p, nm). nm = name) es of
        None \<Rightarrow> ZNull | Some (p, _) \<Rightarrow> ZOk (dump_prog dat d p)) \<and>
     custom_check_dump_file fstat file (Some st) name False sh = Some (r, sh') \<and>
     (\<exists>sh''. custom_check_dump_file fstat file (Some st) name False sh' = Some (r, sh''))"
proof -
  note ok = assms(3) [unfolded dump_ok_def]
  have h: "custom_load_dump_header [] file False sh = (ZOk d, sh)" by (rule load_header_ok [OF assms(1-3)])
  have first: "custom_check_dump_file fstat file (Some st) name False sh = check_unmapped file st name False sh"
    using assms(5) by (simp add: custom_check_dump_file_def)
  show ?thesis
  proof (cases "find (\<lambda>(p, nm). nm = name) es")
    case None
    then have "custom_dump_find_func d name = Some ZNull"
      using ok find_from_heads [of d "FDHEADERLEN d" FD_PRELEN es name] assms(4) by (simp add: custom_dump_find_func_def)
    with h first None show ?thesis by (simp add: check_unmapped_def)
  next
    case (Some pn)
    obtain p nm where pn: "find (\<lambda>(p, nm). nm = name) es = Some (p, nm)" using Some by (cases pn) auto
    have "(p, nm) \<in> set es" using pn by (metis find_Some_iff nth_mem)
    then have b: "4 * h_start d p + h_len d p \<le> FDOTHER d" "h_len d p + 8 * h_npats d p < 2147483648"
      using assms(7) by force+
    have f: "custom_dump_find_func d name = Some (ZOk p)"
      using find_func_heads [of d es name p nm "[]"] ok assms(4) pn by simp
    show ?thesis
    proof (cases "fd_flag d FDF_MAP")
      case False
      with h f first assms(1) real_prog_exact [OF assms(3) b(1) False b(2)] pn
      show ?thesis by (simp add: check_unmapped_def)
    next
      case True
      have "0 < FDOTHER d" using ok by auto
      then obtain m tl_words where m: "custom_load_dump_file file st (fd_flag d FDF_OTHER) (FDOTHER d) sh = sh\<lparr>sh_dumps := m # sh_dumps sh\<rparr>"
        "fd_map m = words_of_bytes (take (FDOTHER d) (drop (dump_base d) dat)) @ tl_words" "fd_dev m = st_dev st" "fd_ino m = st_ino st"
        using load_dump_maps [OF assms(1,6), of d st] ok by blast
      have np: "h_npats d p < 2147483648" using b(2) by simp
      note prog = check_mapped_prog [OF assms(3,4) pn b(1) np True]
      let ?sh = "sh\<lparr>sh_dumps := m\<lparr>fd_count := fd_count m + 1\<rparr> # sh_dumps sh\<rparr>"
      have "custom_check_dump_file fstat file (Some st) name False sh = Some (ZOk (dump_prog dat d p), ?sh)"
        using first h f True m prog [OF m(2), where st = st] by (simp add: check_unmapped_def find_dump_def)
      moreover have "\<exists>sh''. custom_check_dump_file fstat file (Some st) name False ?sh = Some (ZOk (dump_prog dat d p), sh'')"
        using m prog [where f = "m\<lparr>fd_count := fd_count m + 1\<rparr>" and st = st and sh = ?sh]
        by (simp add: custom_check_dump_file_def find_dump_def)
      ultimately show ?thesis using pn by (simp del: custom_check_dump_file_def)
    qed
  qed
qed

text \<open>Sourcing finds the dump: nothing is compiled, and the program does not depend on the rest of the
  callbacks.\<close>

lemma sourced_dump:
  assumes "w_data ent (us @ FD_EXT) = Inr dat" "w_sparam ent ''ZSH_VERSION'' = Some version" "dump_ok version dat d es"
    and "nul \<notin> set us" "sh_mmap_ok ent (us @ FD_EXT)"
    and "\<forall>p \<in> fst ` set es. 4 * h_start d p + h_len d p \<le> FDOTHER d \<and> h_len d p + 8 * h_npats d p < 2147483648"
    and "find (\<lambda>(p, nm). nm = base_name us) es = Some (p, nm)" "\<not> has_suffix FD_EXT us"
    and "w_stat ent (us @ FD_EXT) = Inr stc" "find_dump stc (sh_dumps ent) = None"
    and "\<forall>stn. w_stat ent us = Inr stn \<longrightarrow> st_mtime stn \<le> st_mtime stc"
  shows "\<exists>sav. \<forall>cb. cb_fstat cb = fstat \<longrightarrow> custom_try_source_file cb us ent = Some (Some (dump_prog dat d p), sav)"
proof -
  have "\<not> wants_compile us ent" using assms(9,11) by (auto simp: wants_compile_def split: sum.splits)
  then have c: "compile_step k us ent = ent" for k by (simp add: compile_step_def)
  have n: "nul \<notin> set (base_name us)"
    using assms(4) strrchr_Some [of slash us] by (auto simp: base_name_def split: option.splits)
  obtain sav where "custom_check_dump_file fstat (us @ FD_EXT) (Some stc) (base_name us) False ent =
      Some (ZOk (dump_prog dat d p), sav)"
    using dump_lookup [OF assms(1-3) n assms(10,5,6), of fstat] assms(7) by auto
  then show ?thesis
    using assms(8,9,11) c by (intro exI [of _ sav]) (auto simp: custom_try_source_file_def Let_def split: sum.splits)
qed

section \<open>Properties\<close>

text \<open>
  C10: Looking for a script in a compiled dump that is well formed for this machine and version gives
  exactly what the dump holds: NULL when no header has the name, and otherwise the program of the
  first one that does, with the code bytes of the script at their place in the right half of the
  file, its patterns and its strings.  It does not matter whether the dump asks to be mapped or its
  code is read; and looking again, when the dump may be mapped already, gives the same program.
\<close>

theorem dump_program_exact:
  assumes "w_data sh file = Inr dat" "w_sparam sh ''ZSH_VERSION'' = Some version" "dump_ok version dat d es"
    and "nul \<notin> set name" "find_dump st (sh_dumps sh) = None" "sh_mmap_ok sh file"
    and "\<forall>p \<in> fst ` set es. 4 * h_start d p + h_len d p \<le> FDOTHER d \<and> h_len d p + 8 * h_npats d p < 2147483648"
  shows "\<exists>r sh'. r = (case find (\<lambda>(p, nm). nm = name) es of
        None \<Rightarrow> ZNull | Some (p, _) \<Rightarrow> ZOk (dump_prog dat d p)) \<and>
     custom_check_dump_file fstat file (Some st) name False sh = Some (r, sh') \<and>
     (\<exists>sh''. custom_check_dump_file fstat file (Some st) name False sh' = Some (r, sh''))"
  using dump_lookup [OF assms] .

text \<open>A dump with the script \<open>abc\<close> and four bytes of code, to be read or to be mapped.\<close>

definition dump_example :: "u32 \<Rightarrow> string" where
  "dump_example flags = bytes_of_words
     ([FD_MAGIC, 80 * 256 + flags, 0x392E35] @ replicate 9 0 @ [19, 4, 0, 0, 7, 0, 0x636261, 0x41424344])"

definition dump_shell :: "u32 \<Rightarrow> shell" where
  "dump_shell flags = shell0\<lparr>w_data := (\<lambda>_. Inr (dump_example flags)),
     w_sparam := (\<lambda>n. if n = ''ZSH_VERSION'' then Some ''5.9'' else None)\<rparr>"

theorem dump_program_exact_witness:
  "\<exists>sh1 sh2. custom_check_dump_file (\<lambda>_. None) ''/f.zwc'' (Some (w_fresh world0 [])) ''abc'' False (dump_shell 0) =
       Some (ZOk (Eprog EF_REAL 4 0 ''DCBA'' 0), sh1) \<and>
     custom_check_dump_file (\<lambda>_. None) ''/f.zwc'' (Some (w_fresh world0 [])) ''abc'' False (dump_shell 1) =
       Some (ZOk (Eprog EF_MAP 4 0 ''DCBA'' 0), sh2)"
proof -
  let ?d = "\<lambda>k :: u32. words_of_bytes (take 76 (dump_example k))"
  have ok: "dump_ok ''5.9'' (dump_example 0) (?d 0) [(12, ''abc'')]" "dump_ok ''5.9'' (dump_example 1) (?d 1) [(12, ''abc'')]"
    by code_simp+
  have b: "4 * h_start (?d k) 12 + h_len (?d k) 12 \<le> FDOTHER (?d k) \<and> h_len (?d k) 12 + 8 * h_npats (?d k) 12 < 2147483648"
    if "k = 0 \<or> k = 1" for k :: u32
    using that by (elim disjE; hypsubst) code_simp+
  have prog: "dump_prog (dump_example 0) (?d 0) 12 = Eprog EF_REAL 4 0 ''DCBA'' 0"
    "dump_prog (dump_example 1) (?d 1) 12 = Eprog EF_MAP 4 0 ''DCBA'' 0" by code_simp+
  have n: "nul \<notin> set ''abc''" by (simp add: nul_def)
  have s: "w_data (dump_shell k) ''/f.zwc'' = Inr (dump_example k)" "w_sparam (dump_shell k) ''ZSH_VERSION'' = Some ''5.9''"
    "find_dump st (sh_dumps (dump_shell k)) = None" "sh_mmap_ok (dump_shell k) ''/f.zwc''" for k st
    by (simp_all add: dump_shell_def shell0_def world.defs find_dump_def)
  show ?thesis
    using dump_program_exact [OF s(1,2) ok(1) n s(3,4), where fstat = "\<lambda>_. None"]
      dump_program_exact [OF s(1,2) ok(2) n s(3,4), where fstat = "\<lambda>_. None"] b prog
    by fastforce
qed

text \<open>
  C9: Sourcing a script whose compiled form is current executes exactly the code the dump holds for it.
  When \<open>f.zwc\<close> is a well-formed dump that is not older than \<open>f\<close> and has a header with the
  name of \<open>f\<close>, \<open>custom_source\<close> returns after executing the program of that header once, with
  the script on top of the function stack, and with an error exactly when that execution sets one.
  The result does not depend on the compiler, on opening \<open>f\<close>, or on the loop that reads commands
  from it.
\<close>

theorem compiled_script_runs:
  assumes "us = cb_unmeta cb s" "nul \<notin> set us" "\<not> has_suffix FD_EXT us"
    and "w_data ent (us @ FD_EXT) = Inr dat" "w_sparam ent ''ZSH_VERSION'' = Some version" "dump_ok version dat d es"
    and "sh_mmap_ok ent (us @ FD_EXT)" "w_stat ent (us @ FD_EXT) = Inr stc" "find_dump stc (sh_dumps ent) = None"
    and "\<forall>stn. w_stat ent us = Inr stn \<longrightarrow> st_mtime stn \<le> st_mtime stc"
    and "\<forall>p \<in> fst ` set es. 4 * h_start d p + h_len d p \<le> FDOTHER d \<and> h_len d p + 8 * h_npats d p < 2147483648"
    and "find (\<lambda>(p, nm). nm = base_name us) es = Some (p, nm)"
  shows "\<exists>st out. map fs_name (take 1 (sh_funcstack st)) = [Some s] \<and> (\<forall>compiler opener loop.
     custom_source (cb\<lparr>cb_zcompile := compiler, cb_open := opener, cb_loop := loop\<rparr>) (Some s) ent =
       Some (if sh_errflag (cb_execode cb (dump_prog dat d p) st) \<noteq> 0 then SOURCE_ERROR else SOURCE_OK, out))"
proof -
  obtain started sh1 where c: "zp_read_clock ent = (started, sh1)" by fastforce
  let ?sh = "add_depth 1 sh1" and ?pr = "dump_prog dat d p"
  have f: "w_data ?sh = w_data ent" "w_sparam ?sh = w_sparam ent" "w_stat ?sh = w_stat ent"
    "sh_dumps ?sh = sh_dumps ent" "sh_mmap_ok ?sh = sh_mmap_ok ent"
    using c by (auto simp: zp_read_clock_def add_depth_def split: if_splits)
  obtain sav where sav: "\<forall>k. cb_fstat k = cb_fstat cb \<longrightarrow> custom_try_source_file k us ?sh = Some (Some ?pr, sav)"
    using sourced_dump [of ?sh us dat version d es p nm stc "cb_fstat cb"] assms(2-12) f by auto
  define st0 where "st0 = enter_source cb s None (sh_scriptfilename ent) sav"
  define st where "st = st0\<lparr>sh_errflag := sh_errflag st0 AND NOT ERRFLAG_ERROR\<rparr>"
  define ret where "ret = (if sh_errflag (cb_execode cb ?pr st) \<noteq> 0 then SOURCE_ERROR else SOURCE_OK)"
  define z where "z = add_depth (- 1) (leave_source cb (Some ?pr) ent sav (cb_execode cb ?pr st))"
  define out where "out = zp_record_source (zp_source_path sh1 s) started (zp_source_depth (sh_profile ?sh))
      (sr_code ret) (exit_status_of ret (sh_lastval z)) z"
  have run: "custom_source (cb\<lparr>cb_zcompile := k, cb_open := op, cb_loop := l\<rparr>) (Some s) ent = Some (ret, out)" for k op l
  proof -
    let ?cb = "cb\<lparr>cb_zcompile := k, cb_open := op, cb_loop := l\<rparr>"
    have t: "custom_try_source_file ?cb (cb_unmeta ?cb s) ?sh = Some (Some ?pr, sav)" using sav assms(1) by simp
    have e: "enter_source ?cb s None (sh_scriptfilename ent) sav = st0" unfolding st0_def by (simp add: enter_source_def Let_def)
    have r: "run_source ?cb (Some ?pr) st0 = (ret, cb_execode cb ?pr st)"
      by (simp add: run_source_def Let_def st_def ret_def)
    have l: "leave_source ?cb (Some ?pr) ent sav x = leave_source cb (Some ?pr) ent sav x" for x
      by (simp add: leave_source_def Let_def)
    show ?thesis
      unfolding custom_source_def option.case c prod.case Let_def t
      by (simp add: e r l out_def z_def)
  qed
  have top: "map fs_name (take 1 (sh_funcstack st)) = [Some s]"
    by (simp add: st_def st0_def enter_source_def Let_def)
  show ?thesis
    by (intro exI [of _ st] exI [of _ out] conjI allI top run [unfolded ret_def])
qed

text \<open>The dump of the last example as the compiled form of a script that does not exist any more.\<close>

theorem compiled_script_runs_witness:
  "\<exists>st out. custom_source cb_example (Some ''/abc'') (dump_shell 1\<lparr>w_stat := (\<lambda>p. if p = ''/abc.zwc'' then Inr (w_fresh world0 p) else Inl ENOENT)\<rparr>) =
     Some (if sh_errflag (cb_execode cb_example (Eprog EF_MAP 4 0 ''DCBA'' 0) st) \<noteq> 0 then SOURCE_ERROR else SOURCE_OK, out)"
proof -
  let ?sh = "dump_shell 1\<lparr>w_stat := (\<lambda>p. if p = ''/abc.zwc'' then Inr (w_fresh world0 p) else Inl ENOENT)\<rparr>"
  let ?d = "words_of_bytes (take 76 (dump_example 1))"
  have ok: "dump_ok ''5.9'' (dump_example 1) ?d [(12, ''abc'')]" by code_simp
  have b: "\<forall>p \<in> fst ` set [(12, ''abc'')]. 4 * h_start ?d p + h_len ?d p \<le> FDOTHER ?d \<and> h_len ?d p + 8 * h_npats ?d p < 2147483648"
    by code_simp
  have prog: "dump_prog (dump_example 1) ?d 12 = Eprog EF_MAP 4 0 ''DCBA'' 0" by code_simp
  have s: "w_data ?sh (''/abc'' @ FD_EXT) = Inr (dump_example 1)" "w_sparam ?sh ''ZSH_VERSION'' = Some ''5.9''"
    "sh_mmap_ok ?sh (''/abc'' @ FD_EXT)" "w_stat ?sh (''/abc'' @ FD_EXT) = Inr (w_fresh world0 (''/abc'' @ FD_EXT))"
    "find_dump (w_fresh world0 (''/abc'' @ FD_EXT)) (sh_dumps ?sh) = None"
    "\<forall>stn. w_stat ?sh ''/abc'' = Inr stn \<longrightarrow> st_mtime stn \<le> st_mtime (w_fresh world0 (''/abc'' @ FD_EXT))"
    by (simp_all add: dump_shell_def shell0_def world.defs find_dump_def FD_EXT_def)
  have n: "''/abc'' = cb_unmeta cb_example ''/abc''" "nul \<notin> set ''/abc''" "\<not> has_suffix FD_EXT ''/abc''"
    by (simp_all add: cb_example_def nul_def has_suffix_def FD_EXT_def)
  have f: "find (\<lambda>(p, nm). nm = base_name ''/abc'') [(12, ''abc'')] = Some (12 :: nat, ''abc'')" by code_simp
  from compiled_script_runs [OF n s(1,2) ok s(3-6) b f] obtain st out where
    "custom_source (cb_example\<lparr>cb_zcompile := cb_zcompile cb_example, cb_open := cb_open cb_example,
       cb_loop := cb_loop cb_example\<rparr>) (Some ''/abc'') ?sh =
     Some (if sh_errflag (cb_execode cb_example (dump_prog (dump_example 1) ?d 12) st) \<noteq> 0 then SOURCE_ERROR else SOURCE_OK, out)"
    by blast
  then show ?thesis unfolding prog by auto
qed

end
