(* ===== verification/Zp_Bundle_Success.thy ===== *)
theory Zp_Bundle_Success
  imports Zp_Bundle
begin

text \<open>
  When \<open>zp_bundle_build_core\<close> answers 0: the directory tree it can read, as a recursive predicate
  that the collection meets exactly, and the copies and the publication it can finish.
\<close>

section \<open>Trees that can be collected\<close>

text \<open>Every directory opens and is read to its end, every visible name makes a valid path, is
  there to be examined, and leads to such a directory if it is one.\<close>

primrec readable :: "nat \<Rightarrow> 'w world_scheme \<Rightarrow> string \<Rightarrow> string \<Rightarrow> string \<Rightarrow> bool" where
  "readable 0 w root target sub = False"
| "readable (Suc left) w root target sub =
     (length (dir_path root sub) < PATH_MAX \<and>
      (\<exists>names. w_dir w (dir_path root sub) = Inr (names, 0) \<and>
         (\<forall>name \<in> set names. visible name \<longrightarrow>
            length (root @ slash # bb_join sub name) < PATH_MAX \<and>
            newline \<notin> set (bb_join sub name) \<and> creturn \<notin> set (bb_join sub name) \<and>
            (root @ slash # bb_join sub name \<noteq> target \<longrightarrow>
              (\<exists>st. w_lstat w (root @ slash # bb_join sub name) = Inr st \<and>
                 (S_ISDIR (st_mode st) \<longrightarrow> readable left w root target (bb_join sub name)))))))"

text \<open>One name of a directory, given which subdirectories can be collected.\<close>

definition fine_name :: "(string \<Rightarrow> bool) \<Rightarrow> 'w world_scheme \<Rightarrow> string \<Rightarrow> string \<Rightarrow> string \<Rightarrow> string \<Rightarrow> bool" where
  "fine_name R w root target sub name \<longleftrightarrow>
     (visible name \<longrightarrow>
        length (root @ slash # bb_join sub name) < PATH_MAX \<and>
        newline \<notin> set (bb_join sub name) \<and> creturn \<notin> set (bb_join sub name) \<and>
        (root @ slash # bb_join sub name \<noteq> target \<longrightarrow>
          (\<exists>st. w_lstat w (root @ slash # bb_join sub name) = Inr st \<and>
             (S_ISDIR (st_mode st) \<longrightarrow> R (bb_join sub name)))))"

lemma readable_Suc:
  "readable (Suc left) w root target sub \<longleftrightarrow> length (dir_path root sub) < PATH_MAX \<and>
     (\<exists>names. w_dir w (dir_path root sub) = Inr (names, 0) \<and>
        list_all (fine_name (readable left w root target) w root target sub) names)"
  by (simp add: list_all_iff fine_name_def)

lemma push_ok: "mem_ok w \<Longrightarrow> \<exists>v'. bb_vec_push w v e = Some v'"
  by (auto simp: bb_vec_push_def vec_push_def Let_def)

lemma bb_scan_total:
  assumes "mem_ok w" "\<And>rel v. (\<exists>v'. rec rel v = Inr v') \<longleftrightarrow> R rel"
  shows "(\<exists>out'. bb_scan rec w root target sub e names out = Inr out') \<longleftrightarrow>
    e = 0 \<and> list_all (fine_name R w root target sub) names"
proof (induction names arbitrary: out)
  case (Cons name names)
  let ?rel = "bb_join sub name"
  have alloc: "w_alloc w n" for n using assms(1) by auto
  have push: "\<exists>v'. bb_vec_push w out x = Some v'" for x using assms(1) by (rule push_ok)
  have rel: "length ?rel < length (root @ slash # ?rel)" by simp
  show ?case
  proof (cases "visible name \<and> root @ slash # ?rel \<noteq> target \<and> length (root @ slash # ?rel) < PATH_MAX \<and>
      newline \<notin> set ?rel \<and> creturn \<notin> set ?rel")
    case False
    then show ?thesis
      using Cons.IH rel by (auto simp: visible_iff Let_def fine_name_def)
  next
    case True
    then have n: "length ?rel < PATH_MAX" using rel by linarith
    show ?thesis
    proof (cases "w_lstat w (root @ slash # ?rel)")
      case (Inl x)
      then show ?thesis using True n by (simp add: visible_iff Let_def fine_name_def)
    next
      case (Inr st)
      show ?thesis
      proof (cases "S_ISDIR (st_mode st)")
        case dir: True
        show ?thesis
        proof (cases "rec ?rel out")
          case (Inl x)
          then have "\<not> R ?rel" using assms(2) [of ?rel out] by auto
          then show ?thesis using True n Inr dir Inl by (simp add: visible_iff Let_def fine_name_def)
        next
          case v: (Inr v)
          then have "R ?rel" using assms(2) [of ?rel out] by auto
          then show ?thesis using True n Inr dir v Cons.IH by (simp add: visible_iff Let_def fine_name_def)
        qed
      next
        case False
        obtain v where "bb_vec_push w out \<lparr>bb_rel = ?rel, bb_abs = root @ slash # ?rel, bb_size = int (st_size st),
            bb_mtime = st_mtime st\<rparr> = Some v" using push by blast
        then show ?thesis using True n Inr False Cons.IH alloc
          by (simp add: visible_iff Let_def fine_name_def)
      qed
    qed
  qed
qed simp

lemma bb_collect_total:
  assumes "mem_ok w"
  shows "(\<exists>v. bb_collect left w root target sub out = Inr v) \<longleftrightarrow> readable left w root target sub"
proof (induction left arbitrary: sub out)
  case (Suc left)
  have s: "(\<exists>v. bb_scan (bb_collect left w root target) w root target sub e names out = Inr v) \<longleftrightarrow>
      e = 0 \<and> list_all (fine_name (readable left w root target) w root target sub) names" for e names
    using assms Suc.IH by (rule bb_scan_total)
  have c: "bb_collect (Suc left) w root target sub out =
      (if PATH_MAX \<le> length (dir_path root sub) then Inl ENAMETOOLONG
       else case w_dir w (dir_path root sub) of
              Inl e \<Rightarrow> Inl e
            | Inr (names, e_end) \<Rightarrow>
                bb_scan (bb_collect left w root target) w root target sub e_end names out)"
    by (simp add: Let_def dir_path_def)
  show ?case
  proof (cases "w_dir w (dir_path root sub)")
    case (Inr p)
    obtain names e where p: "p = (names, e)" by fastforce
    show ?thesis
      unfolding c readable_Suc Inr p using s [of e names] by (simp add: not_le)
  qed (simp only: c readable_Suc, simp)
qed simp

section \<open>Copies that succeed\<close>

text \<open>The file is the one collected, is no link, and is read and closed without an error.\<close>

definition copyable :: "'v world_scheme \<Rightarrow> bb_entry \<Rightarrow> bool" where
  "copyable later f \<longleftrightarrow> unchanged later f \<and>
     (\<exists>l. w_lstat later (bb_abs f) = Inr l \<and> \<not> S_ISLNK (st_mode l)) \<and>
     w_fdopen_err later (bb_abs f) = 0 \<and> w_read_err later (bb_abs f) = 0 \<and> w_close_err later (bb_abs f) = 0"

lemma put_text_room: "w_room w tmp = None \<Longrightarrow> put_text w tmp t piece = Some (t @ piece)"
  by (simp add: put_text_def)

lemma copy_blocks_room:
  assumes "w_room w tmp = None" "int copied + int (length data) \<le> sz"
  shows "copy_blocks w tmp sz t copied data = Some (t @ data, copied + length data)"
  using assms(2)
proof (induction "length data" arbitrary: t copied data rule: less_induct)
  case less
  show ?case
  proof (cases "data = []")
    case False
    then have "copy_blocks w tmp sz (t @ take 8192 data) (copied + length (take 8192 data)) (drop 8192 data) =
        Some ((t @ take 8192 data) @ drop 8192 data,
              copied + length (take 8192 data) + length (drop 8192 data))"
      using less.prems by (intro less.hyps) auto
    moreover have "\<not> sz - int copied < int (length (take 8192 data))" using less.prems by auto
    ultimately show ?thesis
      using False by (simp add: copy_blocks.simps [of w tmp sz t copied data] put_text_room [OF assms(1)] Let_def)
  qed (simp add: copy_blocks.simps [of w tmp sz t copied "[]"])
qed

lemma bundle_file_room:
  assumes "copyable later f" "w_room w tmp = None"
  shows "\<exists>t'. bundle_file w later tmp f t = Inr t'"
proof -
  from assms(1) obtain st data l where
    "w_stat later (bb_abs f) = Inr st" "w_data later (bb_abs f) = Inr data" "S_ISREG (st_mode st)"
    "int (st_size st) = bb_size f" "st_mtime st = bb_mtime f" "int (length data) = bb_size f"
    "w_lstat later (bb_abs f) = Inr l" "\<not> S_ISLNK (st_mode l)" "w_fdopen_err later (bb_abs f) = 0"
    "w_read_err later (bb_abs f) = 0" "w_close_err later (bb_abs f) = 0"
    by (auto simp: copyable_def unchanged_def)
  then show ?thesis
    using put_text_room [OF assms(2)] copy_blocks_room [OF assms(2), of 0 data "bb_size f"]
    by (simp add: bundle_file_def)
qed

lemma bundle_files_room:
  assumes "w_room w tmp = None" "\<forall>f \<in> set fs. copyable later f" "0 \<le> sofar" "sofar + total_size fs \<le> ULONG_MAX"
  shows "\<exists>r. bundle_files w later tmp limit sofar fs t = Inr r"
  using assms(2-4)
proof (induction fs arbitrary: sofar t)
  case (Cons f fs)
  have nn: "0 \<le> bb_size g" if "g \<in> set (f # fs)" for g
    using Cons.prems(1) that by (fastforce simp: copyable_def unchanged_def)
  then have tot: "0 \<le> total_size fs" unfolding total_size_def by (intro sum_list_nonneg) auto
  obtain t' where "bundle_file w later tmp f t = Inr t'" using bundle_file_room assms(1) Cons.prems(1) by (metis list.set_intros(1))
  moreover obtain r where "bundle_files w later tmp limit (sofar + bb_size f) fs t' = Inr r"
    using Cons.IH [of "sofar + bb_size f" t'] Cons.prems nn by (auto simp: total_size_def)
  moreover have "\<not> bb_size f < 0" "\<not> ULONG_MAX - sofar < bb_size f"
    using nn Cons.prems(3) tot by (auto simp: total_size_def not_less)
  ultimately show ?case by auto
qed auto

section \<open>Publication that succeeds\<close>

definition can_publish :: "'w world_scheme \<Rightarrow> string \<Rightarrow> bool" where
  "can_publish w target \<longleftrightarrow> length target + 11 < PATH_MAX \<and>
     (\<exists>tmp. w_mkstemp w (target @ ''.tmp.XXXXXX'') = Inr tmp \<and> w_fdopen_err w tmp = 0 \<and>
        w_room w tmp = None \<and> w_close_err w tmp = 0 \<and> w_rename_err w tmp = 0)"

lemma rename_ok: "w_rename_err u p = 0 \<Longrightarrow> \<not> isl (w_lstat u p) \<Longrightarrow> \<exists>w'. sys_rename p q u = Inr w'"
  by (cases "w_lstat u p") (auto simp: sys_rename_def)

lemma publish_room:
  assumes "can_publish w target" "\<forall>f \<in> set fs. copyable later f" "total_size fs \<le> ULONG_MAX"
  shows "\<exists>w'. bundle_publish later nam target fs max_kb w = (None, w')"
proof -
  from assms(1) obtain tmp where t: "length target + 11 < PATH_MAX"
    "w_mkstemp w (target @ ''.tmp.XXXXXX'') = Inr tmp" "w_fdopen_err w tmp = 0" "w_room w tmp = None"
    "w_close_err w tmp = 0" "w_rename_err w tmp = 0" by (auto simp: can_publish_def)
  obtain v where m: "sys_mkstemp (target @ ''.tmp.XXXXXX'') w = Inr (tmp, v)"
    and v: "w_fdopen_err v = w_fdopen_err w" "w_room v = w_room w" "w_close_err v = w_close_err w"
      "w_rename_err v = w_rename_err w" "\<not> isl (w_lstat v tmp)"
    using t(2) by (auto simp: sys_mkstemp_def set_node_def)
  obtain r where r: "bundle_files v later tmp (max_kb * 1024) 0 fs (bb_header max_kb) = Inr r"
    using bundle_files_room [of v tmp fs later 0 "max_kb * 1024" "bb_header max_kb"] v(2) t(4) assms(2,3)
    by fastforce
  obtain t' short where rr: "r = (t', short)" by fastforce
  let ?v2 = "if short then zwarnnam nam (''bundle-build: truncated at --max '' @ render_int max_kb @ '' KiB'') v else v"
  let ?v3 = "set_data tmp t' ?v2"
  have k: "w_close_err ?v3 tmp = 0" "w_rename_err ?v3 tmp = 0"
    using v t by (auto simp: set_data_def set_node_def zwarnnam_def split: sum.splits)
  have "\<not> isl (w_lstat ?v3 tmp)"
    using v(5) by (auto simp: set_data_def set_node_def zwarnnam_def split: sum.splits)
  then obtain w4 where "sys_rename tmp target ?v3 = Inr w4"
    using k rename_ok by blast
  then show ?thesis
    using t m v r rr k put_text_room [of v tmp "[]"]
    by (simp add: bundle_publish_def Let_def)
qed

section \<open>The command\<close>

text \<open>The files in the order they are written.\<close>

definition collected :: "'w world_scheme \<Rightarrow> string \<Rightarrow> string \<Rightarrow> bb_entry list" where
  "collected w root target =
     qsort bb_cmp (case bb_collect bb_depth w root target [] bb_vec_init of Inr v \<Rightarrow> vec_items v | Inl _ \<Rightarrow> [])"

lemma collected_bundled:
  assumes "f \<in> set (collected w root target)" shows "bundled w root target [] f"
proof (cases "bb_collect bb_depth w root target [] bb_vec_init")
  case (Inl e)
  then show ?thesis using assms by (simp add: collected_def qsort_def)
next
  case (Inr v)
  then show ?thesis using assms collected_files [OF Inr] by (auto simp: collected_def)
qed

text \<open>
  C6: bundle-build succeeds when it should.  With memory, a readable source, an output that is absent
  or a regular file and can be published, and files that are still those collected when they are
  copied, it answers 0 exactly when every directory below the source can be opened and read, down
  to at most 65 levels, and every visible name in it makes a valid path that can be examined.
\<close>

theorem bundle_build_succeeds:
  assumes "mem_ok w" "src \<noteq> []" "dst \<noteq> []" "0 \<le> max_kb" "max_kb \<le> ULONG_MAX div 1024"
    "w_realpath w (cstr (unmetafy src)) = Inr root" "output_of unmetafy w (Some dst) = Some target"
    "case w_lstat w target of Inr st \<Rightarrow> S_ISREG (st_mode st) | Inl e \<Rightarrow> e = ENOENT"
    "\<forall>f. bundled w root target [] f \<longrightarrow> copyable later f"
    "total_size (collected w root target) \<le> ULONG_MAX" "can_publish w target"
  shows "(\<exists>w'. zp_bundle_build_core unmetafy later nam (Some src) (Some dst) max_kb w = (0, w')) \<longleftrightarrow>
    readable bb_depth w root target []"
proof -
  let ?c = "bb_collect bb_depth w root target [] bb_vec_init"
  have out: "resolve_output w (cstr (unmetafy dst)) = Inr target"
    using assms(7) by (simp add: output_of_def split: sum.splits)
  have reg: "\<not> (case w_lstat w target of Inr st \<Rightarrow> \<not> S_ISREG (st_mode st) | Inl e \<Rightarrow> e \<noteq> ENOENT)"
    using assms(8) by (simp split: sum.splits)
  note run = bundle_run_def [of unmetafy later nam src dst max_kb w, unfolded assms(6) sum.case out]
  show ?thesis
  proof (cases ?c)
    case (Inl e)
    then have "\<not> readable bb_depth w root target []"
      using bb_collect_total [OF assms(1), of bb_depth root target "[]" bb_vec_init] by simp
    moreover have "bundle_run unmetafy later nam src dst max_kb w = (Some e, w)"
      using reg by (simp add: run Inl)
    ultimately show ?thesis using assms(2,3) by (auto simp: zp_bundle_build_core_def)
  next
    case (Inr v)
    then have ok: "readable bb_depth w root target []"
      using bb_collect_total [OF assms(1), of bb_depth root target "[]" bb_vec_init] by blast
    have "collected w root target = qsort bb_cmp (vec_items v)" by (simp add: collected_def Inr)
    moreover have "\<forall>f \<in> set (collected w root target). copyable later f"
      using collected_bundled assms(9) by blast
    ultimately obtain w' where "bundle_publish later nam target (qsort bb_cmp (vec_items v)) max_kb w = (None, w')"
      using publish_room [OF assms(11)] assms(10) by metis
    then have "\<exists>w'. bundle_run unmetafy later nam src dst max_kb w = (None, w')"
      using reg by (simp add: run Inr Let_def)
    then show ?thesis using assms(2-5) ok by (auto simp: zp_bundle_build_core_def)
  qed
qed

lemma world_scripts_collected:
  "collected world_scripts ''/s'' ''/o/z'' =
     [\<lparr>bb_rel = ''a.zsh'', bb_abs = ''/s/a.zsh'', bb_size = 1, bb_mtime = 5\<rparr>,
      \<lparr>bb_rel = ''b.zsh'', bb_abs = ''/s/b.zsh'', bb_size = 2, bb_mtime = 5\<rparr>]"
  by code_simp

lemma world_scripts_readable: "readable bb_depth world_scripts ''/s'' ''/o/z'' []"
proof -
  have d: "w_dir world_scripts (dir_path ''/s'' []) = Inr ([''b.zsh'', ''.'', ''a.zsh''], 0)"
    "w_lstat world_scripts ''/s/a.zsh'' = Inr ((w_fresh world0 [])\<lparr>st_mode := S_IFREG, st_size := 1, st_mtime := 5\<rparr>)"
    "w_lstat world_scripts ''/s/b.zsh'' = Inr ((w_fresh world0 [])\<lparr>st_mode := S_IFREG, st_size := 2, st_mtime := 5\<rparr>)"
    by (simp_all add: world_scripts_def dir_path_def Let_def)
  have j: "''/s'' @ slash # bb_join [] ''a.zsh'' = ''/s/a.zsh''" "''/s'' @ slash # bb_join [] ''b.zsh'' = ''/s/b.zsh''"
    by (simp_all add: bb_join_def slash_def)
  note sane = fine_name_def visible_def bb_join_def PATH_MAX_def S_ISDIR_def mode_consts c_chars
  have "fine_name R world_scripts ''/s'' ''/o/z'' [] ''a.zsh''" for R
    unfolding fine_name_def j d by (simp add: sane)
  moreover have "fine_name R world_scripts ''/s'' ''/o/z'' [] ''b.zsh''" for R
    unfolding fine_name_def j d by (simp add: sane)
  moreover have "fine_name R world_scripts ''/s'' ''/o/z'' [] ''.''" for R
    by (simp add: fine_name_def visible_def)
  moreover have "length (dir_path ''/s'' []) < PATH_MAX" by (simp add: dir_path_def PATH_MAX_def)
  ultimately have "readable (Suc 64) world_scripts ''/s'' ''/o/z'' []"
    unfolding readable_Suc d by simp
  then show ?thesis by (simp add: bb_depth_def)
qed

lemma world_scripts_mem: "mem_ok world_scripts"
  by (simp add: mem_ok_def world_scripts_def Let_def world0_def)

lemma world_scripts_intact:
  "copyable world_scripts \<lparr>bb_rel = ''a.zsh'', bb_abs = ''/s/a.zsh'', bb_size = 1, bb_mtime = 5\<rparr>"
  "copyable world_scripts \<lparr>bb_rel = ''b.zsh'', bb_abs = ''/s/b.zsh'', bb_size = 2, bb_mtime = 5\<rparr>"
proof -
  have s: "S_ISREG S_IFREG" "\<not> S_ISLNK S_IFREG" by (simp_all add: S_ISREG_def S_ISLNK_def mode_consts)
  show "copyable world_scripts \<lparr>bb_rel = ''a.zsh'', bb_abs = ''/s/a.zsh'', bb_size = 1, bb_mtime = 5\<rparr>"
    "copyable world_scripts \<lparr>bb_rel = ''b.zsh'', bb_abs = ''/s/b.zsh'', bb_size = 2, bb_mtime = 5\<rparr>"
    by (simp_all add: copyable_def unchanged_def world_scripts_def Let_def s) (simp_all add: world0_def)
qed

lemma world_scripts_copyable:
  assumes "bundled world_scripts ''/s'' ''/o/z'' [] f" shows "copyable world_scripts f"
proof -
  obtain v where v: "bb_collect bb_depth world_scripts ''/s'' ''/o/z'' [] bb_vec_init = Inr v"
    using bb_collect_total [OF world_scripts_mem] world_scripts_readable by blast
  have "f \<in> set (collected world_scripts ''/s'' ''/o/z'')"
    using collected_files [OF v] assms by (simp add: collected_def v)
  then show ?thesis using world_scripts_intact by (auto simp: world_scripts_collected)
qed

theorem bundle_build_succeeds_witness:
  "\<exists>w'. zp_bundle_build_core id world_scripts ''b'' (Some ''/s'') (Some ''/o/z'') 0 world_scripts = (0, w')"
proof -
  have p: "w_mkstemp world_scripts (''/o/z'' @ ''.tmp.XXXXXX'') = Inr ''/o/z.tmp.a1b2c3''" by code_simp
  have "can_publish world_scripts ''/o/z''"
    unfolding can_publish_def p by (simp add: world_scripts_def Let_def world0_def PATH_MAX_def)
  moreover note world_scripts_mem
  moreover have "w_realpath world_scripts (cstr (id ''/s'')) = Inr ''/s''" by code_simp
  moreover have "w_lstat world_scripts ''/o/z'' = Inl ENOENT" by code_simp
  moreover have "total_size (collected world_scripts ''/s'' ''/o/z'') \<le> ULONG_MAX"
    by (simp add: world_scripts_collected total_size_def c_limits)
  ultimately show ?thesis
    using bundle_build_succeeds [of world_scripts "''/s''" "''/o/z''" 0 id "''/s''" "''/o/z''" world_scripts "''b''"]
      world_scripts_output world_scripts_copyable world_scripts_readable by (simp add: c_limits)
qed

end
