(* ===== verification/Zp_Json.thy ===== *)
theory Zp_Json
  imports Zp_Prelude
begin

text \<open>
  A reader of JSON, so that the reports written with \<open>--json\<close> have a meaning: values, the
  parser (the part of RFC 8259 without fractions, exponents and \<open>\u\<close> escapes, on UTF-8 bytes) and
  the lemmas that give the value of a text composed from printed parts.
\<close>

datatype json =
    JNull
  | JBool bool
  | JNum int
  | JStr string
  | JArr "json list"
  | JObj "(string \<times> json) list"

section \<open>The parser\<close>

definition json_space :: "char \<Rightarrow> bool" where
  "json_space c \<longleftrightarrow> c \<in> {CHR 0x20, CHR 0x09, CHR 0x0A, CHR 0x0D}"

definition skip_ws :: "string \<Rightarrow> string" where
  "skip_ws s = dropWhile json_space s"

definition unescape :: "char \<Rightarrow> char option" where
  "unescape c =
     (if c \<in> {CHR 0x22, CHR 0x5C, CHR 0x2F} then Some c
      else map_of [(CHR ''b'', CHR 0x08), (CHR ''f'', CHR 0x0C), (CHR ''n'', CHR 0x0A),
                   (CHR ''r'', CHR 0x0D), (CHR ''t'', CHR 0x09)] c)"

text \<open>The characters a string may contain as they are: no control character.\<close>

definition unescaped :: "char \<Rightarrow> bool" where
  "unescaped c \<longleftrightarrow> 0x20 \<le> (of_char c :: nat) \<and> c \<noteq> CHR 0x22 \<and> c \<noteq> CHR 0x5C"

text \<open>After the opening quote: the content and what follows the closing quote.\<close>

fun json_chars :: "string \<Rightarrow> (string \<times> string) option" where
  "json_chars [] = None"
| "json_chars (c # s) =
     (if c = CHR 0x22 then Some ([], s)
      else if c = CHR 0x5C then
        (case s of
           [] \<Rightarrow> None
         | d # s' \<Rightarrow>
             (case unescape d of
                None \<Rightarrow> None
              | Some e \<Rightarrow> map_option (apfst ((#) e)) (json_chars s')))
      else if unescaped c then map_option (apfst ((#) c)) (json_chars s)
      else None)"

definition json_number :: "string \<Rightarrow> (int \<times> string) option" where
  "json_number s =
     (let neg = starts_with ''-'' s;
          t = (if neg then drop 1 s else s);
          ds = takeWhile (is_digit 10) t
      in if ds = [] \<or> (hd ds = CHR ''0'' \<and> 1 < length ds) then None
         else Some ((if neg then - int (parse_nat 10 ds) else int (parse_nat 10 ds)),
                    dropWhile (is_digit 10) t))"

fun json_value :: "nat \<Rightarrow> string \<Rightarrow> (json \<times> string) option"
  and json_items :: "nat \<Rightarrow> string \<Rightarrow> (json list \<times> string) option"
  and json_members :: "nat \<Rightarrow> string \<Rightarrow> ((string \<times> json) list \<times> string) option" where
  "json_value 0 s = None"
| "json_value (Suc n) s =
     (case skip_ws s of
        [] \<Rightarrow> None
      | c # r \<Rightarrow>
          if c = CHR 0x22 then map_option (apfst JStr) (json_chars r)
          else if c = CHR ''['' then
            (if starts_with '']'' (skip_ws r) then Some (JArr [], drop 1 (skip_ws r))
             else map_option (apfst JArr) (json_items n r))
          else if c = CHR ''{'' then
            (if starts_with ''}'' (skip_ws r) then Some (JObj [], drop 1 (skip_ws r))
             else map_option (apfst JObj) (json_members n r))
          else if starts_with ''true'' (c # r) then Some (JBool True, drop 4 (c # r))
          else if starts_with ''false'' (c # r) then Some (JBool False, drop 5 (c # r))
          else if starts_with ''null'' (c # r) then Some (JNull, drop 4 (c # r))
          else map_option (apfst JNum) (json_number (c # r)))"
| "json_items 0 s = None"
| "json_items (Suc n) s =
     (case json_value n s of
        None \<Rightarrow> None
      | Some (v, r) \<Rightarrow>
          (case skip_ws r of
             [] \<Rightarrow> None
           | c # r' \<Rightarrow>
               if c = CHR '','' then map_option (apfst ((#) v)) (json_items n r')
               else if c = CHR '']'' then Some ([v], r')
               else None))"
| "json_members 0 s = None"
| "json_members (Suc n) s =
     (case skip_ws s of
        [] \<Rightarrow> None
      | c # r \<Rightarrow>
          if c \<noteq> CHR 0x22 then None
          else
            (case json_chars r of
               None \<Rightarrow> None
             | Some (k, r1) \<Rightarrow>
                 (case skip_ws r1 of
                    [] \<Rightarrow> None
                  | d # r2 \<Rightarrow>
                      if d \<noteq> CHR '':'' then None
                      else
                        (case json_value n r2 of
                           None \<Rightarrow> None
                         | Some (v, r3) \<Rightarrow>
                             (case skip_ws r3 of
                                [] \<Rightarrow> None
                              | e # r4 \<Rightarrow>
                                  if e = CHR '','' then map_option (apfst ((#) (k, v))) (json_members n r4)
                                  else if e = CHR ''}'' then Some ([(k, v)], r4)
                                  else None)))))"

text \<open>A document is UTF-8 text: no stray, missing or overlong byte, no surrogate, nothing beyond
  U+10FFFF.\<close>

definition continues :: "nat \<Rightarrow> nat \<Rightarrow> char \<Rightarrow> bool" where
  "continues low high c \<longleftrightarrow> low \<le> of_char c \<and> of_char c \<le> high"

fun utf8 :: "string \<Rightarrow> bool" where
  "utf8 [] = True"
| "utf8 (a # s) =
     (let n = of_char a :: nat in
      if n < 0x80 then utf8 s
      else if 0xC2 \<le> n \<and> n < 0xE0 then
        (case s of b # s' \<Rightarrow> continues 0x80 0xBF b \<and> utf8 s' | [] \<Rightarrow> False)
      else if 0xE0 \<le> n \<and> n < 0xF0 then
        (case s of
           b # c # s' \<Rightarrow>
             continues (if n = 0xE0 then 0xA0 else 0x80) (if n = 0xED then 0x9F else 0xBF) b \<and>
             continues 0x80 0xBF c \<and> utf8 s'
         | _ \<Rightarrow> False)
      else if 0xF0 \<le> n \<and> n < 0xF5 then
        (case s of
           b # c # d # s' \<Rightarrow>
             continues (if n = 0xF0 then 0x90 else 0x80) (if n = 0xF4 then 0x8F else 0xBF) b \<and>
             continues 0x80 0xBF c \<and> continues 0x80 0xBF d \<and> utf8 s'
         | _ \<Rightarrow> False)
      else False)"

text \<open>A document: UTF-8, one value and nothing but space after it.  Each level of the text takes two
  units of fuel at most, so twice the length is enough.\<close>

definition json_parse :: "string \<Rightarrow> json option" where
  "json_parse s =
     (if \<not> utf8 s then None
      else case json_value (2 * length s) s of
             None \<Rightarrow> None
           | Some (v, r) \<Rightarrow> if skip_ws r = [] then Some v else None)"

lemma utf8_ascii [simp]: "of_char a < (0x80 :: nat) \<Longrightarrow> utf8 (a # s) = utf8 s"
  by simp

lemma utf8_append: "utf8 s \<Longrightarrow> utf8 (s @ t) = utf8 t"
  by (induction s rule: utf8.induct) (auto simp: Let_def split: if_splits list.splits)

lemmas utf8_many = utf8.simps(2)
declare utf8.simps(2) [simp del]

lemma utf8_digits: "list_all (is_digit b) ds \<Longrightarrow> b \<le> 10 \<Longrightarrow> utf8 ds"
proof (induction ds)
  case (Cons c ds)
  then have "is_digit b c" by simp
  then have "of_char c < (0x80 :: nat)" using Cons.prems(2) by (auto simp: is_digit_def)
  with Cons show ?case by simp
qed simp

lemma utf8_number [simp]: "utf8 (render_nat 10 n)" "utf8 (render_int i)"
proof -
  show n: "utf8 (render_nat 10 n)" for n using render_nat_digits [of 10 n] by (auto intro: utf8_digits)
  then show "utf8 (render_int i)" by (simp add: render_int_def)
qed

section \<open>Texts and what they mean\<close>

text \<open>What may follow a value: not a digit, which would prolong a number.\<close>

definition ends_value :: "string \<Rightarrow> bool" where
  "ends_value r \<longleftrightarrow> takeWhile (is_digit 10) r = []"

definition means :: "string \<Rightarrow> json \<Rightarrow> bool" where
  "means s v \<longleftrightarrow>
     (\<forall>n r. 2 * length s \<le> n \<longrightarrow> ends_value r \<longrightarrow> json_value n (s @ r) = Some (v, r))"

text \<open>The inside of a string literal and the string it stands for.\<close>

definition spells :: "string \<Rightarrow> string \<Rightarrow> bool" where
  "spells t s \<longleftrightarrow> (\<forall>r. json_chars (t @ CHR 0x22 # r) = Some (s, r))"

definition string_text :: "string \<Rightarrow> string" where
  "string_text t = CHR 0x22 # t @ [CHR 0x22]"

fun sepby :: "string \<Rightarrow> string list \<Rightarrow> string" where
  "sepby sep [] = []"
| "sepby sep [t] = t"
| "sepby sep (t # ts) = t @ sep @ sepby sep ts"

definition member_text :: "string \<times> string \<Rightarrow> string" where
  "member_text m = string_text (fst m) @ '':'' @ snd m"

definition array_text :: "string \<Rightarrow> string list \<Rightarrow> string" where
  "array_text sep ts = ''['' @ sepby sep ts @ '']''"

definition object_text :: "(string \<times> string) list \<Rightarrow> string" where
  "object_text ms = ''{'' @ sepby '','' (map member_text ms) @ ''}''"

named_theorems means_intros "the meaning of printed parts"

lemma meansD: "means s v \<Longrightarrow> 2 * length s \<le> n \<Longrightarrow> ends_value r \<Longrightarrow> json_value n (s @ r) = Some (v, r)"
  by (simp add: means_def)

lemma skip_ws_id: "\<not> json_space c \<Longrightarrow> skip_ws (c # s) = c # s"
  by (simp add: skip_ws_def)

lemma ends_value_char: "\<not> is_digit 10 c \<Longrightarrow> ends_value (c # s)"
  by (simp add: ends_value_def)

lemma ends_value_chars [simp]:
  "ends_value []" "ends_value (CHR '','' # s)" "ends_value (CHR '']'' # s)" "ends_value (CHR ''}'' # s)"
  "ends_value (CHR '' '' # s)" "ends_value (CHR 0x0A # s)"
  by (simp_all add: ends_value_def is_digit_def)

lemma means_nonempty: "means s v \<Longrightarrow> s \<noteq> []"
  using meansD [of s v 0 "[]"] by auto

lemma spells_Nil [means_intros]: "spells [] []"
  by (simp add: spells_def)

lemma spells_plain: "list_all unescaped s \<Longrightarrow> spells s s"
  unfolding spells_def
  by (induction s) (auto simp: unescaped_def)

lemma means_string [means_intros]: "spells t s \<Longrightarrow> means (string_text t) (JStr s)"
  unfolding means_def
proof (intro allI impI)
  fix n r
  assume a: "spells t s" "2 * length (string_text t) \<le> n"
  then obtain m where "n = Suc m" by (cases n) (auto simp: string_text_def)
  with a show "json_value n (string_text t @ r) = Some (JStr s, r)"
    by (simp add: string_text_def skip_ws_id json_space_def spells_def)
qed


lemma digit_char_zero: "d < 10 \<Longrightarrow> digit_char d = CHR ''0'' \<longleftrightarrow> d = 0"
proof
  assume "d < 10" "digit_char d = CHR ''0''"
  then have "48 + d = (of_char (CHR ''0'') :: nat)" by (simp only: of_char_digit [symmetric])
  then show "d = 0" by simp
next
  have "digit_char 0 = CHR ''0''" by code_simp
  then show "d = 0 \<Longrightarrow> digit_char d = CHR ''0''" by simp
qed

lemma render_nat_leading: "0 < n \<Longrightarrow> hd (render_nat 10 n) \<noteq> CHR ''0''"
proof (induction "10 :: nat" n rule: render_nat.induct)
  case (1 n)
  show ?case
  proof (cases "n < 10")
    case True
    with 1 show ?thesis by (simp add: render_nat.simps [of 10 n] digit_char_zero)
  next
    case False
    with 1 have "hd (render_nat 10 (n div 10)) \<noteq> CHR ''0''" by simp
    with False show ?thesis by (simp add: render_nat.simps [of 10 n])
  qed
qed

lemma render_nat_no_leading_zero: "hd (render_nat 10 n) = CHR ''0'' \<Longrightarrow> length (render_nat 10 n) = 1"
  using render_nat_leading [of n] by (cases "n = 0") (auto simp: render_nat.simps [of 10 0])

lemma take_digits:
  assumes "ends_value r"
  shows "takeWhile (is_digit 10) (render_nat 10 n @ r) = render_nat 10 n"
    "dropWhile (is_digit 10) (render_nat 10 n @ r) = r"
proof -
  have d: "\<And>c. c \<in> set (render_nat 10 n) \<Longrightarrow> is_digit 10 c"
    using render_nat_digits [of 10 n] by (simp add: list_all_iff)
  with assms show "takeWhile (is_digit 10) (render_nat 10 n @ r) = render_nat 10 n"
    by (simp add: takeWhile_append2 ends_value_def)
  have "dropWhile (is_digit 10) r = r"
    using assms by (cases r) (auto simp: ends_value_def split: if_splits)
  with d show "dropWhile (is_digit 10) (render_nat 10 n @ r) = r" by (simp add: dropWhile_append2)
qed

lemma render_nat_hd: "render_nat 10 n = hd (render_nat 10 n) # tl (render_nat 10 n)"
  "is_digit 10 (hd (render_nat 10 n))"
  using render_nat_digits [of 10 n] by (cases "render_nat 10 n"; simp)+

lemma number_nat:
  assumes "ends_value r"
  shows "json_number (render_nat 10 n @ r) = Some (int n, r)"
    "json_number (CHR ''-'' # render_nat 10 n @ r) = Some (- int n, r)"
proof -
  have "\<not> starts_with ''-'' (render_nat 10 n @ r)"
    using render_nat_hd [of n] digit_not_special(2) [of 10 "hd (render_nat 10 n)"]
    by (cases "render_nat 10 n") (auto simp: starts_with_def)
  then show "json_number (render_nat 10 n @ r) = Some (int n, r)"
    using take_digits [OF assms, of n] render_nat_no_leading_zero [of n]
    by (simp add: json_number_def Let_def parse_render_nat)
  show "json_number (CHR ''-'' # render_nat 10 n @ r) = Some (- int n, r)"
    using take_digits [OF assms, of n] render_nat_no_leading_zero [of n]
    by (simp add: json_number_def Let_def parse_render_nat starts_with_def)
qed

lemma number_int: "ends_value r \<Longrightarrow> json_number (render_int i @ r) = Some (i, r)"
  by (simp add: render_int_def number_nat)

text \<open>A character that starts a number starts nothing else.\<close>

lemma number_start: "is_digit 10 c \<or> c = CHR ''-'' \<Longrightarrow>
    \<not> json_space c \<and> c \<notin> {CHR 0x22, CHR ''['', CHR ''{'', CHR ''t'', CHR ''f'', CHR ''n''}"
  by (auto simp: json_space_def is_digit_def)

lemma json_value_number:
  assumes "is_digit 10 c \<or> c = CHR ''-''"
  shows "json_value (Suc n) (c # s) = map_option (apfst JNum) (json_number (c # s))"
  using number_start [OF assms] by (simp add: skip_ws_id starts_with_def)

lemma means_nat [means_intros]: "means (render_nat 10 n) (JNum (int n))"
  unfolding means_def
proof (intro allI impI)
  fix m r
  assume a: "2 * length (render_nat 10 n) \<le> m" "ends_value r"
  then obtain k where m: "m = Suc k" by (cases m) auto
  have "json_value m (render_nat 10 n @ r) = map_option (apfst JNum) (json_number (render_nat 10 n @ r))"
    using json_value_number [of "hd (render_nat 10 n)" k "tl (render_nat 10 n) @ r"] render_nat_hd [of n] m
    by (metis append_Cons)
  with number_nat(1) [OF a(2)] show "json_value m (render_nat 10 n @ r) = Some (JNum (int n), r)" by simp
qed

lemma means_int [means_intros]: "means (render_int i) (JNum i)"
proof (cases "i < 0")
  case False
  with means_nat [of "nat i"] show ?thesis by (simp add: render_int_def)
next
  case True
  show ?thesis
    unfolding means_def
  proof (intro allI impI)
    fix m r
    assume a: "2 * length (render_int i) \<le> m" "ends_value r"
    with True obtain k where m: "m = Suc k" by (cases m) (auto simp: render_int_def)
    have "json_value m (render_int i @ r) = map_option (apfst JNum) (json_number (render_int i @ r))"
      using True by (simp add: m render_int_def json_value_number del: json_value.simps)
    with number_int [OF a(2)] show "json_value m (render_int i @ r) = Some (JNum i, r)" by simp
  qed
qed

lemma means_word [means_intros]:
  "means ''true'' (JBool True)" "means ''false'' (JBool False)" "means ''null'' JNull"
  unfolding means_def
  by (intro allI impI; rename_tac n r; case_tac n; simp add: skip_ws_id json_space_def starts_with_def)+

text \<open>Arrays and objects; a separator is a comma after any space.\<close>

definition separator :: "string \<Rightarrow> bool" where
  "separator sep \<longleftrightarrow> (\<exists>w. sep = w @ '','' \<and> list_all json_space w)"

lemma skip_ws_append: "list_all json_space w \<Longrightarrow> skip_ws (w @ s) = skip_ws s"
  by (induction w) (auto simp: skip_ws_def)

lemma ends_value_space: "list_all json_space w \<Longrightarrow> ends_value s \<Longrightarrow> ends_value (w @ s)"
  by (cases w) (auto simp: ends_value_def json_space_def is_digit_def)

lemma separatorE:
  assumes "separator sep"
  shows "skip_ws (sep @ s) = CHR '','' # s" "ends_value (sep @ s)" "sep \<noteq> []"
proof -
  obtain w where w: "sep = w @ '',''" "list_all json_space w" using assms by (auto simp: separator_def)
  then show "skip_ws (sep @ s) = CHR '','' # s" by (simp add: skip_ws_append skip_ws_id json_space_def)
  have "ends_value (w @ '','' @ s)" using w(2) by (rule ends_value_space) simp
  then show "ends_value (sep @ s)" "sep \<noteq> []" by (simp_all add: w)
qed

lemma separators [simp]: "separator '',''" "separator '' ,''"
  by (simp_all add: separator_def json_space_def exI [of _ "[]"] exI [of _ "'' ''"])

lemma means_not_bracket:
  assumes "means s v"
  shows "\<not> starts_with '']'' (skip_ws (s @ r))"
proof
  assume b: "starts_with '']'' (skip_ws (s @ r))"
  have "skip_ws (s @ r) = skip_ws s @ r \<or> skip_ws s = []"
    by (cases "skip_ws s = []") (auto simp: skip_ws_def dropWhile_append dropWhile_eq_Nil_conv)
  moreover have "skip_ws s \<noteq> []"
  proof
    assume e: "skip_ws s = []"
    from means_nonempty [OF assms] obtain n where "2 * length s = Suc n" by (cases s) auto
    then show False using meansD [OF assms, of "2 * length s" "[]"] e by simp
  qed
  ultimately have "starts_with '']'' (skip_ws s)" using b by (cases "skip_ws s") (auto simp: starts_with_def)
  then obtain t where t: "skip_ws s = CHR '']'' # t" by (cases "skip_ws s") (auto simp: starts_with_def)
  from means_nonempty [OF assms] obtain n where n: "2 * length s = Suc n" by (cases s) auto
  have "json_value (Suc n) s = None"
    by (simp add: t starts_with_def json_number_def is_digit_def)
  with meansD [OF assms, of "Suc n" "[]"] n show False by simp
qed

lemma items_mean:
  assumes "list_all2 means ts vs" "ts \<noteq> []" "separator sep" "2 * length (sepby sep ts) + 1 \<le> n"
  shows "json_items n (sepby sep ts @ CHR '']'' # r) = Some (vs, r)"
  using assms
proof (induction sep ts arbitrary: vs n rule: sepby.induct)
  case (2 sep t)
  then obtain v m where "vs = [v]" "means t v" "n = Suc m" by (cases n) (auto simp: list_all2_Cons1)
  with 2 meansD [of t v m "CHR '']'' # r"] show ?case by (simp add: skip_ws_id json_space_def)
next
  case (3 sep t t' ts)
  let ?rest = "sepby sep (t' # ts)"
  from 3 obtain v vs' m where v: "vs = v # vs'" "means t v" "list_all2 means (t' # ts) vs'" "n = Suc m"
    by (cases n) (auto simp: list_all2_Cons1)
  have "json_value m (t @ sep @ ?rest @ CHR '']'' # r) = Some (v, sep @ ?rest @ CHR '']'' # r)"
    using meansD [OF v(2), of m "sep @ ?rest @ CHR '']'' # r"] 3 v by (simp add: separatorE)
  moreover have "json_items m (?rest @ CHR '']'' # r) = Some (vs', r)"
    using 3 v separatorE(3) [of sep] by (intro "3.IH") (auto simp: Suc_le_eq neq_Nil_conv)
  ultimately show ?case using v 3 by (simp add: separatorE)
qed simp

lemma sepby_start: "means t v \<Longrightarrow> \<not> starts_with '']'' (skip_ws (sepby sep (t # ts) @ r))"
  using means_not_bracket [of t v] by (cases ts) simp_all

lemma means_array [means_intros]:
  assumes "list_all2 means ts vs" "separator sep"
  shows "means (array_text sep ts) (JArr vs)"
  unfolding means_def
proof (intro allI impI)
  fix n r
  assume n: "2 * length (array_text sep ts) \<le> n"
  then obtain m where m: "n = Suc m" by (cases n) (auto simp: array_text_def)
  show "json_value n (array_text sep ts @ r) = Some (JArr vs, r)"
  proof (cases ts)
    case Nil
    with assms m show ?thesis
      by (simp add: array_text_def skip_ws_id json_space_def starts_with_def)
  next
    case (Cons t ts')
    with assms obtain v where "means t v" by (auto simp: list_all2_Cons1)
    then have "\<not> starts_with '']'' (skip_ws (sepby sep ts @ CHR '']'' # r))"
      unfolding Cons by (rule sepby_start)
    moreover have "json_items m (sepby sep ts @ CHR '']'' # r) = Some (vs, r)"
      using assms Cons n m by (intro items_mean) (auto simp: array_text_def)
    ultimately show ?thesis by (simp add: m array_text_def skip_ws_id json_space_def)
  qed
qed

definition member_means :: "string \<times> string \<Rightarrow> string \<times> json \<Rightarrow> bool" where
  "member_means m kv \<longleftrightarrow> spells (fst m) (fst kv) \<and> means (snd m) (snd kv)"

lemma one_member:
  assumes "member_means m (k, v)" "2 * length (member_text m) \<le> n" "ends_value r"
    "skip_ws r = e # r4"
  shows "json_members (Suc n) (member_text m @ r) =
    (if e = CHR '','' then map_option (apfst ((#) (k, v))) (json_members n r4)
     else if e = CHR ''}'' then Some ([(k, v)], r4) else None)"
proof -
  have "json_chars (fst m @ CHR 0x22 # CHR '':'' # snd m @ r) = Some (k, CHR '':'' # snd m @ r)"
    using assms(1) by (simp add: member_means_def spells_def)
  moreover have "json_value n (snd m @ r) = Some (v, r)"
    using assms by (intro meansD) (auto simp: member_means_def member_text_def string_text_def)
  ultimately show ?thesis
    using assms(4) by (simp add: member_text_def string_text_def skip_ws_id json_space_def)
qed

lemma members_mean:
  assumes "list_all2 member_means ms kvs" "ms \<noteq> []"
    "2 * length (sepby '','' (map member_text ms)) + 1 \<le> n"
  shows "json_members n (sepby '','' (map member_text ms) @ CHR ''}'' # r) = Some (kvs, r)"
  using assms
proof (induction ms arbitrary: kvs n)
  case (Cons m ms)
  then obtain k v kvs' where kv: "kvs = (k, v) # kvs'" "member_means m (k, v)" "list_all2 member_means ms kvs'"
    by (auto simp: list_all2_Cons1)
  from Cons obtain n' where n: "n = Suc n'" by (cases n) auto
  show ?case
  proof (cases ms)
    case Nil
    with Cons.prems kv n one_member [OF kv(2), of n' "CHR ''}'' # r"] show ?thesis
      by (simp add: skip_ws_id json_space_def del: json_members.simps)
  next
    case (Cons m' ms')
    let ?rest = "sepby '','' (map member_text ms)"
    have "json_members n' (?rest @ CHR ''}'' # r) = Some (kvs', r)"
      using Cons.prems kv n Cons by (intro Cons.IH) auto
    moreover have "sepby '','' (map member_text (m # ms)) = member_text m @ CHR '','' # ?rest"
      by (simp add: Cons)
    ultimately show ?thesis
      using Cons.prems kv n one_member [OF kv(2), of n' "CHR '','' # ?rest @ CHR ''}'' # r"]
      by (simp add: skip_ws_id json_space_def del: json_members.simps)
  qed
qed simp

lemma means_object [means_intros]:
  assumes "list_all2 member_means ms kvs"
  shows "means (object_text ms) (JObj kvs)"
  unfolding means_def
proof (intro allI impI)
  fix n r
  assume n: "2 * length (object_text ms) \<le> n"
  then obtain k where k: "n = Suc k" by (cases n) (auto simp: object_text_def)
  show "json_value n (object_text ms @ r) = Some (JObj kvs, r)"
  proof (cases ms)
    case Nil
    with assms k show ?thesis
      by (simp add: object_text_def skip_ws_id json_space_def starts_with_def)
  next
    case (Cons m ms')
    have "\<exists>t. sepby '','' (map member_text ms) = CHR 0x22 # t"
      by (cases ms') (simp_all add: Cons member_text_def string_text_def)
    then have "\<not> starts_with ''}'' (skip_ws (sepby '','' (map member_text ms) @ CHR ''}'' # r))"
      by (auto simp: skip_ws_id json_space_def starts_with_def)
    moreover have "json_members k (sepby '','' (map member_text ms) @ CHR ''}'' # r) = Some (kvs, r)"
      using assms Cons n k by (intro members_mean) (auto simp: object_text_def)
    ultimately show ?thesis by (simp add: k object_text_def skip_ws_id json_space_def)
  qed
qed

lemma utf8_texts [simp]:
  "utf8 t \<Longrightarrow> utf8 (string_text t)" "utf8 (fst m) \<Longrightarrow> utf8 (snd m) \<Longrightarrow> utf8 (member_text m)"
  by (simp_all add: string_text_def member_text_def utf8_append)

lemma utf8_sepby: "\<forall>t \<in> set ts. utf8 t \<Longrightarrow> utf8 sep \<Longrightarrow> utf8 (sepby sep ts)"
  by (induction sep ts rule: sepby.induct) (auto simp: utf8_append)

lemma utf8_array: "\<forall>t \<in> set ts. utf8 t \<Longrightarrow> utf8 sep \<Longrightarrow> utf8 (array_text sep ts)"
  by (simp add: array_text_def utf8_append utf8_sepby)

lemma utf8_object: "\<forall>(k, v) \<in> set ms. utf8 k \<and> utf8 v \<Longrightarrow> utf8 (object_text ms)"
  using utf8_sepby [of "map member_text ms" "'',''"]
  by (fastforce simp: object_text_def utf8_append member_text_def)

lemma parse_means:
  assumes "means s v" "list_all json_space w" "utf8 s"
  shows "json_parse (s @ w) = Some v"
proof -
  have "skip_ws w = []" using assms(2) by (simp add: skip_ws_def dropWhile_eq_Nil_conv list_all_iff)
  moreover have "ends_value w" using ends_value_space [OF assms(2), of "[]"] by simp
  moreover have "utf8 w" using assms(2) by (induction w) (auto simp: json_space_def)
  ultimately show ?thesis using meansD [OF assms(1), of "2 * length (s @ w)" w] assms(3)
    by (simp add: json_parse_def utf8_append)
qed

end
