(* ===== verification/Zp_Reports.thy ===== *)
theory Zp_Reports
  imports Zp_Json Zp_Profile Zp_Compaudit
begin

text \<open>
  What the reports written with \<open>--json\<close> mean to a reader: \<open>source-study\<close>
  (\<open>src/core/source.c\<close>) and \<open>compaudit-cache\<close> (\<open>src/core/compaudit_cache.c\<close>).
\<close>

section \<open>The profile\<close>

definition event_members :: "(string \<Rightarrow> string) \<Rightarrow> source_event \<Rightarrow> (string \<times> string) list" where
  "event_members unmeta e =
     [(''id'', render_int (ev_id e)), (''depth'', render_int (ev_depth e)),
      (''source_status'', render_int (ev_load_error e)), (''exit_status'', render_int (ev_exit_status e)),
      (''path_hex'', string_text (path_hex (unmeta (ev_full_path e)))),
      (''duration_ns'', if ev_timing_valid e then render_nat 10 (unat (ev_duration_ns e)) else ''null'')]"

definition event_value :: "(string \<Rightarrow> string) \<Rightarrow> source_event \<Rightarrow> json" where
  "event_value unmeta e = JObj
     [(''id'', JNum (ev_id e)), (''depth'', JNum (ev_depth e)),
      (''source_status'', JNum (ev_load_error e)), (''exit_status'', JNum (ev_exit_status e)),
      (''path_hex'', JStr (path_hex (unmeta (ev_full_path e)))),
      (''duration_ns'', if ev_timing_valid e then JNum (uint (ev_duration_ns e)) else JNull)]"

definition reported_events :: "int \<Rightarrow> profile \<Rightarrow> source_event list" where
  "reported_events k p =
     (case zp_source_events p of
        None \<Rightarrow> []
      | Some tbl \<Rightarrow> map (\<lambda>i. the (tbl (render_int i))) (newest k (zp_sevent_count p)))"

definition study_value :: "(string \<Rightarrow> string) \<Rightarrow> int \<Rightarrow> profile \<Rightarrow> json" where
  "study_value unmeta k p = JObj
     [(''schema_version'', JNum 1), (''status'', JStr (study_state p)),
      (''clock'', JStr ZP_CLOCK_NAME), (''monotonic'', JBool True), (''unit'', JStr ''nanoseconds''),
      (''inclusive'', JBool True), (''order'', JStr ''completion''),
      (''execution_mode'', JStr ''instrumented-auto-compile''),
      (''events'', JArr (map (event_value unmeta) (reported_events k p)))]"

lemma spells_hex: "spells (path_hex s) (path_hex s)"
proof (rule spells_plain)
  have h: "set (hex_byte c) \<subseteq> set ''0123456789abcdef''" for c
    using hex_byte_facts [of c "[]"] by (rule conjunct2)
  have "set (path_hex s) = (\<Union>c \<in> set s. set (hex_byte c))" by (simp add: path_hex_def)
  then have "set (path_hex s) \<subseteq> set ''0123456789abcdef''" using h by blast
  moreover have "\<forall>c \<in> set ''0123456789abcdef''. unescaped c" by (simp add: unescaped_def)
  ultimately show "list_all unescaped (path_hex s)" unfolding list_all_iff by blast
qed

lemma utf8_hex: "utf8 (path_hex s)"
proof -
  have h: "set (hex_byte c) \<subseteq> set ''0123456789abcdef''" for c
    using hex_byte_facts [of c "[]"] by (rule conjunct2)
  have u: "utf8 t" if "set t \<subseteq> set ''0123456789abcdef''" for t
    using that by (induction t) auto
  show ?thesis by (induction s) (simp_all add: path_hex_def utf8_append u [OF h])
qed

lemma spells_word [simp]: "list_all unescaped s \<Longrightarrow> spells s s"
  by (rule spells_plain)

lemma member_meansI [means_intros]: "spells t k \<Longrightarrow> means u v \<Longrightarrow> member_means (t, u) (k, v)"
  by (simp add: member_means_def)

lemma means_event: "means (json_event unmeta e) (event_value unmeta e)" "utf8 (json_event unmeta e)"
proof -
  have e: "json_event unmeta e = object_text (event_members unmeta e)"
    by (simp add: json_event_def object_text_def event_members_def member_text_def string_text_def
        quoted_def dq_def)
  moreover have "list_all2 member_means (event_members unmeta e)
      [(''id'', JNum (ev_id e)), (''depth'', JNum (ev_depth e)),
       (''source_status'', JNum (ev_load_error e)), (''exit_status'', JNum (ev_exit_status e)),
       (''path_hex'', JStr (path_hex (unmeta (ev_full_path e)))),
       (''duration_ns'', if ev_timing_valid e then JNum (uint (ev_duration_ns e)) else JNull)]"
    using means_nat [of "unat (ev_duration_ns e)"]
    by (simp add: event_members_def member_means_def means_intros spells_hex unescaped_def)
  ultimately show "means (json_event unmeta e) (event_value unmeta e)"
    unfolding event_value_def by (simp only: means_object)
  show "utf8 (json_event unmeta e)"
    unfolding e by (rule utf8_object) (simp add: event_members_def utf8_hex)
qed

lemma commas_sepby: "commas_from False ts = sepby '','' ts"
proof -
  have "commas_from True ts = (if ts = [] then [] else '','' @ sepby '','' ts)" for ts
    by (induction ts) (auto simp: neq_Nil_conv)
  then show ?thesis by (cases ts) (auto simp: neq_Nil_conv)
qed

lemma document_text:
  "json_document unmeta k p = object_text
     [(''schema_version'', ''1''), (''status'', string_text (study_state p)),
      (''clock'', string_text ZP_CLOCK_NAME), (''monotonic'', ''true''), (''unit'', string_text ''nanoseconds''),
      (''inclusive'', ''true''), (''order'', string_text ''completion''),
      (''execution_mode'', string_text ''instrumented-auto-compile''),
      (''events'', array_text '','' (map (json_event unmeta) (reported_events k p)))] @ [newline]"
proof -
  have "(case zp_source_events p of
        None \<Rightarrow> []
      | Some tbl \<Rightarrow> commas_from False (map (study_line unmeta tbl) (newest k (zp_sevent_count p)))) =
      sepby '','' (map (json_event unmeta) (reported_events k p))"
    by (cases "zp_source_events p") (simp_all add: reported_events_def commas_sepby study_line_def [abs_def] comp_def)
  then show ?thesis
    by (simp add: json_document_def json_head_def object_text_def array_text_def member_text_def
        string_text_def quoted_def dq_def ZP_CLOCK_MONOTONIC_def)
qed

lemma document_parses: "json_parse (json_document unmeta k p) = Some (study_value unmeta k p)"
proof -
  have one: "means ''1'' (JNum 1)" 
  proof -
    have "render_int 1 = ''1''" by code_simp
    then show ?thesis using means_int [of 1] by simp
  qed
  have "list_all2 means (map (json_event unmeta) es) (map (event_value unmeta) es)" for es
    by (simp add: list_all2_conv_all_nth means_event)
  note evs = means_array [OF this, of "'',''", simplified]
  have "spells (study_state p) (study_state p)"
    by (simp add: study_state_def unescaped_def)
  moreover have "utf8 (array_text '','' (map (json_event unmeta) (reported_events k p)))"
    by (rule utf8_array) (simp_all add: means_event(2))
  moreover have "utf8 (study_state p)" by (simp add: study_state_def)
  ultimately show ?thesis
    unfolding document_text study_value_def
    by (intro parse_means means_object utf8_object)
      (simp_all add: member_means_def one evs means_intros unescaped_def ZP_CLOCK_NAME_def json_space_def c_chars)
qed

text \<open>An output that takes everything gets the whole document, whatever the profile.\<close>

lemma study_unlimited:
  assumes "prof_ok (sh_profile sh)" "w_out_room sh = None"
    "zp_source_study_core unmeta nam k fp True sh = (rc, sh')"
  shows "w_out sh' = w_out sh @ json_document unmeta k (sh_profile sh) \<and> sh_profile sh' = sh_profile sh"
proof (cases "zp_source_events (sh_profile sh)")
  case None
  with assms(2,3) show ?thesis
    by (auto simp: zp_source_study_core_def json_document_def finish_report_def Let_def)
next
  case (Some tbl)
  let ?sh = "emit (json_head (sh_profile sh)) sh" and ?ids = "newest k (zp_sevent_count (sh_profile sh))"
  have ids: "[first_reported k (zp_sevent_count (sh_profile sh)) .. zp_sevent_count (sh_profile sh)] = ?ids"
    using assms(1) by (intro first_reported_newest) (simp add: prof_ok_def)
  obtain sh2 where r: "study_events unmeta True fp tbl ?ids 0 ?sh = Inr sh2" "w_out_room sh2 = None"
    using study_events_no_fail [of ?sh unmeta fp tbl ?ids 0] assms(2) by auto
  with assms(3) Some ids have "sh' = emit ('']}'' @ [newline]) sh2"
    using assms(2) by (auto simp: zp_source_study_core_def finish_report_def Let_def)
  with study_events_json [OF prof_ok_reported [OF assms(1) Some] r(1)] Some show ?thesis
    by (simp add: json_document_def)
qed

section \<open>The audit\<close>

definition printable :: "string \<Rightarrow> bool" where
  "printable s \<longleftrightarrow> list_all (\<lambda>c. 0x20 \<le> (of_char c :: nat)) s"

text \<open>The escaping of the source is right for strings without control characters, and only for
  these.\<close>

lemma escape_printable: "printable s \<Longrightarrow> json_chars (json_escape s @ CHR 0x22 # r) = Some (s, r)"
  by (induction s) (auto simp: printable_def unescaped_def unescape_def)

lemma escape_control: "\<not> printable s \<Longrightarrow> json_chars (json_escape s @ r) = None"
proof (induction s)
  case (Cons c s)
  show ?case
  proof (cases "c = CHR 0x5C \<or> c = CHR 0x22")
    case True
    then have "\<not> printable s" using Cons.prems by (auto simp: printable_def)
    with True Cons.IH show ?thesis by (auto simp: unescape_def)
  next
    case False
    with Cons show ?thesis by (auto simp: printable_def unescaped_def)
  qed
qed (simp add: printable_def)

lemma spells_escape: "spells (json_escape s) s \<longleftrightarrow> printable s"
proof
  assume a: "spells (json_escape s) s"
  show "printable s"
  proof (rule ccontr)
    assume "\<not> printable s"
    then have "json_chars (json_escape s @ [CHR 0x22]) = None" by (rule escape_control)
    with a show False by (simp add: spells_def)
  qed
qed (simp add: spells_def escape_printable)

lemma utf8_escape: "utf8 s \<Longrightarrow> utf8 (json_escape s)"
proof (induction s rule: utf8.induct)
  case (2 a s)
  have low: "\<not> c = CHR 0x5C \<and> c \<noteq> CHR 0x22" if "0x80 \<le> (of_char c :: nat)" for c
    using that by auto
  from 2 show ?case
    by (auto simp: utf8_many Let_def continues_def low split: if_splits list.splits)
qed simp

definition reasons :: "bool \<Rightarrow> zp_cc_entry \<Rightarrow> string list" where
  "reasons dir e =
     (if dir then [''dir_perms''] else []) @
     (if cc_verdict e \<noteq> 0 \<and> cc_parent_insecure e \<noteq> 0 then [''ancestor_perms''] else []) @
     (if cc_verdict e \<noteq> 0 \<and> cc_zwc_insecure e \<noteq> 0 then [''zwc_perms''] else [])"

text \<open>One entry: why it is insecure is what the policy says of the directory, the recorded state of
  its ancestors and of its compiled files.\<close>

definition dir_value :: "'w world_scheme \<Rightarrow> u32 \<Rightarrow> zp_cc_entry \<Rightarrow> json" where
  "dir_value w self e = JObj
     [(''path'', JStr (cc_path e)), (''verdict'', JNum (cc_verdict e)),
      (''parent_insecure'', JNum (cc_parent_insecure e)),
      (''reasons'', JArr (map JStr (reasons (fst (reason_dir self e w)) e)))]"

definition audit_value :: "'w world_scheme \<Rightarrow> zp_cc_entry list \<Rightarrow> json" where
  "audit_value w es = JObj
     [(''insecure'', JNum (count_insecure es)), (''secure'', JNum (count_secure es)),
      (''dirs'', JArr (map (dir_value w (w_euid w)) es))]"

definition dir_text :: "bool \<Rightarrow> zp_cc_entry \<Rightarrow> string" where
  "dir_text dir e = object_text
     [(''path'', string_text (json_escape (cc_path e))), (''verdict'', render_int (cc_verdict e)),
      (''parent_insecure'', render_int (cc_parent_insecure e)),
      (''reasons'', array_text '' ,'' (map string_text (reasons dir e)))]"

lemma reasons_sepby: "reasons_text dir e = sepby '' ,'' (map string_text (reasons dir e))"
  by (simp add: reasons_text_def reasons_def Let_def qt_def string_text_def)

lemma reason_dir_policy:
  "fst (reason_dir self e w) \<longleftrightarrow>
     cc_verdict e \<noteq> 0 \<and> (\<exists>st. w_stat w (cc_path e) = Inr st \<and> unsafe w self st)"
  using is_insecure_policy(1) [of _ self w]
  by (auto simp: reason_dir_def split: sum.splits) (metis prod.collapse)+

lemma reason_dir_cong: "learned w w' \<Longrightarrow> fst (reason_dir self e w') = fst (reason_dir self e w)"
  by (simp add: reason_dir_policy learned_fields learned_unsafe)

lemma dir_text_eq:
  "''{'' @ qt ''path'' @ '':'' @ qt (json_escape (cc_path e)) @
     '','' @ qt ''verdict'' @ '':'' @ render_int (cc_verdict e) @
     '','' @ qt ''parent_insecure'' @ '':'' @ render_int (cc_parent_insecure e) @
     '','' @ qt ''reasons'' @ '':['' @ reasons_text dir e @ '']}'' @ r = dir_text dir e @ r"
  by (simp add: dir_text_def object_text_def member_text_def array_text_def reasons_sepby qt_def string_text_def)

lemma json_dirs_commas:
  "fst (json_dirs self first es w) =
     commas_from (\<not> first) (map (\<lambda>e. dir_text (fst (reason_dir self e w)) e) es)"
proof (induction es arbitrary: first w)
  case (Cons e es)
  obtain dir w1 where d: "reason_dir self e w = (dir, w1)" by fastforce
  then have "learned w w1" using reason_dir_learned [of w self e] by simp
  then have "fst (json_dirs self False es w1) =
      commas_from True (map (\<lambda>e. dir_text (fst (reason_dir self e w)) e) es)"
    by (simp add: Cons.IH reason_dir_cong)
  with d show ?case by (simp add: split_beta dir_text_eq [symmetric])
qed simp

lemma means_dir:
  assumes "printable (cc_path e)"
  shows "means (dir_text (fst (reason_dir self e w)) e) (dir_value w self e)"
proof -
  have "list_all2 means (map string_text rs) (map JStr rs)" if "\<forall>r \<in> set rs. spells r r" for rs
    using that by (simp add: list_all2_conv_all_nth means_string)
  moreover have "\<forall>r \<in> set (reasons dir e). spells r r" for dir
    by (auto simp: reasons_def unescaped_def)
  ultimately have r: "means (array_text '' ,'' (map string_text (reasons dir e))) (JArr (map JStr (reasons dir e)))" for dir
    by (intro means_array) simp_all
  show ?thesis
    unfolding dir_text_def dir_value_def
    by (intro means_object)
      (simp add: member_means_def r means_intros unescaped_def spells_escape assms)
qed

lemma utf8_dir: "utf8 (cc_path e) \<Longrightarrow> utf8 (dir_text dir e)"
proof -
  assume u: "utf8 (cc_path e)"
  have "utf8 (array_text '' ,'' (map string_text (reasons dir e)))"
    by (rule utf8_array) (auto simp: reasons_def)
  then show "utf8 (dir_text dir e)"
    unfolding dir_text_def by (intro utf8_object) (simp add: utf8_escape u)
qed

text \<open>The report of \<open>compaudit-cache --json\<close> of entries whose paths are UTF-8 without control characters.\<close>

lemma audit_parses:
  assumes "\<forall>e \<in> set es. printable (cc_path e) \<and> utf8 (cc_path e)"
  shows "\<exists>t. w_out (cc_output show_it True (count_insecure es, count_secure es) es w) = w_out w @ t \<and>
     json_parse t = Some (audit_value w es)"
proof -
  let ?dirs = "map (\<lambda>e. dir_text (fst (reason_dir (w_euid w) e w)) e) es"
  let ?doc = "object_text [(''insecure'', render_int (count_insecure es)),
      (''secure'', render_int (count_secure es)), (''dirs'', array_text '','' ?dirs)]"
  obtain ds w1 where d: "json_dirs (w_euid w) True es w = (ds, w1)" by fastforce
  have l: "learned w w1" "ds = sepby '','' ?dirs"
    using json_dirs_learned [of w "w_euid w" True es] json_dirs_commas [of "w_euid w" True es w] d
    by (simp_all add: commas_sepby)
  have "list_all2 means ?dirs (map (dir_value w (w_euid w)) es)"
    using assms by (simp add: list_all2_conv_all_nth means_dir)
  then have "means ?doc (audit_value w es)"
    unfolding audit_value_def
    by (intro means_object) (simp add: member_means_def means_intros unescaped_def)
  moreover have "utf8 (array_text '','' ?dirs)" by (rule utf8_array) (use assms utf8_dir in auto)
  then have "utf8 ?doc" by (intro utf8_object) simp
  ultimately have "json_parse (?doc @ [newline]) = Some (audit_value w es)"
    by (intro parse_means) (simp_all add: json_space_def c_chars)
  moreover have "w_out (cc_output show_it True (count_insecure es, count_secure es) es w) =
      w_out w @ ?doc @ [newline]"
    using d l by (simp add: cc_output_def learned_fields qt_def object_text_def array_text_def member_text_def
        string_text_def)
  ultimately show ?thesis by blast
qed

lemma audit_value_cong:
  assumes "w_stat w' = w_stat w" "exe_owner w' = exe_owner w" "w_euid w' = w_euid w"
  shows "audit_value w' es = audit_value w es"
proof -
  have "unsafe w' = unsafe w" by (auto simp: unsafe_def trusted_def assms fun_eq_iff)
  then have "fst (reason_dir self e w') = fst (reason_dir self e w)" for self e
    by (simp add: reason_dir_policy assms)
  then show ?thesis by (simp add: audit_value_def dir_value_def assms)
qed

lemma cc_output_euid: "w_euid (cc_output s j n es w) = w_euid w"
  using learned_fields [OF json_dirs_learned [of w "w_euid w" True es]]
  by (auto simp: cc_output_def emit_def emit_icon_eq zp_icon_state split: prod.splits)

text \<open>A fresh audit gives a reason for exactly the directories it calls insecure.\<close>

lemma audited_reasons:
  assumes "e \<in> set (audits w self ps)"
  shows "cc_verdict e \<noteq> 0 \<longleftrightarrow> reasons (fst (reason_dir self e w)) e \<noteq> []"
proof -
  obtain q st where "w_stat w q = Inr st" "e = audited w self q st"
    using assms by (auto simp: audits_def split: sum.splits) (metis sum.exhaust)
  then show ?thesis
    by (auto simp: reasons_def reason_dir_policy audited_def dir_unsafe_def)
qed

section \<open>Properties\<close>

text \<open>
  C24: What \<open>source-study --json\<close> writes is one JSON document, whatever the paths of the scripts
  are: read back it gives the status of the profile, the clock and, in completion order, the newest
  events (all for count 0) with their numbers, depths, statuses, durations (null for a lost sample)
  and paths in hexadecimal.  This holds whenever the report succeeds and also, with an output that
  takes everything, for an empty, incomplete or unavailable profile, which is reported with status
  1 unless it is complete; reporting does not change the profile.
\<close>

theorem source_study_report_means:
  assumes "prof_ok (sh_profile sh)" "zp_source_study_core unmeta nam k fp True sh = (rc, sh')"
    and "rc = 0 \<or> w_out_room sh = None"
  shows "(\<exists>t. w_out sh' = w_out sh @ t \<and> json_parse t = Some (study_value unmeta k (sh_profile sh))) \<and>
    sh_profile sh' = sh_profile sh \<and>
    (rc = 0 \<longrightarrow> zp_source_events (sh_profile sh) \<noteq> None \<and> \<not> zp_profile_incomplete (sh_profile sh)) \<and>
    (w_out_room sh = None \<and> w_flush_ok sh \<and> zp_source_events (sh_profile sh) \<noteq> None \<and>
       \<not> zp_profile_incomplete (sh_profile sh) \<longrightarrow> rc = 0)"
proof -
  have "w_out sh' = w_out sh @ json_document unmeta k (sh_profile sh) \<and> sh_profile sh' = sh_profile sh"
    using assms(3) study_json_document [OF assms(1,2)] study_unlimited [OF assms(1) _ assms(2)] by blast
  then show ?thesis
    using document_parses [of unmeta k "sh_profile sh"] study_json_document [OF assms(1,2)] by blast
qed

theorem source_study_report_means_witness:
  "\<exists>rc sh' t. zp_source_study_core id ''zpmod'' 0 False True
       (zp_record_source (Some ''/a \<newline>b'') (Some (0, 0)) 1 0 0 shell0) = (rc, sh') \<and>
     w_out sh' = t \<and> json_parse t = Some (study_value id 0
       (sh_profile (zp_record_source (Some ''/a \<newline>b'') (Some (0, 0)) 1 0 0 shell0)))"
proof -
  let ?s = "zp_record_source (Some ''/a \<newline>b'') (Some (0, 0)) 1 0 0 shell0"
  obtain rc sh' where r: "zp_source_study_core id ''zpmod'' 0 False True ?s = (rc, sh')" by fastforce
  have p: "sh_profile shell0 = profile0" "w_out_room shell0 = None" "w_out shell0 = []"
    by (simp_all add: shell0_def world.defs world0_def)
  have "prof_ok (sh_profile ?s)" using record_source_prof_ok [of shell0] p by simp
  moreover have w: "w_out_room ?s = None" "w_out ?s = []"
    by (subst record_source_frame, simp add: p)+
  ultimately obtain t where "w_out sh' = w_out ?s @ t" "json_parse t = Some (study_value id 0 (sh_profile ?s))"
    using source_study_report_means [OF _ r] by blast
  with r w(2) show ?thesis by (metis append_Nil)
qed

text \<open>
  C25: What \<open>compaudit-cache --json\<close> writes, when it succeeds, is one JSON document, as long as every
  path is UTF-8 without control characters, which the program does not escape, and can be a line
  of the cache (no tab, no \<open>#\<close> in front, at most 3900 bytes, not below the cache file): read back it
  gives the counts and, for each directory in order, its exact path, its verdict, the recorded
  state of its ancestors and the reasons.  The verdicts are those of the policy now.  With
  \<open>--rebuild\<close> the directories are the existing ones of \<open>fpath\<close> and a reason is given for exactly
  the insecure ones; for entries taken from the cache nothing is said about the reasons.
\<close>

theorem compaudit_report_means:
  assumes "zp_compaudit_cache_core nam rebuild show_it True w = (0, out)"
    and "mem_ok w" "cc_cache_path w = Some p" "w_room w p = None" "times_fit w"
    and "\<forall>q \<in> set (map cc_path (cc_reload p w)) \<union> set (fpath_dirs w). q \<noteq> [] \<longrightarrow> path_fine q \<and> apart p q"
    and "\<forall>q \<in> set (map cc_path (cc_reload p w)) \<union> set (fpath_dirs w). printable q \<and> utf8 q"
  shows "\<exists>es t. w_out out = w_out w @ t \<and> json_parse t = Some (audit_value out es) \<and>
     (\<forall>e \<in> set es. entry_current out (w_euid w) e) \<and>
     (rebuild \<longrightarrow> es = audits out (w_euid w) (filter (\<lambda>d. d \<noteq> []) (fpath_dirs w)) \<and>
        (\<forall>e \<in> set es. cc_verdict e \<noteq> 0 \<longleftrightarrow> reasons (fst (reason_dir (w_euid w) e out)) e \<noteq> []))"
proof -
  obtain es w' where e: "out = cc_output show_it True (count_insecure es, count_secure es) es w'"
    "\<forall>e \<in> set es. entry_current out (w_euid w) e"
    "rebuild \<longrightarrow> es = audits out (w_euid w) (filter (\<lambda>d. d \<noteq> []) (fpath_dirs w))"
    "w_out w' = w_out w" "w_euid w' = w_euid w"
    "cc_path ` set es \<subseteq> set (map cc_path (cc_reload p w)) \<union> set (fpath_dirs w)"
    using verdicts_current [OF assms(1) _ assms(2-6)] by blast
  have "\<forall>e \<in> set es. printable (cc_path e) \<and> utf8 (cc_path e)" using e(6) assms(7) by blast
  from audit_parses [OF this, of show_it w'] obtain t where
    t: "w_out out = w_out w @ t" "json_parse t = Some (audit_value w' es)" using e(1,4) by auto
  moreover have "audit_value out es = audit_value w' es"
    using cc_output_fields [of show_it True "(count_insecure es, count_secure es)" es w']
      cc_output_euid [of show_it True "(count_insecure es, count_secure es)" es w'] e(1)
    by (intro audit_value_cong) simp_all
  moreover have "\<forall>e \<in> set es. cc_verdict e \<noteq> 0 \<longleftrightarrow> reasons (fst (reason_dir (w_euid w) e out)) e \<noteq> []"
    if rebuild using that e(3) audited_reasons by blast
  ultimately show ?thesis using e(2,3) by (intro exI [of _ es] exI [of _ t]) simp
qed

lemma cc_world_reports: "fst (zp_compaudit_cache_core ''zpmod'' True False True cc_world) = 0"
  by code_simp

theorem compaudit_report_means_witness:
  "\<exists>out es t. zp_compaudit_cache_core ''zpmod'' True False True cc_world = (0, out) \<and>
     w_out out = t \<and> json_parse t = Some (audit_value out es) \<and> es = audits out 1000 [''/f'']"
proof -
  obtain out where o: "zp_compaudit_cache_core ''zpmod'' True False True cc_world = (0, out)"
    using cc_world_reports by (metis prod.collapse)
  have "printable ''/f''" "utf8 ''/f''" by (simp_all add: printable_def)
  then show ?thesis
    using compaudit_report_means [OF o cc_world_facts(1-4)] cc_world_facts o by auto
qed

text \<open>A control character in a path is written as it is, and the document cannot be read.\<close>

definition cc_control_world :: world where
  "cc_control_world = cc_world
     \<lparr>w_stat := (\<lambda>p. if p = [slash, CHR 0x01] then Inr ((w_fresh world0 p)\<lparr>st_mode := 16895\<rparr>) else w_stat cc_world p),
      w_aparam := (\<lambda>n. if n = ''fpath'' then Some [[slash, CHR 0x01]] else None)\<rparr>"

lemma control_character_unreadable:
  "let (ret, out) = zp_compaudit_cache_core ''zpmod'' True False True cc_control_world
   in ret = 0 \<and> CHR 0x01 \<in> set (w_out out) \<and> json_parse (w_out out) = None"
  by code_simp

end
