(* ===== verification/Zp_Compaudit_Rerun.thy ===== *)
theory Zp_Compaudit_Rerun
  imports Zp_Compaudit
begin

text \<open>
  Running \<open>compaudit-cache\<close> (\<open>src/core/compaudit_cache.c\<close>) again: the cache a successful run leaves
  is found, accepted and reported as it is, without a change to any file.
\<close>

section \<open>The ways to succeed\<close>

lemma core_elim:
  assumes "zp_compaudit_cache_core nam rebuild show_it json w = (0, out)"
  obtains (used) p w1 w2 es w3 where "zp_cc_cache_file_path nam w = (Some p, w1)" "cc_migrate p w1 = (False, w2)"
    "\<not> writable_cache p w2" "cc_have_cache nam p w2 = (Some es, w3)"
    "out = cc_output show_it json (count_insecure es, count_secure es) es w3"
  | (rebuilt) p w1 w2 w3 n w4 where "zp_cc_cache_file_path nam w = (Some p, w1)"
    "w2 = w1 \<or> (\<exists>m. cc_migrate p w1 = (m, w2))" "w3 = w2 \<or> cc_have_cache nam p w2 = (None, w3)"
    "cc_write ''write'' nam p (map cc_path (vec_items (zp_cc_collect_dirs w3 vec_init))) w3 = (Some n, w4)"
    "out = cc_output show_it json n (if show_it \<or> json then cc_reload p w4 else []) w4"
proof -
  obtain p w1 where pth: "zp_cc_cache_file_path nam w = (Some p, w1)"
    using assms by (auto simp: zp_compaudit_cache_core_def split: prod.splits option.splits)
  obtain m w2 where m: "(if rebuild then (False, w1) else cc_migrate p w1) = (m, w2)" by fastforce
  define rb where "rb = (rebuild \<or> m \<or> writable_cache p w2)"
  obtain hc w3 where hc: "(if rb then (None, w2) else cc_have_cache nam p w2) = (hc, w3)" by fastforce
  have core: "(case hc of
        Some es \<Rightarrow> (0 :: int, cc_output show_it json (count_insecure es, count_secure es) es w3)
      | None \<Rightarrow>
          (case zp_cc_rebuild nam p (zp_cc_collect_dirs w3 vec_init) w3 of
             (None, w4) \<Rightarrow> (1, w4)
           | (Some n, w4) \<Rightarrow>
               let es = (if show_it \<or> json then cc_reload p w4 else [])
               in (0, cc_output show_it json n es w4))) = (0, out)"
    using assms unfolding zp_compaudit_cache_core_def pth prod.case option.case Let_def m rb_def [symmetric] hc .
  show thesis
  proof (cases hc)
    case (Some es)
    then have "\<not> rb" using hc by (auto split: if_splits)
    then show thesis
      using used [OF pth _ _ _ ] core hc m Some by (auto simp: rb_def)
  next
    case None
    then obtain n w4 where "cc_write ''write'' nam p (map cc_path (vec_items (zp_cc_collect_dirs w3 vec_init))) w3 = (Some n, w4)"
      "out = cc_output show_it json n (if show_it \<or> json then cc_reload p w4 else []) w4"
      using core by (auto simp: zp_cc_rebuild_def Let_def split: prod.splits option.splits)
    moreover have "w2 = w1 \<or> (\<exists>m. cc_migrate p w1 = (m, w2))" using m by (auto split: if_splits)
    moreover have "w3 = w2 \<or> cc_have_cache nam p w2 = (None, w3)" using hc None by (auto split: if_splits)
    ultimately show thesis using rebuilt [OF pth] by blast
  qed
qed

section \<open>Frames\<close>

text \<open>What is not the cache file.\<close>

definition beside :: "string \<Rightarrow> 'w world_scheme \<Rightarrow> 'w world_scheme \<Rightarrow> bool" where
  "beside p w w' \<longleftrightarrow> (\<forall>q. q \<noteq> p \<longrightarrow> w_stat w' q = w_stat w q) \<and> w_sparam w' = w_sparam w \<and> w_alloc w' = w_alloc w"

lemma beside_trans: "beside p u v \<Longrightarrow> beside p v w \<Longrightarrow> beside p u w"
  by (simp add: beside_def)

lemma beside_steps:
  "beside p w w" "same_except p w w' \<Longrightarrow> beside p w w'" "learned w w' \<Longrightarrow> beside p w w'"
  by (auto simp: beside_def learned_fields dest: same_exceptD)

lemma beside_write: "cc_write verb nam p ps w = (r, w') \<Longrightarrow> beside p w w'"
  by (auto simp: cc_write_def split: prod.splits sum.splits dest!: fopen_same_except cc_audit_all_policy
      intro: beside_steps(2) beside_trans [OF beside_steps(2) beside_steps(2)]
        beside_trans [OF beside_steps(2) beside_trans [OF beside_steps(3) beside_steps(2)]])

lemma beside_have_cache: "cc_have_cache nam p w = (r, w') \<Longrightarrow> beside p w w'"
  by (auto simp: cc_have_cache_def zp_cc_incremental_update_def beside_steps
      split: option.splits prod.splits bool.splits dest!: validate_policy
      intro: beside_steps(3) beside_trans [OF beside_steps(3) beside_write])

text \<open>The directory of the cache.\<close>

definition cache_dir_ready :: "string \<Rightarrow> 'w world_scheme \<Rightarrow> bool" where
  "cache_dir_ready b w \<longleftrightarrow> zp_cc_base_cache_dir w = Some b \<and>
     (\<exists>st. w_stat w (b @ ''/zpmod'') = Inr st \<and> S_ISDIR (st_mode st))"

lemma cc_base_cong:
  "w_sparam w' = w_sparam w \<Longrightarrow> w_alloc w' = w_alloc w \<Longrightarrow> zp_cc_base_cache_dir w' = zp_cc_base_cache_dir w"
  by (simp only: zp_cc_base_cache_dir_def)

lemma ready_beside:
  assumes "beside p w w'" "p \<noteq> b @ ''/zpmod''" "cache_dir_ready b w" shows "cache_dir_ready b w'"
  using assms cc_base_cong [of w' w] by (auto simp: cache_dir_ready_def beside_def)

lemma mkdir_isdir: "S_ISDIR (S_IFDIR OR (448 AND m))" for m :: u32
proof -
  have "(448 AND m) AND S_IFMT = m AND (448 AND S_IFMT)" by (simp add: ac_simps)
  also have "\<dots> = 0" by (simp add: mode_consts)
  finally have "(S_IFDIR OR (448 AND m)) AND S_IFMT = S_IFDIR AND S_IFMT"
    by (simp add: bit.conj_disj_distrib2)
  then show ?thesis by (simp add: S_ISDIR_def mode_consts)
qed

lemma path_ready:
  assumes "zp_cc_cache_file_path nam w = (Some p, w1)"
  obtains b where "p = b @ ''/zpmod/compaudit_v3.zcache''" "cache_dir_ready b w1" "same_except (b @ ''/zpmod'') w w1"
proof -
  obtain b where b: "zp_cc_base_cache_dir w = Some b" "zp_cc_ensure_dir nam w = (Some (b @ ''/zpmod''), w1)"
    and p: "p = b @ ''/zpmod/compaudit_v3.zcache''"
    using assms by (auto simp: zp_cc_cache_file_path_def zp_cc_ensure_dir_def Let_def
        ZP_COMPAUDIT_CACHE_FILE_def ZP_COMPAUDIT_CACHE_SUBDIR_def split: prod.splits option.splits sum.splits if_splits)
  from b consider (there) st where "w1 = w" "w_stat w (b @ ''/zpmod'') = Inr st" "S_ISDIR (st_mode st)"
    | (made) "sys_mkdir (b @ ''/zpmod'') 448 w = Inr w1"
    by (auto simp: zp_cc_ensure_dir_def Let_def ZP_COMPAUDIT_CACHE_SUBDIR_def
        split: option.splits sum.splits if_splits)
  then have "cache_dir_ready b w1 \<and> same_except (b @ ''/zpmod'') w w1"
  proof cases
    case there
    then show ?thesis using b(1) by (simp add: cache_dir_ready_def)
  next
    case made
    note s = same_except_mkdir [OF made]
    have "\<exists>st. w_stat w1 (b @ ''/zpmod'') = Inr st \<and> S_ISDIR (st_mode st)"
      using made mkdir_isdir by (auto simp: sys_mkdir_def set_node_def split: if_splits)
    moreover have "zp_cc_base_cache_dir w1 = Some b"
      using cc_base_cong [of w1 w] same_exceptD(5,7) [OF s] b(1) by simp
    ultimately show ?thesis using s by (simp add: cache_dir_ready_def)
  qed
  with p that show thesis by blast
qed

lemma path_again:
  "cache_dir_ready b w \<Longrightarrow> mem_ok w \<Longrightarrow>
     zp_cc_cache_file_path nam w = (Some (b @ ''/zpmod/compaudit_v3.zcache''), w)"
  by (auto simp: cache_dir_ready_def zp_cc_cache_file_path_def zp_cc_ensure_dir_def Let_def mem_ok_def
      ZP_COMPAUDIT_CACHE_FILE_def ZP_COMPAUDIT_CACHE_SUBDIR_def)

text \<open>A cache file that only its owner may write.\<close>

definition cache_file_private :: "string \<Rightarrow> 'w world_scheme \<Rightarrow> bool" where
  "cache_file_private p w \<longleftrightarrow>
     (\<exists>st. w_stat w p = Inr st \<and> \<not> has_bit (st_mode st) S_IWOTH \<and> \<not> has_bit (st_mode st) S_IWGRP)"

lemma private_bits: "m AND MODE_BITS = 384 AND MODE_BITS \<Longrightarrow> \<not> has_bit m S_IWOTH \<and> \<not> has_bit m S_IWGRP" for m :: u32
proof -
  assume m: "m AND MODE_BITS = 384 AND MODE_BITS"
  have "m AND b = (384 AND MODE_BITS) AND b" if b: "MODE_BITS AND b = b" for b
  proof -
    have "m AND b = (m AND MODE_BITS) AND b" by (simp only: and.assoc b)
    then show ?thesis by (simp only: m)
  qed
  from this [of S_IWOTH] this [of S_IWGRP] have "m AND S_IWOTH = 0" "m AND S_IWGRP = 0"
    by (simp_all add: mode_consts)
  then show ?thesis by (simp add: has_bit_def)
qed

lemma cc_write_private:
  assumes "cc_write verb nam p ps w = (Some n, w')" "fs_coherent w p"
  shows "cache_file_private p w'"
proof -
  obtain h w1 es w2 where o: "zp_fopen_write_nofollow p 384 True w = (Inr h, w1)"
    and a: "cc_audit_all (w_euid w) ps w1 = (es, w2)" and w': "w' = write_file p (cc_file es) w2"
    using assms(1) by (auto simp: cc_write_def split: prod.splits sum.splits)
  obtain st where st: "w_stat w1 p = Inr st" "st_mode st AND MODE_BITS = 384 AND MODE_BITS"
    using fopen_mode [OF o assms(2)] by blast
  have "w_stat w2 p = Inr st" using learned_fields(1) [of w1 w2] cc_audit_all_policy [OF a] st(1) by simp
  then have "\<exists>st'. w_stat w' p = Inr st' \<and> st_mode st' = st_mode st"
    by (simp add: w' write_file_def set_data_def set_node_def)
  with private_bits [OF st(2)] show ?thesis by (auto simp: cache_file_private_def)
qed

section \<open>What a run leaves\<close>

text \<open>The operating system answers alike about a file: without a link both calls say the same, and a
  file that can be read is there.\<close>

definition file_coherent :: "string \<Rightarrow> 'w world_scheme \<Rightarrow> bool" where
  "file_coherent p w \<longleftrightarrow> fs_coherent w p \<and> (\<forall>d. w_data w p = Inr d \<longrightarrow> (\<exists>st. w_stat w p = Inr st))"

lemma coherent_steady: "steady p w w' \<Longrightarrow> file_coherent p w \<Longrightarrow> file_coherent p w'"
  by (simp add: steady_def file_coherent_def fs_coherent_def)

lemma coherent_set_node: "fs_coherent (set_node p st w) p"
  by (simp add: fs_coherent_def set_node_def)

lemma coherent_set_data: "fs_coherent w p \<Longrightarrow> fs_coherent (set_data p s w) p"
  by (auto simp: fs_coherent_def set_data_def set_node_def split: sum.splits)

lemma coherent_fopen: "zp_fopen_write_nofollow p m b w = (r, w') \<Longrightarrow> fs_coherent w p \<Longrightarrow> fs_coherent w' p"
  by (auto simp: zp_fopen_write_nofollow_def sys_open_create_def sys_fchmod_def sys_ftruncate0_def
      coherent_set_node coherent_set_data fs_coherent_def set_node_def set_data_def
      split: sum.splits if_splits)

lemma coherent_have_cache:
  fixes w :: "'w world_scheme"
  assumes "cc_have_cache nam p w = (None, w')" "fs_coherent w p" shows "fs_coherent w' p"
proof -
  have warn: "fs_coherent (warn_icon nam i t u) p \<longleftrightarrow> fs_coherent u p" for i t and u :: "'w world_scheme"
    by (simp add: fs_coherent_def warn_icon_def zwarnnam_def zp_icon_state split_beta)
  have wr: "fs_coherent u' p" if "cc_write verb nam p ps u = (None, u')" "fs_coherent u p" for verb ps and u u' :: "'w world_scheme"
    using that by (auto simp: cc_write_def warn split: prod.splits sum.splits dest: coherent_fopen)
  have learn: "fs_coherent u' p" if "learned u u'" "fs_coherent u p" for u u' :: "'w world_scheme"
    using that(2) by (simp add: fs_coherent_def learned_fields [OF that(1)])
  show ?thesis
    using assms by (auto simp: cc_have_cache_def zp_cc_incremental_update_def
        split: option.splits prod.splits bool.splits dest!: validate_policy intro: learn wr)
qed

definition cache_left :: "string \<Rightarrow> string \<Rightarrow> zp_cc_entry list \<Rightarrow> u32 \<Rightarrow> 'w world_scheme \<Rightarrow> bool" where
  "cache_left b p es self w \<longleftrightarrow> p = b @ ''/zpmod/compaudit_v3.zcache'' \<and> cache_dir_ready b w \<and> cache_file_private p w \<and>
     (\<exists>v. zp_cc_load_cache p w vec_init = Some v \<and> vec_items v = es) \<and> mem_ok w \<and> w_euid w = self \<and>
     (\<forall>e \<in> set es. entry_current w self e)"

text \<open>Running again finds it.\<close>

lemma cache_left_again:
  assumes "cache_left b p es self w"
  shows "\<exists>w'. zp_compaudit_cache_core nam False show_it json w =
      (0, cc_output show_it json (count_insecure es, count_secure es) es w') \<and> learned w w'"
proof -
  have p: "p = b @ ''/zpmod/compaudit_v3.zcache''" and d: "cache_dir_ready b w" and m: "mem_ok w"
    using assms by (simp_all add: cache_left_def)
  have pth: "zp_cc_cache_file_path nam w = (Some p, w)" using path_again [OF d m] p by simp
  obtain st where "w_stat w p = Inr st" "\<not> has_bit (st_mode st) S_IWOTH" "\<not> has_bit (st_mode st) S_IWGRP"
    using assms by (auto simp: cache_left_def cache_file_private_def)
  then have s: "cc_migrate p w = (False, w)" "\<not> writable_cache p w"
    by (simp_all add: cc_migrate_def writable_cache_def)
  obtain v where v: "zp_cc_load_cache p w vec_init = Some v" "vec_items v = es"
    using assms by (auto simp: cache_left_def)
  obtain bad w' where val: "zp_cc_validate_cache (w_euid w) (vec_items v) w = (bad, w')" by fastforce
  have "\<not> bad" "learned w w'"
    using validate_policy [OF val] assms v(2) by (auto simp: cache_left_def)
  then have "cc_have_cache nam p w = (Some es, w')"
    using v val by (simp add: cc_have_cache_def)
  with pth s \<open>learned w w'\<close> show ?thesis by (auto simp: zp_compaudit_cache_core_def)
qed

lemma output_left:
  "cache_left b p es self w \<Longrightarrow> cache_left b p es self (cc_output show_it json n fs w)"
proof -
  let ?w = "cc_output show_it json n fs w"
  have l: "learned w (snd (json_dirs (w_euid w) True fs w))" by (rule json_dirs_learned)
  have f: "w_stat ?w = w_stat w" "w_dir ?w = w_dir w" "exe_owner ?w = exe_owner w" "w_data ?w = w_data w"
    "w_alloc ?w = w_alloc w" "w_sparam ?w = w_sparam w" "w_euid ?w = w_euid w"
    using learned_fields [OF l] cc_output_fields [of show_it json n fs w]
    by (auto simp: cc_output_def emit_def emit_icon_eq zp_icon_state split: prod.splits)
  have "zp_cc_vec_push ?w = zp_cc_vec_push w"
    by (simp add: zp_cc_vec_push_def vec_push_def f fun_eq_iff)
  then have "zp_cc_load_cache p ?w = zp_cc_load_cache p w"
    by (rule_tac ext) (simp only: zp_cc_load_cache_def f)
  moreover have "cache_dir_ready b ?w = cache_dir_ready b w"
    by (simp add: cache_dir_ready_def f cc_base_cong [OF f(6,5)])
  moreover have "entry_current ?w = entry_current w"
    using policy_cong [OF f(1-3)] by (simp add: fun_eq_iff)
  ultimately have "cache_left b p es self ?w = cache_left b p es self w"
    by (simp only: cache_left_def cache_file_private_def mem_ok_def f)
  then show "cache_left b p es self w \<Longrightarrow> cache_left b p es self ?w" by simp
qed


text \<open>What the first run leaves: a written file, or a cache it could use.\<close>

lemma write_left:
  assumes "cc_write verb nam p ps w = (Some n, w')" "p = b @ ''/zpmod/compaudit_v3.zcache''" "cache_dir_ready b w"
    "mem_ok w" "fs_coherent w p" "w_room w p = None" "cache_name p" "\<forall>q \<in> set ps. path_fine q \<and> apart p q" "times_fit w"
  shows "cache_left b p (cc_reload p w') (w_euid w) w'"
proof -
  have t: "times_fit w'" by (rule times_cc_write [OF assms(1,9)])
  have ap: "\<forall>q \<in> set ps. apart p q" using assms(8) by blast
  note ex = cc_write_exact [OF assms(1,6,7) ap]
  note re = cc_write_reload [OF assms(1,6,7,4,8) t]
  have m: "mem_ok w'" using ex(2) assms(4) by (simp add: mem_ok_def)
  have "list_all entry_fine (audits w' (w_euid w) ps)" using audits_fine assms(8) t by blast
  moreover have "w_data w' p = Inr (cc_file (audits w' (w_euid w) ps))" using ex(1) by (simp add: Let_def)
  ultimately have "\<exists>v. zp_cc_load_cache p w' vec_init = Some v \<and> vec_items v = cc_reload p w'"
    unfolding re(1) using load_cc_file [OF m] by blast
  moreover have "cache_dir_ready b w'"
    by (rule ready_beside [OF beside_write [OF assms(1)] _ assms(3)]) (simp add: assms(2))
  ultimately show ?thesis
    using cc_write_private [OF assms(1,5)] m ex(3) re(3) assms(2) by (simp add: cache_left_def)
qed

lemma have_left:
  assumes "cc_have_cache nam p w = (Some es, w')" "\<not> writable_cache p w" "p = b @ ''/zpmod/compaudit_v3.zcache''"
    "cache_dir_ready b w" "mem_ok w" "file_coherent p w" "w_room w p = None" "cache_name p" "times_fit w"
    "\<forall>q \<in> set (map cc_path (cc_reload p w)) \<union> set (fpath_dirs w). q \<noteq> [] \<longrightarrow> path_fine q \<and> apart p q"
  shows "cache_left b p es (w_euid w) w'"
proof -
  obtain v where v: "zp_cc_load_cache p w vec_init = Some v"
    using assms(1) by (auto simp: cc_have_cache_def split: option.splits)
  obtain bad w1 where val: "zp_cc_validate_cache (w_euid w) (vec_items v) w = (bad, w1)" by fastforce
  note pol = validate_policy [OF val]
  have l: "learned w w1" using pol by simp
  note lf = learned_fields [OF l]
  have pu: "zp_cc_vec_push w1 = zp_cc_vec_push w"
    by (simp add: zp_cc_vec_push_def vec_push_def lf fun_eq_iff)
  have m1: "mem_ok w1" "times_fit w1" "cache_dir_ready b w1" "w_room w1 p = None" "fs_coherent w1 p"
    using assms(4,5,6,7,9) lf cc_base_cong [OF lf(12,4)] learned_times [OF l]
    by (simp_all add: mem_ok_def cache_dir_ready_def file_coherent_def fs_coherent_def)
  show ?thesis
  proof (cases bad)
    case False
    then have e: "es = vec_items v" "w' = w1"
      using assms(1) v val by (auto simp: cc_have_cache_def)
    have "zp_cc_load_cache p w1 vec_init = zp_cc_load_cache p w vec_init"
      by (simp only: zp_cc_load_cache_def pu lf)
    moreover obtain d where "w_data w p = Inr d"
      using v by (auto simp: zp_cc_load_cache_def split: sum.splits)
    then obtain st where "w_stat w p = Inr st" using assms(6) by (auto simp: file_coherent_def)
    then have "cache_file_private p w1"
      using assms(2) by (simp add: cache_file_private_def writable_cache_def lf)
    ultimately show ?thesis
      using False pol v m1(1,3) assms(3) learned_entry_current [OF l] lf(5) e by (simp add: cache_left_def)
  next
    case True
    then obtain n where n: "zp_cc_incremental_update nam p v w1 = (Some n, w')" and es: "es = cc_reload p w'"
      using assms(1) v val by (auto simp: cc_have_cache_def split: prod.splits option.splits)
    have items: "vec_items v = cc_reload p w" using v by (simp add: cc_reload_def)
    have fd: "fpath_dirs w1 = fpath_dirs w" by (simp add: fpath_dirs_def lf)
    let ?P = "map cc_path (vec_items (add_missing w1 v (fpath_dirs w1)))"
    have "\<forall>q \<in> set ?P. path_fine q \<and> apart p q"
      using add_missing_paths [of w1 v "fpath_dirs w1"] assms(10) reload_path_nonempty [of p w] items fd by fastforce
    from write_left [OF n [unfolded zp_cc_incremental_update_def] assms(3) m1(3,1,5,4) assms(8) this m1(2)]
    show ?thesis using es lf(5) by simp
  qed
qed

lemma migrate_ready:
  assumes "cc_migrate p w = (m, w')" "p = b @ ''/zpmod/compaudit_v3.zcache''" "cache_dir_ready b w"
  shows "cache_dir_ready b w'" "\<not> m \<Longrightarrow> w' = w"
proof -
  show "\<not> m \<Longrightarrow> w' = w" using assms(1) by (auto simp: cc_migrate_def split: sum.splits option.splits if_splits)
  have "w' = w \<or> (\<exists>i. sys_unlink (take i p @ ''_v2.zcache'') w = Inr w')"
    using assms(1) by (auto simp: cc_migrate_def split: sum.splits option.splits if_splits)
  then show "cache_dir_ready b w'"
  proof
    assume "\<exists>i. sys_unlink (take i p @ ''_v2.zcache'') w = Inr w'"
    then obtain i where i: "sys_unlink (take i p @ ''_v2.zcache'') w = Inr w'" ..
    have "last (take i p @ ''_v2.zcache'') \<noteq> last (b @ ''/zpmod'')" by simp
    then have "take i p @ ''_v2.zcache'' \<noteq> b @ ''/zpmod''" by metis
    from ready_beside [OF beside_steps(2) [OF same_except_unlink [OF i]] this assms(3)] show ?thesis .
  qed (use assms(3) in simp)
qed

text \<open>The plain report does not depend on the entries it is given.\<close>

lemma quiet_output: "\<not> (show_it \<or> json) \<Longrightarrow> cc_output show_it json n es w = w"
  by (simp add: cc_output_def)

lemma first_run:
  assumes "zp_compaudit_cache_core nam rebuild show_it json w = (0, out)"
    and "mem_ok w" "cc_cache_path w = Some p" "w_room w p = None" "times_fit w" "file_coherent p w"
    and "\<forall>q \<in> set (map cc_path (cc_reload p w)) \<union> set (fpath_dirs w). q \<noteq> [] \<longrightarrow> path_fine q \<and> apart p q"
  obtains b es w' where "out = cc_output show_it json (count_insecure es, count_secure es) es w'"
    "cache_left b p es (w_euid w) w'"
  using assms(1)
proof (cases rule: core_elim)
  case (used p' w1 w2 es w3)
  note cp = cc_path_steady [OF used(1)]
  have p': "p' = p" using cp(1) assms(3) by simp
  obtain b where b: "p = b @ ''/zpmod/compaudit_v3.zcache''" "cache_dir_ready b w1"
    using path_ready [OF used(1)] p' by metis
  note mg = migrate_ready [OF used(2) [unfolded p'] b]
  have w2: "w2 = w1" using mg(2) by simp
  have st: "steady p w w1" using cp(3) p' by simp
  have "mem_ok w1" "file_coherent p w1" "w_room w1 p = None" "cache_name p" "times_fit w1" "w_euid w1 = w_euid w"
    using st assms(2,4,5) cp(2) p' coherent_steady [OF st assms(6)] times_cc_path [OF used(1)]
    by (simp_all add: steady_def mem_ok_def)
  moreover have "\<forall>q \<in> set (map cc_path (cc_reload p w1)) \<union> set (fpath_dirs w1). q \<noteq> [] \<longrightarrow> path_fine q \<and> apart p q"
    using assms(7) steady_reload [OF st] st by (simp add: steady_def fpath_dirs_def)
  ultimately have "cache_left b p es (w_euid w) w3"
    using have_left [OF _ _ b] used(3,4) unfolding p' w2 by metis
  with that used(5) show thesis by blast
next
  case (rebuilt p' w1 w2 w3 n w4)
  note cp = cc_path_steady [OF rebuilt(1)]
  have p': "p' = p" using cp(1) assms(3) by simp
  obtain b where b: "p = b @ ''/zpmod/compaudit_v3.zcache''" "cache_dir_ready b w1"
    using path_ready [OF rebuilt(1)] p' by metis
  have "steady p w1 w2" using rebuilt(2) p' cc_migrate_steady by (auto simp: steady_def)
  then have st: "steady p w w2" using cp(3) p' steady_trans by blast
  have r2: "cache_dir_ready b w2" using rebuilt(2) p' b migrate_ready(1) by blast
  have t1: "times_fit w1" by (rule times_cc_path [OF rebuilt(1) assms(5)])
  then have t2: "times_fit w2" using rebuilt(2) times_cc_migrate by blast
  have hf: "w3 = w2 \<or> cc_have_cache nam p w2 = (None, w3)" using rebuilt(3) p' by simp
  have r3: "cache_dir_ready b w3"
    using hf r2 ready_beside [OF beside_have_cache _ r2] b(1) by auto
  have c3: "fs_coherent w3 p"
    using hf coherent_have_cache coherent_steady [OF st assms(6)] by (auto simp: file_coherent_def)
  have s3: "w_alloc w3 = w_alloc w2 \<and> w_euid w3 = w_euid w2 \<and> w_aparam w3 = w_aparam w2 \<and> w_room w3 p = w_room w2 p"
    using hf have_cache_frame by metis
  have t3: "times_fit w3" using hf t2 times_have_cache by blast
  have ok: "mem_ok w3" "w_room w3 p = None" "w_euid w3 = w_euid w"
    using s3 st assms(2,4) by (simp_all add: mem_ok_def steady_def)
  have fd: "fpath_dirs w3 = fpath_dirs w" using s3 st by (simp add: fpath_dirs_def steady_def)
  define P where "P = map cc_path (vec_items (zp_cc_collect_dirs w3 vec_init))"
  have "P = filter (\<lambda>d. d \<noteq> []) (fpath_dirs w)"
    using collect_dirs_all [OF ok(1)] fd by (simp add: P_def)
  then have Pf: "\<forall>q \<in> set P. path_fine q \<and> apart p q" using assms(7) by auto
  have cn: "cache_name p" using cp(2) p' by simp
  have n: "cc_write ''write'' nam p P w3 = (Some n, w4)" using rebuilt(4) p' by (simp add: P_def)
  have left: "cache_left b p (cc_reload p w4) (w_euid w) w4"
    using write_left [OF n b(1) r3 ok(1) c3 ok(2) cn Pf t3] ok(3) by simp
  have cnt: "n = (count_insecure (cc_reload p w4), count_secure (cc_reload p w4))"
    by (rule cc_write_reload(2) [OF n ok(2) cn ok(1) Pf times_cc_write [OF n t3]])
  have "out = cc_output show_it json n (cc_reload p w4) w4"
    using rebuilt(5) p' by (cases n; cases "show_it \<or> json") (auto simp: quiet_output)
  with that left cnt show thesis by blast
qed

section \<open>Properties\<close>

text \<open>
  C18: Running \<open>compaudit-cache\<close> again is quiet.  Once a run has succeeded, whether it built, refreshed
  or just used its cache, a second run without \<open>--rebuild\<close> succeeds too, reports exactly the entries
  and counts of the first run (in whatever format either was asked for), all of them current, and
  writes no file: apart from its report it only learns the owner of the running program.
\<close>

theorem compaudit_second_run_quiet:
  assumes "zp_compaudit_cache_core nam rebuild show_it json w = (0, out)"
    and "mem_ok w" "cc_cache_path w = Some p" "w_room w p = None" "times_fit w" "file_coherent p w"
    and "\<forall>q \<in> set (map cc_path (cc_reload p w)) \<union> set (fpath_dirs w). q \<noteq> [] \<longrightarrow> path_fine q \<and> apart p q"
  shows "\<exists>es w1 w2. out = cc_output show_it json (count_insecure es, count_secure es) es w1 \<and>
     zp_compaudit_cache_core nam' False show' json' out =
       (0, cc_output show' json' (count_insecure es, count_secure es) es w2) \<and>
     learned out w2 \<and> (\<forall>e \<in> set es. entry_current w2 (w_euid w) e)"
proof -
  obtain b es w1 where o: "out = cc_output show_it json (count_insecure es, count_secure es) es w1"
    and left: "cache_left b p es (w_euid w) w1"
    by (rule first_run [OF assms])
  from output_left [OF left] have left2: "cache_left b p es (w_euid w) out" unfolding o .
  obtain w2 where w2: "zp_compaudit_cache_core nam' False show' json' out =
      (0, cc_output show' json' (count_insecure es, count_secure es) es w2)" "learned out w2"
    using cache_left_again [OF left2] by blast
  have "\<forall>e \<in> set es. entry_current w2 (w_euid w) e"
    using left2 learned_entry_current [OF w2(2)] by (simp add: cache_left_def)
  with o w2 show ?thesis by blast
qed

theorem compaudit_second_run_quiet_witness:
  "\<exists>out es w1 w2. zp_compaudit_cache_core ''zpmod'' True True False cc_world = (0, out) \<and>
     out = cc_output True False (count_insecure es, count_secure es) es w1 \<and>
     zp_compaudit_cache_core ''zpmod'' False False True out =
       (0, cc_output False True (count_insecure es, count_secure es) es w2) \<and>
     learned out w2 \<and> (\<forall>e \<in> set es. entry_current w2 1000 e)"
proof -
  obtain out where o: "zp_compaudit_cache_core ''zpmod'' True True False cc_world = (0, out)"
    using cc_world_runs by (metis prod.collapse)
  have "file_coherent ''/h/.cache/zpmod/compaudit_v3.zcache'' cc_world"
    by (simp add: file_coherent_def fs_coherent_def cc_world_def world0_def)
  then show ?thesis
    using compaudit_second_run_quiet [OF o cc_world_facts(1-4), where nam' = "''zpmod''" and show' = False and json' = True] cc_world_facts o by auto
qed

end
