(* ===== verification/Zp_Heap.thy ===== *)
theory Zp_Heap
  imports Zp_Vec "HOL-Library.Multiset"
begin

text \<open>
  The memory of zsh: the live blocks with their sizes, the calls that take and release them, and
  the growable arrays of \<open>Zp_Vec\<close> with the strings their elements point to.  A release that is
  not of a live block with its own size is a fault (\<open>None\<close>): \<open>zfree\<close> is told the size, and
  \<open>zsfree\<close> takes it from the string.  A triple says that a program runs without a fault and
  which blocks are live after it.
\<close>

section \<open>Blocks\<close>

text \<open>Addresses are not used again, so that a second release of a block is seen; 0 is NULL.\<close>

record heap =
  hp_live :: "nat \<rightharpoonup> nat"
  hp_next :: nat

definition heap0 :: heap where
  "heap0 = \<lparr>hp_live = Map.empty, hp_next = 1\<rparr>"

type_synonym 'a hprog = "heap \<Rightarrow> ('a \<times> heap) option"

definition hret :: "'a \<Rightarrow> 'a hprog" where
  "hret x h = Some (x, h)"

definition hbind :: "'a hprog \<Rightarrow> ('a \<Rightarrow> 'b hprog) \<Rightarrow> 'b hprog" where
  "hbind m f h = (case m h of None \<Rightarrow> None | Some (x, h') \<Rightarrow> f x h')"

definition hseq :: "'a hprog \<Rightarrow> 'b hprog \<Rightarrow> 'b hprog" where
  "hseq m k = hbind m (\<lambda>_. k)"

text \<open>\<open>ztrdup\<close> and the allocations whose result the source does not test cannot be refused.\<close>

definition h_take :: "nat \<Rightarrow> nat hprog" where
  "h_take n h = Some (hp_next h, h\<lparr>hp_live := (hp_live h)(hp_next h \<mapsto> n), hp_next := Suc (hp_next h)\<rparr>)"

definition h_zalloc :: "'w world_scheme \<Rightarrow> nat \<Rightarrow> nat hprog" where
  "h_zalloc w n = (if w_alloc w n then h_take n else hret 0)"

definition h_ztrdup :: "string \<Rightarrow> nat hprog" where
  "h_ztrdup s = h_take (length s + 1)"

definition h_zfree :: "nat \<Rightarrow> nat \<Rightarrow> unit hprog" where
  "h_zfree p n h =
     (if p = 0 then Some ((), h)
      else if hp_live h p = Some n then Some ((), h\<lparr>hp_live := (hp_live h)(p := None)\<rparr>)
      else None)"

definition h_zsfree :: "nat \<Rightarrow> string \<Rightarrow> unit hprog" where
  "h_zsfree p s = h_zfree p (length s + 1)"

text \<open>A refused \<open>zrealloc\<close> leaves the old block; \<open>old\<close> is the size it has.\<close>

definition h_zrealloc :: "'w world_scheme \<Rightarrow> nat \<Rightarrow> nat \<Rightarrow> nat \<Rightarrow> nat hprog" where
  "h_zrealloc w p old n =
     (if w_alloc w n then hbind (h_take n) (\<lambda>q. hseq (h_zfree p old) (hret q)) else hret 0)"

section \<open>Triples\<close>

text \<open>Over the blocks \<open>L\<close> of others, exactly the blocks \<open>M\<close> are live.\<close>

definition holds :: "(nat \<rightharpoonup> nat) \<Rightarrow> (nat \<times> nat) multiset \<Rightarrow> heap \<Rightarrow> bool" where
  "holds L M h \<longleftrightarrow>
     (\<exists>B. mset B = M \<and> distinct (map fst B) \<and> fst ` set B \<inter> dom L = {} \<and>
        hp_live h = L ++ map_of B \<and> (\<forall>a \<in> dom (hp_live h). 0 < a \<and> a < hp_next h)) \<and> 0 < hp_next h"

definition triple ::
    "(nat \<rightharpoonup> nat) \<Rightarrow> (nat \<times> nat) multiset \<Rightarrow> 'a hprog \<Rightarrow> ('a \<Rightarrow> (nat \<times> nat) multiset \<Rightarrow> bool) \<Rightarrow> bool" where
  "triple L M m Q \<longleftrightarrow>
     (\<forall>h. holds L M h \<longrightarrow> (\<exists>x h' M'. m h = Some (x, h') \<and> Q x M' \<and> holds L M' h'))"

named_theorems triples "triples of the calls"

lemma tripleI:
  "(\<And>h. holds L M h \<Longrightarrow> \<exists>x h' M'. m h = Some (x, h') \<and> Q x M' \<and> holds L M' h') \<Longrightarrow> triple L M m Q"
  by (simp add: triple_def)

lemma tripleD:
  "triple L M m Q \<Longrightarrow> holds L M h \<Longrightarrow> \<exists>x h' M'. m h = Some (x, h') \<and> Q x M' \<and> holds L M' h'"
  by (simp add: triple_def)

lemma triple_ret [triples]: "Q x M \<Longrightarrow> triple L M (hret x) Q"
  by (auto simp: triple_def hret_def)

lemma triple_bind:
  assumes "triple L M m (\<lambda>x M'. triple L M' (f x) R)"
  shows "triple L M (hbind m f) R"
proof (rule tripleI)
  fix h
  assume "holds L M h"
  from tripleD [OF assms this] obtain x h' M' where
    m: "m h = Some (x, h')" "triple L M' (f x) R" "holds L M' h'" by blast
  from tripleD [OF m(2,3)] m(1)
  show "\<exists>x h' M'. hbind m f h = Some (x, h') \<and> R x M' \<and> holds L M' h'" by (simp add: hbind_def)
qed

lemma triple_seq: "triple L M m (\<lambda>_ M'. triple L M' k R) \<Longrightarrow> triple L M (hseq m k) R"
  unfolding hseq_def by (rule triple_bind)

lemma triple_conseq: "triple L M m Q \<Longrightarrow> (\<And>x M'. Q x M' \<Longrightarrow> R x M') \<Longrightarrow> triple L M m R"
  unfolding triple_def by blast

lemma triple_take: "(\<And>p. 0 < p \<Longrightarrow> Q p (add_mset (p, n) M)) \<Longrightarrow> triple L M (h_take n) Q"
proof (rule tripleI)
  fix h
  assume q: "\<And>p. 0 < p \<Longrightarrow> Q p (add_mset (p, n) M)" and h: "holds L M h"
  then obtain B where B: "mset B = M" "distinct (map fst B)" "fst ` set B \<inter> dom L = {}"
    "hp_live h = L ++ map_of B" "\<forall>a \<in> dom (hp_live h). 0 < a \<and> a < hp_next h" "0 < hp_next h"
    by (auto simp: holds_def)
  let ?p = "hp_next h" and ?B = "(hp_next h, n) # B"
  let ?h = "h\<lparr>hp_live := (hp_live h)(?p \<mapsto> n), hp_next := Suc ?p\<rparr>"
  have "?p \<notin> dom (hp_live h)" using B(5) by blast
  moreover have "dom (hp_live h) = dom L \<union> fst ` set B" using B(4) by (auto simp: dom_map_of_conv_image_fst)
  ultimately have f: "?p \<notin> dom L" "?p \<notin> fst ` set B" by auto
  have "holds L (add_mset (?p, n) M) ?h"
    unfolding holds_def
  proof (intro conjI exI [of _ ?B])
    show "distinct (map fst ?B)" "fst ` set ?B \<inter> dom L = {}" using B(2,3) f by auto
    show "hp_live ?h = L ++ map_of ?B" using B(4) by simp
    show "\<forall>a \<in> dom (hp_live ?h). 0 < a \<and> a < hp_next ?h" using B(5,6) by (auto simp: less_Suc_eq)
  qed (use B(1) in simp_all)
  moreover have "h_take n h = Some (?p, ?h)" by (simp add: h_take_def)
  ultimately show "\<exists>x h' M'. h_take n h = Some (x, h') \<and> Q x M' \<and> holds L M' h'"
    using q [OF B(6)] by blast
qed

lemma triple_zfree: "Q () M \<Longrightarrow> 0 < p \<Longrightarrow> triple L (add_mset (p, n) M) (h_zfree p n) Q"
proof (rule tripleI)
  fix h
  assume q: "Q () M" "0 < p" and h: "holds L (add_mset (p, n) M) h"
  then obtain B where B: "mset B = add_mset (p, n) M" "distinct (map fst B)" "fst ` set B \<inter> dom L = {}"
    "hp_live h = L ++ map_of B" "\<forall>a \<in> dom (hp_live h). 0 < a \<and> a < hp_next h" "0 < hp_next h"
    by (auto simp: holds_def)
  have m: "(p, n) \<in> set B" using B(1) by (metis set_mset_mset union_single_eq_member)
  then obtain xs ys where s: "B = xs @ (p, n) # ys" by (meson split_list)
  let ?B = "xs @ ys" and ?h = "h\<lparr>hp_live := (hp_live h)(p := None)\<rparr>"
  have p: "p \<notin> fst ` set ?B" "p \<notin> dom L" using B(2,3) s by auto
  have "map_of B p = Some n" using B(2) m by (simp add: map_of_eq_Some_iff)
  then have l: "hp_live h p = Some n" using B(4) by simp
  have no: "map_of xs p = None" "map_of ys p = None" using p(1) by (simp_all add: map_of_eq_None_iff image_Un)
  have "(map_of B)(p := None) = map_of ?B"
    by (auto simp: s fun_eq_iff map_add_def no split: option.splits)
  moreover have "(L ++ m)(p := None) = L ++ m(p := None)" for m
    using p(2) by (auto simp: fun_eq_iff map_add_def domIff split: option.splits)
  ultimately have live: "hp_live ?h = L ++ map_of ?B" using B(4) by simp
  have "holds L M ?h"
    unfolding holds_def
  proof (intro conjI exI [of _ ?B])
    show "mset ?B = M" using B(1) by (simp add: s)
    show "distinct (map fst ?B)" "fst ` set ?B \<inter> dom L = {}" using B(2,3) s by auto
    show "\<forall>a \<in> dom (hp_live ?h). 0 < a \<and> a < hp_next ?h" using B(5) by auto
  qed (use live B(6) in simp_all)
  moreover have "h_zfree p n h = Some ((), ?h)" using l q(2) by (simp add: h_zfree_def)
  ultimately show "\<exists>x h' M'. h_zfree p n h = Some (x, h') \<and> Q x M' \<and> holds L M' h'" using q(1) by blast
qed

lemma triple_zfree_null: "Q () M \<Longrightarrow> triple L M (h_zfree 0 n) Q"
  by (auto simp: triple_def h_zfree_def)

lemma triple_zfree_in:
  assumes "(p, n) \<in># M" "0 < p" "Q () (M - {#(p, n)#})"
  shows "triple L M (h_zfree p n) Q"
  using triple_zfree [of Q "M - {#(p, n)#}" p L n] assms by simp

lemma triple_zfree_size: "0 < p \<Longrightarrow> n = m \<Longrightarrow> Q () M \<Longrightarrow> triple L (add_mset (p, n) M) (h_zfree p m) Q"
  by (simp add: triple_zfree)

lemma triple_zalloc:
  assumes "\<And>p. w_alloc w n \<Longrightarrow> 0 < p \<Longrightarrow> Q p (add_mset (p, n) M)" "\<not> w_alloc w n \<Longrightarrow> Q 0 M"
  shows "triple L M (h_zalloc w n) Q"
  using assms by (auto simp: h_zalloc_def intro: triple_take triple_ret)

lemma triple_ztrdup: "(\<And>p. 0 < p \<Longrightarrow> Q p (add_mset (p, length s + 1) M)) \<Longrightarrow> triple L M (h_ztrdup s) Q"
  unfolding h_ztrdup_def by (rule triple_take)

lemma triple_zsfree: "Q () M \<Longrightarrow> 0 < p \<Longrightarrow> triple L (add_mset (p, length s + 1) M) (h_zsfree p s) Q"
  unfolding h_zsfree_def by (rule triple_zfree)

text \<open>\<open>M\<close> has the old block when there is one.\<close>

definition block :: "nat \<Rightarrow> nat \<Rightarrow> (nat \<times> nat) multiset" where
  "block p n = (if p = 0 then {#} else {#(p, n)#})"

lemma triple_zrealloc:
  assumes "\<And>q. w_alloc w n \<Longrightarrow> 0 < q \<Longrightarrow> Q q (add_mset (q, n) M)" "\<not> w_alloc w n \<Longrightarrow> Q 0 (block p old + M)"
  shows "triple L (block p old + M) (h_zrealloc w p old n) Q"
proof (cases "w_alloc w n")
  case False
  with assms(2) show ?thesis by (simp add: h_zrealloc_def triple_ret)
next
  case True
  have "triple L (add_mset (q, n) (block p old + M)) (h_zfree p old) (\<lambda>_ M'. triple L M' (hret q) Q)"
    if "0 < q" for q
  proof (cases "p = 0")
    case True
    with assms(1) [OF \<open>w_alloc w n\<close> that] show ?thesis
      by (auto simp: block_def intro!: triple_zfree_null triple_ret)
  next
    case False
    then show ?thesis
      using assms(1) [OF True that]
      by (intro triple_zfree_in) (auto simp: block_def add_mset_commute intro: triple_ret)
  qed
  then show ?thesis
    using True by (auto simp: h_zrealloc_def intro!: triple_bind triple_take triple_seq)
qed

text \<open>The default \<open>zfree\<close> of zsh is \<open>free\<close>: it ignores the size it is told.\<close>

definition h_free :: "nat \<Rightarrow> nat \<Rightarrow> unit hprog" where
  "h_free p n h =
     (if p = 0 then Some ((), h)
      else if hp_live h p \<noteq> None then Some ((), h\<lparr>hp_live := (hp_live h)(p := None)\<rparr>)
      else None)"

lemma h_free_zfree: "h_zfree p m h = Some r \<Longrightarrow> h_free p n h = Some r"
  by (auto simp: h_zfree_def h_free_def split: if_splits)

lemma triple_free: "Q () M \<Longrightarrow> 0 < p \<Longrightarrow> triple L (add_mset (p, n) M) (h_free p m) Q"
  using triple_zfree [of Q M p L n] h_free_zfree unfolding triple_def by blast

text \<open>A program that releases everything it takes leaves the live blocks as they were.\<close>

definition heap_ok :: "heap \<Rightarrow> bool" where
  "heap_ok h \<longleftrightarrow> 0 < hp_next h \<and> (\<forall>a \<in> dom (hp_live h). 0 < a \<and> a < hp_next h)"

lemma holds_empty: "holds L {#} h \<longleftrightarrow> hp_live h = L \<and> heap_ok h"
  by (auto simp: holds_def heap_ok_def)

lemma balanced:
  assumes "\<And>L. triple L {#} m (\<lambda>r M. r = x \<and> M = {#})" "heap_ok h"
  shows "\<exists>h'. m h = Some (x, h') \<and> hp_live h' = hp_live h \<and> heap_ok h'"
  using tripleD [OF assms(1), of "hp_live h" h] assms(2) by (auto simp: holds_empty)

lemma heap_ok_heap0 [simp]: "heap_ok heap0"
  by (simp add: heap_ok_def heap0_def)

section \<open>Growable arrays\<close>

text \<open>The pointer to the elements, their number of places, and each element with the pointers to its
  strings.  \<open>strs\<close> gives the strings of an element, \<open>esz\<close> its size.\<close>

record 'a hvec =
  hv_items :: nat
  hv_cap :: nat
  hv_elems :: "('a \<times> nat list) list"

definition hvec_init :: "'a hvec" where
  "hvec_init = \<lparr>hv_items = 0, hv_cap = 0, hv_elems = []\<rparr>"

definition h_push ::
    "nat \<Rightarrow> nat \<Rightarrow> 'w world_scheme \<Rightarrow> 'a hvec \<Rightarrow> 'a \<times> nat list \<Rightarrow> (bool \<times> 'a hvec) hprog" where
  "h_push c0 esz w v e =
     (if length (hv_elems v) = hv_cap v then
        let ncap = (if hv_cap v \<noteq> 0 then hv_cap v * 2 else c0)
        in hbind (h_zrealloc w (hv_items v) (hv_cap v * esz) (ncap * esz)) (\<lambda>nb.
             if nb = 0 then hret (False, v)
             else hret (True, \<lparr>hv_items = nb, hv_cap = ncap, hv_elems = hv_elems v @ [e]\<rparr>))
      else hret (True, v\<lparr>hv_elems := hv_elems v @ [e]\<rparr>))"

text \<open>\<open>if (s) zsfree (s)\<close> for each string.\<close>

fun h_free_strings :: "(nat \<times> string) list \<Rightarrow> unit hprog" where
  "h_free_strings [] = hret ()"
| "h_free_strings ((p, s) # r) = hseq (h_zsfree p s) (h_free_strings r)"

fun h_free_elems :: "('a \<Rightarrow> string list) \<Rightarrow> ('a \<times> nat list) list \<Rightarrow> unit hprog" where
  "h_free_elems strs [] = hret ()"
| "h_free_elems strs ((e, ps) # r) = hseq (h_free_strings (zip ps (strs e))) (h_free_elems strs r)"

definition h_vec_free :: "nat \<Rightarrow> ('a \<Rightarrow> string list) \<Rightarrow> 'a hvec \<Rightarrow> 'a hvec hprog" where
  "h_vec_free esz strs v =
     hseq (h_free_elems strs (hv_elems v))
       (hseq (if hv_items v \<noteq> 0 then h_zfree (hv_items v) (hv_cap v * esz) else hret ()) (hret hvec_init))"

text \<open>One copy for each string; 0 where it is refused.\<close>

fun h_dups :: "(nat \<Rightarrow> nat hprog) \<Rightarrow> string list \<Rightarrow> nat list hprog" where
  "h_dups alloc [] = hret []"
| "h_dups alloc (s # ss) =
     hbind (alloc (length s + 1)) (\<lambda>p. hbind (h_dups alloc ss) (\<lambda>ps. hret (p # ps)))"

text \<open>Copying the strings of an element and pushing it; what could not be used is released.\<close>

definition h_put ::
    "(nat \<Rightarrow> nat hprog) \<Rightarrow> nat \<Rightarrow> nat \<Rightarrow> ('a \<Rightarrow> string list) \<Rightarrow> 'w world_scheme \<Rightarrow> 'a hvec \<Rightarrow> 'a \<Rightarrow>
     (bool \<times> 'a hvec) hprog" where
  "h_put alloc c0 esz strs w v e =
     hbind (h_dups alloc (strs e)) (\<lambda>ps.
       if 0 \<in> set ps then hseq (h_free_strings (zip ps (strs e))) (hret (False, v))
       else hbind (h_push c0 esz w v (e, ps)) (\<lambda>(ok, v').
              if ok then hret (True, v')
              else hseq (h_free_strings (zip ps (strs e))) (hret (False, v'))))"

text \<open>The loops that fill a vector end at the first element that could not be put.\<close>

fun h_fill ::
    "('a hvec \<Rightarrow> 'a \<Rightarrow> (bool \<times> 'a hvec) hprog) \<Rightarrow> 'a hvec \<Rightarrow> 'a turn list \<Rightarrow> 'a hvec hprog" where
  "h_fill put v [] = hret v"
| "h_fill put v (Skip # ts) = h_fill put v ts"
| "h_fill put v (Stop # ts) = hret v"
| "h_fill put v (Put e # ts) =
     hbind (put v e) (\<lambda>(ok, v'). if ok then h_fill put v' ts else hret v')"

text \<open>The blocks of the copies that are there, of an element, and of a vector.\<close>

definition dup_blocks :: "nat list \<Rightarrow> string list \<Rightarrow> (nat \<times> nat) multiset" where
  "dup_blocks ps ss = mset (filter (\<lambda>b. fst b \<noteq> 0) (zip ps (map (\<lambda>s. length s + 1) ss)))"

definition elem_blocks :: "('a \<Rightarrow> string list) \<Rightarrow> 'a \<times> nat list \<Rightarrow> (nat \<times> nat) multiset" where
  "elem_blocks strs e = dup_blocks (snd e) (strs (fst e))"

definition hvec_blocks :: "nat \<Rightarrow> ('a \<Rightarrow> string list) \<Rightarrow> 'a hvec \<Rightarrow> (nat \<times> nat) multiset" where
  "hvec_blocks esz strs v =
     block (hv_items v) (hv_cap v * esz) + (\<Sum>e \<leftarrow> hv_elems v. elem_blocks strs e)"

definition hvec_ok :: "('a \<Rightarrow> string list) \<Rightarrow> 'a hvec \<Rightarrow> bool" where
  "hvec_ok strs v \<longleftrightarrow>
     (\<forall>e \<in> set (hv_elems v). length (snd e) = length (strs (fst e)) \<and> 0 \<notin> set (snd e)) \<and>
     (hv_items v = 0 \<longleftrightarrow> hv_cap v = 0) \<and> length (hv_elems v) \<le> hv_cap v"

text \<open>The vector it is.\<close>

definition vec_of :: "'a hvec \<Rightarrow> 'a vec" where
  "vec_of v = \<lparr>vec_items = map fst (hv_elems v), vec_cap = hv_cap v\<rparr>"

lemma vec_of_init [simp]: "vec_of hvec_init = vec_init" "hvec_ok strs hvec_init" "hvec_blocks esz strs hvec_init = {#}"
  by (simp_all add: vec_of_def hvec_init_def vec_init_def hvec_ok_def hvec_blocks_def block_def)

lemma dup_blocks_Cons [simp]:
  "dup_blocks [] [] = {#}"
  "dup_blocks (p # ps) (s # ss) = block p (length s + 1) + dup_blocks ps ss"
  by (simp_all add: dup_blocks_def block_def)

lemma triple_release: "Q () M \<Longrightarrow> triple L (block p (length s + 1) + M) (h_zsfree p s) Q"
  by (auto simp: block_def h_zsfree_def intro!: triple_zfree [of _ _ _ _ "Suc (length s)", simplified]
      triple_zfree_null)

lemma triple_free_strings:
  assumes "length ps = length ss" "Q () M"
  shows "triple L (dup_blocks ps ss + M) (h_free_strings (zip ps ss)) Q"
  using assms
proof (induction ps ss rule: list_induct2)
  case (Cons p ps s ss)
  then have "triple L (dup_blocks ps ss + M) (h_free_strings (zip ps ss)) Q" by blast
  then show ?case
    unfolding dup_blocks_Cons add.assoc zip_Cons_Cons h_free_strings.simps
    by (intro triple_seq triple_release)
qed (simp add: triple_ret)

lemma triple_free_elems:
  assumes "\<forall>e \<in> set es. length (snd e) = length (strs (fst e))" "Q () M"
  shows "triple L ((\<Sum>e \<leftarrow> es. elem_blocks strs e) + M) (h_free_elems strs es) Q"
  using assms
proof (induction es)
  case (Cons a es)
  obtain e ps where a: "a = (e, ps)" by fastforce
  have "triple L ((\<Sum>e \<leftarrow> es. elem_blocks strs e) + M) (h_free_elems strs es) Q"
    using Cons by auto
  then show ?case
    using Cons.prems triple_free_strings [of ps "strs e"]
    by (auto simp: a elem_blocks_def add.assoc intro!: triple_seq)
qed (simp add: triple_ret)

lemma triple_vec_free:
  assumes "hvec_ok strs v" "Q hvec_init M"
  shows "triple L (hvec_blocks esz strs v + M) (h_vec_free esz strs v) Q"
proof -
  let ?b = "block (hv_items v) (hv_cap v * esz)"
  let ?k = "hseq (if hv_items v \<noteq> 0 then h_zfree (hv_items v) (hv_cap v * esz) else hret ()) (hret hvec_init)"
  have "triple L (?b + M) ?k Q"
    using assms(2) by (auto simp: block_def intro!: triple_seq triple_zfree triple_ret)
  then have "triple L ((\<Sum>e \<leftarrow> hv_elems v. elem_blocks strs e) + (?b + M))
      (h_free_elems strs (hv_elems v)) (\<lambda>_ M'. triple L M' ?k Q)"
    using assms(1) by (intro triple_free_elems) (auto simp: hvec_ok_def)
  moreover have "hvec_blocks esz strs v + M = (\<Sum>e \<leftarrow> hv_elems v. elem_blocks strs e) + (?b + M)"
    by (simp add: hvec_blocks_def ac_simps)
  ultimately show ?thesis unfolding h_vec_free_def by (intro triple_seq) (simp only:)
qed

lemma triple_push:
  assumes v: "hvec_ok strs v" "0 < c0" "length ps = length (strs e)" "0 \<notin> set ps"
    and ok: "\<And>v'. vec_push c0 esz w (vec_of v) e = Some (vec_of v') \<Longrightarrow> hvec_ok strs v' \<Longrightarrow>
        Q (True, v') (hvec_blocks esz strs v' + M)"
    and no: "vec_push c0 esz w (vec_of v) e = None \<Longrightarrow>
        Q (False, v) (hvec_blocks esz strs v + (dup_blocks ps (strs e) + M))"
  shows "triple L (hvec_blocks esz strs v + (dup_blocks ps (strs e) + M)) (h_push c0 esz w v (e, ps)) Q"
proof (cases "length (hv_elems v) = hv_cap v")
  case False
  let ?v = "v\<lparr>hv_elems := hv_elems v @ [(e, ps)]\<rparr>"
  have "vec_push c0 esz w (vec_of v) e = Some (vec_of ?v)" using False by (simp add: vec_push_def vec_of_def)
  moreover have "hvec_ok strs ?v" using v False by (auto simp: hvec_ok_def)
  moreover have b: "hvec_blocks esz strs v + (dup_blocks ps (strs e) + M) = hvec_blocks esz strs ?v + M"
    by (simp add: hvec_blocks_def elem_blocks_def ac_simps)
  ultimately have "triple L (hvec_blocks esz strs v + (dup_blocks ps (strs e) + M)) (hret (True, ?v)) Q"
    unfolding b using ok [of ?v] by (intro triple_ret) blast
  then show ?thesis using False by (simp add: h_push_def)
next
  case True
  define n where "n = (if hv_cap v \<noteq> 0 then hv_cap v * 2 else c0)"
  let ?v = "\<lambda>q. \<lparr>hv_items = q, hv_cap = n, hv_elems = hv_elems v @ [(e, ps)]\<rparr>"
  let ?R = "(\<Sum>e \<leftarrow> hv_elems v. elem_blocks strs e) + (dup_blocks ps (strs e) + M)"
  have old: "hvec_blocks esz strs v + (dup_blocks ps (strs e) + M) = block (hv_items v) (hv_cap v * esz) + ?R"
    by (simp add: hvec_blocks_def ac_simps)
  have p: "vec_push c0 esz w (vec_of v) e = (if w_alloc w (n * esz) then Some (vec_of (?v q)) else None)" for q
    using True by (simp add: vec_push_def vec_of_def n_def Let_def)
  have n: "length (hv_elems v) < n" using True v(2) by (auto simp: n_def)
  let ?k = "\<lambda>nb. if nb = 0 then hret (False, v) else hret (True, ?v nb)"
  have "triple L (block (hv_items v) (hv_cap v * esz) + ?R) (h_zrealloc w (hv_items v) (hv_cap v * esz) (n * esz))
      (\<lambda>nb M'. triple L M' (?k nb) Q)"
  proof (rule triple_zrealloc)
    fix q :: nat
    assume q: "w_alloc w (n * esz)" "0 < q"
    have "hvec_blocks esz strs (?v q) + M = add_mset (q, n * esz) ?R"
      using q by (simp add: hvec_blocks_def elem_blocks_def block_def ac_simps)
    moreover have "hvec_ok strs (?v q)" using v q n by (auto simp: hvec_ok_def)
    ultimately show "triple L (add_mset (q, n * esz) ?R) (?k q) Q"
      using ok [of "?v q"] q p [of q] by (auto intro!: triple_ret simp: add.assoc)
  next
    assume "\<not> w_alloc w (n * esz)"
    then show "triple L (block (hv_items v) (hv_cap v * esz) + ?R) (?k 0) Q"
      using no p [of 0] old by (auto intro: triple_ret)
  qed
  moreover have "h_push c0 esz w v (e, ps) = hbind (h_zrealloc w (hv_items v) (hv_cap v * esz) (n * esz)) ?k"
    using True unfolding h_push_def Let_def n_def by simp
  ultimately show ?thesis unfolding old by (simp only: triple_bind)
qed

section \<open>Filling\<close>

text \<open>What the loop makes of a candidate when the copies of its strings are granted or not.\<close>

definition grants :: "(nat \<Rightarrow> bool) \<Rightarrow> string list \<Rightarrow> bool" where
  "grants granted ss \<longleftrightarrow> list_all (\<lambda>s. granted (length s + 1)) ss"

definition decide :: "(nat \<Rightarrow> bool) \<Rightarrow> ('a \<Rightarrow> string list) \<Rightarrow> 'a turn \<Rightarrow> 'a turn" where
  "decide granted strs t = (case t of Put e \<Rightarrow> if grants granted (strs e) then Put e else Stop | _ \<Rightarrow> t)"

text \<open>An allocator: which sizes it grants, and what it leaves when it does or does not.\<close>

locale allocator =
  fixes alloc :: "nat \<Rightarrow> nat hprog"
    and granted :: "nat \<Rightarrow> bool"
  assumes alloc: "(\<And>p. granted n \<Longrightarrow> 0 < p \<Longrightarrow> Q p (add_mset (p, n) M)) \<Longrightarrow> (\<not> granted n \<Longrightarrow> Q 0 M) \<Longrightarrow>
    triple L M (alloc n) Q"
begin

lemma triple_dups:
  assumes "\<And>ps. length ps = length ss \<Longrightarrow> (0 \<notin> set ps \<longleftrightarrow> grants granted ss) \<Longrightarrow> Q ps (dup_blocks ps ss + M)"
  shows "triple L M (h_dups alloc ss) Q"
  using assms
proof (induction ss arbitrary: M Q)
  case Nil
  then show ?case by (simp add: grants_def triple_ret)
next
  case (Cons s ss)
  have "triple L (block p (length s + 1) + M) (h_dups alloc ss) (\<lambda>ps M'. triple L M' (hret (p # ps)) Q)"
    if "p \<noteq> 0 \<longleftrightarrow> granted (length s + 1)" for p
    using that Cons.prems [of "p # _"]
    by (intro Cons.IH triple_ret) (auto simp: grants_def ac_simps)
  then show ?case
    by (auto intro!: triple_bind alloc simp: block_def split: if_splits)
qed

lemma triple_put:
  assumes v: "hvec_ok strs v" "0 < c0"
    and ok: "\<And>v'. grants granted (strs e) \<Longrightarrow> vec_push c0 esz w (vec_of v) e = Some (vec_of v') \<Longrightarrow> hvec_ok strs v' \<Longrightarrow>
        Q (True, v') (hvec_blocks esz strs v' + M)"
    and no: "\<not> grants granted (strs e) \<or> vec_push c0 esz w (vec_of v) e = None \<Longrightarrow>
        Q (False, v) (hvec_blocks esz strs v + M)"
  shows "triple L (hvec_blocks esz strs v + M) (h_put alloc c0 esz strs w v e) Q"
  unfolding h_put_def
proof (rule triple_bind, rule triple_dups)
  fix ps :: "nat list"
  assume ps: "length ps = length (strs e)" "0 \<notin> set ps \<longleftrightarrow> grants granted (strs e)"
  let ?rel = "hseq (h_free_strings (zip ps (strs e))) (hret (False, v))"
  let ?V = "hvec_blocks esz strs v" and ?C = "dup_blocks ps (strs e)"
  have rel: "triple L (?V + (?C + M)) ?rel Q" if "\<not> grants granted (strs e) \<or> vec_push c0 esz w (vec_of v) e = None"
  proof -
    have "triple L (?C + (?V + M)) ?rel Q"
      using ps(1) no [OF that] by (intro triple_seq triple_free_strings triple_ret)
    then show ?thesis by (simp add: ac_simps)
  qed
  show "triple L (?C + (?V + M)) (if 0 \<in> set ps then ?rel
      else hbind (h_push c0 esz w v (e, ps)) (\<lambda>(ok, v').
        if ok then hret (True, v') else hseq (h_free_strings (zip ps (strs e))) (hret (False, v')))) Q"
  proof (cases "0 \<in> set ps")
    case True
    with rel ps(2) show ?thesis by (simp add: ac_simps)
  next
    case False
    then have "triple L (?V + (?C + M)) (h_push c0 esz w v (e, ps)) (\<lambda>x M'. triple L M'
        (case x of (ok, v') \<Rightarrow> if ok then hret (True, v')
           else hseq (h_free_strings (zip ps (strs e))) (hret (False, v'))) Q)"
      using v ps ok rel by (intro triple_push) (auto intro: triple_ret)
    with False show ?thesis by (simp add: ac_simps triple_bind)
  qed
qed

lemma triple_fill:
  assumes "hvec_ok strs v" "0 < c0"
    and "\<And>v'. hvec_ok strs v' \<Longrightarrow> vec_of v' = fill (vec_push c0 esz w) (vec_of v) (map (decide granted strs) ts) \<Longrightarrow>
        Q v' (hvec_blocks esz strs v' + M)"
  shows "triple L (hvec_blocks esz strs v + M) (h_fill (h_put alloc c0 esz strs w) v ts) Q"
  using assms
proof (induction "h_put alloc c0 esz strs w" v ts rule: h_fill.induct)
  case (4 v e ts)
  show ?case
    unfolding h_fill.simps
  proof (rule triple_bind, rule triple_put [OF 4(2,3)])
    fix v'
    assume p: "grants granted (strs e)" "vec_push c0 esz w (vec_of v) e = Some (vec_of v')" "hvec_ok strs v'"
    then have "triple L (hvec_blocks esz strs v' + M) (h_fill (h_put alloc c0 esz strs w) v' ts) Q"
      using 4(4) by (intro 4(1) [OF refl]) (auto simp: 4(3) decide_def)
    then show "triple L (hvec_blocks esz strs v' + M) (case (True, v') of (ok, v') \<Rightarrow>
        if ok then h_fill (h_put alloc c0 esz strs w) v' ts else hret v') Q" by simp
  next
    assume "\<not> grants granted (strs e) \<or> vec_push c0 esz w (vec_of v) e = None"
    then have "vec_of v = fill (vec_push c0 esz w) (vec_of v) (map (decide granted strs) (Put e # ts))"
      by (auto simp: decide_def)
    then show "triple L (hvec_blocks esz strs v + M) (case (False, v) of (ok, v') \<Rightarrow>
        if ok then h_fill (h_put alloc c0 esz strs w) v' ts else hret v') Q"
      using 4(2,4) by (auto intro: triple_ret)
  qed
qed (simp_all add: triple_ret decide_def)

end

interpretation zalloc: allocator "h_zalloc w" "w_alloc w" for w :: "'w world_scheme"
  by unfold_locales (rule triple_zalloc)

interpretation ztake: allocator h_take "\<lambda>_. True"
  by unfold_locales (auto intro: triple_take)

section \<open>Ownership\<close>

text \<open>A string the program owns.\<close>

definition owns :: "(nat \<times> string) option \<Rightarrow> string option \<Rightarrow> (nat \<times> nat) multiset \<Rightarrow> (nat \<times> nat) multiset \<Rightarrow> bool" where
  "owns r s M M' \<longleftrightarrow> map_option snd r = s \<and>
     (case r of None \<Rightarrow> M' = M | Some (p, t) \<Rightarrow> 0 < p \<and> M' = add_mset (p, length t + 1) M)"

lemma owns_None [simp]: "owns None s M M' \<longleftrightarrow> s = None \<and> M' = M"
  by (auto simp: owns_def)

lemma owns_Some [simp]: "owns (Some (p, t)) s M M' \<longleftrightarrow> s = Some t \<and> 0 < p \<and> M' = add_mset (p, length t + 1) M"
  by (auto simp: owns_def)

text \<open>A vector the program owns, with the elements of the model.\<close>

definition vec_owned ::
    "nat \<Rightarrow> ('a \<Rightarrow> string list) \<Rightarrow> 'a hvec \<Rightarrow> 'a vec \<Rightarrow> (nat \<times> nat) multiset \<Rightarrow> (nat \<times> nat) multiset \<Rightarrow> bool" where
  "vec_owned esz strs v u M M' \<longleftrightarrow> hvec_ok strs v \<and> vec_of v = u \<and> M' = hvec_blocks esz strs v + M"

lemma vec_owned_init [simp]: "vec_owned esz strs hvec_init u M M' \<longleftrightarrow> u = vec_init \<and> M' = M"
  by (auto simp: vec_owned_def)

lemma h_fill_owned:
  assumes "allocator alloc granted" "vec_owned esz strs v u M N" "0 < c0"
  shows "triple L N (h_fill (h_put alloc c0 esz strs w) v ts)
    (\<lambda>v'. vec_owned esz strs v' (fill (vec_push c0 esz w) u (map (decide granted strs) ts)) M)"
  using assms allocator.triple_fill [OF assms(1), of strs v c0 esz w ts _ M L]
  by (auto simp: vec_owned_def)

lemma h_free_owned:
  "vec_owned esz strs v u M N \<Longrightarrow> Q hvec_init M \<Longrightarrow> triple L N (h_vec_free esz strs v) Q"
  by (auto simp: vec_owned_def intro: triple_vec_free)

lemma owned_init: "vec_owned esz strs v vec_init M N \<Longrightarrow> v = hvec_init \<and> N = M"
  by (cases v) (auto simp: vec_owned_def vec_of_def vec_init_def hvec_ok_def hvec_init_def hvec_blocks_def block_def)

lemma vec_items_init [simp]: "vec_items vec_init = []"
  by (simp add: vec_init_def)

end
