(* ===== verification/Zp_Memory.thy ===== *)
theory Zp_Memory
  imports Zp_Heap Zp_Rehash Zp_Compaudit
begin

text \<open>
  The memory of \<open>rehash-diff\<close> (\<open>src/core/rehash_diff.c\<close>) and \<open>compaudit-cache\<close>
  (\<open>src/core/compaudit_cache.c\<close>): what each function takes and releases, on every path, in the
  order of the code.  The decisions are those of the models of \<open>Zp_Rehash\<close> and \<open>Zp_Compaudit\<close>.
\<close>

section \<open>rehash-diff\<close>

definition rh_strings :: "rh_entry \<Rightarrow> string list" where
  "rh_strings e = [rh_path e]"

definition rh_vec_init :: "rh_entry hvec" where
  "rh_vec_init = hvec_init"

definition rh_vec_free :: "rh_entry hvec \<Rightarrow> rh_entry hvec hprog" where
  "rh_vec_free = h_vec_free 32 rh_strings"

definition h_rh_base_cache_dir :: "'w world_scheme \<Rightarrow> (nat \<times> string) option hprog" where
  "h_rh_base_cache_dir w =
     (let xdg = w_sparam w ''XDG_CACHE_HOME''; home = w_sparam w ''HOME'';
          base = (case xdg of Some (c # cs) \<Rightarrow> Some (c # cs) | _ \<Rightarrow> None)
      in case base of
           Some b \<Rightarrow> hbind (h_ztrdup b) (\<lambda>p. hret (Some (p, b)))
         | None \<Rightarrow>
             (case home of
                Some (c # cs) \<Rightarrow>
                  hbind (h_zalloc w (length (c # cs) + 8)) (\<lambda>p.
                    hret (if p = 0 then None else Some (p, (c # cs) @ ''/.cache'')))
              | _ \<Rightarrow> hret None))"

definition h_rh_dir :: "'w world_scheme \<Rightarrow> (nat \<times> string) option hprog" where
  "h_rh_dir w =
     hbind (h_rh_base_cache_dir w) (\<lambda>r.
       case r of
         None \<Rightarrow> hret None
       | Some (p, base) \<Rightarrow>
           hbind (h_zalloc w (length base + 1 + length ZP_RH_SUBDIR + 1)) (\<lambda>q.
             if q = 0 then hseq (h_zsfree p base) (hret None)
             else
               let full = base @ ''/'' @ ZP_RH_SUBDIR
               in hseq (h_zsfree p base)
                    (case w_stat w full of
                       Inr _ \<Rightarrow> hret (Some (q, full))
                     | Inl _ \<Rightarrow>
                         (case sys_mkdir full 448 w of
                            Inl _ \<Rightarrow> hseq (h_zsfree q full) (hret None)
                          | Inr _ \<Rightarrow> hret (Some (q, full))))))"

definition h_rh_file :: "string \<Rightarrow> 'w world_scheme \<Rightarrow> (nat \<times> string) option hprog" where
  "h_rh_file nam w =
     hbind (h_rh_dir w) (\<lambda>r.
       case r of
         None \<Rightarrow> hret None
       | Some (p, dir) \<Rightarrow>
           hbind (h_zalloc (snd (zp_rh_dir nam w)) (length dir + 1 + length ZP_RH_FILE + 1)) (\<lambda>q.
             hseq (h_zsfree p dir) (hret (if q = 0 then None else Some (q, dir @ ''/'' @ ZP_RH_FILE)))))"

text \<open>One line of the snapshot, before its path is copied.\<close>

definition rh_candidate :: "string \<Rightarrow> rh_entry turn" where
  "rh_candidate line =
     (if take 1 line = [newline] \<or> take 1 line = ''#'' then Skip
      else case strtoks tab (chomp line) of
             p # ino_s # mt_s # _ \<Rightarrow>
               Put \<lparr>rh_path = p, rh_ino = strtoul 10 ino_s, rh_mtime = fst (strtol 10 mt_s),
                    rh_present_now = False\<rparr>
           | _ \<Rightarrow> Skip)"

definition h_rh_put :: "'w world_scheme \<Rightarrow> rh_entry hvec \<Rightarrow> rh_entry \<Rightarrow> (bool \<times> rh_entry hvec) hprog" where
  "h_rh_put w = h_put (h_zalloc w) 16 32 rh_strings w"

definition h_rh_load :: "string \<Rightarrow> 'w world_scheme \<Rightarrow> rh_entry hvec \<Rightarrow> (bool \<times> rh_entry hvec) hprog" where
  "h_rh_load file w v =
     (case w_data w file of
        Inl _ \<Rightarrow> hret (False, v)
      | Inr dat \<Rightarrow>
          (case fgets_all 4096 dat of
             [] \<Rightarrow> hret (False, v)
           | first # rest \<Rightarrow>
               if \<not> starts_with ''version:1'' first then hret (False, v)
               else hbind (h_fill (h_rh_put w) v (map rh_candidate rest)) (\<lambda>v'. hret (True, v'))))"

definition h_rh_collect_current :: "'w world_scheme \<Rightarrow> rh_entry hvec \<Rightarrow> rh_entry hvec hprog" where
  "h_rh_collect_current w v =
     h_fill (h_rh_put w) v (map (\<lambda>d. if d = [] then Skip else Put (rh_new d)) (path_dirs w))"

text \<open>The whole command.  Nothing between loading and releasing changes a path.  The result: the
  snapshot file, whether there was a snapshot, and the entries of then and now.\<close>

definition h_rehash_diff ::
    "string \<Rightarrow> 'w world_scheme \<Rightarrow> (string \<times> bool \<times> rh_entry list \<times> rh_entry list) option hprog" where
  "h_rehash_diff nam w =
     hbind (h_rh_file nam w) (\<lambda>r.
       case r of
         None \<Rightarrow> hret None
       | Some (p, file) \<Rightarrow>
           let w1 = snd (zp_rh_file nam w)
           in hbind (h_rh_load file w1 rh_vec_init) (\<lambda>(have_prev, prev).
                hbind (h_rh_collect_current w1 rh_vec_init) (\<lambda>now.
                  hseq (rh_vec_free prev) (hseq (rh_vec_free now) (hseq (h_zsfree p file)
                    (hret (Some (file, have_prev, vec_items (vec_of prev), vec_items (vec_of now)))))))))"

lemma rh_decide: "rh_parse w line = decide (w_alloc w) rh_strings (rh_candidate line)"
  by (simp add: rh_parse_def decide_def rh_candidate_def grants_def rh_strings_def
      split: list.splits)

lemma h_rh_base: "triple L M (h_rh_base_cache_dir w) (\<lambda>r. owns r (zp_rh_base_cache_dir w) M)"
  by (auto simp: h_rh_base_cache_dir_def zp_rh_base_cache_dir_def Let_def split: option.splits list.splits
      intro!: triple_ret triple_bind triple_zalloc triple_ztrdup)


lemma h_rh_dir_ok: "triple L M (h_rh_dir w) (\<lambda>r. owns r (fst (zp_rh_dir nam w)) M)"
  unfolding h_rh_dir_def
  by (rule triple_bind, rule triple_conseq [OF h_rh_base])
    (auto simp: zp_rh_dir_def Let_def ZP_RH_SUBDIR_def h_zsfree_def split: option.splits sum.splits
      intro!: triple_bind triple_zalloc triple_seq triple_zfree_in triple_ret)

lemma h_rh_file_ok: "triple L M (h_rh_file nam w) (\<lambda>r. owns r (fst (zp_rh_file nam w)) M)"
  unfolding h_rh_file_def
  by (rule triple_bind, rule triple_conseq [OF h_rh_dir_ok [of _ _ _ nam]])
    (auto simp: zp_rh_file_def h_zsfree_def split: option.splits prod.splits
      intro!: triple_bind triple_zalloc triple_seq triple_zfree_in triple_ret)

lemma h_rh_load_ok:
  assumes "vec_owned 32 rh_strings v u M N"
  shows "triple L N (h_rh_load file w v) (\<lambda>(ok, v') N'.
    (ok \<longleftrightarrow> rh_load file w u \<noteq> None) \<and>
    vec_owned 32 rh_strings v' (case rh_load file w u of None \<Rightarrow> u | Some u' \<Rightarrow> u') M N')"
proof -
  have fl: "triple L N (h_fill (h_rh_put w) v (map rh_candidate ls))
      (\<lambda>v'. vec_owned 32 rh_strings v' (fill (rh_vec_push w) u (map (rh_parse w) ls)) M)" for ls
    using h_fill_owned [OF zalloc.allocator_axioms [of w] assms, of 16 L w "map rh_candidate ls"]
    by (simp add: h_rh_put_def rh_vec_push_def comp_def rh_decide [symmetric])
  show ?thesis
    using assms by (auto simp: h_rh_load_def rh_load_def split: sum.splits list.splits
        intro!: triple_ret triple_bind triple_conseq [OF fl])
qed

lemma h_rh_collect:
  assumes "vec_owned 32 rh_strings v u M N"
  shows "triple L N (h_rh_collect_current w v) (\<lambda>v'. vec_owned 32 rh_strings v' (rh_collect_current w u) M)"
proof -
  have "decide (w_alloc w) rh_strings (if d = [] then Skip else Put (rh_new d)) =
      (if d = [] then Skip else if w_alloc w (length d + 1) then Put (rh_new d) else Stop)" for d
    by (simp add: decide_def grants_def rh_strings_def rh_new_def)
  then show ?thesis
    using h_fill_owned [OF zalloc.allocator_axioms [of w] assms, of 16 L w
        "map (\<lambda>d. if d = [] then Skip else Put (rh_new d)) (path_dirs w)"]
    by (simp add: h_rh_collect_current_def rh_collect_current_def h_rh_put_def rh_vec_push_def comp_def)
qed

text \<open>What the command sees of the model.\<close>

definition rehash_view :: "string \<Rightarrow> 'w world_scheme \<Rightarrow> (string \<times> bool \<times> rh_entry list \<times> rh_entry list) option" where
  "rehash_view nam w =
     (case zp_rh_file nam w of
        (None, w1) \<Rightarrow> None
      | (Some file, w1) \<Rightarrow>
          Some (file, rh_load file w1 vec_init \<noteq> None,
            (case rh_load file w1 vec_init of None \<Rightarrow> [] | Some v \<Rightarrow> vec_items v),
            vec_items (rh_collect_current w1 vec_init)))"

lemma h_rehash_diff_balanced: "triple L M (h_rehash_diff nam w) (\<lambda>r M'. r = rehash_view nam w \<and> M' = M)"
  unfolding h_rehash_diff_def
proof (rule triple_bind, rule triple_conseq [OF h_rh_file_ok [of _ _ nam]])
  fix r M'
  let ?w = "snd (zp_rh_file nam w)"
  assume o: "owns r (fst (zp_rh_file nam w)) M M'"
  let ?done = "\<lambda>r N. r = rehash_view nam w \<and> N = M"
  show "triple L M' (case r of None \<Rightarrow> hret None
       | Some (p, file) \<Rightarrow> let w1 = ?w
           in hbind (h_rh_load file w1 rh_vec_init) (\<lambda>(have_prev, prev).
                hbind (h_rh_collect_current w1 rh_vec_init) (\<lambda>now.
                  hseq (rh_vec_free prev) (hseq (rh_vec_free now) (hseq (h_zsfree p file)
                    (hret (Some (file, have_prev, vec_items (vec_of prev), vec_items (vec_of now))))))))) ?done"
  proof (cases r)
    case None
    with o show ?thesis by (auto simp: rehash_view_def split: prod.splits intro: triple_ret)
  next
    case (Some pf)
    then obtain p fl where r: "r = Some (p, fl)" by (cases pf) simp
    with o have f: "fst (zp_rh_file nam w) = Some fl" "0 < p" "M' = add_mset (p, length fl + 1) M" by auto
    have v: "rehash_view nam w = Some (fl, rh_load fl ?w vec_init \<noteq> None,
        vec_items (case rh_load fl ?w vec_init of None \<Rightarrow> vec_init | Some v \<Rightarrow> v),
        vec_items (rh_collect_current ?w vec_init))"
      using f(1) by (auto simp: rehash_view_def vec_init_def split: prod.splits option.splits)
    have rel: "triple L N (hseq (rh_vec_free prev) (hseq (rh_vec_free now) (hseq (h_zsfree p fl)
          (hret (Some (fl, ok, vec_items (vec_of prev), vec_items (vec_of now))))))) ?done"
      if "vec_owned 32 rh_strings prev u M' N'" "vec_owned 32 rh_strings now u' N' N"
        "rehash_view nam w = Some (fl, ok, vec_items u, vec_items u')" for N N' prev now u u' ok
    proof -
      have ok: "hvec_ok rh_strings prev" "hvec_ok rh_strings now" "vec_of prev = u" "vec_of now = u'"
        and N: "N = hvec_blocks 32 rh_strings prev + (hvec_blocks 32 rh_strings now + M')"
        using that(1,2) by (auto simp: vec_owned_def ac_simps)
      show ?thesis
        unfolding N rh_vec_free_def f(3)
        using ok f(2) that(3) by (intro triple_seq triple_vec_free triple_zsfree triple_ret) simp_all
    qed
    show ?thesis
      unfolding r option.case prod.case Let_def
      by (rule triple_bind, rule triple_conseq [OF h_rh_load_ok [of _ vec_init M']], simp add: rh_vec_init_def,
          clarsimp, rule triple_bind, rule triple_conseq [OF h_rh_collect [of _ vec_init]],
          simp add: rh_vec_init_def, erule rel) (auto simp: v)
  qed
qed


section \<open>compaudit-cache\<close>

definition cc_strings :: "zp_cc_entry \<Rightarrow> string list" where
  "cc_strings e = [cc_path e]"

definition zp_cc_vec_init :: "zp_cc_entry hvec" where
  "zp_cc_vec_init = hvec_init"

definition zp_cc_vec_free :: "zp_cc_entry hvec \<Rightarrow> zp_cc_entry hvec hprog" where
  "zp_cc_vec_free = h_vec_free 48 cc_strings"

definition h_cc_base_cache_dir :: "'w world_scheme \<Rightarrow> (nat \<times> string) option hprog" where
  "h_cc_base_cache_dir w =
     (let xdg = w_sparam w ''XDG_CACHE_HOME''; home = w_sparam w ''HOME'';
          base = (case xdg of Some (c # cs) \<Rightarrow> Some (c # cs) | _ \<Rightarrow> None)
      in case base of
           Some b \<Rightarrow> hbind (h_ztrdup b) (\<lambda>p. hret (Some (p, b)))
         | None \<Rightarrow>
             (case home of
                Some (c # cs) \<Rightarrow>
                  hbind (h_zalloc w (length (c # cs) + 8)) (\<lambda>p.
                    hret (if p = 0 then None else Some (p, (c # cs) @ ''/.cache'')))
              | _ \<Rightarrow> hret None))"

definition h_cc_ensure_dir :: "'w world_scheme \<Rightarrow> (nat \<times> string) option hprog" where
  "h_cc_ensure_dir w =
     hbind (h_cc_base_cache_dir w) (\<lambda>r.
       case r of
         None \<Rightarrow> hret None
       | Some (p, base) \<Rightarrow>
           hbind (h_zalloc w (length base + 1 + length ZP_COMPAUDIT_CACHE_SUBDIR + 1)) (\<lambda>q.
             if q = 0 then hseq (h_zsfree p base) (hret None)
             else
               let full = base @ ''/'' @ ZP_COMPAUDIT_CACHE_SUBDIR;
                   fail = hseq (h_zsfree p base) (hseq (h_zsfree q full) (hret None));
                   done = hseq (h_zsfree p base) (hret (Some (q, full)))
               in case w_stat w full of
                    Inl _ \<Rightarrow> (case sys_mkdir full 448 w of Inl _ \<Rightarrow> fail | Inr _ \<Rightarrow> done)
                  | Inr st \<Rightarrow> if \<not> S_ISDIR (st_mode st) then fail else done))"

definition h_cc_cache_file_path :: "string \<Rightarrow> 'w world_scheme \<Rightarrow> (nat \<times> string) option hprog" where
  "h_cc_cache_file_path nam w =
     hbind (h_cc_ensure_dir w) (\<lambda>r.
       case r of
         None \<Rightarrow> hret None
       | Some (p, dir) \<Rightarrow>
           hbind (h_zalloc (snd (zp_cc_ensure_dir nam w)) (length dir + 1 + length ZP_COMPAUDIT_CACHE_FILE + 1)) (\<lambda>q.
             hseq (h_zsfree p dir)
               (hret (if q = 0 then None else Some (q, dir @ ''/'' @ ZP_COMPAUDIT_CACHE_FILE)))))"

text \<open>The name of the old cache.\<close>

definition h_cc_migrate :: "string \<Rightarrow> 'w world_scheme \<Rightarrow> unit hprog" where
  "h_cc_migrate cache_path w =
     (case w_stat w cache_path of
        Inr _ \<Rightarrow> hret ()
      | Inl _ \<Rightarrow>
          (case find_sub cache_path ''_v3.zcache'' of
             None \<Rightarrow> hret ()
           | Some i \<Rightarrow>
               hbind (h_zalloc w (i + 10 + 1)) (\<lambda>p.
                 if p = 0 then hret () else h_zsfree p (take i cache_path @ ''_v2.zcache''))))"

definition h_cc_put :: "(nat \<Rightarrow> nat hprog) \<Rightarrow> 'w world_scheme \<Rightarrow> zp_cc_entry hvec \<Rightarrow> zp_cc_entry \<Rightarrow>
    (bool \<times> zp_cc_entry hvec) hprog" where
  "h_cc_put alloc w = h_put alloc 8 48 cc_strings w"

text \<open>The lines of the cache: the first field of every line is copied, and released again when
  the line has too few fields.\<close>

fun h_cc_lines :: "'w world_scheme \<Rightarrow> zp_cc_entry hvec \<Rightarrow> string list \<Rightarrow> zp_cc_entry hvec hprog" where
  "h_cc_lines w v [] = hret v"
| "h_cc_lines w v (line # ls) =
     (case cc_parse line of
        Put e \<Rightarrow> hbind (h_cc_put h_take w v e) (\<lambda>(ok, v'). if ok then h_cc_lines w v' ls else hret v')
      | _ \<Rightarrow>
          if take 1 line = [newline] \<or> take 1 line = ''#'' then h_cc_lines w v ls
          else (case strtoks tab (chomp line) of
                  [] \<Rightarrow> h_cc_lines w v ls
                | tok # _ \<Rightarrow> hbind (h_ztrdup tok) (\<lambda>p. hseq (h_zsfree p tok) (h_cc_lines w v ls))))"

definition h_cc_load_cache ::
    "string \<Rightarrow> 'w world_scheme \<Rightarrow> zp_cc_entry hvec \<Rightarrow> (bool \<times> zp_cc_entry hvec) hprog" where
  "h_cc_load_cache path w v =
     (case w_data w path of
        Inl _ \<Rightarrow> hret (False, v)
      | Inr dat \<Rightarrow>
          (case fgets_all 4096 dat of
             [] \<Rightarrow> hret (False, v)
           | first # rest \<Rightarrow>
               if \<not> starts_with ''version:3'' first then hret (False, v)
               else hbind (h_cc_lines w v rest) (\<lambda>v'. hret (True, v'))))"

definition h_cc_collect_dirs :: "'w world_scheme \<Rightarrow> zp_cc_entry hvec \<Rightarrow> zp_cc_entry hvec hprog" where
  "h_cc_collect_dirs w v =
     h_fill (h_cc_put (h_zalloc w) w) v (map (\<lambda>d. if d = [] then Skip else Put (collected_entry w d)) (fpath_dirs w))"

fun h_add_missing :: "'w world_scheme \<Rightarrow> zp_cc_entry hvec \<Rightarrow> string list \<Rightarrow> zp_cc_entry hvec hprog" where
  "h_add_missing w v [] = hret v"
| "h_add_missing w v (d # ds) =
     (if d = [] \<or> d \<in> set (map cc_path (vec_items (vec_of v))) then h_add_missing w v ds
      else hbind (h_cc_put (h_zalloc w) w v (new_entry d)) (\<lambda>(ok, v').
             if ok then h_add_missing w v' ds else hret v'))"

text \<open>The refresh of an invalid cache, and loading with validation: is there a cache, and its entries.\<close>

definition h_cc_refresh ::
    "string \<Rightarrow> string \<Rightarrow> 'w world_scheme \<Rightarrow> zp_cc_entry hvec \<Rightarrow> (bool \<times> zp_cc_entry hvec) hprog" where
  "h_cc_refresh nam cache_path w v =
     hbind (h_add_missing w v (fpath_dirs w)) (\<lambda>v1.
       case zp_cc_incremental_update nam cache_path (vec_of v) w of
         (None, w2) \<Rightarrow> hbind (zp_cc_vec_free v1) (\<lambda>v2. hret (False, v2))
       | (Some _, w2) \<Rightarrow>
           hbind (zp_cc_vec_free v1) (\<lambda>v2.
             hbind (h_cc_load_cache cache_path w2 zp_cc_vec_init) (\<lambda>(ok, v3). hret (True, v3))))"

definition h_cc_have_cache ::
    "string \<Rightarrow> string \<Rightarrow> 'w world_scheme \<Rightarrow> (bool \<times> zp_cc_entry hvec) hprog" where
  "h_cc_have_cache nam cache_path w =
     hbind (h_cc_load_cache cache_path w zp_cc_vec_init) (\<lambda>(loaded, v).
       if \<not> loaded then hret (False, v)
       else case zp_cc_validate_cache (w_euid w) (vec_items (vec_of v)) w of
              (False, w1) \<Rightarrow> hret (True, v)
            | (True, w1) \<Rightarrow> h_cc_refresh nam cache_path w1 v)"

text \<open>The end of the command.\<close>

definition h_cc_done :: "nat \<times> string \<Rightarrow> zp_cc_entry hvec \<Rightarrow> int \<Rightarrow> int hprog" where
  "h_cc_done path v ret = hseq (zp_cc_vec_free v) (hseq (h_zsfree (fst path) (snd path)) (hret ret))"

definition h_cc_rebuild ::
    "string \<Rightarrow> nat \<times> string \<Rightarrow> bool \<Rightarrow> 'w world_scheme \<Rightarrow> zp_cc_entry hvec \<Rightarrow> int hprog" where
  "h_cc_rebuild nam path listing w entries =
     hbind (h_cc_collect_dirs w zp_cc_vec_init) (\<lambda>targets.
       case zp_cc_rebuild nam (snd path) (vec_of targets) w of
         (None, w1) \<Rightarrow> h_cc_done path targets 1
       | (Some _, w1) \<Rightarrow>
           hseq (zp_cc_vec_free targets)
             (hbind (if listing then h_cc_load_cache (snd path) w1 entries else hret (False, entries))
               (\<lambda>(ok, es). h_cc_done path es 0)))"

text \<open>The command once the path \<open>path\<close> of the cache is known.\<close>

definition h_cc_run :: "string \<Rightarrow> bool \<Rightarrow> bool \<Rightarrow> nat \<times> string \<Rightarrow> 'w world_scheme \<Rightarrow> int hprog" where
  "h_cc_run nam rebuild listing path w1 =
     (let (migrated, w2) = (if rebuild then (False, w1) else cc_migrate (snd path) w1);
          rebuild2 = (rebuild \<or> migrated \<or> writable_cache (snd path) w2);
          w3 = (if rebuild2 then w2 else snd (cc_have_cache nam (snd path) w2))
      in hseq (if rebuild then hret () else h_cc_migrate (snd path) w1)
           (hbind (if rebuild2 then hret (False, zp_cc_vec_init) else h_cc_have_cache nam (snd path) w2)
             (\<lambda>(have_cache, entries).
               if have_cache then h_cc_done path entries 0
               else h_cc_rebuild nam path listing w3 entries)))"

text \<open>The whole command; the result is its answer.\<close>

definition h_compaudit_cache :: "string \<Rightarrow> bool \<Rightarrow> bool \<Rightarrow> bool \<Rightarrow> 'w world_scheme \<Rightarrow> int hprog" where
  "h_compaudit_cache nam rebuild show_it json w =
     hbind (h_cc_cache_file_path nam w) (\<lambda>r.
       case r of
         None \<Rightarrow> hret 1
       | Some path \<Rightarrow> h_cc_run nam rebuild (show_it \<or> json) path (snd (zp_cc_cache_file_path nam w)))"

lemma h_cc_base: "triple L M (h_cc_base_cache_dir w) (\<lambda>r. owns r (zp_cc_base_cache_dir w) M)"
  by (auto simp: h_cc_base_cache_dir_def zp_cc_base_cache_dir_def Let_def split: option.splits list.splits
      intro!: triple_ret triple_bind triple_zalloc triple_ztrdup)

lemma h_cc_ensure_dir_ok: "triple L M (h_cc_ensure_dir w) (\<lambda>r. owns r (fst (zp_cc_ensure_dir nam w)) M)"
  unfolding h_cc_ensure_dir_def
  by (rule triple_bind, rule triple_conseq [OF h_cc_base])
    (auto simp: zp_cc_ensure_dir_def Let_def ZP_COMPAUDIT_CACHE_SUBDIR_def h_zsfree_def
      split: option.splits sum.splits intro!: triple_bind triple_zalloc triple_seq triple_zfree_in triple_ret)

lemma h_cc_path: "triple L M (h_cc_cache_file_path nam w) (\<lambda>r. owns r (fst (zp_cc_cache_file_path nam w)) M)"
  unfolding h_cc_cache_file_path_def
  by (rule triple_bind, rule triple_conseq [OF h_cc_ensure_dir_ok [of _ _ _ nam]])
    (auto simp: zp_cc_cache_file_path_def h_zsfree_def split: option.splits prod.splits
      intro!: triple_bind triple_zalloc triple_seq triple_zfree_in triple_ret)

lemma find_sub_le: "find_sub s t = Some i \<Longrightarrow> i \<le> length s"
  by (auto simp: find_sub_def find_Some_iff nth_append)

lemma h_cc_migrate_ok: "Q () M \<Longrightarrow> triple L M (h_cc_migrate cache_path w) Q"
  using find_sub_le [of cache_path "''_v3.zcache''"]
  by (auto simp: h_cc_migrate_def h_zsfree_def min_def split: sum.splits option.splits
      intro!: triple_ret triple_bind triple_zalloc triple_zfree_size)

lemma cc_granted: "grants granted (cc_strings e) \<longleftrightarrow> granted (length (cc_path e) + 1)"
  by (simp add: grants_def cc_strings_def)

lemma h_cc_put_take:
  assumes "vec_owned 48 cc_strings v u M N"
  shows "triple L N (h_cc_put h_take w v e) (\<lambda>(ok, v') N'.
    (ok \<longleftrightarrow> zp_cc_vec_push w u e \<noteq> None) \<and>
    vec_owned 48 cc_strings v' (case zp_cc_vec_push w u e of None \<Rightarrow> u | Some u' \<Rightarrow> u') M N')"
proof -
  have v: "hvec_ok cc_strings v" "vec_of v = u" "N = hvec_blocks 48 cc_strings v + M"
    using assms by (auto simp: vec_owned_def)
  show ?thesis
    unfolding h_cc_put_def v(3)
    by (rule ztake.triple_put) (use v in \<open>auto simp: vec_owned_def zp_cc_vec_push_def cc_granted\<close>)
qed

lemma h_cc_put_alloc:
  assumes "vec_owned 48 cc_strings v u M N"
  shows "triple L N (h_cc_put (h_zalloc w) w v e) (\<lambda>(ok, v') N'.
    (ok \<longleftrightarrow> w_alloc w (length (cc_path e) + 1) \<and> zp_cc_vec_push w u e \<noteq> None) \<and>
    vec_owned 48 cc_strings v'
      (case if w_alloc w (length (cc_path e) + 1) then zp_cc_vec_push w u e else None of
         None \<Rightarrow> u | Some u' \<Rightarrow> u') M N')"
proof -
  have v: "hvec_ok cc_strings v" "vec_of v = u" "N = hvec_blocks 48 cc_strings v + M"
    using assms by (auto simp: vec_owned_def)
  show ?thesis
    unfolding h_cc_put_def v(3)
    by (rule zalloc.triple_put) (use v in \<open>auto simp: vec_owned_def zp_cc_vec_push_def cc_granted\<close>)
qed

lemma h_cc_lines_ok:
  "vec_owned 48 cc_strings v u M N \<Longrightarrow>
   triple L N (h_cc_lines w v ls) (\<lambda>v'. vec_owned 48 cc_strings v' (fill (zp_cc_vec_push w) u (map cc_parse ls)) M)"
proof (induction ls arbitrary: v u N)
  case (Cons l ls)
  show ?case
  proof (cases "cc_parse l")
    case (Put e)
    show ?thesis
      unfolding h_cc_lines.simps Put turn.case
      by (rule triple_bind, rule triple_conseq [OF h_cc_put_take [OF Cons.prems]])
        (auto simp: Put intro!: Cons.IH triple_ret)
  next
    case Skip
    have "triple L N (h_cc_lines w v ls) (\<lambda>v'. vec_owned 48 cc_strings v' (fill (zp_cc_vec_push w) u (map cc_parse ls)) M)"
      using Cons by blast
    then show ?thesis
      by (auto simp: Skip split: list.splits intro!: triple_bind triple_ztrdup triple_seq triple_zsfree [simplified])
  next
    case Stop
    then show ?thesis by (auto simp: cc_parse_def Let_def split: if_splits list.splits)
  qed
qed (simp add: triple_ret)

lemma h_cc_load:
  assumes "vec_owned 48 cc_strings v u M N"
  shows "triple L N (h_cc_load_cache path w v) (\<lambda>(ok, v') N'.
    (ok \<longleftrightarrow> zp_cc_load_cache path w u \<noteq> None) \<and>
    vec_owned 48 cc_strings v' (case zp_cc_load_cache path w u of None \<Rightarrow> u | Some u' \<Rightarrow> u') M N')"
  using assms by (auto simp: h_cc_load_cache_def zp_cc_load_cache_def split: sum.splits list.splits
      intro!: triple_ret triple_bind triple_conseq [OF h_cc_lines_ok [OF assms]])

lemma h_cc_collect:
  assumes "vec_owned 48 cc_strings v u M N"
  shows "triple L N (h_cc_collect_dirs w v) (\<lambda>v'. vec_owned 48 cc_strings v' (zp_cc_collect_dirs w u) M)"
proof -
  have "decide (w_alloc w) cc_strings (if d = [] then Skip else Put (collected_entry w d)) =
      (if d = [] then Skip else if w_alloc w (length d + 1) then Put (collected_entry w d) else Stop)" for d
    by (simp add: decide_def cc_granted collected_entry_def new_entry_def)
  then show ?thesis
    using h_fill_owned [OF zalloc.allocator_axioms [of w] assms, of 8 L w
        "map (\<lambda>d. if d = [] then Skip else Put (collected_entry w d)) (fpath_dirs w)"]
    by (simp add: h_cc_collect_dirs_def zp_cc_collect_dirs_def h_cc_put_def zp_cc_vec_push_def comp_def)
qed

lemma h_missing:
  "vec_owned 48 cc_strings v u M N \<Longrightarrow>
   triple L N (h_add_missing w v ds) (\<lambda>v'. vec_owned 48 cc_strings v' (add_missing w u ds) M)"
proof (induction ds arbitrary: v u N)
  case (Cons d ds)
  then have u: "vec_of v = u" by (simp add: vec_owned_def)
  show ?case
  proof (cases "d = [] \<or> d \<in> set (map cc_path (vec_items u))")
    case True
    with Cons u show ?thesis by auto
  next
    case False
    have "triple L N (h_cc_put (h_zalloc w) w v (new_entry d)) (\<lambda>x M'. triple L M'
        (case x of (ok, v') \<Rightarrow> if ok then h_add_missing w v' ds else hret v')
        (\<lambda>v'. vec_owned 48 cc_strings v' (add_missing w u (d # ds)) M))"
      using False by (intro triple_conseq [OF h_cc_put_alloc [OF Cons.prems]])
        (auto simp: new_entry_def split: if_splits intro!: Cons.IH triple_ret)
    with False u show ?thesis by (auto intro: triple_bind)
  qed
qed (simp add: triple_ret)

definition cache_entries :: "zp_cc_entry list option \<Rightarrow> bool \<times> zp_cc_entry hvec \<Rightarrow>
    (nat \<times> nat) multiset \<Rightarrow> (nat \<times> nat) multiset \<Rightarrow> bool" where
  "cache_entries es r M N \<longleftrightarrow> (fst r \<longleftrightarrow> es \<noteq> None) \<and>
     (case es of
        None \<Rightarrow> snd r = hvec_init \<and> N = M
      | Some xs \<Rightarrow> \<exists>u. vec_owned 48 cc_strings (snd r) u M N \<and> vec_items u = xs)"

lemma cache_entriesI:
  "es = Some xs \<Longrightarrow> vec_owned 48 cc_strings v u M N \<Longrightarrow> vec_items u = xs \<Longrightarrow> cache_entries es (True, v) M N"
  "es = None \<Longrightarrow> cache_entries es (False, hvec_init) M M"
  by (auto simp: cache_entries_def)

lemma h_cc_free:
  "vec_owned 48 cc_strings v u M N \<Longrightarrow> Q hvec_init M \<Longrightarrow> triple L N (zp_cc_vec_free v) Q"
  unfolding zp_cc_vec_free_def by (rule h_free_owned)

lemma h_cc_refresh_ok:
  assumes "vec_owned 48 cc_strings v u M N"
  shows "triple L N (h_cc_refresh nam p w v)
     (\<lambda>r. cache_entries (case zp_cc_incremental_update nam p u w of
        (None, w2) \<Rightarrow> None | (Some _, w2) \<Rightarrow> Some (cc_reload p w2)) r M)"
  unfolding h_cc_refresh_def
proof (rule triple_bind, rule triple_conseq [OF h_missing [OF assms]])
  fix v1 N1
  assume v1: "vec_owned 48 cc_strings v1 (add_missing w u (fpath_dirs w)) M N1"
  have u: "vec_of v = u" using assms by (simp add: vec_owned_def)
  obtain r w2 where r: "zp_cc_incremental_update nam p u w = (r, w2)" by fastforce
  have init: "vec_owned 48 cc_strings zp_cc_vec_init vec_init M M" by (simp add: zp_cc_vec_init_def)
  have load: "triple L M (h_cc_load_cache p w2 zp_cc_vec_init) (\<lambda>x M'. triple L M' (case x of (ok, v3) \<Rightarrow> hret (True, v3))
      (\<lambda>r. cache_entries (Some (cc_reload p w2)) r M))"
    by (rule triple_conseq [OF h_cc_load [OF init]])
      (auto simp: cc_reload_def split: option.splits intro!: triple_ret cache_entriesI(1))
  show "triple L N1 (case zp_cc_incremental_update nam p (vec_of v) w of
          (None, w2) \<Rightarrow> hbind (zp_cc_vec_free v1) (\<lambda>v2. hret (False, v2))
        | (Some _, w2) \<Rightarrow>
            hbind (zp_cc_vec_free v1) (\<lambda>v2.
              hbind (h_cc_load_cache p w2 zp_cc_vec_init) (\<lambda>(ok, v3). hret (True, v3))))
     (\<lambda>r. cache_entries (case zp_cc_incremental_update nam p u w of
        (None, w2) \<Rightarrow> None | (Some _, w2) \<Rightarrow> Some (cc_reload p w2)) r M)"
    using load by (cases r)
      (auto simp: u r intro!: triple_bind h_cc_free [OF v1] triple_ret cache_entriesI)
qed

lemma h_have_cache:
  "triple L M (h_cc_have_cache nam p w) (\<lambda>r. cache_entries (fst (cc_have_cache nam p w)) r M)"
  unfolding h_cc_have_cache_def
proof (rule triple_bind, rule triple_conseq [OF h_cc_load])
  show "vec_owned 48 cc_strings zp_cc_vec_init vec_init M M" by (simp add: zp_cc_vec_init_def)
  let ?load = "zp_cc_load_cache p w vec_init"
  fix x N
  assume a: "(case x of (ok, v') \<Rightarrow> \<lambda>N'. (ok \<longleftrightarrow> ?load \<noteq> None) \<and>
    vec_owned 48 cc_strings v' (case ?load of None \<Rightarrow> vec_init | Some u' \<Rightarrow> u') M N') N"
  obtain ok v where x: "x = (ok, v)" by fastforce
  obtain bad w1 where val: "zp_cc_validate_cache (w_euid w) (vec_items (vec_of v)) w = (bad, w1)" by fastforce
  have ref: "vec_owned 48 cc_strings v u M N \<Longrightarrow> triple L N (h_cc_refresh nam p w1 v)
     (\<lambda>r. cache_entries (fst (case zp_cc_incremental_update nam p u w1 of
        (None, w2) \<Rightarrow> (None, w2) | (Some _, w2) \<Rightarrow> (Some (cc_reload p w2), w2))) r M)" for u
    using h_cc_refresh_ok [of v u M N L nam p w1]
    by (cases "zp_cc_incremental_update nam p u w1"; cases "fst (zp_cc_incremental_update nam p u w1)") auto
  have "vec_owned 48 cc_strings v u M N \<Longrightarrow> vec_of v = u" for u by (simp add: vec_owned_def)
  then show "triple L N (case x of (loaded, v) \<Rightarrow>
       if \<not> loaded then hret (False, v)
       else case zp_cc_validate_cache (w_euid w) (vec_items (vec_of v)) w of
              (False, w1) \<Rightarrow> hret (True, v)
            | (True, w1) \<Rightarrow> h_cc_refresh nam p w1 v)
     (\<lambda>r. cache_entries (fst (cc_have_cache nam p w)) r M)"
    using a ref val unfolding x prod.case
    by (cases ?load; cases bad) (auto simp: cc_have_cache_def dest!: owned_init intro!: triple_ret cache_entriesI)
qed

lemma h_cc_done_ok:
  assumes "vec_owned 48 cc_strings v u (add_mset (p, length cp + 1) M) N" "0 < p" "Q ret M"
  shows "triple L N (h_cc_done (p, cp) v ret) Q"
  unfolding h_cc_done_def fst_conv snd_conv
  using assms by (intro triple_seq h_cc_free [OF assms(1)] triple_zsfree triple_ret) auto

lemma h_cc_rebuild_ok:
  assumes "N = add_mset (p, length cp + 1) M" "0 < p"
  shows "triple L N (h_cc_rebuild nam (p, cp) listing w hvec_init) (\<lambda>r M'. M' = M \<and>
    r = (if fst (zp_cc_rebuild nam cp (zp_cc_collect_dirs w vec_init) w) = None then 1 else 0))"
  unfolding h_cc_rebuild_def snd_conv
proof (rule triple_bind, rule triple_conseq [OF h_cc_collect [where u = vec_init and M = N]])
  show "vec_owned 48 cc_strings zp_cc_vec_init vec_init N N" by (simp add: zp_cc_vec_init_def)
  fix targets N1
  assume t: "vec_owned 48 cc_strings targets (zp_cc_collect_dirs w vec_init) N N1"
  then have v: "vec_of targets = zp_cc_collect_dirs w vec_init" by (simp add: vec_owned_def)
  obtain n w1 where n: "zp_cc_rebuild nam cp (zp_cc_collect_dirs w vec_init) w = (n, w1)" by fastforce
  let ?Q = "\<lambda>r M'. M' = M \<and> r = (if n = None then 1 else 0 :: int)"
  have fin: "triple L N2 (h_cc_done (p, cp) es ret) ?Q"
    if "vec_owned 48 cc_strings es u N N2" "ret = (if n = None then 1 else 0)" for es u N2 ret
    using that assms by (intro h_cc_done_ok) auto
  have list: "triple L N (if listing then h_cc_load_cache cp w1 hvec_init else hret (False, hvec_init))
      (\<lambda>x M'. triple L M' (case x of (ok, es) \<Rightarrow> h_cc_done (p, cp) es 0) ?Q)" if "n \<noteq> None"
    using that assms
    by (auto intro!: triple_conseq [OF h_cc_load [of hvec_init vec_init N]] triple_ret h_cc_done_ok)
  have "triple L N1 (case zp_cc_rebuild nam cp (vec_of targets) w of
         (None, w1) \<Rightarrow> h_cc_done (p, cp) targets 1
       | (Some _, w1) \<Rightarrow>
           hseq (zp_cc_vec_free targets)
             (hbind (if listing then h_cc_load_cache cp w1 hvec_init else hret (False, hvec_init))
               (\<lambda>(ok, es). h_cc_done (p, cp) es 0))) ?Q"
    using fin [OF t] list by (cases n) (auto simp: v n intro!: triple_seq h_cc_free [OF t] triple_bind)
  then show "triple L N1 (case zp_cc_rebuild nam cp (vec_of targets) w of
         (None, w1) \<Rightarrow> h_cc_done (p, cp) targets 1
       | (Some _, w1) \<Rightarrow>
           hseq (zp_cc_vec_free targets)
             (hbind (if listing then h_cc_load_cache cp w1 hvec_init else hret (False, hvec_init))
               (\<lambda>(ok, es). h_cc_done (p, cp) es 0)))
     (\<lambda>r M'. M' = M \<and>
        r = (if fst (zp_cc_rebuild nam cp (zp_cc_collect_dirs w vec_init) w) = None then 1 else 0))"
    by (simp add: n)
qed

lemma h_cc_run_ok:
  assumes f: "zp_cc_cache_file_path nam w = (Some cp, w1)" "N0 = add_mset (p, length cp + 1) M" "0 < p"
  shows "triple L N0 (h_cc_run nam rebuild listing (p, cp) w1)
     (\<lambda>r N. r = fst (zp_compaudit_cache_core nam rebuild show_it json w) \<and> N = M)"
proof -
  let ?Q = "\<lambda>r N. r = fst (zp_compaudit_cache_core nam rebuild show_it json w) \<and> N = M"
  obtain m w2 where m: "(if rebuild then (False, w1) else cc_migrate cp w1) = (m, w2)" by fastforce
  define rb where "rb = (rebuild \<or> m \<or> writable_cache cp w2)"
  obtain hc w3 where hc: "(if rb then (None, w2) else cc_have_cache nam cp w2) = (hc, w3)" by fastforce
  have core: "fst (zp_compaudit_cache_core nam rebuild show_it json w) =
      (if hc \<noteq> None \<or> fst (zp_cc_rebuild nam cp (zp_cc_collect_dirs w3 vec_init) w3) \<noteq> None then 0 else 1)"
    unfolding zp_compaudit_cache_core_def f(1) prod.case option.case Let_def m rb_def [symmetric] hc
    by (simp split: option.splits prod.splits)
  have w3: "(if rb then w2 else snd (cc_have_cache nam cp w2)) = w3" using hc by (auto split: if_splits)
  have rest: "triple L N (if have_cache then h_cc_done (p, cp) entries 0
      else h_cc_rebuild nam (p, cp) listing w3 entries) ?Q"
    if c: "cache_entries hc (have_cache, entries) N0 N" for have_cache entries N
  proof (cases hc)
    case None
    then have "\<not> have_cache" "entries = hvec_init" "N = N0" using c by (auto simp: cache_entries_def)
    then show ?thesis
      using h_cc_rebuild_ok [OF f(2,3), of L nam listing w3] None
      by (auto simp: core elim!: triple_conseq)
  next
    case (Some es)
    then show ?thesis
      using c f by (auto simp: cache_entries_def core intro!: h_cc_done_ok)
  qed
  have "triple L N0 (if rb then hret (False, zp_cc_vec_init) else h_cc_have_cache nam cp w2)
      (\<lambda>x N. triple L N (case x of (have_cache, entries) \<Rightarrow>
         if have_cache then h_cc_done (p, cp) entries 0
         else h_cc_rebuild nam (p, cp) listing w3 entries) ?Q)"
  proof (cases rb)
    case True
    then have "cache_entries hc (False, zp_cc_vec_init) N0 N0"
      using hc by (auto simp: zp_cc_vec_init_def intro: cache_entriesI(2))
    from rest [OF this] show ?thesis using True by (simp add: triple_ret)
  next
    case False
    then have "cache_entries hc x N0 N \<Longrightarrow> triple L N (case x of (have_cache, entries) \<Rightarrow>
         if have_cache then h_cc_done (p, cp) entries 0
         else h_cc_rebuild nam (p, cp) listing w3 entries) ?Q" for x N
      using rest by (cases x) simp
    moreover have "hc = fst (cc_have_cache nam cp w2)" using hc False by simp
    ultimately have "triple L N0 (h_cc_have_cache nam cp w2) (\<lambda>x N. triple L N (case x of (have_cache, entries) \<Rightarrow>
         if have_cache then h_cc_done (p, cp) entries 0
         else h_cc_rebuild nam (p, cp) listing w3 entries) ?Q)"
      by (intro triple_conseq [OF h_have_cache]) simp
    with False show ?thesis by simp
  qed
  from triple_bind [OF this] have "triple L N0 (if rebuild then hret () else h_cc_migrate cp w1) (\<lambda>_ N. triple L N
      (hbind (if rb then hret (False, zp_cc_vec_init) else h_cc_have_cache nam cp w2)
        (\<lambda>(have_cache, entries). if have_cache then h_cc_done (p, cp) entries 0
           else h_cc_rebuild nam (p, cp) listing w3 entries)) ?Q)"
    by (cases rebuild) (simp_all only: if_True if_False triple_ret h_cc_migrate_ok)
  then show ?thesis
    unfolding h_cc_run_def Let_def m prod.case snd_conv rb_def [symmetric] w3 by (rule triple_seq)
qed

lemma h_compaudit_balanced:
  "triple L M (h_compaudit_cache nam rebuild show_it json w)
     (\<lambda>r M'. r = fst (zp_compaudit_cache_core nam rebuild show_it json w) \<and> M' = M)"
  unfolding h_compaudit_cache_def
proof (rule triple_bind, rule triple_conseq [OF h_cc_path [of _ _ nam]])
  fix r M'
  assume o: "owns r (fst (zp_cc_cache_file_path nam w)) M M'"
  let ?run = "\<lambda>path. h_cc_run nam rebuild (show_it \<or> json) path (snd (zp_cc_cache_file_path nam w))"
  obtain c w1 where c: "zp_cc_cache_file_path nam w = (c, w1)" by fastforce
  show "triple L M' (case r of None \<Rightarrow> hret 1 | Some path \<Rightarrow> ?run path)
      (\<lambda>r M'. r = fst (zp_compaudit_cache_core nam rebuild show_it json w) \<and> M' = M)"
  proof (cases r)
    case None
    then have "fst (zp_compaudit_cache_core nam rebuild show_it json w) = 1"
      using o c by (simp add: zp_compaudit_cache_core_def)
    then show ?thesis using None o by (simp add: triple_ret)
  next
    case (Some path)
    then show ?thesis using o c by (cases path) (auto intro: h_cc_run_ok)
  qed
qed

section \<open>Properties\<close>

lemma rehash_view_core:
  "rehash_view nam w = None \<longleftrightarrow> fst (zp_rh_file nam w) = None"
  "rehash_view nam w = None \<Longrightarrow> fst (zp_rehash_diff_core nam w) = 1"
  by (auto simp: rehash_view_def zp_rehash_diff_core_def split: prod.splits option.splits)

text \<open>
  C17: \<open>rehash-diff\<close> never releases a block twice or with a wrong size, and whatever of its memory is
  refused, when it returns exactly the blocks are live that were live before: the path, both vectors
  and every copied string are released on every path.  What it loaded and collected is what the
  model of the command compares.
\<close>

theorem rehash_memory_balanced:
  assumes "heap_ok h"
  shows "\<exists>h'. h_rehash_diff nam w h = Some (rehash_view nam w, h') \<and> hp_live h' = hp_live h \<and> heap_ok h'"
  by (rule balanced [OF h_rehash_diff_balanced assms])

lemma rh_world_view:
  "rehash_view ''zpmod'' rh_world = Some (''/h/.cache/zpmod/rehash_path_v1.snapshot'', False, [],
     [rh_new ''/bin'', rh_new ''/opt''])"
  by code_simp

theorem rehash_memory_balanced_witness:
  "\<exists>h'. h_rehash_diff ''zpmod'' rh_world heap0 =
     Some (Some (''/h/.cache/zpmod/rehash_path_v1.snapshot'', False, [], [rh_new ''/bin'', rh_new ''/opt'']), h') \<and>
     hp_live h' = Map.empty"
  using rehash_memory_balanced [OF heap_ok_heap0, of "''zpmod''" rh_world]
  by (auto simp: rh_world_view heap0_def)

text \<open>
  C16: \<open>compaudit-cache\<close> releases on every path what it has taken, each block once and with its own
  size: the paths of both cache files, the entries that were loaded, refreshed and loaded again,
  the targets of a rebuild, and the field of every line that is given up.  Its answer is that of the
  model of the command.
\<close>

theorem compaudit_memory_balanced:
  assumes "heap_ok h"
  shows "\<exists>h'. h_compaudit_cache nam rebuild show_it json w h =
      Some (fst (zp_compaudit_cache_core nam rebuild show_it json w), h') \<and>
    hp_live h' = hp_live h \<and> heap_ok h'"
  by (rule balanced [OF h_compaudit_balanced assms])

theorem compaudit_memory_balanced_witness:
  "\<exists>h'. h_compaudit_cache ''zpmod'' False False True rh_world heap0 = Some (0, h') \<and> hp_live h' = Map.empty"
proof -
  have "fst (zp_compaudit_cache_core ''zpmod'' False False True rh_world) = 0" by code_simp
  with compaudit_memory_balanced [OF heap_ok_heap0, of "''zpmod''" False False True rh_world]
  show ?thesis by (auto simp: heap0_def)
qed

end
