(* ===== verification/Zp_Bundle_Memory.thy ===== *)
theory Zp_Bundle_Memory
  imports Zp_Heap Zp_Bundle
begin

text \<open>
  The memory and the directory streams of \<open>bundle-build\<close> (\<open>src/core/bundle_build.c\<close>): the two
  copies of the arguments, the collected entries with their two strings each, and one open stream
  for each level of the recursion.  A stream is a block of size 0, taken by \<open>opendir\<close> and
  released by \<open>closedir\<close>.
\<close>

definition bb_strings :: "bb_entry \<Rightarrow> string list" where
  "bb_strings e = [bb_rel e, bb_abs e]"

definition bb_vec_free :: "bb_entry hvec \<Rightarrow> bb_entry hvec hprog" where
  "bb_vec_free = h_vec_free 32 bb_strings"

definition h_opendir :: "nat hprog" where "h_opendir = h_take 0"
definition h_closedir :: "nat \<Rightarrow> unit hprog" where "h_closedir d = h_zfree d 0"

text \<open>The result: the \<open>errno\<close> of a failure, and the entries so far.\<close>

definition bb_fail :: "nat \<Rightarrow> bb_entry hvec \<Rightarrow> nat \<Rightarrow> (nat option \<times> bb_entry hvec) hprog" where
  "bb_fail d v e = hseq (h_closedir d) (hret (Some e, v))"

fun h_bb_scan ::
    "(string \<Rightarrow> bb_entry hvec \<Rightarrow> (nat option \<times> bb_entry hvec) hprog) \<Rightarrow> nat \<Rightarrow> 'w world_scheme \<Rightarrow> string \<Rightarrow>
     string \<Rightarrow> string \<Rightarrow> nat \<Rightarrow> string list \<Rightarrow> bb_entry hvec \<Rightarrow> (nat option \<times> bb_entry hvec) hprog" where
  "h_bb_scan rec d w root output sub e_end [] v =
     (if e_end = 0 then hseq (h_closedir d) (hret (None, v)) else bb_fail d v e_end)"
| "h_bb_scan rec d w root output sub e_end (name # names) v =
     (if (case name of c # _ \<Rightarrow> c = CHR ''.'' | [] \<Rightarrow> False)
      then h_bb_scan rec d w root output sub e_end names v
      else
        let rel = bb_join sub name; abs = root @ slash # rel
        in if PATH_MAX \<le> length rel \<or> newline \<in> set rel \<or> creturn \<in> set rel then bb_fail d v EINVAL
           else if PATH_MAX \<le> length abs then bb_fail d v ENAMETOOLONG
           else if abs = output then h_bb_scan rec d w root output sub e_end names v
           else case w_lstat w abs of
                  Inl e \<Rightarrow> bb_fail d v e
                | Inr st \<Rightarrow>
                    if S_ISDIR (st_mode st) then
                      hbind (rec rel v) (\<lambda>(err, v').
                        case err of
                          Some e \<Rightarrow> bb_fail d v' e
                        | None \<Rightarrow> h_bb_scan rec d w root output sub e_end names v')
                    else if \<not> S_ISREG (st_mode st) then h_bb_scan rec d w root output sub e_end names v
                    else if \<not> has_ext name then h_bb_scan rec d w root output sub e_end names v
                    else
                      hbind (h_put (h_zalloc w) 32 32 bb_strings w v
                               \<lparr>bb_rel = rel, bb_abs = abs, bb_size = int (st_size st), bb_mtime = st_mtime st\<rparr>)
                        (\<lambda>(ok, v'). if ok then h_bb_scan rec d w root output sub e_end names v'
                                   else bb_fail d v' ENOMEM))"

primrec h_bb_collect ::
    "nat \<Rightarrow> 'w world_scheme \<Rightarrow> string \<Rightarrow> string \<Rightarrow> string \<Rightarrow> bb_entry hvec \<Rightarrow>
     (nat option \<times> bb_entry hvec) hprog" where
  "h_bb_collect 0 w root output sub v = hret (Some ELOOP, v)"
| "h_bb_collect (Suc left) w root output sub v =
     (let path = (if sub \<noteq> [] then root @ slash # sub else root)
      in if PATH_MAX \<le> length path then hret (Some ENAMETOOLONG, v)
         else case w_dir w path of
                Inl e \<Rightarrow> hret (Some e, v)
              | Inr (names, e_end) \<Rightarrow>
                  hbind h_opendir (\<lambda>d.
                    h_bb_scan (h_bb_collect left w root output) d w root output sub e_end names v))"

text \<open>\<open>qsort\<close> moves the entries with their strings.\<close>

definition h_bb_sort :: "bb_entry hvec \<Rightarrow> bb_entry hvec" where
  "h_bb_sort v = v\<lparr>hv_elems := qsort (\<lambda>a b. bb_cmp (fst a) (fst b)) (hv_elems v)\<rparr>"

text \<open>The end of the command; the sizes of the copies were taken before they were unmetafied.\<close>

definition h_bundle_done ::
    "nat \<times> nat \<Rightarrow> nat \<times> nat \<Rightarrow> bb_entry hvec \<Rightarrow> nat + bb_entry list \<Rightarrow> (nat + bb_entry list) hprog" where
  "h_bundle_done fr out v r =
     hseq (bb_vec_free v) (hseq (h_zfree (fst fr) (snd fr)) (hseq (h_zfree (fst out) (snd out)) (hret r)))"

text \<open>The result is the error met before publishing, or the sorted files.\<close>

definition h_bundle_files ::
    "(string \<Rightarrow> string) \<Rightarrow> string \<Rightarrow> string \<Rightarrow> nat \<times> nat \<Rightarrow> nat \<times> nat \<Rightarrow> 'w world_scheme \<Rightarrow>
     (nat + bb_entry list) hprog" where
  "h_bundle_files unmetafy from_dir out_path fr out w =
     (case w_realpath w (cstr (unmetafy from_dir)) of
        Inl e \<Rightarrow> h_bundle_done fr out hvec_init (Inl e)
      | Inr root \<Rightarrow>
          (case resolve_output w (cstr (unmetafy out_path)) of
             Inl e \<Rightarrow> h_bundle_done fr out hvec_init (Inl e)
           | Inr output \<Rightarrow>
               if (case w_lstat w output of
                     Inr existing \<Rightarrow> \<not> S_ISREG (st_mode existing)
                   | Inl e \<Rightarrow> e \<noteq> ENOENT)
               then h_bundle_done fr out hvec_init (Inl EINVAL)
               else
                 hbind (h_bb_collect bb_depth w root output [] hvec_init) (\<lambda>(err, v).
                   case err of
                     Some e \<Rightarrow> h_bundle_done fr out v (Inl e)
                   | None \<Rightarrow>
                       let v' = h_bb_sort v
                       in h_bundle_done fr out v' (Inr (vec_items (vec_of v'))))))"

text \<open>The whole command, for accepted arguments.\<close>

definition h_bundle_build ::
    "(string \<Rightarrow> string) \<Rightarrow> string \<Rightarrow> string \<Rightarrow> 'w world_scheme \<Rightarrow> (nat + bb_entry list) hprog" where
  "h_bundle_build unmetafy from_dir out_path w =
     hbind (h_ztrdup from_dir) (\<lambda>p. hbind (h_ztrdup out_path) (\<lambda>q.
       h_bundle_files unmetafy from_dir out_path (p, length from_dir + 1) (q, length out_path + 1) w))"

text \<open>What the command sees of the model.\<close>

definition bundle_view ::
    "(string \<Rightarrow> string) \<Rightarrow> string \<Rightarrow> string \<Rightarrow> 'w world_scheme \<Rightarrow> nat + bb_entry list" where
  "bundle_view unmetafy from_dir out_path w =
     (case w_realpath w (cstr (unmetafy from_dir)) of
        Inl e \<Rightarrow> Inl e
      | Inr root \<Rightarrow>
          (case resolve_output w (cstr (unmetafy out_path)) of
             Inl e \<Rightarrow> Inl e
           | Inr output \<Rightarrow>
               if (case w_lstat w output of
                     Inr existing \<Rightarrow> \<not> S_ISREG (st_mode existing)
                   | Inl e \<Rightarrow> e \<noteq> ENOENT)
               then Inl EINVAL
               else
                 (case bb_collect bb_depth w root output [] bb_vec_init of
                    Inl e \<Rightarrow> Inl e
                  | Inr v \<Rightarrow> Inr (qsort bb_cmp (vec_items v)))))"

section \<open>Balance\<close>

definition bb_owned ::
    "nat + bb_entry vec \<Rightarrow> nat option \<times> bb_entry hvec \<Rightarrow> (nat \<times> nat) multiset \<Rightarrow> (nat \<times> nat) multiset \<Rightarrow> bool" where
  "bb_owned res r M N \<longleftrightarrow>
     (\<exists>u. vec_owned 32 bb_strings (snd r) u M N \<and>
        (case res of Inl e \<Rightarrow> fst r = Some e | Inr u' \<Rightarrow> fst r = None \<and> u = u'))"

lemma h_close:
  assumes "vec_owned 32 bb_strings v u (add_mset (d, 0) M) N" "0 < d"
    and "\<And>N. vec_owned 32 bb_strings v u M N \<Longrightarrow> Q x N"
  shows "triple L N (hseq (h_closedir d) (hret x)) Q"
proof -
  have N: "N = add_mset (d, 0) (hvec_blocks 32 bb_strings v + M)" and v: "hvec_ok bb_strings v" "vec_of v = u"
    using assms(1) by (auto simp: vec_owned_def)
  have "Q x (hvec_blocks 32 bb_strings v + M)" using assms(3) v by (simp add: vec_owned_def)
  then show ?thesis
    unfolding N h_closedir_def by (intro triple_seq triple_zfree triple_ret assms(2))
qed

lemma h_fail:
  assumes "vec_owned 32 bb_strings v u (add_mset (d, 0) M) N" "0 < d"
  shows "triple L N (bb_fail d v e) (\<lambda>r. bb_owned (Inl e) r M)"
  unfolding bb_fail_def
  by (rule h_close [OF assms]) (auto simp: bb_owned_def)

lemma h_bb_put:
  assumes "vec_owned 32 bb_strings v u M N"
  shows "triple L N (h_put (h_zalloc w) 32 32 bb_strings w v e) (\<lambda>(ok, v') N'.
    \<exists>u'. vec_owned 32 bb_strings v' u' M N' \<and>
      (if w_alloc w (length (bb_rel e) + 1) \<and> w_alloc w (length (bb_abs e) + 1) then
         (case bb_vec_push w u e of None \<Rightarrow> \<not> ok | Some u'' \<Rightarrow> ok \<and> u' = u'')
       else \<not> ok))"
proof -
  have v: "hvec_ok bb_strings v" "vec_of v = u" "N = hvec_blocks 32 bb_strings v + M"
    using assms by (auto simp: vec_owned_def)
  show ?thesis
    unfolding v(3)
    by (rule zalloc.triple_put)
      (use v in \<open>auto simp: vec_owned_def bb_vec_push_def grants_def bb_strings_def\<close>)
qed

lemma h_scan:
  assumes "\<And>rel v u N. vec_owned 32 bb_strings v u (add_mset (d, 0) M) N \<Longrightarrow>
      triple L N (hrec rel v) (\<lambda>r. bb_owned (frec rel u) r (add_mset (d, 0) M))"
    and "vec_owned 32 bb_strings v u (add_mset (d, 0) M) N" "0 < d"
  shows "triple L N (h_bb_scan hrec d w root output sub e_end names v)
    (\<lambda>r. bb_owned (bb_scan frec w root output sub e_end names u) r M)"
  using assms(2)
proof (induction names arbitrary: v u N)
  case Nil
  show ?case
  proof (cases "e_end = 0")
    case True
    have "triple L N (hseq (h_closedir d) (hret (None, v))) (\<lambda>r. bb_owned (Inr u) r M)"
      by (rule h_close [OF Nil assms(3)]) (auto simp: bb_owned_def)
    with True show ?thesis by simp
  qed (simp add: h_fail [OF Nil assms(3)])
next
  case (Cons name names)
  note v = Cons.prems and d = assms(3)
  let ?rel = "bb_join sub name"
  let ?abs = "root @ slash # ?rel"
  note more = Cons.IH [OF v] and fail = h_fail [OF v d]
  have dir: "triple L N (hbind (hrec ?rel v) (\<lambda>(err, v').
        case err of
          Some e \<Rightarrow> bb_fail d v' e
        | None \<Rightarrow> h_bb_scan hrec d w root output sub e_end names v'))
     (\<lambda>r. bb_owned (case frec ?rel u of
        Inl e \<Rightarrow> Inl e | Inr out' \<Rightarrow> bb_scan frec w root output sub e_end names out') r M)"
    by (rule triple_bind, rule triple_conseq [OF assms(1) [OF v]])
      (auto simp: bb_owned_def [of "frec ?rel u"] split: sum.splits intro!: Cons.IH h_fail d)
  have put: "triple L N (hbind (h_put (h_zalloc w) 32 32 bb_strings w v e)
        (\<lambda>(ok, v'). if ok then h_bb_scan hrec d w root output sub e_end names v' else bb_fail d v' ENOMEM))
     (\<lambda>r. bb_owned (if \<not> w_alloc w (length (bb_rel e) + 1) \<or> \<not> w_alloc w (length (bb_abs e) + 1) then Inl ENOMEM
        else case bb_vec_push w u e of None \<Rightarrow> Inl ENOMEM
             | Some out' \<Rightarrow> bb_scan frec w root output sub e_end names out') r M)" for e
    by (rule triple_bind, rule triple_conseq [OF h_bb_put [OF v]])
      (auto split: option.splits if_splits intro!: Cons.IH h_fail d)
  show ?case
    using more fail dir put [of "\<lparr>bb_rel = ?rel, bb_abs = ?abs, bb_size = int (st_size st), bb_mtime = st_mtime st\<rparr>" for st]
    unfolding h_bb_scan.simps bb_scan.simps Let_def
    by (auto split: sum.splits)
qed

lemma h_collect:
  "vec_owned 32 bb_strings v u M N \<Longrightarrow>
   triple L N (h_bb_collect left w root output sub v) (\<lambda>r. bb_owned (bb_collect left w root output sub u) r M)"
proof (induction left arbitrary: sub v u M N)
  case 0
  then show ?case by (auto simp: bb_owned_def intro!: triple_ret)
next
  case (Suc left)
  have err: "triple L N (hret (Some e, v)) (\<lambda>r. bb_owned (Inl e) r M)" for e
    using Suc.prems by (auto simp: bb_owned_def intro!: triple_ret)
  have scan: "triple L (add_mset (d, 0) N)
      (h_bb_scan (h_bb_collect left w root output) d w root output sub e_end names v)
      (\<lambda>r. bb_owned (bb_scan (bb_collect left w root output) w root output sub e_end names u) r M)"
    if "0 < d" for d e_end names
    using Suc.prems that by (intro h_scan Suc.IH) (simp_all add: vec_owned_def)
  then show ?case
    using err by (auto simp: Let_def h_opendir_def split: sum.splits intro!: triple_bind triple_take)
qed

lemma h_bundle_done_ok:
  assumes "hvec_ok bb_strings v" "0 < p" "0 < q" "Q r M"
  shows "triple L (hvec_blocks 32 bb_strings v + add_mset (p, m) (add_mset (q, n) M))
    (h_bundle_done (p, m) (q, n) v r) Q"
  unfolding h_bundle_done_def bb_vec_free_def fst_conv snd_conv
  using assms by (intro triple_seq triple_vec_free triple_zfree triple_ret) auto

lemma sort_blocks:
  "hvec_blocks esz strs (h_bb_sort v) = hvec_blocks esz strs v"
  "hvec_ok strs v \<Longrightarrow> hvec_ok strs (h_bb_sort v)"
  "vec_items (vec_of (h_bb_sort v)) = qsort bb_cmp (vec_items (vec_of v))"
proof -
  have m: "mset (hv_elems (h_bb_sort v)) = mset (hv_elems v)" by (simp add: h_bb_sort_def qsort_mset)
  then have s: "set (hv_elems (h_bb_sort v)) = set (hv_elems v)" "length (hv_elems (h_bb_sort v)) = length (hv_elems v)"
    by (metis set_mset_mset, metis size_mset)
  have "(\<Sum>e \<leftarrow> hv_elems (h_bb_sort v). elem_blocks strs e) = (\<Sum>e \<leftarrow> hv_elems v. elem_blocks strs e)"
    using m by (simp add: sum_mset_sum_list [symmetric])
  then show "hvec_blocks esz strs (h_bb_sort v) = hvec_blocks esz strs v"
    by (simp add: hvec_blocks_def h_bb_sort_def)
  show "hvec_ok strs v \<Longrightarrow> hvec_ok strs (h_bb_sort v)"
    using s by (simp add: hvec_ok_def) (simp add: h_bb_sort_def)
  show "vec_items (vec_of (h_bb_sort v)) = qsort bb_cmp (vec_items (vec_of v))"
    by (simp add: vec_of_def h_bb_sort_def qsort_map)
qed

lemma h_bundle_files_ok:
  assumes "0 < p" "0 < q" "N = add_mset (p, m) (add_mset (q, n) M)"
  shows "triple L N (h_bundle_files unmetafy fd op (p, m) (q, n) w)
    (\<lambda>r M'. r = bundle_view unmetafy fd op w \<and> M' = M)"
proof -
  let ?Q = "\<lambda>r M'. r = bundle_view unmetafy fd op w \<and> M' = M"
  have fin: "triple L (hvec_blocks 32 bb_strings v + N) (h_bundle_done (p, m) (q, n) v r) ?Q"
    if "hvec_ok bb_strings v" "r = bundle_view unmetafy fd op w" for v r
    unfolding assms(3) using that assms(1,2) by (intro h_bundle_done_ok) auto
  have early: "triple L N (h_bundle_done (p, m) (q, n) hvec_init r) ?Q" if "r = bundle_view unmetafy fd op w" for r
    using fin [OF _ that, of hvec_init] by simp
  have coll: "triple L N (hbind (h_bb_collect bb_depth w root target [] hvec_init) (\<lambda>(err, v).
        case err of
          Some e \<Rightarrow> h_bundle_done (p, m) (q, n) v (Inl e)
        | None \<Rightarrow>
            let v' = h_bb_sort v
            in h_bundle_done (p, m) (q, n) v' (Inr (vec_items (vec_of v'))))) ?Q"
    if view: "bundle_view unmetafy fd op w = (case bb_collect bb_depth w root target [] bb_vec_init of
        Inl e \<Rightarrow> Inl e | Inr v \<Rightarrow> Inr (qsort bb_cmp (vec_items v)))" for root target
  proof (rule triple_bind, rule triple_conseq [OF h_collect [where u = bb_vec_init]])
    show "vec_owned 32 bb_strings hvec_init bb_vec_init N N" by (simp add: bb_vec_init_def)
    fix x N'
    assume a: "bb_owned (bb_collect bb_depth w root target [] bb_vec_init) x N N'"
    obtain err v where x: "x = (err, v)" by fastforce
    have v: "hvec_ok bb_strings v" "N' = hvec_blocks 32 bb_strings v + N"
      using a by (auto simp: x bb_owned_def vec_owned_def)
    have "triple L N' (h_bundle_done (p, m) (q, n) v (Inl e)) ?Q" if "err = Some e" for e
      unfolding v(2) using a that
      by (intro fin v) (auto simp: x bb_owned_def view split: sum.splits)
    moreover have "triple L N' (h_bundle_done (p, m) (q, n) (h_bb_sort v) (Inr (vec_items (vec_of (h_bb_sort v))))) ?Q"
      if "err = None"
      using fin [OF sort_blocks(2) [OF v(1)]] a that unfolding v(2) sort_blocks(1)
      by (auto simp: x bb_owned_def view vec_owned_def sort_blocks(3) split: sum.splits)
    ultimately show "triple L N' (case x of (err, v) \<Rightarrow>
        case err of
          Some e \<Rightarrow> h_bundle_done (p, m) (q, n) v (Inl e)
        | None \<Rightarrow>
            let v' = h_bb_sort v
            in h_bundle_done (p, m) (q, n) v' (Inr (vec_items (vec_of v')))) ?Q"
      by (cases err) (simp_all add: x Let_def)
  qed
  show ?thesis
    using early coll unfolding h_bundle_files_def
    by (auto simp: bundle_view_def split: sum.splits if_splits)
qed

lemma h_bundle_balanced:
  "triple L M (h_bundle_build unmetafy fd op w) (\<lambda>r M'. r = bundle_view unmetafy fd op w \<and> M' = M)"
  unfolding h_bundle_build_def
  by (intro triple_bind triple_ztrdup h_bundle_files_ok) (simp_all add: add_mset_commute)

text \<open>The memory program agrees with the model of the command on what is published.\<close>

lemma bundle_view_run:
  "bundle_run unmetafy later nam fd op k w =
     (case bundle_view unmetafy fd op w of
        Inl e \<Rightarrow> (Some e, w)
      | Inr files \<Rightarrow>
          (case resolve_output w (cstr (unmetafy op)) of
             Inl e \<Rightarrow> (Some e, w)
           | Inr output \<Rightarrow> if bundle_fresh w output files (bb_header k) then (None, w)
                           else bundle_publish later nam output files k w))"
  by (auto simp: bundle_run_def bundle_view_def Let_def split: sum.splits if_splits)

section \<open>Property\<close>

text \<open>
  C15: \<open>bundle-build\<close> closes every directory it opened, at any depth and however the collection ends,
  and releases both copies of its arguments, the array and the two strings of each collected file,
  each once and with its own size: afterwards exactly the blocks of before are live.  The files it
  collected and sorted are those of the model of the command.
\<close>

theorem bundle_memory_balanced:
  assumes "heap_ok h"
  shows "\<exists>h'. h_bundle_build unmetafy from_dir out_path w h = Some (bundle_view unmetafy from_dir out_path w, h') \<and>
    hp_live h' = hp_live h \<and> heap_ok h'"
  by (rule balanced [OF h_bundle_balanced assms])

lemma world_scripts_view: "map_sum id (map bb_rel) (bundle_view id ''/s'' ''/o/z'' world_scripts) = Inr [''a.zsh'', ''b.zsh'']"
  by code_simp

theorem bundle_memory_balanced_witness:
  "\<exists>fs h'. h_bundle_build id ''/s'' ''/o/z'' world_scripts heap0 = Some (Inr fs, h') \<and>
     map bb_rel fs = [''a.zsh'', ''b.zsh''] \<and> hp_live h' = Map.empty"
proof -
  obtain fs where "bundle_view id ''/s'' ''/o/z'' world_scripts = Inr fs" "map bb_rel fs = [''a.zsh'', ''b.zsh'']"
    using world_scripts_view by (cases "bundle_view id ''/s'' ''/o/z'' world_scripts") auto
  with bundle_memory_balanced [OF heap_ok_heap0, of id "''/s''" "''/o/z''" world_scripts]
  show ?thesis by (auto simp: heap0_def)
qed

end
