(* ===== verification/Zp_Dump_Memory.thy ===== *)
theory Zp_Dump_Memory
  imports Zp_Heap Zp_Source
begin

text \<open>
  The memory of the search for a compiled script (\<open>src/core/source.c\<close>): the copy of the script's
  directory, the block and the file name kept for each mapping, and the two blocks of the program
  that is handed over.  What zsh supplies is a parameter: the sizes of its structures, its release
  of a block that is told a size, and its release of a program.
\<close>

section \<open>Programs and mappings on the heap\<close>

text \<open>A program: its own address, the block its pattern slots are in, and the size of that block.\<close>

record hprogram =
  hg_self :: nat
  hg_pats :: nat
  hg_size :: nat

record zsh_memory =
  zm_stack :: nat
  zm_eprog :: nat
  zm_funcdump :: nat
  zm_zfree :: "nat \<Rightarrow> nat \<Rightarrow> unit hprog"
  zm_freeeprog :: "hprogram \<Rightarrow> unit hprog"

text \<open>A call that does not return has no memory to speak of.\<close>

definition h_never :: "'a hprog" where
  "h_never h = None"

text \<open>The mapping is entered in the list and never leaves it.\<close>

definition h_load_dump_file :: "zsh_memory \<Rightarrow> string \<Rightarrow> bool \<Rightarrow> nat \<Rightarrow> shell \<Rightarrow> unit hprog" where
  "h_load_dump_file z dump other len sh =
     (let off = (if other then len - len mod page_size else 0);
          mlen = (if other then len + (len - off) else len)
      in case w_data sh dump of
           Inl _ \<Rightarrow> hret ()
         | Inr _ \<Rightarrow>
             if mlen = 0 \<or> \<not> sh_mmap_ok sh dump then hret ()
             else hseq (h_take (zm_funcdump z)) (hseq (h_ztrdup dump) (hret ())))"

definition h_mapped_prog :: "zsh_memory \<Rightarrow> u32 list \<Rightarrow> nat \<Rightarrow> hprogram option hprog" where
  "h_mapped_prog z d h =
     (if 2147483648 \<le> h_npats d h then h_never
      else hbind (h_take (zm_eprog z)) (\<lambda>prog. hbind (h_take (8 * h_npats d h)) (\<lambda>pp.
        hret (Some \<lparr>hg_self = prog, hg_pats = pp, hg_size = 8 * h_npats d h\<rparr>))))"

text \<open>The block for pattern slots and code is released with the length of the code alone when the
  file is too short.\<close>

definition h_real_prog :: "zsh_memory \<Rightarrow> string \<Rightarrow> u32 list \<Rightarrow> nat \<Rightarrow> hprogram option hprog" where
  "h_real_prog z dat d h =
     (let po = to_int (8 * int (h_npats d h));
          size = (int (h_len d h) + po) mod 4294967296;
          got = read_at dat (4 * h_start d h + (if fd_flag d FDF_OTHER then FDOTHER d else 0)) (h_len d h)
      in if po < 0 \<or> size < po + int (length got) then h_never
         else hbind (h_take (nat size)) (\<lambda>b.
           if int (length got) \<noteq> to_int (int (h_len d h)) then hseq (zm_zfree z b (h_len d h)) (hret None)
           else hbind (h_take (zm_eprog z)) (\<lambda>prog.
             hret (Some \<lparr>hg_self = prog, hg_pats = b, hg_size = nat size\<rparr>))))"

definition h_check_mapped :: "zsh_memory \<Rightarrow> string \<Rightarrow> funcdump \<Rightarrow> hprogram option hprog" where
  "h_check_mapped z name f =
     (case custom_dump_find_func (fd_map f) name of
        Some (ZOk h) \<Rightarrow> h_mapped_prog z (fd_map f) h
      | Some ZNull \<Rightarrow> hret None
      | _ \<Rightarrow> h_never)"

text \<open>\<open>test_only\<close> is 0 in every call.\<close>

definition h_check_unmapped ::
    "zsh_memory \<Rightarrow> string \<Rightarrow> stat \<Rightarrow> string \<Rightarrow> shell \<Rightarrow> hprogram option hprog" where
  "h_check_unmapped z file sbuf name sh =
     (case custom_load_dump_header [] file False sh of
        (ZFault, _) \<Rightarrow> h_never
      | (ZNull, _) \<Rightarrow> hret None
      | (ZOk d, sh1) \<Rightarrow>
          (case custom_dump_find_func d name of
             Some (ZOk h) \<Rightarrow>
               if fd_flag d FDF_MAP then
                 hseq (h_load_dump_file z file (fd_flag d FDF_OTHER) (FDOTHER d) sh1)
                   (case find_dump sbuf (sh_dumps (custom_load_dump_file file sbuf (fd_flag d FDF_OTHER) (FDOTHER d) sh1)) of
                      None \<Rightarrow> hret None
                    | Some f \<Rightarrow> h_check_mapped z name f)
               else (case w_data sh1 file of
                       Inl _ \<Rightarrow> hret None
                     | Inr dat \<Rightarrow> h_real_prog z dat d h)
           | Some ZNull \<Rightarrow> hret None
           | _ \<Rightarrow> h_never))"

definition h_check_dump_file ::
    "zsh_memory \<Rightarrow> (funcdump \<Rightarrow> stat option) \<Rightarrow> string \<Rightarrow> stat option \<Rightarrow> string \<Rightarrow> shell \<Rightarrow> hprogram option hprog" where
  "h_check_dump_file z fstat file sbuf name sh =
     (case (case sbuf of Some st \<Rightarrow> Some st | None \<Rightarrow> custom_zwcstat fstat file sh) of
        None \<Rightarrow> hret None
      | Some st \<Rightarrow>
          (case find_dump st (sh_dumps sh) of
             Some f \<Rightarrow> h_check_mapped z name f
           | None \<Rightarrow> h_check_unmapped z file st name sh))"

text \<open>The copy of the directory is released with its length, one less than its size.\<close>

definition h_try_source :: "zsh_memory \<Rightarrow> callbacks \<Rightarrow> string \<Rightarrow> shell \<Rightarrow> hprogram option hprog" where
  "h_try_source z cb file sh =
     (if has_suffix FD_EXT file then h_check_dump_file z (cb_fstat cb) file None (base_name file) sh
      else
        let wc = file @ FD_EXT; sh1 = compile_step cb file sh
        in hbind (h_ztrdup (dir_of file)) (\<lambda>file_dup.
             hseq (zm_zfree z file_dup (length (dir_of file)))
               (case w_stat sh1 wc of
                  Inl _ \<Rightarrow> hret None
                | Inr stc \<Rightarrow>
                    if (case w_stat sh file of Inl _ \<Rightarrow> True | Inr stn \<Rightarrow> st_mtime stc \<ge> st_mtime stn)
                    then h_check_dump_file z (cb_fstat cb) wc (Some stc) (base_name file) sh1
                    else hret None)))"

text \<open>\<open>if (prog) freeeprog (prog)\<close>\<close>

definition h_freeeprog :: "zsh_memory \<Rightarrow> hprogram option \<Rightarrow> unit hprog" where
  "h_freeeprog z g = (case g of None \<Rightarrow> hret () | Some p \<Rightarrow> zm_freeeprog z p)"

section \<open>What they own\<close>

definition prog_blocks :: "zsh_memory \<Rightarrow> hprogram \<Rightarrow> (nat \<times> nat) multiset" where
  "prog_blocks z g = {#(hg_self g, zm_eprog z), (hg_pats g, hg_size g)#}"

definition prog_ok :: "hprogram \<Rightarrow> bool" where
  "prog_ok g \<longleftrightarrow> 0 < hg_self g \<and> 0 < hg_pats g"

definition prog_owned :: "zsh_memory \<Rightarrow> hprogram option \<Rightarrow> (nat \<times> nat) multiset" where
  "prog_owned z g = (case g of None \<Rightarrow> {#} | Some p \<Rightarrow> prog_blocks z p)"

text \<open>The two blocks of each mapping, by its file name.\<close>

fun maps_owned :: "zsh_memory \<Rightarrow> string list \<Rightarrow> (nat \<times> nat) multiset \<Rightarrow> bool" where
  "maps_owned z [] D = (D = {#})"
| "maps_owned z (s # ss) D =
     (\<exists>p q D'. D = {#(p, zm_funcdump z), (q, length s + 1)#} + D' \<and> maps_owned z ss D')"

abbreviation mapped_files :: "shell \<Rightarrow> string list" where
  "mapped_files sh \<equiv> map fd_filename (sh_dumps sh)"

text \<open>What the proofs take of zsh: a release may be told any size, as the default allocator allows,
  and a program is released with exactly its two blocks.\<close>

definition zsh_releases :: "zsh_memory \<Rightarrow> bool" where
  "zsh_releases z \<longleftrightarrow> zm_zfree z = h_free \<and>
     (\<forall>L M g. prog_ok g \<longrightarrow> triple L (prog_blocks z g + M) (zm_freeeprog z g) (\<lambda>_ M'. M' = M))"

lemma triple_freeeprog:
  assumes "zsh_releases z" "\<forall>p. g = Some p \<longrightarrow> prog_ok p" "Q () M"
  shows "triple L (prog_owned z g + M) (h_freeeprog z g) Q"
proof (cases g)
  case (Some p)
  then have "triple L (prog_blocks z p + M) (zm_freeeprog z p) (\<lambda>_ M'. M' = M)"
    using assms(1,2) by (simp add: zsh_releases_def)
  then have "triple L (prog_blocks z p + M) (zm_freeeprog z p) Q"
    by (rule triple_conseq) (simp add: assms(3))
  with Some show ?thesis by (simp add: h_freeeprog_def prog_owned_def)
qed (simp add: assms(3) h_freeeprog_def prog_owned_def triple_ret)

section \<open>The search\<close>

text \<open>After a search that found \<open>r\<close> and left the shell \<open>sh'\<close>.\<close>

definition searched ::
    "zsh_memory \<Rightarrow> bool \<Rightarrow> shell \<Rightarrow> (nat \<times> nat) multiset \<Rightarrow> hprogram option \<Rightarrow> (nat \<times> nat) multiset \<Rightarrow> bool" where
  "searched z found sh' M g N \<longleftrightarrow>
     (g \<noteq> None \<longleftrightarrow> found) \<and> (\<forall>p. g = Some p \<longrightarrow> prog_ok p) \<and>
     (\<exists>D. maps_owned z (mapped_files sh') D \<and> N = prog_owned z g + (D + M))"

lemma searched_none: "maps_owned z (mapped_files sh) D \<Longrightarrow> searched z False sh M None (D + M)"
  by (auto simp: searched_def prog_owned_def)

lemma incrdumpcount_files [simp]: "map fd_filename (incrdumpcount st ds) = map fd_filename ds"
  by (induction ds) auto

lemma load_header_dumps: "sh_dumps (snd (custom_load_dump_header nam name err sh)) = sh_dumps sh"
  by (simp add: custom_load_dump_header_def Let_def zwarnnam_def split: sum.splits)

lemma h_load_dump_file_ok:
  assumes "maps_owned z (mapped_files sh) D"
    and Q: "\<And>D'. maps_owned z (mapped_files (custom_load_dump_file file st other len sh)) D' \<Longrightarrow> Q () (D' + M)"
  shows "triple L (D + M) (h_load_dump_file z file other len sh) Q"
proof -
  have new: "Q () (add_mset (q, Suc (length file)) (add_mset (p, zm_funcdump z) (D + M)))"
    if "sh_dumps (custom_load_dump_file file st other len sh) = f # sh_dumps sh" "fd_filename f = file" for p q f
  proof -
    have "maps_owned z (mapped_files (custom_load_dump_file file st other len sh))
        ({#(p, zm_funcdump z), (q, length file + 1)#} + D)"
      unfolding that(1) list.map maps_owned.simps that(2)
      by (intro exI [of _ p] exI [of _ q] exI [of _ D] conjI refl assms(1))
    from Q [OF this] show ?thesis by (simp add: add_mset_commute)
  qed
  show ?thesis
  proof (cases "sh_dumps (custom_load_dump_file file st other len sh) = sh_dumps sh")
    case True
    then have "Q () (D + M)" using Q assms(1) by simp
    with True show ?thesis
      by (auto simp: h_load_dump_file_def custom_load_dump_file_def Let_def intro!: triple_ret
          split: sum.splits if_splits)
  next
    case False
    then obtain f where f: "sh_dumps (custom_load_dump_file file st other len sh) = f # sh_dumps sh" "fd_filename f = file"
      by (auto simp: custom_load_dump_file_def Let_def split: sum.splits if_splits)
    have "h_load_dump_file z file other len sh = hseq (h_take (zm_funcdump z)) (hseq (h_ztrdup file) (hret ()))"
      using False by (auto simp: h_load_dump_file_def custom_load_dump_file_def Let_def split: sum.splits if_splits)
    then show ?thesis
      using new [OF f] by (auto intro!: triple_seq triple_take triple_ztrdup triple_ret)
  qed
qed

lemma h_mapped_prog_ok:
  assumes "mapped_prog d h = ZOk prog" "maps_owned z (mapped_files sh') D"
  shows "triple L (D + M) (h_mapped_prog z d h) (searched z True sh' M)"
  using assms
  by (auto simp: h_mapped_prog_def mapped_prog_def searched_def prog_owned_def prog_blocks_def prog_ok_def
      add_mset_commute intro!: triple_bind triple_take triple_ret split: if_splits)

lemma h_real_prog_ok:
  assumes z: "zsh_releases z" and r: "real_prog dat d h = r" "r \<noteq> ZFault" and D: "maps_owned z (mapped_files sh') D"
  shows "triple L (D + M) (h_real_prog z dat d h) (searched z (r \<noteq> ZNull) sh' M)"
proof -
  define po where "po = to_int (8 * int (h_npats d h))"
  define size where "size = (int (h_len d h) + po) mod 4294967296"
  define got where "got = read_at dat (4 * h_start d h + (if fd_flag d FDF_OTHER then FDOTHER d else 0)) (h_len d h)"
  note defs = po_def [symmetric] size_def [symmetric] got_def [symmetric]
  have ok: "\<not> (po < 0 \<or> size < po + int (length got))"
    and n: "r = ZNull \<longleftrightarrow> int (length got) \<noteq> to_int (int (h_len d h))"
    using r unfolding real_prog_def Let_def defs by (auto split: if_splits)
  have "triple L (add_mset (b, nat size) (D + M)) (hseq (zm_zfree z b (h_len d h)) (hret None)) (searched z False sh' M)"
    if "0 < b" for b
    using z that searched_none [OF D]
    by (auto simp: zsh_releases_def intro!: triple_seq triple_free triple_ret)
  moreover have "triple L (add_mset (b, nat size) (D + M)) (hbind (h_take (zm_eprog z)) (\<lambda>prog.
      hret (Some \<lparr>hg_self = prog, hg_pats = b, hg_size = nat size\<rparr>))) (searched z True sh' M)" if "0 < b" for b
    using that D
    by (auto simp: searched_def prog_owned_def prog_blocks_def prog_ok_def add_mset_commute
        intro!: triple_bind triple_take triple_ret)
  ultimately show ?thesis
    unfolding h_real_prog_def Let_def defs using ok n by (auto intro!: triple_bind triple_take)
qed

lemma h_check_mapped_ok:
  assumes "check_mapped st name False sh f = Some (r, sh')" "r \<noteq> ZFault" "maps_owned z (mapped_files sh) D"
  shows "triple L (D + M) (h_check_mapped z name f) (searched z (r \<noteq> ZNull) sh' M)"
proof (cases "custom_dump_find_func (fd_map f) name")
  case (Some q)
  show ?thesis
  proof (cases q)
    case (ZOk h)
    then have r: "mapped_prog (fd_map f) h = r" "maps_owned z (mapped_files sh') D"
      using assms Some by (auto simp: check_mapped_def)
    then obtain prog where "r = ZOk prog" using assms(2) by (auto simp: mapped_prog_def split: if_splits)
    with r h_mapped_prog_ok [of "fd_map f" h prog z sh' D L M] Some ZOk show ?thesis
      by (simp add: h_check_mapped_def)
  qed (use assms Some in \<open>auto simp: check_mapped_def h_check_mapped_def intro!: triple_ret searched_none\<close>)
qed (use assms in \<open>simp add: check_mapped_def\<close>)

lemma h_check_unmapped_ok:
  assumes z: "zsh_releases z" and c: "check_unmapped file st name False sh = Some (r, sh')" "r \<noteq> ZFault"
    and D: "maps_owned z (mapped_files sh) D"
  shows "triple L (D + M) (h_check_unmapped z file st name sh) (searched z (r \<noteq> ZNull) sh' M)"
proof -
  obtain q sh1 where q: "custom_load_dump_header [] file False sh = (q, sh1)" by fastforce
  then have D1: "maps_owned z (mapped_files sh1) D" using D load_header_dumps by (metis snd_conv)
  show ?thesis
  proof (cases q)
    case (ZOk d)
    show ?thesis
    proof (cases "\<exists>h. custom_dump_find_func d name = Some (ZOk h)")
      case True
      then obtain h where h: "custom_dump_find_func d name = Some (ZOk h)" by blast
      let ?sh2 = "custom_load_dump_file file st (fd_flag d FDF_OTHER) (FDOTHER d) sh1"
      show ?thesis
      proof (cases "fd_flag d FDF_MAP")
        case True
        let ?next = "case find_dump st (sh_dumps ?sh2) of None \<Rightarrow> hret None | Some f \<Rightarrow> h_check_mapped z name f"
        have "triple L (D' + M) ?next (searched z (r \<noteq> ZNull) sh' M)" if "maps_owned z (mapped_files ?sh2) D'" for D'
          using c q ZOk h True that
          by (auto simp: check_unmapped_def Let_def intro: triple_ret searched_none h_check_mapped_ok split: option.splits)
        then have "triple L (D + M) (hseq (h_load_dump_file z file (fd_flag d FDF_OTHER) (FDOTHER d) sh1) ?next)
            (searched z (r \<noteq> ZNull) sh' M)"
          by (intro triple_seq h_load_dump_file_ok [OF D1, where st = st]) simp
        with q ZOk h True show ?thesis by (simp add: h_check_unmapped_def)
      next
        case False
        with c q ZOk h D1 show ?thesis
          by (auto simp: check_unmapped_def h_check_unmapped_def intro: triple_ret searched_none h_real_prog_ok [OF z]
              split: sum.splits)
      qed
    next
      case False
      with c q ZOk D1 show ?thesis
        by (auto simp: check_unmapped_def h_check_unmapped_def intro: triple_ret searched_none
            split: option.splits zres.splits)
    qed
  qed (use c q D1 in \<open>auto simp: check_unmapped_def h_check_unmapped_def intro: triple_ret searched_none\<close>)
qed

lemma h_check_dump_file_ok:
  assumes "zsh_releases z" "custom_check_dump_file fstat file sb name False sh = Some (r, sh')" "r \<noteq> ZFault"
    "maps_owned z (mapped_files sh) D"
  shows "triple L (D + M) (h_check_dump_file z fstat file sb name sh) (searched z (r \<noteq> ZNull) sh' M)"
proof (cases "case sb of Some st \<Rightarrow> Some st | None \<Rightarrow> custom_zwcstat fstat file sh")
  case None
  with assms show ?thesis
    by (auto simp: custom_check_dump_file_def h_check_dump_file_def intro!: triple_ret searched_none)
next
  case (Some st)
  show ?thesis
  proof (cases "find_dump st (sh_dumps sh)")
    case None
    with Some assms show ?thesis
      by (simp add: custom_check_dump_file_def h_check_dump_file_def h_check_unmapped_ok)
  next
    case f: (Some f)
    with Some assms show ?thesis
      by (simp add: custom_check_dump_file_def h_check_dump_file_def h_check_mapped_ok)
  qed
qed

lemma h_try_source_ok:
  assumes z: "zsh_releases z" and t: "custom_try_source_file cb file sh = Some (prog, sav)"
    and D: "maps_owned z (mapped_files (if has_suffix FD_EXT file then sh else compile_step cb file sh)) D"
  shows "triple L (D + M) (h_try_source z cb file sh) (searched z (prog \<noteq> None) sav M)"
proof (cases "has_suffix FD_EXT file")
  case True
  with t obtain r where r: "custom_check_dump_file (cb_fstat cb) file None (base_name file) False sh = Some (r, sav)"
    "r \<noteq> ZFault" "prog \<noteq> None \<longleftrightarrow> r \<noteq> ZNull"
    by (auto simp: custom_try_source_file_def Let_def split: option.splits zres.splits)
  from h_check_dump_file_ok [OF z r(1,2)] D True r(3) show ?thesis by (simp add: h_try_source_def)
next
  case False
  let ?sh1 = "compile_step cb file sh" and ?wc = "file @ FD_EXT"
  let ?next = "case w_stat ?sh1 ?wc of Inl _ \<Rightarrow> hret None
    | Inr stc \<Rightarrow>
        if (case w_stat sh file of Inl _ \<Rightarrow> True | Inr stn \<Rightarrow> st_mtime stc \<ge> st_mtime stn)
        then h_check_dump_file z (cb_fstat cb) ?wc (Some stc) (base_name file) ?sh1
        else hret None"
  have D1: "maps_owned z (mapped_files ?sh1) D" using D False by simp
  have "triple L (D + M) ?next (searched z (prog \<noteq> None) sav M)"
  proof (cases "\<exists>stc. w_stat ?sh1 ?wc = Inr stc \<and>
      (case w_stat sh file of Inl _ \<Rightarrow> True | Inr stn \<Rightarrow> st_mtime stc \<ge> st_mtime stn)")
    case True
    then obtain stc where s: "w_stat ?sh1 ?wc = Inr stc"
      "case w_stat sh file of Inl _ \<Rightarrow> True | Inr stn \<Rightarrow> st_mtime stc \<ge> st_mtime stn" by blast
    with t False obtain r where r:
      "custom_check_dump_file (cb_fstat cb) ?wc (Some stc) (base_name file) False ?sh1 = Some (r, sav)"
      "r \<noteq> ZFault" "prog \<noteq> None \<longleftrightarrow> r \<noteq> ZNull"
      by (auto simp: custom_try_source_file_def Let_def split: option.splits zres.splits)
    from h_check_dump_file_ok [OF z r(1,2) D1] s r(3) show ?thesis by simp
  next
    case n: False
    with t False have "prog = None" "sav = ?sh1"
      by (auto simp: custom_try_source_file_def Let_def split: sum.splits if_splits)
    with n D1 show ?thesis by (auto intro: triple_ret searched_none split: sum.splits)
  qed
  then show ?thesis
    using z False
    by (auto simp: h_try_source_def Let_def zsh_releases_def intro!: triple_bind triple_ztrdup triple_seq triple_free)
qed

text \<open>A release that wants the size of the block stops every search for a source that is not itself
  compiled, and every read of a program that the file does not hold.\<close>

lemma try_source_short_size:
  "zm_zfree z = h_zfree \<Longrightarrow> \<not> has_suffix FD_EXT file \<Longrightarrow> 0 < hp_next h \<Longrightarrow> h_try_source z cb file sh h = None"
  by (simp add: h_try_source_def hbind_def hseq_def h_ztrdup_def h_take_def h_zfree_def Let_def)

lemma real_prog_short_size:
  assumes "zm_zfree z = h_zfree" "real_prog dat d h = ZNull" "0 < h_npats d h" "8 * h_npats d h + h_len d h < 2147483648"
    "0 < hp_next hp"
  shows "h_real_prog z dat d h hp = None"
proof -
  have s: "to_int (8 * int (h_npats d h)) = 8 * int (h_npats d h)" "to_int (int (h_len d h)) = int (h_len d h)"
    using assms(4) by (simp_all add: to_int_id c_limits)
  have "(int (h_len d h) + 8 * int (h_npats d h)) mod 4294967296 = int (h_len d h) + 8 * int (h_npats d h)"
    using assms(4) by simp
  with s assms show ?thesis
    by (auto simp: real_prog_def h_real_prog_def Let_def hbind_def hseq_def h_take_def h_zfree_def h_never_def
        split: if_splits)
qed

end
