(* ===== verification/Zp_Nesting.thy ===== *)
theory Zp_Nesting
  imports Zp_Source
begin

text \<open>
  Scripts that source scripts (\<open>custom_source\<close> of \<open>src/core/source.c\<close>): what the profile holds after
  a whole tree of calls.  The events come in the order in which the scripts end, each with the depth
  of its call, and since a duration is inclusive it bounds the sum of the durations of the calls made
  directly inside.
\<close>

section \<open>Trees of calls\<close>

datatype script = Script (sc_path: string) (sc_calls: "script list")

text \<open>The body of a script: what the shell itself does (\<open>cb_loop cb\<close> or the compiled program), and
  after it each call, with what the shell does behind it.\<close>

definition with_calls :: "callbacks \<Rightarrow> (string \<times> callbacks) list \<Rightarrow> shell \<Rightarrow> shell" where
  "with_calls cb = fold (\<lambda>(s, cb') sh. snd (cb_loop cb (sourcing cb' s sh)))"

definition calling :: "callbacks \<Rightarrow> (string \<times> callbacks) list \<Rightarrow> callbacks" where
  "calling cb ks =
     cb\<lparr>cb_loop := (\<lambda>sh. (fst (cb_loop cb sh), with_calls cb ks (snd (cb_loop cb sh)))),
        cb_execode := (\<lambda>pr sh. with_calls cb ks (cb_execode cb pr sh))\<rparr>"

fun script_cb :: "callbacks \<Rightarrow> script \<Rightarrow> callbacks" where
  "script_cb cb (Script s ks) = calling cb (map (\<lambda>k. (sc_path k, script_cb cb k)) ks)"

text \<open>The paths in the order in which the scripts end.\<close>

fun completion :: "script \<Rightarrow> string list" where
  "completion (Script s ks) = concat (map completion ks) @ [s]"

text \<open>A record of the tree: the events of the calls inside, in order, and then the script's own.\<close>

definition dur :: "source_event \<Rightarrow> nat" where
  "dur e = unat (ev_duration_ns e)"

inductive profiled :: "int \<Rightarrow> script \<Rightarrow> source_event list \<Rightarrow> bool" where
  profiled: "list_all2 (profiled (d + 1)) ks ess \<Longrightarrow> ev_full_path e = s \<Longrightarrow> ev_depth e = d \<Longrightarrow>
    ev_timing_valid e \<Longrightarrow> (\<Sum>es \<leftarrow> ess. dur (last es)) \<le> dur e \<Longrightarrow> profiled d (Script s ks) (concat ess @ [e])"
monos list_all2_mono

inductive_cases profiled_elim: "profiled d (Script s ks) es"

lemma profiled_paths: "profiled d t es \<Longrightarrow> map ev_full_path es = completion t"
proof (induction rule: profiled.induct)
  case (profiled d ks ess e s)
  have "map (map ev_full_path) ess = map completion ks"
    using profiled(1) by (induction ks ess rule: list_all2_induct) auto
  then show ?case using profiled(2) by (simp add: map_concat)
qed

lemma profiled_own: "profiled d t es \<Longrightarrow> es \<noteq> [] \<and> ev_depth (last es) = d \<and> (\<forall>e \<in> set es. ev_timing_valid e \<and> d \<le> ev_depth e)"
proof (induction rule: profiled.induct)
  case (profiled d ks ess e s)
  have "\<forall>es \<in> set ess. \<forall>x \<in> set es. ev_timing_valid x \<and> d \<le> ev_depth x"
    using profiled(1) by (induction ks ess rule: list_all2_induct) fastforce+
  with profiled show ?case by auto
qed

section \<open>Events\<close>

definition events_of :: "profile \<Rightarrow> source_event list" where
  "events_of p = map (\<lambda>i. the (the (zp_source_events p) (render_int i))) [1..zp_sevent_count p]"

definition add_event :: "source_event \<Rightarrow> profile \<Rightarrow> profile" where
  "add_event e p = p\<lparr>zp_source_events := map_option (\<lambda>m. m(render_int (zp_sevent_count p + 1) \<mapsto> e)) (zp_source_events p),
                     zp_sevent_count := zp_sevent_count p + 1\<rparr>"

abbreviation add_events :: "source_event list \<Rightarrow> profile \<Rightarrow> profile" where
  "add_events \<equiv> fold add_event"

abbreviation at_depth :: "int \<Rightarrow> profile \<Rightarrow> profile" where
  "at_depth d p \<equiv> p\<lparr>zp_source_depth := d\<rparr>"

lemma add_event_simps [simp]:
  "zp_sevent_count (add_event e p) = zp_sevent_count p + 1" "zp_source_depth (add_event e p) = zp_source_depth p"
  "zp_profile_incomplete (add_event e p) = zp_profile_incomplete p"
  "zp_source_events (add_event e p) = None \<longleftrightarrow> zp_source_events p = None"
  "add_event e (at_depth d p) = at_depth d (add_event e p)"
  by (simp_all add: add_event_def)

lemma add_events_simps [simp]:
  "zp_sevent_count (add_events es p) = zp_sevent_count p + int (length es)"
  "zp_source_depth (add_events es p) = zp_source_depth p"
  "zp_profile_incomplete (add_events es p) = zp_profile_incomplete p"
  "zp_source_events (add_events es p) = None \<longleftrightarrow> zp_source_events p = None"
  "add_events es (at_depth d p) = at_depth d (add_events es p)"
  by (induction es arbitrary: p) simp_all

lemma events_of_add:
  assumes "0 \<le> zp_sevent_count p" "zp_source_events p \<noteq> None"
  shows "events_of (add_event e p) = events_of p @ [e]"
proof -
  have "[1..zp_sevent_count p + 1] = [1..zp_sevent_count p] @ [zp_sevent_count p + 1]"
    using assms(1) by (simp add: upto_rec2)
  then show ?thesis
    using assms(2) by (auto simp: events_of_def add_event_def cnum)
qed

lemma events_of_adds:
  "0 \<le> zp_sevent_count p \<Longrightarrow> zp_source_events p \<noteq> None \<Longrightarrow> events_of (add_events es p) = events_of p @ es"
  by (induction es arbitrary: p) (simp_all add: events_of_add del: not_None_eq)

section \<open>One call\<close>

text \<open>What the tree is sourced in: no step of the shell but the recorded calls changes the profile or
  what the decision to compile depends on, and the clock only goes forwards.\<close>

definition pinned :: "shell \<Rightarrow> (string \<Rightarrow> nat + stat) \<times> (string \<Rightarrow> nat \<Rightarrow> bool) \<times> (string \<Rightarrow> string option) \<times>
    (nat \<Rightarrow> bool) \<times> (nat \<Rightarrow> (int \<times> int) option)" where
  "pinned sh = (w_stat sh, w_access sh, w_sparam sh, w_alloc sh, sh_clock sh)"

definition quiet :: "shell \<Rightarrow> shell \<Rightarrow> bool" where
  "quiet sh sh' \<longleftrightarrow> pinned sh' = pinned sh \<and> sh_profile sh' = sh_profile sh \<and> sh_ticks sh \<le> sh_ticks sh'"

definition quiet_callbacks :: "callbacks \<Rightarrow> bool" where
  "quiet_callbacks cb \<longleftrightarrow> (\<forall>sh. quiet sh (cb_trace cb sh) \<and> quiet sh (snd (cb_loop cb sh)))"

text \<open>A script with an absolute name that can be opened and is neither compiled nor to be compiled.\<close>

definition script_ready :: "callbacks \<Rightarrow> shell \<Rightarrow> string \<Rightarrow> bool" where
  "script_ready cb sh s \<longleftrightarrow> take 1 s = ''/'' \<and>
     (let us = cb_unmeta cb s
      in \<not> has_suffix FD_EXT us \<and> isl (w_stat sh (us @ FD_EXT)) \<and> \<not> wants_compile us sh \<and>
         (\<forall>x. cb_open cb us x \<noteq> -1))"

lemma ready_pinned: "pinned a = pinned b \<Longrightarrow> script_ready cb a s \<longleftrightarrow> script_ready cb b s"
  by (simp add: pinned_def script_ready_def wants_compile_def debug_enabled_def Let_def cong: sum.case_cong)

lemma try_source_plain:
  assumes "script_ready cb sh s"
  shows "custom_try_source_file cb' (cb_unmeta cb s) sh = Some (None, sh)"
  using assms by (auto simp: script_ready_def custom_try_source_file_def compile_step_def Let_def isl_def)

lemma quiet_trans: "quiet a b \<Longrightarrow> quiet b c \<Longrightarrow> quiet a c"
  by (simp add: quiet_def)

lemma quiet_enter:
  assumes "quiet_callbacks cb"
  shows "quiet sh (enter_source (calling cb ks) s fd o1 sh)"
proof -
  have "quiet x (cb_trace cb x)" for x using assms by (simp add: quiet_callbacks_def)
  then have "pinned x = pinned sh \<Longrightarrow> sh_profile x = sh_profile sh \<Longrightarrow> sh_ticks x = sh_ticks sh \<Longrightarrow>
      quiet sh (cb_trace cb x)" for x by (metis quiet_def)
  then show ?thesis
    by (auto simp: enter_source_def Let_def set_shinstdin_def calling_def quiet_def pinned_def split: option.splits)
qed

text \<open>The call of a script: \<open>x\<close> is the state before the calls it makes, \<open>y\<close> the one after them,
  \<open>z\<close> the one in which its event is recorded.\<close>

lemma custom_source_calling:
  assumes "quiet_callbacks cb" "script_ready cb sh s"
  obtains x y z ret ex where
    "quiet (add_depth 1 (snd (zp_read_clock sh))) x" "y = with_calls cb ks x"
    "pinned z = pinned y" "sh_profile z = at_depth (zp_source_depth (sh_profile y) - 1) (sh_profile y)"
    "sh_ticks z = sh_ticks y"
    "custom_source (calling cb ks) (Some s) sh = Some (ret,
       zp_record_source (Some s) (sh_clock sh (sh_ticks sh)) (zp_source_depth (sh_profile sh) + 1)
         (sr_code ret) ex z)"
proof -
  define sh1 where "sh1 = snd (zp_read_clock sh)"
  have c: "zp_read_clock sh = (sh_clock sh (sh_ticks sh), sh1)" by (simp add: sh1_def zp_read_clock_def)
  have p: "sh_profile sh1 = sh_profile sh" "pinned sh1 = pinned sh" "pinned (add_depth 1 sh1) = pinned sh"
    by (simp_all add: sh1_def zp_read_clock_def pinned_def add_depth_def)
  have u: "cb_unmeta (calling cb ks) = cb_unmeta cb" "cb_open (calling cb ks) = cb_open cb"
    by (simp_all add: calling_def)
  let ?us = "cb_unmeta cb s" and ?s2 = "add_depth 1 sh1"
  have t: "custom_try_source_file (calling cb ks) ?us ?s2 = Some (None, ?s2)"
    using assms(2) ready_pinned [OF p(3)] by (intro try_source_plain) simp
  have op: "cb_open cb ?us ?s2 \<noteq> -1" using assms(2) by (simp add: script_ready_def Let_def)
  define en where "en = enter_source (calling cb ks) s (Some (cb_open cb ?us ?s2)) (sh_scriptfilename sh) ?s2"
  define x where "x = snd (cb_loop cb en)"
  obtain ret sh4 where r: "run_source (calling cb ks) None en = (ret, sh4)" by fastforce
  have sh4: "pinned sh4 = pinned (with_calls cb ks x)" "sh_profile sh4 = sh_profile (with_calls cb ks x)"
    "sh_ticks sh4 = sh_ticks (with_calls cb ks x)"
    using r by (auto simp: run_source_def calling_def x_def pinned_def split: loop_return.splits)
  let ?z = "add_depth (- 1) (leave_source (calling cb ks) None sh ?s2 sh4)"
  have q: "quiet ?s2 x"
    unfolding x_def
    by (rule quiet_trans [OF quiet_enter [OF assms(1), of ?s2 ks s "Some (cb_open cb ?us ?s2)" "sh_scriptfilename sh", folded en_def]])
      (use assms(1) in \<open>simp add: quiet_callbacks_def\<close>)
  have z: "pinned ?z = pinned sh4" "sh_profile ?z = at_depth (zp_source_depth (sh_profile sh4) - 1) (sh_profile sh4)"
    "sh_ticks ?z = sh_ticks sh4"
    by (simp_all add: leave_source_def Let_def set_shinstdin_def add_depth_def pinned_def)
  have d: "zp_source_depth (sh_profile ?s2) = zp_source_depth (sh_profile sh) + 1"
    by (simp add: add_depth_def p)
  have pa: "zp_source_path sh1 s = Some s" using assms(2) by (simp add: script_ready_def zp_source_path_def)
  have "custom_source (calling cb ks) (Some s) sh = Some (ret,
       zp_record_source (Some s) (sh_clock sh (sh_ticks sh)) (zp_source_depth (sh_profile sh) + 1)
         (sr_code ret) (exit_status_of ret (sh_lastval ?z)) ?z)"
    using op by (simp add: custom_source_def c t u Let_def r d pa en_def [symmetric])
  with q z sh4 show ?thesis by (intro that [of x]) (simp_all add: sh1_def)
qed

section \<open>Trees\<close>

text \<open>A clock that shows the nanoseconds \<open>T n\<close> at tick \<open>n\<close>, never runs backwards and fits its type.\<close>

definition clock_of :: "(nat \<Rightarrow> nat) \<Rightarrow> nat \<Rightarrow> (int \<times> int) option" where
  "clock_of T n = Some (int (T n div 1000000000), int (T n mod 1000000000))"

definition steady_clock :: "(nat \<Rightarrow> nat) \<Rightarrow> bool" where
  "steady_clock T \<longleftrightarrow> mono T \<and> (\<forall>n. int (T n) \<le> ULONG_MAX)"

lemma sample_clock:
  assumes "steady_clock T" "a \<le> b"
  shows "\<exists>e. sample_elapsed (clock_of T a) (clock_of T b) = Some e \<and> unat e = T b - T a"
proof -
  let ?s = "1000000000 :: nat"
  have le: "T a \<le> T b" and mx: "int (T b) \<le> ULONG_MAX"
    using assms by (auto simp: steady_clock_def mono_def)
  have dm: "int (T n div ?s) * 1000000000 + int (T n mod ?s) = int (T n)" for n
    by (metis div_mult_mod_eq of_nat_add of_nat_mult of_nat_numeral)
  have iv: "interval_ns (int (T a div ?s)) (int (T a mod ?s)) (int (T b div ?s)) (int (T b mod ?s)) = int (T b - T a)"
    using le by (simp only: interval_ns_def dm)
  have va: "valid_interval (int (T a div ?s)) (int (T a mod ?s)) (int (T b div ?s)) (int (T b mod ?s))"
    unfolding valid_interval_def dm using le by simp
  have sec: "int (T b div ?s) \<le> LONG_MAX" using mx by (simp add: c_limits zdiv_int)
  let ?e = "word_of_int (int (T b - T a)) :: u64"
  have u: "uint ?e = int (T b - T a)" using le mx by (intro uint_small) auto
  have "zp_elapsed_ns (int (T a div ?s)) (int (T a mod ?s)) (int (T b div ?s)) (int (T b mod ?s)) = Some ?e"
    unfolding elapsed_exact [OF sec] iv u using va le mx by simp
  then have "sample_elapsed (clock_of T a) (clock_of T b) = Some ?e"
    by (simp only: sample_elapsed_def clock_of_def prod.case option.case)
  moreover have "unat ?e = T b - T a" using u by (metis nat_int unat_eq_nat_uint)
  ultimately show ?thesis by blast
qed

lemma record_steady:
  assumes "steady_clock T" "sh_clock z = clock_of T" "a \<le> sh_ticks z" "mem_ok z"
    and "zp_source_events (sh_profile z) \<noteq> None" "zp_sevent_count (sh_profile z) \<noteq> INT_MAX"
  obtains e where "sh_profile (zp_record_source (Some s) (clock_of T a) d st ex z) = add_event e (sh_profile z)"
    "ev_full_path e = s" "ev_depth e = d" "ev_timing_valid e" "dur e = T (sh_ticks z) - T a"
proof -
  obtain w where w: "sample_elapsed (clock_of T a) (clock_of T (sh_ticks z)) = Some w" "unat w = T (sh_ticks z) - T a"
    using sample_clock [OF assms(1,3)] by blast
  let ?e = "recorded_event s (Some w) (zp_sevent_count (sh_profile z) + 1) d st ex"
  have "sh_profile (zp_record_source (Some s) (clock_of T a) d st ex z) = add_event ?e (sh_profile z)"
    using assms(4-6) w(1) by (auto simp: record_source_cases recordable_def Let_def assms(2) add_event_def mem_ok_def)
  then show thesis by (rule that) (simp_all add: recorded_event_def dur_def w(2))
qed

text \<open>What one call of a tree does: everything the claim about trees says of it.\<close>

definition tree_run :: "(nat \<Rightarrow> nat) \<Rightarrow> script \<Rightarrow> shell \<Rightarrow> shell \<Rightarrow> source_event list \<Rightarrow> bool" where
  "tree_run T t sh out es \<longleftrightarrow>
     pinned out = pinned sh \<and> sh_ticks sh < sh_ticks out \<and> sh_profile out = add_events es (sh_profile sh) \<and>
     profiled (zp_source_depth (sh_profile sh) + 1) t es \<and>
     dur (last es) \<le> T (sh_ticks out) - T (sh_ticks sh)"

definition tree_start :: "callbacks \<Rightarrow> (nat \<Rightarrow> nat) \<Rightarrow> script list \<Rightarrow> shell \<Rightarrow> bool" where
  "tree_start cb T ts sh \<longleftrightarrow>
     (\<forall>t \<in> set ts. \<forall>s \<in> set (completion t). script_ready cb sh s) \<and> mem_ok sh \<and> sh_clock sh = clock_of T \<and>
     zp_source_events (sh_profile sh) \<noteq> None \<and>
     zp_sevent_count (sh_profile sh) + int (length (concat (map completion ts))) \<le> INT_MAX"

lemma pinnedD:
  "pinned a = pinned b \<Longrightarrow> mem_ok a \<longleftrightarrow> mem_ok b" "pinned a = pinned b \<Longrightarrow> sh_clock a = sh_clock b"
  by (auto simp: pinned_def mem_ok_def)

lemma tree_start_quiet: "quiet a b \<Longrightarrow> tree_start cb T ts a \<Longrightarrow> tree_start cb T ts b"
  using ready_pinned [of b a cb] pinnedD [of b a] by (simp add: tree_start_def quiet_def)

lemma tree_start_rest:
  assumes "tree_start cb T (t # ts) sh" "tree_run T t sh out es"
  shows "tree_start cb T ts out"
proof -
  have "length es = length (completion t)"
    using assms(2) by (metis length_map profiled_paths tree_run_def)
  with assms show ?thesis
    using ready_pinned [of out sh cb] pinnedD [of out sh] by (auto simp: tree_start_def tree_run_def)
qed

text \<open>What the calls \<open>ks\<close> of a script do between \<open>x\<close> and \<open>y\<close>.\<close>

definition calls_run :: "(nat \<Rightarrow> nat) \<Rightarrow> script list \<Rightarrow> shell \<Rightarrow> shell \<Rightarrow> source_event list list \<Rightarrow> bool" where
  "calls_run T ks x y ess \<longleftrightarrow>
     pinned y = pinned x \<and> sh_ticks x \<le> sh_ticks y \<and> sh_profile y = add_events (concat ess) (sh_profile x) \<and>
     list_all2 (profiled (zp_source_depth (sh_profile x) + 1)) ks ess \<and>
     (\<Sum>es \<leftarrow> ess. dur (last es)) \<le> T (sh_ticks y) - T (sh_ticks x)"

lemma calls_run_length:
  assumes "calls_run T ks x y ess"
  shows "length (concat ess) = length (concat (map completion ks))"
proof -
  have "list_all2 (profiled (zp_source_depth (sh_profile x) + 1)) ks ess" using assms by (simp add: calls_run_def)
  then have "map (map ev_full_path) ess = map completion ks"
    by (induction rule: list_all2_induct) (auto dest: profiled_paths)
  then show ?thesis by (metis length_map map_concat)
qed

lemma calls_run_Cons:
  assumes r: "tree_run T k x out es" and q: "quiet out x'" and c: "calls_run T ks x' y ess" and m: "mono T"
  shows "calls_run T (k # ks) x y (es # ess)"
proof -
  have "sh_ticks x \<le> sh_ticks out" "sh_ticks out \<le> sh_ticks x'" "sh_ticks x' \<le> sh_ticks y"
    using r q c by (simp_all add: tree_run_def quiet_def calls_run_def)
  moreover note monoD [OF m this(1)] monoD [OF m this(2)] monoD [OF m this(3)]
  moreover have "zp_source_depth (sh_profile x') = zp_source_depth (sh_profile x)"
    using r q by (simp add: tree_run_def quiet_def)
  moreover have "dur (last es) \<le> T (sh_ticks out) - T (sh_ticks x)"
    "(\<Sum>es \<leftarrow> ess. dur (last es)) \<le> T (sh_ticks y) - T (sh_ticks x')"
    using r c by (simp_all add: tree_run_def calls_run_def)
  ultimately show ?thesis
    using r q c by (simp add: tree_run_def quiet_def calls_run_def)
qed

lemma with_calls_run:
  assumes cb: "quiet_callbacks cb" and T: "steady_clock T"
    and IH: "\<And>k sh. k \<in> set ks \<Longrightarrow> tree_start cb T [k] sh \<Longrightarrow>
      \<exists>ret out es. custom_source (script_cb cb k) (Some (sc_path k)) sh = Some (ret, out) \<and> tree_run T k sh out es"
    and st: "tree_start cb T ks x"
  shows "\<exists>ess. calls_run T ks x (with_calls cb (map (\<lambda>k. (sc_path k, script_cb cb k)) ks) x) ess"
  using IH st
proof (induction ks arbitrary: x)
  case Nil
  show ?case by (rule exI [of _ "[]"]) (simp add: with_calls_def calls_run_def)
next
  case (Cons k ks)
  have "tree_start cb T [k] x" using Cons.prems(2) by (auto simp: tree_start_def)
  then obtain ret out es where o: "custom_source (script_cb cb k) (Some (sc_path k)) x = Some (ret, out)"
    and r: "tree_run T k x out es" using Cons.prems(1) [of k x] by auto
  define x' where "x' = snd (cb_loop cb out)"
  have q: "quiet out x'" using cb by (simp add: x'_def quiet_callbacks_def)
  have "tree_start cb T ks x'" by (rule tree_start_quiet [OF q tree_start_rest [OF Cons.prems(2) r]])
  from Cons.IH [OF Cons.prems(1) this] obtain ess where
    "calls_run T ks x' (with_calls cb (map (\<lambda>k. (sc_path k, script_cb cb k)) ks) x') ess" by auto
  moreover have "with_calls cb (map (\<lambda>k. (sc_path k, script_cb cb k)) (k # ks)) x =
      with_calls cb (map (\<lambda>k. (sc_path k, script_cb cb k)) ks) x'"
    by (simp add: with_calls_def x'_def sourcing_def o)
  ultimately show ?case
    using calls_run_Cons [OF r q] T by (auto simp: steady_clock_def)
qed

lemma tree_runs:
  assumes cb: "quiet_callbacks cb" and T: "steady_clock T"
  shows "tree_start cb T [t] sh \<Longrightarrow>
    \<exists>ret out es. custom_source (script_cb cb t) (Some (sc_path t)) sh = Some (ret, out) \<and> tree_run T t sh out es"
proof (induction t arbitrary: sh)
  case (Script s ks)
  let ?ks = "map (\<lambda>k. (sc_path k, script_cb cb k)) ks" and ?d = "zp_source_depth (sh_profile sh) + 1"
  have rdy: "script_ready cb sh s" using Script.prems by (simp add: tree_start_def)
  obtain x y z ret ex where
    q: "quiet (add_depth 1 (snd (zp_read_clock sh))) x" and y: "y = with_calls cb ?ks x"
    and z: "pinned z = pinned y" "sh_profile z = at_depth (zp_source_depth (sh_profile y) - 1) (sh_profile y)"
      "sh_ticks z = sh_ticks y"
    and o: "custom_source (calling cb ?ks) (Some s) sh = Some (ret,
       zp_record_source (Some s) (sh_clock sh (sh_ticks sh)) ?d (sr_code ret) ex z)"
    by (rule custom_source_calling [OF cb rdy, of ?ks])
  have "pinned (add_depth 1 (snd (zp_read_clock sh))) = pinned sh"
    "sh_profile (add_depth 1 (snd (zp_read_clock sh))) = at_depth ?d (sh_profile sh)"
    "sh_ticks (add_depth 1 (snd (zp_read_clock sh))) = Suc (sh_ticks sh)"
    by (simp_all add: add_depth_def zp_read_clock_def pinned_def)
  with q have x: "pinned x = pinned sh" "sh_profile x = at_depth ?d (sh_profile sh)" "sh_ticks sh < sh_ticks x"
    unfolding quiet_def by simp_all
  have "tree_start cb T ks x"
    using Script.prems unfolding tree_start_def ready_pinned [OF x(1), of cb] pinnedD [OF x(1)] x(2) by simp
  from with_calls_run [OF cb T Script.IH this, folded y] obtain ess where c: "calls_run T ks x y ess" ..
  have dx: "zp_source_depth (sh_profile x) = ?d" by (simp add: x(2))
  have e: "pinned y = pinned x" "sh_ticks x \<le> sh_ticks y" "sh_profile y = add_events (concat ess) (sh_profile x)"
    "list_all2 (profiled (?d + 1)) ks ess" "(\<Sum>es \<leftarrow> ess. dur (last es)) \<le> T (sh_ticks y) - T (sh_ticks x)"
    using c unfolding calls_run_def dx by simp_all
  note ln = calls_run_length [OF c]
  have pz: "sh_profile z = add_events (concat ess) (sh_profile sh)" "pinned z = pinned sh" "sh_ticks sh \<le> sh_ticks z"
    using z e x by auto
  have zz: "zp_source_events (sh_profile z) \<noteq> None" "zp_sevent_count (sh_profile z) \<noteq> INT_MAX" "mem_ok z" "sh_clock z = clock_of T"
    using Script.prems pinnedD [OF pz(2)] ln by (auto simp: tree_start_def pz(1))
  obtain ev where ev: "sh_profile (zp_record_source (Some s) (clock_of T (sh_ticks sh)) ?d (sr_code ret) ex z) = add_event ev (sh_profile z)"
    "ev_full_path ev = s" "ev_depth ev = ?d" "ev_timing_valid ev" "dur ev = T (sh_ticks z) - T (sh_ticks sh)"
    by (rule record_steady [OF T zz(4) pz(3) zz(3,1,2)])
  let ?out = "zp_record_source (Some s) (clock_of T (sh_ticks sh)) ?d (sr_code ret) ex z"
  have t: "sh_ticks ?out = Suc (sh_ticks z)" "pinned ?out = pinned z"
    by (subst record_source_frame, simp add: pinned_def)+
  have m: "mono T" using T by (simp add: steady_clock_def)
  have le: "T (sh_ticks sh) \<le> T (sh_ticks x)" "T (sh_ticks x) \<le> T (sh_ticks y)" "T (sh_ticks y) \<le> T (Suc (sh_ticks z))"
    using x(3) e(2) z(3) by (auto intro!: monoD [OF m])
  have "profiled ?d (Script s ks) (concat ess @ [ev])"
    using e(4,5) ev le z(3) by (intro profiled.intros) (auto simp del: One_nat_def)
  moreover have "dur ev \<le> T (sh_ticks ?out) - T (sh_ticks sh)"
    using le z(3) by (simp add: ev(5) t(1))
  ultimately have "tree_run T (Script s ks) sh ?out (concat ess @ [ev])"
    using t pz ev(1) by (simp add: tree_run_def)
  moreover have "sh_clock sh = clock_of T" using Script.prems by (simp add: tree_start_def)
  ultimately show ?case using o by auto
qed

section \<open>Property\<close>

fun depths :: "int \<Rightarrow> script \<Rightarrow> int list" where
  "depths d (Script s ks) = concat (map (depths (d + 1)) ks) @ [d]"

lemma profiled_depths: "profiled d t es \<Longrightarrow> map ev_depth es = depths d t"
proof (induction rule: profiled.induct)
  case (profiled d ks ess e s)
  have "map (map ev_depth) ess = map (depths (d + 1)) ks"
    using profiled(1) by (induction ks ess rule: list_all2_induct) auto
  then show ?case using profiled(3) by (simp add: map_concat)
qed

text \<open>
  C5: Sourcing a script that sources others, nested in any shape, while there is memory, the clock
  never runs backwards and none of them is compiled, adds exactly one event for each call, in the
  order in which the scripts end and each with the depth of its call; every duration is valid and
  is at least the sum of the durations of the calls directly inside.  The depth comes back, and the
  profile is no more incomplete than before.
\<close>

theorem profile_tree_exact:
  assumes "quiet_callbacks cb" "steady_clock T" "tree_start cb T [t] sh" "0 \<le> zp_sevent_count (sh_profile sh)"
  shows "\<exists>ret out es. custom_source (script_cb cb t) (Some (sc_path t)) sh = Some (ret, out) \<and>
    events_of (sh_profile out) = events_of (sh_profile sh) @ es \<and>
    map ev_full_path es = completion t \<and> map ev_depth es = depths (zp_source_depth (sh_profile sh) + 1) t \<and>
    profiled (zp_source_depth (sh_profile sh) + 1) t es \<and>
    zp_source_depth (sh_profile out) = zp_source_depth (sh_profile sh) \<and>
    zp_profile_incomplete (sh_profile out) = zp_profile_incomplete (sh_profile sh)"
proof -
  obtain ret out es where o: "custom_source (script_cb cb t) (Some (sc_path t)) sh = Some (ret, out)"
    and r: "tree_run T t sh out es" using tree_runs [OF assms(1-3)] by blast
  have "zp_source_events (sh_profile sh) \<noteq> None" using assms(3) by (simp add: tree_start_def)
  from events_of_adds [OF assms(4) this] r o show ?thesis
    by (auto simp: tree_run_def profiled_paths profiled_depths)
qed

definition steady_shell :: shell where
  "steady_shell = shell0\<lparr>sh_clock := clock_of (\<lambda>n. min n 1000)\<rparr>"

definition tree_example :: script where
  "tree_example = Script ''/a'' [Script ''/b'' [], Script ''/c'' [Script ''/d'' []]]"

lemma tree_example_start:
  "quiet_callbacks cb_example" "steady_clock (\<lambda>n. min n 1000)"
  "tree_start cb_example (\<lambda>n. min n 1000) [tree_example] steady_shell"
  by (simp add: quiet_callbacks_def quiet_def pinned_def,
    force simp: steady_clock_def c_limits intro!: monoI,
    auto simp: tree_start_def tree_example_def steady_shell_def shell0_simps script_ready_def Let_def
      wants_compile_def has_suffix_def FD_EXT_def profile0_def c_limits mem_ok_def
      intro: mem_okD [OF shell0_simps(2)])

theorem profile_tree_exact_witness:
  "\<exists>ret out. custom_source (script_cb cb_example tree_example) (Some ''/a'') steady_shell = Some (ret, out) \<and>
     map ev_full_path (events_of (sh_profile out)) = [''/b'', ''/d'', ''/c'', ''/a''] \<and>
     map ev_depth (events_of (sh_profile out)) = [2, 3, 2, 1] \<and> \<not> zp_profile_incomplete (sh_profile out)"
proof -
  have p: "sh_profile steady_shell = profile0" by (simp add: steady_shell_def shell0_simps)
  then have "0 \<le> zp_sevent_count (sh_profile steady_shell)" by (simp add: profile0_def)
  from profile_tree_exact [OF tree_example_start this] obtain ret out es where
    "custom_source (script_cb cb_example tree_example) (Some (sc_path tree_example)) steady_shell = Some (ret, out)"
    "events_of (sh_profile out) = events_of (sh_profile steady_shell) @ es"
    "map ev_full_path es = completion tree_example" "map ev_depth es = depths (0 + 1) tree_example"
    "zp_profile_incomplete (sh_profile out) = zp_profile_incomplete (sh_profile steady_shell)"
    using p by (auto simp: profile0_def)
  then show ?thesis
    by (auto simp: p tree_example_def events_of_def profile0_def)
qed

end
