(* ===== verification/Zp_Profile_Memory.thy ===== *)
theory Zp_Profile_Memory
  imports Zp_Dump_Memory Zp_Nesting
begin

text \<open>
  The memory of the profile (\<open>src/core/source.c\<close>): the path copied when a source begins, the
  command stack it runs on, the program of a compiled script, the four blocks of each recorded event
  and their release when an event is replaced or the table is deleted.  Over whole trees of calls the
  table owns exactly the blocks of its events and each mapping its two; deleting the table leaves
  the mappings, which nothing releases.
\<close>

section \<open>Events on the heap\<close>

text \<open>\<open>struct zp_sevent_node\<close>: its own address, and its three strings with theirs.\<close>

record hnode =
  hn_self :: nat
  hn_nam :: "nat \<times> string"
  hn_file :: "nat \<times> string"
  hn_full :: "nat \<times> string"

definition zp_free_sevent_node :: "hnode \<Rightarrow> unit hprog" where
  "zp_free_sevent_node n =
     hseq (h_zsfree (fst (hn_nam n)) (snd (hn_nam n)))
       (hseq (h_zsfree (fst (hn_file n)) (snd (hn_file n)))
         (hseq (h_zsfree (fst (hn_full n)) (snd (hn_full n)))
           (h_zfree (hn_self n) sizeof_sevent_node)))"

fun h_free_nodes :: "hnode list \<Rightarrow> unit hprog" where
  "h_free_nodes [] = hret ()"
| "h_free_nodes (n # ns) = hseq (zp_free_sevent_node n) (h_free_nodes ns)"

text \<open>\<open>addhashnode\<close> of zsh hands a replaced node of the same name to \<open>freenode\<close>; \<open>deletehashtable\<close>
  does it with all of them.\<close>

definition h_addhashnode :: "hnode \<Rightarrow> hnode list \<Rightarrow> hnode list hprog" where
  "h_addhashnode n ns =
     hseq (h_free_nodes (filter (\<lambda>m. snd (hn_nam m) = snd (hn_nam n)) ns))
       (hret (filter (\<lambda>m. snd (hn_nam m) \<noteq> snd (hn_nam n)) ns @ [n]))"

definition h_delete_table :: "hnode list option \<Rightarrow> hnode list option hprog" where
  "h_delete_table ns = (case ns of None \<Rightarrow> hret None | Some xs \<Rightarrow> hseq (h_free_nodes xs) (hret None))"

definition h_source_path :: "shell \<Rightarrow> string \<Rightarrow> (nat \<times> string) option hprog" where
  "h_source_path sh source =
     (if take 1 source = ''/'' then hbind (h_ztrdup source) (\<lambda>p. hret (Some (p, source)))
      else let relative = (if take 2 source = ''./'' then drop 2 source else source);
               len = length (sh_pwd sh) + length relative + 2
           in hbind (h_zalloc sh len) (\<lambda>p.
                hret (if p = 0 then None else Some (p, sh_pwd sh @ ''/'' @ relative))))"

text \<open>\<open>zsfree\<close> of a string that may be NULL.\<close>

definition h_drop :: "(nat \<times> string) option \<Rightarrow> unit hprog" where
  "h_drop r = (case r of None \<Rightarrow> hret () | Some (p, s) \<Rightarrow> h_zsfree p s)"

text \<open>The node of event \<open>key\<close>, once it and its file name have memory.\<close>

definition h_link_event ::
    "nat \<Rightarrow> nat \<Rightarrow> nat \<times> string \<Rightarrow> string \<Rightarrow> hnode list \<Rightarrow> hnode list hprog" where
  "h_link_event node f full key ns =
     hbind (h_ztrdup key) (\<lambda>k.
       h_addhashnode \<lparr>hn_self = node, hn_nam = (k, key), hn_file = (f, base_name (snd full)), hn_full = full\<rparr> ns)"

definition h_new_event :: "shell \<Rightarrow> nat \<times> string \<Rightarrow> hnode list \<Rightarrow> hnode list hprog" where
  "h_new_event sh full ns =
     hbind (h_zalloc sh sizeof_sevent_node) (\<lambda>node.
       if node = 0 then hseq (h_drop (Some full)) (hret ns)
       else
         hbind (h_zalloc sh (length (base_name (snd full)) + 1)) (\<lambda>f.
           if f = 0 then hseq (h_drop (Some full)) (hseq (h_zfree node sizeof_sevent_node) (hret ns))
           else h_link_event node f full (render_int (zp_sevent_count (sh_profile sh) + 1)) ns))"

definition h_record_source ::
    "(nat \<times> string) option \<Rightarrow> shell \<Rightarrow> hnode list option \<Rightarrow> hnode list option hprog" where
  "h_record_source full_path sh ns =
     (case (ns, full_path) of
        (Some xs, Some full) \<Rightarrow>
          if zp_sevent_count (sh_profile sh) = INT_MAX then hseq (h_drop full_path) (hret ns)
          else hbind (h_new_event sh full xs) (\<lambda>ys. hret (Some ys))
      | _ \<Rightarrow> hseq (h_drop full_path) (hret ns))"

text \<open>\<open>body\<close> is what running the program, or the loop, does with the table.\<close>

definition h_custom_source ::
    "zsh_memory \<Rightarrow> (eprog option \<Rightarrow> shell \<Rightarrow> hnode list option \<Rightarrow> hnode list option hprog) \<Rightarrow> callbacks \<Rightarrow>
     string option \<Rightarrow> shell \<Rightarrow> hnode list option \<Rightarrow> hnode list option hprog" where
  "h_custom_source z body cb so ent ns =
     (case so of
        None \<Rightarrow> hret ns
      | Some s \<Rightarrow>
          let (started, sh1) = zp_read_clock ent; sh2 = add_depth 1 sh1; us = cb_unmeta cb s
          in hbind (h_source_path sh1 s) (\<lambda>record_path. hbind (h_try_source z cb us sh2) (\<lambda>program.
               (case custom_try_source_file cb us sh2 of
                 None \<Rightarrow> h_never
               | Some (prog, sav) \<Rightarrow>
                   let tempfd = cb_open cb us sav
                   in if prog = None \<and> tempfd = -1 then h_record_source record_path (add_depth (- 1) sav) ns
                      else
                        let fd = (if prog = None then Some tempfd else None);
                            sh3 = enter_source cb s fd (sh_scriptfilename ent) sav;
                            (ret, sh4) = run_source cb prog sh3;
                            sh5 = add_depth (- 1) (leave_source cb prog ent sav sh4)
                        in hbind (h_take (zm_stack z)) (\<lambda>cmdstack.
                             hbind (body prog sh3 ns) (\<lambda>ns'.
                               hseq (h_freeeprog z program)
                                 (hseq (h_zfree cmdstack (zm_stack z)) (h_record_source record_path sh5 ns'))))))))"

section \<open>What the table owns\<close>

definition node_blocks :: "hnode \<Rightarrow> (nat \<times> nat) multiset" where
  "node_blocks n = {#(hn_self n, sizeof_sevent_node), (fst (hn_nam n), length (snd (hn_nam n)) + 1),
     (fst (hn_file n), length (snd (hn_file n)) + 1), (fst (hn_full n), length (snd (hn_full n)) + 1)#}"

definition node_ok :: "hnode \<Rightarrow> bool" where
  "node_ok n \<longleftrightarrow> 0 < hn_self n \<and> 0 < fst (hn_nam n) \<and> 0 < fst (hn_file n) \<and> 0 < fst (hn_full n)"

definition nodes_blocks :: "hnode list \<Rightarrow> (nat \<times> nat) multiset" where
  "nodes_blocks ns = (\<Sum>n \<leftarrow> ns. node_blocks n)"

text \<open>The nodes are the events of the table, each under its name.\<close>

definition table_rep :: "hnode list \<Rightarrow> (string \<rightharpoonup> source_event) \<Rightarrow> bool" where
  "table_rep ns tbl \<longleftrightarrow>
     (\<forall>n \<in> set ns. node_ok n) \<and> distinct (map (\<lambda>n. snd (hn_nam n)) ns) \<and>
     map_of (map (\<lambda>n. (snd (hn_nam n), snd (hn_file n), snd (hn_full n))) ns) =
       (\<lambda>k. map_option (\<lambda>e. (ev_file_name e, ev_full_path e)) (tbl k))"

definition table_owned ::
    "hnode list option \<Rightarrow> profile \<Rightarrow> (nat \<times> nat) multiset \<Rightarrow> (nat \<times> nat) multiset \<Rightarrow> bool" where
  "table_owned ns p M N \<longleftrightarrow>
     (case (ns, zp_source_events p) of
        (None, None) \<Rightarrow> N = M
      | (Some xs, Some tbl) \<Rightarrow> table_rep xs tbl \<and> N = nodes_blocks xs + M
      | _ \<Rightarrow> False)"

lemma nodes_blocks_simps [simp]:
  "nodes_blocks [] = {#}" "nodes_blocks (n # ns) = node_blocks n + nodes_blocks ns"
  "nodes_blocks (xs @ ys) = nodes_blocks xs + nodes_blocks ys"
  by (simp_all add: nodes_blocks_def)

lemma nodes_blocks_split: "nodes_blocks ns = nodes_blocks (filter P ns) + nodes_blocks (filter (\<lambda>n. \<not> P n) ns)"
  by (induction ns) (auto simp: ac_simps)

lemma triple_free_node:
  assumes "node_ok n" "Q () M"
  shows "triple L (node_blocks n + M) (zp_free_sevent_node n) Q"
  using assms by (auto simp: zp_free_sevent_node_def node_blocks_def node_ok_def h_zsfree_def
      intro!: triple_seq triple_zfree_in)

lemma triple_free_nodes:
  "\<forall>n \<in> set ns. node_ok n \<Longrightarrow> Q () M \<Longrightarrow> triple L (nodes_blocks ns + M) (h_free_nodes ns) Q"
proof (induction ns)
  case (Cons n ns)
  then show ?case by (auto simp: add.assoc intro!: triple_seq triple_free_node)
qed (simp add: triple_ret)

lemma table_rep_add:
  assumes "table_rep xs tbl" "node_ok n" "snd (hn_nam n) = k" "snd (hn_file n) = ev_file_name e"
    "snd (hn_full n) = ev_full_path e"
  shows "table_rep (filter (\<lambda>m. snd (hn_nam m) \<noteq> k) xs @ [n]) (tbl(k \<mapsto> e))"
proof -
  let ?e = "\<lambda>n. (snd (hn_nam n), snd (hn_file n), snd (hn_full n))"
  have "map_of (map ?e (filter (\<lambda>m. snd (hn_nam m) \<noteq> k) xs @ [n])) j =
      map_option (\<lambda>e. (ev_file_name e, ev_full_path e)) ((tbl(k \<mapsto> e)) j)" for j
  proof (cases "j = k")
    case True
    have "map_of (map ?e (filter (\<lambda>m. snd (hn_nam m) \<noteq> k) xs)) k = None"
      by (auto simp: map_of_eq_None_iff)
    with True assms(3-5) show ?thesis by (simp add: map_add_def)
  next
    case False
    have "map_of (map ?e (filter (\<lambda>m. snd (hn_nam m) \<noteq> k) xs)) j = map_of (map ?e xs) j"
      using False by (induction xs) auto
    with False assms(1,3) show ?thesis
      by (auto simp: map_add_def table_rep_def fun_eq_iff split: option.splits)
  qed
  with assms show ?thesis by (auto simp: table_rep_def fun_eq_iff distinct_map_filter)
qed


lemma triple_addhashnode:
  assumes "table_rep xs tbl" "node_ok n" "snd (hn_nam n) = k" "snd (hn_file n) = ev_file_name e"
    "snd (hn_full n) = ev_full_path e"
    and Q: "\<And>ys. table_rep ys (tbl(k \<mapsto> e)) \<Longrightarrow> Q ys (nodes_blocks ys + M)"
  shows "triple L (node_blocks n + (nodes_blocks xs + M)) (h_addhashnode n xs) Q"
proof -
  let ?old = "filter (\<lambda>m. snd (hn_nam m) = k) xs" and ?new = "filter (\<lambda>m. snd (hn_nam m) \<noteq> k) xs @ [n]"
  have "node_blocks n + (nodes_blocks xs + M) = nodes_blocks ?old + (nodes_blocks ?new + M)"
    using nodes_blocks_split [of xs "\<lambda>m. snd (hn_nam m) = k"] by (simp add: ac_simps)
  moreover have "triple L (nodes_blocks ?old + (nodes_blocks ?new + M)) (h_free_nodes ?old)
      (\<lambda>_ M'. triple L M' (hret ?new) Q)"
    using assms(1) Q [OF table_rep_add [OF assms(1-5)]]
    by (intro triple_free_nodes triple_ret) (auto simp: table_rep_def)
  ultimately show ?thesis unfolding h_addhashnode_def assms(3) by (simp only: triple_seq)
qed

lemma h_link_event_ok:
  assumes "table_rep xs tbl" "0 < node" "0 < f" "0 < fp" "base_name s = ev_file_name e" "s = ev_full_path e"
    and Q: "\<And>ys. table_rep ys (tbl(key \<mapsto> e)) \<Longrightarrow> Q ys (nodes_blocks ys + M)"
  shows "triple L (add_mset (f, length (base_name s) + 1) (add_mset (node, sizeof_sevent_node)
      (add_mset (fp, length s + 1) (nodes_blocks xs + M)))) (h_link_event node f (fp, s) key xs) Q"
  unfolding h_link_event_def
proof (rule triple_bind, rule triple_ztrdup)
  fix k :: nat
  assume k: "0 < k"
  let ?n = "\<lparr>hn_self = node, hn_nam = (k, key), hn_file = (f, base_name (snd (fp, s))), hn_full = (fp, s)\<rparr>"
  have "triple L (node_blocks ?n + (nodes_blocks xs + M)) (h_addhashnode ?n xs) Q"
    using k assms by (intro triple_addhashnode [OF assms(1), where e = e and k = key]) (simp_all add: node_ok_def)
  then show "triple L (add_mset (k, length key + 1) (add_mset (f, length (base_name s) + 1) (add_mset (node, sizeof_sevent_node)
      (add_mset (fp, length s + 1) (nodes_blocks xs + M))))) (h_addhashnode ?n xs) Q"
    by (simp add: node_blocks_def add_mset_commute)
qed

lemma h_new_event_ok:
  assumes "table_rep xs tbl" "0 < fp" "base_name s = ev_file_name e" "s = ev_full_path e"
    and no: "\<not> (w_alloc sh sizeof_sevent_node \<and> w_alloc sh (length (base_name s) + 1)) \<Longrightarrow> Q xs (nodes_blocks xs + M)"
    and yes: "\<And>ys. w_alloc sh sizeof_sevent_node \<Longrightarrow> w_alloc sh (length (base_name s) + 1) \<Longrightarrow>
      table_rep ys (tbl(render_int (zp_sevent_count (sh_profile sh) + 1) \<mapsto> e)) \<Longrightarrow> Q ys (nodes_blocks ys + M)"
  shows "triple L (add_mset (fp, length s + 1) (nodes_blocks xs + M)) (h_new_event sh (fp, s) xs) Q"
  unfolding h_new_event_def snd_conv
proof (intro triple_bind triple_zalloc)
  let ?N = "add_mset (fp, length s + 1) (nodes_blocks xs + M)"
  have drop: "R () (nodes_blocks xs + M) \<Longrightarrow> triple L ?N (h_drop (Some (fp, s))) R" for R
    using assms(2) by (auto simp: h_drop_def intro: triple_zsfree [simplified])
  let ?k = "\<lambda>node f. if f = 0 then hseq (h_drop (Some (fp, s))) (hseq (h_zfree node sizeof_sevent_node) (hret xs))
      else h_link_event node f (fp, s) (render_int (zp_sevent_count (sh_profile sh) + 1)) xs"
  show "triple L ?N (if (0::nat) = 0 then hseq (h_drop (Some (fp, s))) (hret xs)
      else hbind (h_zalloc sh (length (base_name s) + 1)) (?k 0)) Q" if "\<not> w_alloc sh sizeof_sevent_node"
  proof -
    have "triple L ?N (hseq (h_drop (Some (fp, s))) (hret xs)) Q"
      using no that by (intro triple_seq drop triple_ret) simp
    then show ?thesis by simp
  qed
  fix node :: nat
  assume a: "w_alloc sh sizeof_sevent_node" "0 < node"
  let ?N1 = "add_mset (node, sizeof_sevent_node) ?N"
  have "triple L ?N1 (?k node 0) Q" if "\<not> w_alloc sh (length (base_name s) + 1)"
  proof -
    have "triple L (add_mset (fp, length s + 1) (add_mset (node, sizeof_sevent_node) (nodes_blocks xs + M)))
        (h_drop (Some (fp, s))) (\<lambda>_ M'. triple L M' (hseq (h_zfree node sizeof_sevent_node) (hret xs)) Q)"
      using assms(2) a(2) no that
      by (auto simp: h_drop_def intro!: triple_zsfree [simplified] triple_seq triple_zfree triple_ret)
    then show ?thesis by (simp add: triple_seq add_mset_commute)
  qed
  moreover have "triple L (add_mset (f, length (base_name s) + 1) ?N1) (?k node f) Q"
    if "w_alloc sh (length (base_name s) + 1)" "0 < f" for f
    using h_link_event_ok [OF assms(1) a(2) that(2) assms(2,3,4)] yes [OF a(1) that(1)] that(2) by simp
  ultimately show "triple L ?N1 (if node = 0 then hseq (h_drop (Some (fp, s))) (hret xs)
      else hbind (h_zalloc sh (length (base_name s) + 1)) (?k node)) Q"
    using a(2) by (simp add: triple_bind triple_zalloc)
qed

text \<open>\<open>N\<close> is \<open>M\<close> with the copied path.\<close>

lemma triple_drop: "owns r s M N \<Longrightarrow> Q () M \<Longrightarrow> triple L N (h_drop r) Q"
  by (cases r) (auto simp: h_drop_def intro: triple_ret triple_zsfree [simplified])

lemma h_source_path_ok: "triple L M (h_source_path sh s) (\<lambda>r. owns r (zp_source_path sh s) M)"
  by (auto simp: h_source_path_def zp_source_path_def Let_def
      intro!: triple_bind triple_ztrdup triple_zalloc triple_ret)

lemma table_owned_same: "zp_source_events p = zp_source_events q \<Longrightarrow> table_owned ns p M N \<longleftrightarrow> table_owned ns q M N"
  by (simp add: table_owned_def)

lemma h_record:
  assumes t: "table_owned ns (sh_profile sh) M N" and o: "owns r path N N'"
  shows "triple L N' (h_record_source r sh ns)
    (\<lambda>ns'. table_owned ns' (sh_profile (zp_record_source path start d st ex sh)) M)"
proof (cases "zp_source_events (sh_profile sh) \<noteq> None \<and> path \<noteq> None \<and> zp_sevent_count (sh_profile sh) \<noteq> INT_MAX")
  case False
  then have "\<not> recordable path sh" by (auto simp: recordable_def)
  then have e: "zp_source_events (sh_profile (zp_record_source path start d st ex sh)) = zp_source_events (sh_profile sh)"
    by (simp add: record_source_cases Let_def)
  have "triple L N' (hseq (h_drop r) (hret ns)) (\<lambda>ns'. table_owned ns' (sh_profile (zp_record_source path start d st ex sh)) M)"
    using t by (intro triple_seq triple_drop [OF o] triple_ret) (simp add: table_owned_same [OF e])
  moreover have "h_record_source r sh ns = hseq (h_drop r) (hret ns)"
    using False t o by (cases r; cases ns) (auto simp: h_record_source_def table_owned_def split: option.splits)
  ultimately show ?thesis by simp
next
  case True
  then obtain tbl s where tb: "zp_source_events (sh_profile sh) = Some tbl" and s: "path = Some s" by auto
  obtain xs where xs: "ns = Some xs" "table_rep xs tbl" "N = nodes_blocks xs + M"
    using t tb by (cases ns) (auto simp: table_owned_def)
  obtain fp where r: "r = Some (fp, s)" "0 < fp" "N' = add_mset (fp, length s + 1) N"
    using o s by (cases r) auto
  let ?p' = "sh_profile (zp_record_source path start d st ex sh)"
  let ?e = "recorded_event s (sample_elapsed start (sh_clock sh (sh_ticks sh))) (zp_sevent_count (sh_profile sh) + 1) d st ex"
  have "triple L N' (h_new_event sh (fp, s) xs) (\<lambda>ys. table_owned (Some ys) ?p' M)"
    unfolding r(3) xs(3)
  proof (rule h_new_event_ok [OF xs(2) r(2), where e = ?e])
    show "table_owned (Some xs) ?p' M (nodes_blocks xs + M)"
      if "\<not> (w_alloc sh sizeof_sevent_node \<and> w_alloc sh (length (base_name s) + 1))"
      using that xs(2) tb by (auto simp: record_source_cases recordable_def Let_def table_owned_def s)
    show "table_owned (Some ys) ?p' M (nodes_blocks ys + M)"
      if "w_alloc sh sizeof_sevent_node" "w_alloc sh (length (base_name s) + 1)"
        "table_rep ys (tbl(render_int (zp_sevent_count (sh_profile sh) + 1) \<mapsto> ?e))" for ys
      using that True tb by (auto simp: record_source_cases recordable_def Let_def table_owned_def s)
  qed (simp_all add: recorded_event_def)
  then show ?thesis
    using True by (auto simp: h_record_source_def xs(1) r(1) intro!: triple_bind triple_ret elim!: triple_conseq)
qed

section \<open>Sourcing\<close>

text \<open>What does not touch the table and the list of mappings, both of which are static in the file.\<close>

definition keeps_table :: "shell \<Rightarrow> shell \<Rightarrow> bool" where
  "keeps_table sh sh' \<longleftrightarrow>
     zp_source_events (sh_profile sh') = zp_source_events (sh_profile sh) \<and> mapped_files sh' = mapped_files sh"

text \<open>What is owned in a state: the events of the table and the mappings.\<close>

definition shell_owned ::
    "zsh_memory \<Rightarrow> hnode list option \<Rightarrow> shell \<Rightarrow> (nat \<times> nat) multiset \<Rightarrow> (nat \<times> nat) multiset \<Rightarrow> bool" where
  "shell_owned z ns sh M N \<longleftrightarrow>
     (\<exists>D. maps_owned z (mapped_files sh) D \<and> table_owned ns (sh_profile sh) (D + M) N)"

definition table_keeping :: "callbacks \<Rightarrow> bool" where
  "table_keeping cb \<longleftrightarrow>
     (\<forall>file sh. keeps_table sh (cb_zcompile cb file sh)) \<and> (\<forall>pr sh. keeps_table sh (cb_freeeprog cb pr sh)) \<and>
     (\<forall>sh. keeps_table sh (cb_trace cb sh))"

lemma keeps_try:
  assumes "table_keeping cb" "custom_try_source_file cb us sh = Some (prog, sav)"
  shows "zp_source_events (sh_profile sav) = zp_source_events (sh_profile sh)"
proof -
  have "keeps_table sh (compile_step cb us sh)"
    using assms(1) by (simp add: compile_step_def table_keeping_def zwarnnam_def keeps_table_def)
  then show ?thesis
    using prof.obs_try_source [OF assms(2)] by (auto simp: keeps_table_def split: if_splits)
qed

lemma keeps_compile: "table_keeping cb \<Longrightarrow> keeps_table sh (compile_step cb us sh)"
  by (simp add: compile_step_def table_keeping_def zwarnnam_def keeps_table_def)

lemma keeps_enter: "table_keeping cb \<Longrightarrow> keeps_table sh (enter_source cb s fd o1 sh)"
  by (auto simp: enter_source_def Let_def set_shinstdin_def table_keeping_def keeps_table_def split: option.splits)

lemma keeps_leave: "table_keeping cb \<Longrightarrow> keeps_table sh (leave_source cb prog ent sav sh)"
  by (cases prog) (auto simp: leave_source_def Let_def set_shinstdin_def table_keeping_def keeps_table_def)

lemma shell_owned_keeps: "keeps_table sh sh' \<Longrightarrow> shell_owned z ns sh' M N \<longleftrightarrow> shell_owned z ns sh M N"
  using table_owned_same [of "sh_profile sh'" "sh_profile sh"] by (simp add: shell_owned_def keeps_table_def)

text \<open>Other blocks \<open>K\<close> beside the table.\<close>

lemma table_owned_beside:
  "table_owned ns p M N \<Longrightarrow> table_owned ns p (K + M) (K + N)"
  "table_owned ns p (K + M) N \<Longrightarrow> \<exists>N'. N = K + N' \<and> table_owned ns p M N'"
  by (cases ns; cases "zp_source_events p"; simp add: table_owned_def ac_simps)+

lemma shell_owned_beside:
  "shell_owned z ns sh M N \<Longrightarrow> shell_owned z ns sh (K + M) (K + N)"
  "shell_owned z ns sh (K + M) N \<Longrightarrow> \<exists>N'. N = K + N' \<and> shell_owned z ns sh M N'"
proof -
  have c: "D + (K + M) = K + (D + M)" for D by (simp add: ac_simps)
  show "shell_owned z ns sh M N \<Longrightarrow> shell_owned z ns sh (K + M) (K + N)"
    unfolding shell_owned_def c using table_owned_beside(1) by blast
  show "shell_owned z ns sh (K + M) N \<Longrightarrow> \<exists>N'. N = K + N' \<and> shell_owned z ns sh M N'"
    unfolding shell_owned_def c using table_owned_beside(2) by blast
qed

definition own_block :: "(nat \<times> string) option \<Rightarrow> (nat \<times> nat) multiset" where
  "own_block r = (case r of None \<Rightarrow> {#} | Some (p, s) \<Rightarrow> {#(p, length s + 1)#})"

lemma owns_block:
  assumes "owns r s M N" shows "N = own_block r + M" "owns r s M' (own_block r + M')"
  using assms by (cases r; auto simp: own_block_def)+

lemma h_record_shell:
  assumes "shell_owned z ns sh M N" "owns r path N N'"
  shows "triple L N' (h_record_source r sh ns) (\<lambda>ns'. shell_owned z ns' (zp_record_source path start d st ex sh) M)"
proof -
  obtain D where D: "maps_owned z (mapped_files sh) D" "table_owned ns (sh_profile sh) (D + M) N"
    using assms(1) by (auto simp: shell_owned_def)
  have "sh_dumps (zp_record_source path start d st ex sh) = sh_dumps sh"
    by (subst record_source_frame) simp
  with D(1) show ?thesis
    by (intro triple_conseq [OF h_record [OF D(2) assms(2)]]) (auto simp: shell_owned_def)
qed

text \<open>Before and after the search, with the copied path beside.\<close>

lemma h_try_shell:
  assumes z: "zsh_releases z" and cb: "table_keeping cb" and t: "custom_try_source_file cb us sh = Some (prog, sav)"
    and o: "shell_owned z ns sh M N"
    and Q: "\<And>g N'. (g \<noteq> None \<longleftrightarrow> prog \<noteq> None) \<Longrightarrow> \<forall>p. g = Some p \<longrightarrow> prog_ok p \<Longrightarrow> shell_owned z ns sav M N' \<Longrightarrow>
      Q g (prog_owned z g + (K + N'))"
  shows "triple L (K + N) (h_try_source z cb us sh) Q"
proof -
  obtain D where D: "maps_owned z (mapped_files sh) D" "table_owned ns (sh_profile sh) (D + M) N"
    using o by (auto simp: shell_owned_def)
  obtain N' where N: "N = D + N'" "table_owned ns (sh_profile sh) M N'"
    using table_owned_beside(2) [OF D(2)] by blast
  have sav: "table_owned ns (sh_profile sav) M N'"
    using N(2) table_owned_same [OF keeps_try [OF cb t]] by simp
  have own: "shell_owned z ns sav M (D' + N')" if "maps_owned z (mapped_files sav) D'" for D'
    unfolding shell_owned_def by (intro exI [of _ D'] conjI that table_owned_beside(1) [OF sav])
  have "maps_owned z (mapped_files (if has_suffix FD_EXT us then sh else compile_step cb us sh)) D"
    using D(1) keeps_compile [OF cb, of sh us] by (simp add: keeps_table_def)
  from h_try_source_ok [OF z t this, where M = "K + N'"]
  have "triple L (D + (K + N')) (h_try_source z cb us sh) Q"
  proof (rule triple_conseq)
    fix g R
    assume s: "searched z (prog \<noteq> None) sav (K + N') g R"
    then obtain D' where d: "maps_owned z (mapped_files sav) D'" "R = prog_owned z g + (D' + (K + N'))"
      by (auto simp: searched_def)
    have "R = prog_owned z g + (K + (D' + N'))" using d(2) by (simp add: ac_simps)
    with s Q [OF _ _ own [OF d(1)]] show "Q g R" by (simp add: searched_def)
  qed
  then show ?thesis by (simp add: N(1) ac_simps)
qed

definition body_keeps ::
    "zsh_memory \<Rightarrow> callbacks \<Rightarrow> (eprog option \<Rightarrow> shell \<Rightarrow> hnode list option \<Rightarrow> hnode list option hprog) \<Rightarrow>
     (nat \<rightharpoonup> nat) \<Rightarrow> bool" where
  "body_keeps z cb body L \<longleftrightarrow>
     (\<forall>prog x ns M N. shell_owned z ns x M N \<longrightarrow>
        triple L N (body prog x ns) (\<lambda>ns'. shell_owned z ns' (snd (run_source cb prog x)) M))"

text \<open>From the command stack to the record, with the program \<open>g\<close> and the copied path \<open>rp\<close>.\<close>

lemma h_run_ok:
  assumes z: "zsh_releases z" and g: "\<forall>p. g = Some p \<longrightarrow> prog_ok p"
    and b: "\<And>M N. shell_owned z ns x M N \<Longrightarrow> triple L N body (\<lambda>ns'. shell_owned z ns' y M)"
    and k: "keeps_table y y'" and o: "shell_owned z ns x M N"
    and rp: "\<And>N. owns rp path N (own_block rp + N)"
  shows "triple L (prog_owned z g + (own_block rp + N))
    (hbind (h_take stacksz) (\<lambda>cmdstack. hbind body (\<lambda>ns'.
       hseq (h_freeeprog z g) (hseq (h_zfree cmdstack stacksz) (h_record_source rp y' ns')))))
    (\<lambda>ns'. shell_owned z ns' (zp_record_source path start d st ex y') M)"
proof (intro triple_bind triple_take)
  fix c :: nat
  assume c: "0 < c"
  let ?K = "prog_owned z g + add_mset (c, stacksz) (own_block rp)"
  let ?Q = "\<lambda>ns'. shell_owned z ns' (zp_record_source path start d st ex y') M"
  have post: "triple L N3 (hseq (h_freeeprog z g) (hseq (h_zfree c stacksz) (h_record_source rp y' ns'))) ?Q"
    if o4: "shell_owned z ns' y (?K + M) N3" for ns' N3
  proof -
    obtain N' where n: "N3 = ?K + N'" "shell_owned z ns' y M N'"
      using shell_owned_beside(2) [OF o4] by blast
    have o5: "shell_owned z ns' y' M N'" using n(2) shell_owned_keeps [OF k] by simp
    have "triple L (prog_owned z g + (add_mset (c, stacksz) (own_block rp + N')))
        (hseq (h_freeeprog z g) (hseq (h_zfree c stacksz) (h_record_source rp y' ns'))) ?Q"
      by (intro triple_seq triple_freeeprog [OF z g] triple_zfree c h_record_shell [OF o5 rp])
    then show ?thesis by (simp add: n(1) ac_simps)
  qed
  have "triple L (?K + N) body (\<lambda>ns' M'. triple L M'
      (hseq (h_freeeprog z g) (hseq (h_zfree c stacksz) (h_record_source rp y' ns'))) ?Q)"
    by (rule triple_conseq [OF b [OF shell_owned_beside(1) [OF o]]]) (rule post)
  then show "triple L (add_mset (c, stacksz) (prog_owned z g + (own_block rp + N))) body (\<lambda>ns' M'. triple L M'
      (hseq (h_freeeprog z g) (hseq (h_zfree c stacksz) (h_record_source rp y' ns'))) ?Q)"
    by (simp add: ac_simps)
qed

lemma keeps_depth: "keeps_table x (add_depth k x)"
  by (simp add: keeps_table_def add_depth_def)

lemma keeps_trans: "keeps_table a b \<Longrightarrow> keeps_table b c \<Longrightarrow> keeps_table a c"
  by (simp add: keeps_table_def)

lemma h_custom_source_ok:
  assumes z: "zsh_releases z" and cb: "table_keeping cb" and body: "body_keeps z cb body L"
    and t: "shell_owned z ns ent M N" and r: "custom_source cb so ent = Some (ret, out)"
  shows "triple L N (h_custom_source z body cb so ent ns) (\<lambda>ns'. shell_owned z ns' out M)"
proof (cases so)
  case None
  then show ?thesis using t r by (simp add: h_custom_source_def custom_source_def triple_ret)
next
  case (Some s)
  obtain started sh1 where c: "zp_read_clock ent = (started, sh1)" by fastforce
  let ?us = "cb_unmeta cb s" and ?s2 = "add_depth 1 sh1"
  obtain prog sav where tr: "custom_try_source_file cb ?us ?s2 = Some (prog, sav)"
    using r Some c by (auto simp: custom_source_def Let_def split: option.splits)
  have "keeps_table ent sh1" using c by (auto simp: zp_read_clock_def keeps_table_def)
  then have t2: "shell_owned z ns ?s2 M N"
    using t keeps_depth [of sh1 1] by (simp only: shell_owned_keeps)
  let ?fd = "if prog = None then Some (cb_open cb ?us sav) else None"
  define sh3 where "sh3 = enter_source cb s ?fd (sh_scriptfilename ent) sav"
  obtain rt sh4 where run: "run_source cb prog sh3 = (rt, sh4)" by fastforce
  define sh5 where "sh5 = add_depth (- 1) (leave_source cb prog ent sav sh4)"
  let ?rec = "\<lambda>st ex. zp_record_source (zp_source_path sh1 s) started (zp_source_depth (sh_profile ?s2)) st ex"
  let ?lost = "prog = None \<and> cb_open cb ?us sav = -1"
  let ?rest = "\<lambda>rp g. if ?lost then h_record_source rp (add_depth (- 1) sav) ns
     else hbind (h_take (zm_stack z)) (\<lambda>cmdstack. hbind (body prog sh3 ns) (\<lambda>ns'.
            hseq (h_freeeprog z g) (hseq (h_zfree cmdstack (zm_stack z)) (h_record_source rp sh5 ns'))))"
  have prog: "h_custom_source z body cb so ent ns =
      hbind (h_source_path sh1 s) (\<lambda>rp. hbind (h_try_source z cb ?us ?s2) (?rest rp))"
    unfolding h_custom_source_def Some option.case c prod.case Let_def tr sh3_def [symmetric] run
      sh5_def [symmetric] by (rule refl)
  obtain st ex where out: "out = ?rec st ex (if ?lost then add_depth (- 1) sav else sh5)"
    using r unfolding custom_source_def Some option.case c prod.case Let_def tr sh3_def [symmetric] run
      sh5_def [symmetric] by (auto split: if_splits)
  have rest: "triple L (prog_owned z g + (own_block rp + N')) (?rest rp g) (\<lambda>ns'. shell_owned z ns' out M)"
    if rp: "\<And>N. owns rp (zp_source_path sh1 s) N (own_block rp + N)"
      and g: "g \<noteq> None \<longleftrightarrow> prog \<noteq> None" "\<forall>p. g = Some p \<longrightarrow> prog_ok p" and o: "shell_owned z ns sav M N'"
    for rp g N'
  proof (cases ?lost)
    case True
    have "shell_owned z ns (add_depth (- 1) sav) M N'" using o by (simp add: shell_owned_keeps [OF keeps_depth])
    from h_record_shell [OF this rp] True g(1) show ?thesis by (simp add: out prog_owned_def)
  next
    case False
    have "shell_owned z ns sh3 M N'"
      unfolding sh3_def using o by (simp add: shell_owned_keeps [OF keeps_enter [OF cb]])
    moreover have "triple L N (body prog sh3 ns) (\<lambda>ns'. shell_owned z ns' sh4 M)" if "shell_owned z ns sh3 M N" for M N
      using body that run unfolding body_keeps_def by (metis snd_conv)
    moreover have "keeps_table sh4 sh5"
      unfolding sh5_def by (rule keeps_trans [OF keeps_leave [OF cb] keeps_depth])
    ultimately have "triple L (prog_owned z g + (own_block rp + N'))
        (hbind (h_take (zm_stack z)) (\<lambda>cmdstack. hbind (body prog sh3 ns) (\<lambda>ns'.
           hseq (h_freeeprog z g) (hseq (h_zfree cmdstack (zm_stack z)) (h_record_source rp sh5 ns')))))
        (\<lambda>ns'. shell_owned z ns' (?rec st ex sh5) M)"
      by (intro h_run_ok [OF z g(2) _ _ _ rp]) assumption+
    with False show ?thesis unfolding out by (simp only: if_False if_cancel simp_thms cong: if_cong)
  qed
  show ?thesis
    unfolding prog
  proof (rule triple_bind, rule triple_conseq [OF h_source_path_ok])
    fix rp N1
    assume o: "owns rp (zp_source_path sh1 s) N N1"
    have "triple L (own_block rp + N) (h_try_source z cb ?us ?s2)
        (\<lambda>g M'. triple L M' (?rest rp g) (\<lambda>ns'. shell_owned z ns' out M))"
      by (rule h_try_shell [OF z cb tr t2]) (rule rest [OF owns_block(2) [OF o]])
    then show "triple L N1 (hbind (h_try_source z cb ?us ?s2) (?rest rp)) (\<lambda>ns'. shell_owned z ns' out M)"
      unfolding owns_block(1) [OF o] by (rule triple_bind)
  qed
qed

section \<open>Trees of calls\<close>

definition h_sourcing ::
    "zsh_memory \<Rightarrow> (eprog option \<Rightarrow> shell \<Rightarrow> hnode list option \<Rightarrow> hnode list option hprog) \<Rightarrow> callbacks \<Rightarrow> string \<Rightarrow>
     shell \<Rightarrow> hnode list option \<Rightarrow> hnode list option hprog" where
  "h_sourcing z body cb s sh ns =
     (if custom_source cb (Some s) sh = None then hret ns else h_custom_source z body cb (Some s) sh ns)"

fun h_with_calls ::
    "callbacks \<Rightarrow> (string \<times> callbacks \<times> (shell \<Rightarrow> hnode list option \<Rightarrow> hnode list option hprog)) list \<Rightarrow>
     shell \<Rightarrow> hnode list option \<Rightarrow> hnode list option hprog" where
  "h_with_calls cb [] sh ns = hret ns"
| "h_with_calls cb ((s, cb', call) # ks) sh ns =
     hbind (call sh ns) (\<lambda>ns'. h_with_calls cb ks (snd (cb_loop cb (sourcing cb' s sh))) ns')"

definition script_body ::
    "callbacks \<Rightarrow> (string \<times> callbacks \<times> (shell \<Rightarrow> hnode list option \<Rightarrow> hnode list option hprog)) list \<Rightarrow>
     eprog option \<Rightarrow> shell \<Rightarrow> hnode list option \<Rightarrow> hnode list option hprog" where
  "script_body cb ks prog sh ns =
     h_with_calls cb ks
       (case prog of
          None \<Rightarrow> snd (cb_loop cb sh)
        | Some pr \<Rightarrow> cb_execode cb pr (sh\<lparr>sh_errflag := sh_errflag sh AND NOT ERRFLAG_ERROR\<rparr>)) ns"

fun h_script :: "zsh_memory \<Rightarrow> callbacks \<Rightarrow> script \<Rightarrow> shell \<Rightarrow> hnode list option \<Rightarrow> hnode list option hprog" where
  "h_script z cb (Script s ks) =
     h_sourcing z (script_body cb (map (\<lambda>k. (sc_path k, script_cb cb k, h_script z cb k)) ks))
       (script_cb cb (Script s ks)) s"

text \<open>The shell itself leaves the event table alone.\<close>

definition script_keeping :: "callbacks \<Rightarrow> bool" where
  "script_keeping cb \<longleftrightarrow> table_keeping cb \<and> (\<forall>sh. keeps_table sh (snd (cb_loop cb sh))) \<and>
     (\<forall>pr sh. keeps_table sh (cb_execode cb pr sh))"

lemma h_with_calls_ok:
  assumes cb: "script_keeping cb"
    and IH: "\<And>k ns sh M N. k \<in> set ks \<Longrightarrow> shell_owned z ns sh M N \<Longrightarrow>
      triple L N (h_script z cb k sh ns)
        (\<lambda>ns'. shell_owned z ns' (sourcing (script_cb cb k) (sc_path k) sh) M)"
    and t: "shell_owned z ns sh M N"
  shows "triple L N (h_with_calls cb (map (\<lambda>k. (sc_path k, script_cb cb k, h_script z cb k)) ks) sh ns)
    (\<lambda>ns'. shell_owned z ns' (with_calls cb (map (\<lambda>k. (sc_path k, script_cb cb k)) ks) sh) M)"
  using IH t
proof (induction ks arbitrary: sh ns N)
  case (Cons k ks)
  let ?sh = "sourcing (script_cb cb k) (sc_path k) sh"
  let ?sh' = "snd (cb_loop cb ?sh)"
  let ?rest = "h_with_calls cb (map (\<lambda>k. (sc_path k, script_cb cb k, h_script z cb k)) ks) ?sh'"
  have "keeps_table ?sh ?sh'" using cb by (simp add: script_keeping_def)
  then have "shell_owned z ns' ?sh M N' \<Longrightarrow>
      triple L N' (?rest ns') (\<lambda>ns'. shell_owned z ns' (with_calls cb (map (\<lambda>k. (sc_path k, script_cb cb k)) ks) ?sh') M)"
    for ns' N'
    using Cons.prems(1) by (intro Cons.IH) (simp_all add: shell_owned_keeps)
  then have "triple L N (h_script z cb k sh ns) (\<lambda>ns' N'. triple L N' (?rest ns')
      (\<lambda>ns'. shell_owned z ns' (with_calls cb (map (\<lambda>k. (sc_path k, script_cb cb k)) ks) ?sh') M))"
    using Cons.prems by (intro triple_conseq [OF Cons.prems(1)]) simp_all
  then show ?case by (simp add: with_calls_def triple_bind)
qed (simp add: with_calls_def triple_ret)

lemma script_body_keeps:
  assumes cb: "script_keeping cb"
    and IH: "\<And>k ns sh M N. k \<in> set ks \<Longrightarrow> shell_owned z ns sh M N \<Longrightarrow>
      triple L N (h_script z cb k sh ns)
        (\<lambda>ns'. shell_owned z ns' (sourcing (script_cb cb k) (sc_path k) sh) M)"
  shows "body_keeps z (calling cb (map (\<lambda>k. (sc_path k, script_cb cb k)) ks))
    (script_body cb (map (\<lambda>k. (sc_path k, script_cb cb k, h_script z cb k)) ks)) L"
  unfolding body_keeps_def
proof (intro allI impI)
  fix prog ns M N and x :: shell
  assume t: "shell_owned z ns x M N"
  let ?ks = "map (\<lambda>k. (sc_path k, script_cb cb k)) ks"
  let ?x = "case prog of None \<Rightarrow> snd (cb_loop cb x)
    | Some pr \<Rightarrow> cb_execode cb pr (x\<lparr>sh_errflag := sh_errflag x AND NOT ERRFLAG_ERROR\<rparr>)"
  have "keeps_table x ?x"
    using cb by (cases prog) (simp_all add: script_keeping_def keeps_table_def)
  then have "shell_owned z ns ?x M N" using t by (simp only: shell_owned_keeps)
  from h_with_calls_ok [OF cb IH this]
  have "triple L N (script_body cb (map (\<lambda>k. (sc_path k, script_cb cb k, h_script z cb k)) ks) prog x ns)
      (\<lambda>ns'. shell_owned z ns' (with_calls cb ?ks ?x) M)" by (simp add: script_body_def)
  moreover have "keeps_table (with_calls cb ?ks ?x) (snd (run_source (calling cb ?ks) prog x))"
    by (cases prog) (auto simp: keeps_table_def run_source_def calling_def Let_def split: loop_return.splits prod.splits)
  ultimately show "triple L N (script_body cb (map (\<lambda>k. (sc_path k, script_cb cb k, h_script z cb k)) ks) prog x ns)
      (\<lambda>ns'. shell_owned z ns' (snd (run_source (calling cb ?ks) prog x)) M)"
    by (elim triple_conseq) (simp only: shell_owned_keeps)
qed

lemma h_script_ok:
  assumes z: "zsh_releases z" and cb: "script_keeping cb"
  shows "shell_owned z ns sh M N \<Longrightarrow>
    triple L N (h_script z cb t sh ns)
      (\<lambda>ns'. shell_owned z ns' (sourcing (script_cb cb t) (sc_path t) sh) M)"
proof (induction t arbitrary: ns sh M N)
  case (Script s ks)
  let ?cb = "script_cb cb (Script s ks)"
  let ?body = "script_body cb (map (\<lambda>k. (sc_path k, script_cb cb k, h_script z cb k)) ks)"
  have "body_keeps z ?cb ?body L" using script_body_keeps [OF cb Script.IH] by simp
  moreover have "table_keeping ?cb" using cb by (simp add: script_keeping_def table_keeping_def calling_def)
  ultimately have "custom_source ?cb (Some s) sh = Some (ret, out) \<Longrightarrow>
      triple L N (h_custom_source z ?body ?cb (Some s) sh ns) (\<lambda>ns'. shell_owned z ns' out M)" for ret out
    using Script.prems by (intro h_custom_source_ok [OF z]) auto
  with Script.prems show ?case
    by (cases "custom_source ?cb (Some s) sh")
      (auto simp: h_sourcing_def sourcing_def simp del: script_cb.simps intro: triple_ret)
qed

lemma h_delete:
  "table_owned ns p M N \<Longrightarrow> triple L N (h_delete_table ns) (\<lambda>r M'. r = None \<and> M' = M)"
  by (cases ns; cases "zp_source_events p")
    (auto simp: table_owned_def table_rep_def h_delete_table_def intro!: triple_seq triple_free_nodes triple_ret)

section \<open>Property\<close>

text \<open>
  C14: A tree of scripts is sourced, compiled, mapped or neither, found or not, with any dump, damaged
  ones included, and with any tested allocation refused.  No block is released twice and none that is
  not live.  Every release by this file is told the size the block has, but for two that are not: the
  copy of the script's directory and the block of a program that the dump does not hold to its end
  (\<open>try_source_short_size\<close>, \<open>real_prog_short_size\<close>), for which the release of zsh is taken to ignore
  the size, as its default allocator does.  Afterwards, besides the blocks of others, exactly the four
  blocks of each recorded event are live, with the names and paths of the events, and the two of
  each mapping; deleting the table as the module does when it is unloaded gives back the events, and
  leaves the two blocks of each mapping.
\<close>

theorem profile_memory_exact:
  assumes "zsh_releases z" "script_keeping cb" "shell_owned z ns sh {#} N" "holds L N h"
  shows "let out = sourcing (script_cb cb t) (sc_path t) sh in
    \<exists>ns' h' M D h''. h_script z cb t sh ns h = Some (ns', h') \<and> holds L M h' \<and>
      table_owned ns' (sh_profile out) D M \<and> maps_owned z (mapped_files out) D \<and>
      h_delete_table ns' h' = Some (None, h'') \<and> holds L D h''"
proof -
  let ?out = "sourcing (script_cb cb t) (sc_path t) sh"
  obtain ns' h' M where r: "h_script z cb t sh ns h = Some (ns', h')" "shell_owned z ns' ?out {#} M" "holds L M h'"
    using tripleD [OF h_script_ok [OF assms(1-3)] assms(4)] by blast
  obtain D where D: "maps_owned z (mapped_files ?out) D" "table_owned ns' (sh_profile ?out) D M"
    using r(2) by (auto simp: shell_owned_def)
  from tripleD [OF h_delete [OF D(2)] r(3)] r D show ?thesis unfolding Let_def by blast
qed

lemma add_events_last:
  assumes "es \<noteq> []" "zp_source_events p \<noteq> None"
  shows "\<exists>tbl k. zp_source_events (add_events es p) = Some tbl \<and> tbl k = Some (last es)"
proof -
  obtain xs e where es: "es = xs @ [e]" using assms(1) by (cases es rule: rev_cases) auto
  have "zp_source_events (add_events xs p) \<noteq> None" using assms(2) by (simp del: not_None_eq)
  then obtain m where "zp_source_events (add_events xs p) = Some m" by blast
  then show ?thesis
    by (intro exI [of _ "m(render_int (zp_sevent_count (add_events xs p) + 1) \<mapsto> e)"] exI
        [of _ "render_int (zp_sevent_count (add_events xs p) + 1)"]) (simp add: es add_event_def)
qed

lemma tree_example_table:
  "\<exists>tbl k e. zp_source_events (sh_profile (sourcing (script_cb cb_example tree_example) (sc_path tree_example) steady_shell)) =
     Some tbl \<and> tbl k = Some e \<and> ev_full_path e = ''/a''"
proof -
  obtain ret out es where o: "custom_source (script_cb cb_example tree_example) (Some (sc_path tree_example)) steady_shell = Some (ret, out)"
    "tree_run (\<lambda>n. min n 1000) tree_example steady_shell out es"
    using tree_runs [OF tree_example_start] by blast
  then have es: "map ev_full_path es = completion tree_example" "sh_profile out = add_events es (sh_profile steady_shell)"
    by (auto simp: tree_run_def profiled_paths)
  have "zp_source_events (sh_profile steady_shell) \<noteq> None" by (simp add: steady_shell_def shell0_simps profile0_def)
  from add_events_last [OF _ this, of es] es o(1) show ?thesis
    by (cases es rule: rev_cases) (auto simp: tree_example_def sourcing_def)
qed

definition zsh_example :: zsh_memory where
  "zsh_example = \<lparr>zm_stack = 256, zm_eprog = 72, zm_funcdump = 64, zm_zfree = h_free,
     zm_freeeprog = (\<lambda>g. hseq (h_free (hg_pats g) (hg_size g)) (h_free (hg_self g) 72))\<rparr>"

lemma zsh_example_releases: "zsh_releases zsh_example"
  by (auto simp: zsh_releases_def zsh_example_def prog_blocks_def prog_ok_def add_mset_commute
      intro!: triple_seq triple_free)

theorem profile_memory_exact_witness:
  "\<exists>ns h' h'' D. h_script zsh_example cb_example tree_example steady_shell (Some []) heap0 = Some (Some ns, h') \<and>
     ''/a'' \<in> (\<lambda>n. snd (hn_full n)) ` set ns \<and> holds Map.empty (nodes_blocks ns + D) h' \<and>
     h_delete_table (Some ns) h' = Some (None, h'') \<and> holds Map.empty D h''"
proof -
  let ?out = "sourcing (script_cb cb_example tree_example) (sc_path tree_example) steady_shell"
  have "script_keeping cb_example"
    by (simp add: script_keeping_def table_keeping_def keeps_table_def cb_example_def)
  moreover have "sh_dumps steady_shell = []"
    by (simp add: steady_shell_def shell0_def world.defs)
  then have "shell_owned zsh_example (Some []) steady_shell {#} {#}"
    by (simp add: shell_owned_def table_owned_def table_rep_def steady_shell_def shell0_simps profile0_def fun_eq_iff)
  moreover have "holds Map.empty {#} heap0" by (simp add: holds_empty) (simp add: heap0_def)
  ultimately obtain ns h' h'' M D where
    r: "h_script zsh_example cb_example tree_example steady_shell (Some []) heap0 = Some (ns, h')"
    "holds Map.empty M h'" "table_owned ns (sh_profile ?out) D M" "h_delete_table ns h' = Some (None, h'')"
    "holds Map.empty D h''"
    using profile_memory_exact [OF zsh_example_releases, where cb = cb_example and ns = "Some []" and sh = steady_shell
        and N = "{#}" and L = Map.empty and h = heap0 and t = tree_example]
    unfolding Let_def by blast
  obtain tbl k e where t: "zp_source_events (sh_profile ?out) = Some tbl" "tbl k = Some e" "ev_full_path e = ''/a''"
    using tree_example_table by blast
  obtain xs where xs: "ns = Some xs" "table_rep xs tbl" "M = nodes_blocks xs + D"
    using r(3) by (cases ns) (auto simp: table_owned_def t(1))
  have "map_of (map (\<lambda>n. (snd (hn_nam n), snd (hn_file n), snd (hn_full n))) xs) k = Some (ev_file_name e, ''/a'')"
    using xs(2) t by (simp add: table_rep_def fun_eq_iff)
  then have "''/a'' \<in> (\<lambda>n. snd (hn_full n)) ` set xs" by (force dest: map_of_SomeD)
  with r xs show ?thesis by auto
qed

end
