(* ===== verification/Zp_Fs_Memory.thy ===== *)
theory Zp_Fs_Memory
  imports Zp_Bundle_Memory Zp_Readfile
begin

text \<open>
  The memory and the descriptors of the file system commands (\<open>src/core/fs.c\<close>) and of
  \<open>zp_unmetafy_zalloc\<close> (\<open>src/core/utils.c\<close>).  An open file is a block of size 0, like a directory
  stream; a mapping is a block of its own kind.  The releases that are told a size one too small
  are made with a \<open>zf\<close> that is either zsh's default \<open>zfree\<close>, which ignores the size, or the exact one.
\<close>

section \<open>Descriptors\<close>

definition hfault :: "'a hprog" where "hfault h = None"

definition h_open :: "nat hprog" where "h_open = h_take 0"
definition h_close_fd :: "nat \<Rightarrow> unit hprog" where "h_close_fd fd = h_zfree fd 0"

section \<open>Unmetafying\<close>

text \<open>The duplicate is released with its length, which is one less than its size.\<close>

definition h_unmetafy_zalloc ::
    "(nat \<Rightarrow> nat \<Rightarrow> unit hprog) \<Rightarrow> (string \<Rightarrow> string) \<Rightarrow> 'w world_scheme \<Rightarrow> string option \<Rightarrow>
     (nat \<times> string) option hprog" where
  "h_unmetafy_zalloc zf unmetafy w to_copy =
     (case my_ztrdup_glen to_copy of
        None \<Rightarrow> hret None
      | Some (t, n) \<Rightarrow>
          hbind (h_take ((n + 1) mod 4294967296)) (\<lambda>work.
            let u = unmetafy t
            in hbind (h_zalloc w (length u + 1)) (\<lambda>p.
                 hseq (zf work n) (hret (if p = 0 then None else Some (p, u))))))"

lemma h_unmetafy_ok:
  assumes "\<And>r N. owns r (map_option fst (zp_unmetafy_zalloc unmetafy w to_copy)) M N \<Longrightarrow> Q r N"
  shows "triple L M (h_unmetafy_zalloc h_free unmetafy w to_copy) Q"
proof (cases "my_ztrdup_glen to_copy")
  case None
  then show ?thesis
    using assms [of None M] by (auto simp: h_unmetafy_zalloc_def zp_unmetafy_zalloc_def intro: triple_ret)
next
  case (Some tn)
  obtain t n where tn: "tn = (t, n)" by fastforce
  let ?u = "unmetafy t" and ?s = "(n + 1) mod 4294967296"
  have d: "map_option fst (zp_unmetafy_zalloc unmetafy w to_copy) =
      (if w_alloc w (length ?u + 1) then Some ?u else None)"
    by (simp add: zp_unmetafy_zalloc_def Some tn Let_def)
  have "triple L (add_mset (work, ?s) M) (h_zalloc w (length ?u + 1)) (\<lambda>p N.
      triple L N (hseq (h_free work n) (hret (if p = 0 then None else Some (p, ?u)))) Q)"
    if "0 < work" for work
  proof (rule triple_zalloc)
    fix p :: nat
    assume p: "w_alloc w (length ?u + 1)" "0 < p"
    have "Q (Some (p, ?u)) (add_mset (p, length ?u + 1) M)" using assms [of "Some (p, ?u)"] p d by simp
    then show "triple L (add_mset (p, length ?u + 1) (add_mset (work, ?s) M))
        (hseq (h_free work n) (hret (if p = 0 then None else Some (p, ?u)))) Q"
      using that p(2) unfolding add_mset_commute [of _ "(work, ?s)"]
      by (auto intro!: triple_seq triple_free triple_ret)
  next
    assume "\<not> w_alloc w (length ?u + 1)"
    then have "Q None M" using assms [of None M] d by simp
    then show "triple L (add_mset (work, ?s) M)
        (hseq (h_free work n) (hret (if (0 :: nat) = 0 then None else Some (0, ?u)))) Q"
      using that by (auto intro!: triple_seq triple_free triple_ret)
  qed
  then show ?thesis
    unfolding h_unmetafy_zalloc_def Some tn option.case prod.case Let_def
    by (intro triple_bind triple_take)
qed

text \<open>With the exact release the short size is a fault.\<close>

lemma unmetafy_short_size:
  assumes "0 < hp_next h"
  shows "h_unmetafy_zalloc h_zfree unmetafy w (Some s) h = None"
proof -
  define n where "n = length s mod 4294967296"
  define k where "k = (n + 1) mod 4294967296"
  have "n < 4294967296" unfolding n_def by simp
  then have nk: "k \<noteq> n"
    by (cases "n + 1 = 4294967296") (simp_all add: k_def)
  have g: "my_ztrdup_glen (Some s) = Some (take n s, n)" by (simp add: my_ztrdup_glen_def n_def Let_def)
  have "hseq (h_zfree (hp_next h) n) f h' = None"
    if "hp_live h' (hp_next h) = Some k" for h' and f :: "(nat \<times> string) option hprog"
    using that nk assms by (simp add: hseq_def hbind_def h_zfree_def)
  then show ?thesis
    unfolding h_unmetafy_zalloc_def g option.case prod.case Let_def k_def [symmetric]
    by (simp add: hbind_def h_take_def h_zalloc_def hret_def)
qed


section \<open>path-stat and dir-list\<close>

fun h_pathstat_loop ::
    "(nat \<Rightarrow> nat \<Rightarrow> unit hprog) \<Rightarrow> (string \<Rightarrow> string) \<Rightarrow> bool \<Rightarrow> string option \<Rightarrow> 'w world_scheme \<Rightarrow>
     string list \<Rightarrow> int hprog" where
  "h_pathstat_loop zf unmetafy follow flds w [] = hret 0"
| "h_pathstat_loop zf unmetafy follow flds w (p # ps) =
     hbind (h_unmetafy_zalloc zf unmetafy w (Some p)) (\<lambda>r.
       case r of
         None \<Rightarrow> hret 1
       | Some (q, p_in) \<Rightarrow>
           (case stat_record flds p_in ((if follow then w_stat w else w_lstat w) (cstr p_in)) of
              None \<Rightarrow> hfault
            | Some _ \<Rightarrow>
                hseq (h_zfree q (length p_in + 1)) (h_pathstat_loop zf unmetafy follow flds w ps)))"

definition h_dirlist ::
    "(nat \<Rightarrow> nat \<Rightarrow> unit hprog) \<Rightarrow> (string \<Rightarrow> string) \<Rightarrow> 'w world_scheme \<Rightarrow> string \<Rightarrow> int hprog" where
  "h_dirlist zf unmetafy w dir =
     hbind (h_unmetafy_zalloc zf unmetafy w (Some dir)) (\<lambda>r.
       case r of
         None \<Rightarrow> hret 1
       | Some (q, udir) \<Rightarrow>
           (case w_dir w (cstr udir) of
              Inl _ \<Rightarrow> hseq (h_zfree q (length udir + 1)) (hret 1)
            | Inr _ \<Rightarrow>
                hbind h_opendir (\<lambda>dp.
                  hseq (h_closedir dp) (hseq (h_zfree q (length udir + 1)) (hret 0)))))"

section \<open>read-file\<close>

text \<open>The reading loop; \<open>b\<close> is the buffer, of \<open>cap\<close> bytes, which a failure releases.\<close>

function h_read_loop ::
    "'w world_scheme \<Rightarrow> string \<Rightarrow> nat \<Rightarrow> nat \<Rightarrow> nat \<Rightarrow> string \<Rightarrow> string \<Rightarrow> (read_result \<times> nat) hprog" where
  "h_read_loop w p i b cap buf rest =
     (case w_reads w p i of
        Inl e \<Rightarrow> hseq (h_zfree b cap) (hret (Read_failed e, 0))
      | Inr k \<Rightarrow>
          let n = transferred k (cap - length buf) (length rest);
              buf' = buf @ take n rest
          in if n = 0 then hret (Read_done buf cap, b)
             else if length buf' = cap then
               hbind (h_zrealloc w b cap (cap * 2)) (\<lambda>nb.
                 if nb = 0 then hseq (h_zfree b cap) (hret (Read_oom, 0))
                 else h_read_loop w p (Suc i) nb (cap * 2) buf' (drop n rest))
             else h_read_loop w p (Suc i) b cap buf' (drop n rest))"
  by pat_completeness auto
termination
  by (relation "measure (\<lambda>(w, p, i, b, cap, buf, rest). length rest)") (auto simp: transferred_bounds intro!: diff_less)

declare h_read_loop.simps [simp del]

text \<open>The bytes, mapped or read, with the buffer that holds them; or the diagnostic.\<close>

definition h_get_bytes ::
    "string \<Rightarrow> string \<Rightarrow> bool \<Rightarrow> string \<Rightarrow> nat \<Rightarrow> 'w world_scheme \<Rightarrow>
     ((string + buf_kind \<times> string \<times> nat) \<times> nat) hprog" where
  "h_get_bytes path u use_mmap data sz w =
     (if use_mmap \<and> 0 < sz \<and> w_mmap_ok w u then
        (case mapped_bytes data sz of
           None \<Rightarrow> hfault
         | Some buf \<Rightarrow> hbind (h_take sz) (\<lambda>b. hret (Inr (Mapped, buf, sz), b)))
      else
        hbind (h_zalloc w (first_cap sz)) (\<lambda>b.
          if b = 0 then hret (Inl (''oom: '' @ w_strerror w ENOMEM), 0)
          else hbind (h_read_loop w u 0 b (first_cap sz) [] data) (\<lambda>(r, q).
                 hret (case r of
                         Read_failed e \<Rightarrow> Inl (path @ '': '' @ w_strerror w e)
                       | Read_oom \<Rightarrow> Inl (''oom: '' @ w_strerror w ENOMEM)
                       | Read_done buf cap \<Rightarrow> Inr (Heap, buf, cap), q))))"

definition h_release :: "buf_kind \<Rightarrow> bool \<Rightarrow> nat \<Rightarrow> nat \<Rightarrow> nat \<Rightarrow> unit hprog" where
  "h_release k use_mmap cap sz b = (if released k use_mmap cap sz then h_zfree b cap else hfault)"

text \<open>The whole command, up to what it stores: a failure returns without releasing the path.\<close>

definition h_readfile ::
    "(nat \<Rightarrow> nat \<Rightarrow> unit hprog) \<Rightarrow> (string \<Rightarrow> string) \<Rightarrow> string \<Rightarrow> bool \<Rightarrow> 'w world_scheme \<Rightarrow>
     (string + buf_kind \<times> string \<times> nat) hprog" where
  "h_readfile zf unmetafy path use_mmap w =
     hbind (h_unmetafy_zalloc zf unmetafy w (Some path)) (\<lambda>r.
       case r of
         None \<Rightarrow> hret (Inl ''oom'')
       | Some (upath, u) \<Rightarrow>
           (case w_data w (cstr u) of
              Inl e \<Rightarrow> hret (Inl (path @ '': '' @ w_strerror w e))
            | Inr data \<Rightarrow>
                hbind h_open (\<lambda>fd.
                  case w_stat w (cstr u) of
                    Inl e \<Rightarrow> hseq (h_close_fd fd) (hret (Inl (path @ '': '' @ w_strerror w e)))
                  | Inr st \<Rightarrow>
                      hbind (h_get_bytes path (cstr u) use_mmap data (st_size st) w) (\<lambda>(r, b).
                        hseq (h_close_fd fd)
                          (case r of
                             Inl msg \<Rightarrow> hret (Inl msg)
                           | Inr (k, buf, cap) \<Rightarrow>
                               hseq (h_zfree upath (length u + 1))
                                 (hseq (h_release k use_mmap cap (length buf) b) (hret (Inr (k, buf, cap)))))))))"

text \<open>What the command sees of the model; \<open>None\<close> is a fault.\<close>

definition bytes_view ::
    "string \<Rightarrow> string \<Rightarrow> bool \<Rightarrow> string \<Rightarrow> nat \<Rightarrow> 'w world_scheme \<Rightarrow> (string + buf_kind \<times> string \<times> nat) option" where
  "bytes_view path u use_mmap data sz w =
     (if use_mmap \<and> 0 < sz \<and> w_mmap_ok w u then
        map_option (\<lambda>buf. Inr (Mapped, buf, sz)) (mapped_bytes data sz)
      else if \<not> w_alloc w (first_cap sz) then Some (Inl (''oom: '' @ w_strerror w ENOMEM))
      else case read_loop w u 0 (first_cap sz) [] data of
             Read_failed e \<Rightarrow> Some (Inl (path @ '': '' @ w_strerror w e))
           | Read_oom \<Rightarrow> Some (Inl (''oom: '' @ w_strerror w ENOMEM))
           | Read_done buf cap \<Rightarrow> Some (Inr (Heap, buf, cap)))"

definition readfile_view ::
    "(string \<Rightarrow> string) \<Rightarrow> string \<Rightarrow> bool \<Rightarrow> 'w world_scheme \<Rightarrow> (string + buf_kind \<times> string \<times> nat) option" where
  "readfile_view unmetafy path use_mmap w =
     (case zp_unmetafy_zalloc unmetafy w (Some path) of
        None \<Rightarrow> Some (Inl ''oom'')
      | Some (u, _) \<Rightarrow>
          (case w_data w (cstr u) of
             Inl e \<Rightarrow> Some (Inl (path @ '': '' @ w_strerror w e))
           | Inr data \<Rightarrow>
               (case w_stat w (cstr u) of
                  Inl e \<Rightarrow> Some (Inl (path @ '': '' @ w_strerror w e))
                | Inr st \<Rightarrow> bytes_view path (cstr u) use_mmap data (st_size st) w)))"

lemma readfile_core_view:
  "zp_readfile_core metafy unmetafy nam outname path use_mmap split delim w =
     (case readfile_view unmetafy path use_mmap w of
        None \<Rightarrow> None
      | Some (Inl msg) \<Rightarrow> Some (1, zwarnnam nam msg w)
      | Some (Inr (k, buf, cap)) \<Rightarrow> finish_read metafy outname use_mmap split delim k buf cap w)"
  by (simp add: zp_readfile_core_def readfile_view_def bytes_view_def Let_def
      split: option.splits prod.splits sum.splits read_result.splits)


section \<open>Balance\<close>

lemma triple_fd: "(\<And>fd. 0 < fd \<Longrightarrow> Q fd (add_mset (fd, 0) M)) \<Longrightarrow> triple L M h_open Q"
  unfolding h_open_def by (rule triple_take)

lemma triple_close_fd: "Q () M \<Longrightarrow> 0 < fd \<Longrightarrow> triple L (add_mset (fd, 0) M) (h_close_fd fd) Q"
  unfolding h_close_fd_def by (rule triple_zfree)

text \<open>Releasing what \<^const>\<open>h_unmetafy_zalloc\<close> gave.\<close>

lemma triple_unmetafy:
  assumes "\<And>q u. zp_unmetafy_zalloc unmetafy w (Some s) = Some (u, length u) \<Longrightarrow> 0 < q \<Longrightarrow>
      triple L (add_mset (q, length u + 1) M) (f (Some (q, u))) Q"
    and "zp_unmetafy_zalloc unmetafy w (Some s) = None \<Longrightarrow> triple L M (f None) Q"
  shows "triple L M (hbind (h_unmetafy_zalloc h_free unmetafy w (Some s)) f) Q"
proof (rule triple_bind, rule h_unmetafy_ok)
  fix r N
  assume o: "owns r (map_option fst (zp_unmetafy_zalloc unmetafy w (Some s))) M N"
  show "triple L N (f r) Q"
  proof (cases r)
    case None
    with o assms(2) show ?thesis by simp
  next
    case (Some qu)
    obtain q u where "r = Some (q, u)" using Some by (cases qu) auto
    moreover from this o have "zp_unmetafy_zalloc unmetafy w (Some s) = Some (u, length u)"
      by (auto simp: zp_unmetafy_zalloc_def Let_def split: option.splits if_splits)
    ultimately show ?thesis using o assms(1) by simp
  qed
qed

lemma dirlist_balanced:
  assumes "zp_dirlist_core metafy unmetafy nam outname dir inc_all only_dirs only_files w = (rc, w')"
  shows "triple L M (h_dirlist h_free unmetafy w dir) (\<lambda>r N. r = rc \<and> N = M)"
  unfolding h_dirlist_def
  by (rule triple_unmetafy) (use assms in \<open>auto simp: zp_dirlist_core_def h_opendir_def h_closedir_def
      split: sum.splits intro!: triple_bind triple_take triple_seq triple_zfree triple_zfree [where n = "Suc _"] triple_ret\<close>)

lemma h_pathstat_setsparam:
  "h_pathstat_loop zf unmetafy follow flds (setsparam x y w) ps = h_pathstat_loop zf unmetafy follow flds w ps"
proof -
  have z: "h_zalloc (setsparam x y w) = h_zalloc w" by (simp add: fun_eq_iff h_zalloc_def pcall_do_fields)
  have u: "h_unmetafy_zalloc zf unmetafy (setsparam x y w) = h_unmetafy_zalloc zf unmetafy w"
    unfolding h_unmetafy_zalloc_def z by (rule refl)
  show ?thesis
  proof (induction ps)
    case (Cons p ps)
    show ?case unfolding h_pathstat_loop.simps u Cons.IH by simp
  qed simp
qed

lemma pathstat_loop_balanced:
  assumes "pathstat_loop metafy unmetafy nam outname follow flds idx ps w = Some (rc, w')"
  shows "triple L M (h_pathstat_loop h_free unmetafy follow flds w ps) (\<lambda>r N. r = rc \<and> N = M)"
  using assms
proof (induction ps arbitrary: idx w)
  case Nil
  then show ?case by (simp add: triple_ret)
next
  case (Cons p ps)
  show ?case
    unfolding h_pathstat_loop.simps
  proof (rule triple_unmetafy)
    fix q :: nat and u
    assume u: "zp_unmetafy_zalloc unmetafy w (Some p) = Some (u, length u)" "0 < q"
    then obtain t where t: "stat_record flds u ((if follow then w_stat w else w_lstat w) (cstr u)) = Some t"
      and n: "pathstat_loop metafy unmetafy nam outname follow flds (Suc idx) ps
        (setsparam (indexed outname idx) (metafy t) w) = Some (rc, w')"
      using Cons.prems by (simp split: option.splits)
    from Cons.IH [OF n] have "triple L M (h_pathstat_loop h_free unmetafy follow flds w ps) (\<lambda>r N. r = rc \<and> N = M)"
      by (simp add: h_pathstat_setsparam)
    with u(2) t show "triple L (add_mset (q, length u + 1) M)
       (case Some (q, u) of None \<Rightarrow> hret 1
        | Some (q, p_in) \<Rightarrow>
            (case stat_record flds p_in ((if follow then w_stat w else w_lstat w) (cstr p_in)) of
               None \<Rightarrow> hfault
             | Some _ \<Rightarrow> hseq (h_zfree q (length p_in + 1)) (h_pathstat_loop h_free unmetafy follow flds w ps)))
       (\<lambda>r N. r = rc \<and> N = M)"
      by (auto intro!: triple_seq triple_zfree [where n = "Suc _"])
  qed (use Cons.prems in \<open>simp add: triple_ret\<close>)
qed

lemma h_read_loop_ok:
  assumes "0 < b"
  shows "triple L (add_mset (b, cap) M) (h_read_loop w p i b cap buf rest)
    (\<lambda>(r, q) N. r = read_loop w p i cap buf rest \<and>
       (case r of Read_done buf' cap' \<Rightarrow> 0 < q \<and> N = add_mset (q, cap') M | _ \<Rightarrow> N = M))"
  using assms
proof (induction w p i b cap buf rest rule: h_read_loop.induct)
  case (1 w p i b cap buf rest)
  let ?Q = "\<lambda>(r, q) N. r = read_loop w p i cap buf rest \<and>
       (case r of Read_done buf' cap' \<Rightarrow> 0 < q \<and> N = add_mset (q, cap') M | _ \<Rightarrow> N = M)"
  show ?case
  proof (cases "w_reads w p i")
    case (Inl e)
    with 1(3) show ?thesis
      by (auto simp: h_read_loop.simps [of w p i] read_loop.simps [of w p i] intro!: triple_seq triple_zfree triple_ret)
  next
    case (Inr k)
    define n where "n = transferred k (cap - length buf) (length rest)"
    define b' where "b' = buf @ take n rest"
    note IH1 = 1(1) [OF Inr n_def b'_def]
      and IH2 = 1(2) [OF Inr n_def b'_def]
    have h: "h_read_loop w p i b cap buf rest =
        (if n = 0 then hret (Read_done buf cap, b)
         else if length b' = cap then
           hbind (h_zrealloc w b cap (cap * 2)) (\<lambda>nb.
             if nb = 0 then hseq (h_zfree b cap) (hret (Read_oom, 0))
             else h_read_loop w p (Suc i) nb (cap * 2) b' (drop n rest))
         else h_read_loop w p (Suc i) b cap b' (drop n rest))"
      by (subst h_read_loop.simps) (simp only: Inr sum.case Let_def n_def b'_def)
    have r: "read_loop w p i cap buf rest =
        (if n = 0 then Read_done buf cap
         else if length b' = cap then
           if w_alloc w (cap * 2) then read_loop w p (Suc i) (cap * 2) b' (drop n rest) else Read_oom
         else read_loop w p (Suc i) cap b' (drop n rest))"
      by (subst read_loop.simps) (simp only: Inr sum.case Let_def n_def b'_def)
    show ?thesis
    proof (cases "n \<noteq> 0 \<and> length b' = cap")
      case False
      with 1(3) IH2 show ?thesis unfolding h r by (auto intro: triple_ret)
    next
      case True
      let ?k = "\<lambda>nb. if nb = 0 then hseq (h_zfree b cap) (hret (Read_oom, 0))
             else h_read_loop w p (Suc i) nb (cap * 2) b' (drop n rest)"
      have "triple L (block b cap + M) (h_zrealloc w b cap (cap * 2)) (\<lambda>nb N. triple L N (?k nb) ?Q)"
      proof (rule triple_zrealloc)
        fix q :: nat
        assume q: "w_alloc w (cap * 2)" "0 < q"
        have "triple L (add_mset (q, cap * 2) M) (h_read_loop w p (Suc i) q (cap * 2) b' (drop n rest)) ?Q"
          using IH1 [of q] True q by (simp add: r)
        then show "triple L (add_mset (q, cap * 2) M) (?k q) ?Q" using q(2) by simp
      next
        assume "\<not> w_alloc w (cap * 2)"
        then have "triple L (add_mset (b, cap) M) (?k 0) ?Q"
          using True 1(3) by (auto simp: r intro!: triple_seq triple_zfree triple_ret)
        then show "triple L (block b cap + M) (?k 0) ?Q" using 1(3) by (simp add: block_def)
      qed
      then have "triple L (add_mset (b, cap) M) (hbind (h_zrealloc w b cap (cap * 2)) ?k) ?Q"
        using 1(3) by (intro triple_bind) (simp add: block_def)
      then show ?thesis unfolding h using True by simp
    qed
  qed
qed

lemma h_get_bytes_ok:
  assumes "bytes_view path u use_mmap data sz w = Some r"
  shows "triple L M (h_get_bytes path u use_mmap data sz w)
    (\<lambda>(r', b) N. r' = r \<and>
       (case r of
          Inl msg \<Rightarrow> N = M
        | Inr (k, buf, cap) \<Rightarrow> released k use_mmap cap (length buf) \<and> 0 < b \<and> N = add_mset (b, cap) M))"
proof (cases "use_mmap \<and> 0 < sz \<and> w_mmap_ok w u")
  case True
  then obtain buf where b: "mapped_bytes data sz = Some buf" "r = Inr (Mapped, buf, sz)"
    using assms by (auto simp: bytes_view_def)
  then have "length buf = sz" by (auto simp: mapped_bytes_def split: if_splits)
  with True b show ?thesis by (auto simp: h_get_bytes_def released_def intro!: triple_bind triple_take triple_ret)
next
  case False
  let ?r = "\<lambda>x. case x of
      Read_failed e \<Rightarrow> Inl (path @ '': '' @ w_strerror w e)
    | Read_oom \<Rightarrow> Inl (''oom: '' @ w_strerror w ENOMEM)
    | Read_done buf cap \<Rightarrow> Inr (Heap, buf, cap)"
  have v: "r = (if w_alloc w (first_cap sz) then ?r (read_loop w u 0 (first_cap sz) [] data)
      else Inl (''oom: '' @ w_strerror w ENOMEM))"
    using assms False by (auto simp: bytes_view_def split: read_result.splits if_splits)
  have room: "length buf < cap" if "read_loop w u 0 (first_cap sz) [] data = Read_done buf cap" for buf cap
    using read_loop_room [OF _ that] by (simp add: first_cap_def)
  have eq: "h_get_bytes path u use_mmap data sz w =
      hbind (h_zalloc w (first_cap sz)) (\<lambda>b.
          if b = 0 then hret (Inl (''oom: '' @ w_strerror w ENOMEM), 0)
          else hbind (h_read_loop w u 0 b (first_cap sz) [] data) (\<lambda>(x, q). hret (?r x, q)))"
    by (subst h_get_bytes_def) (simp only: False if_False)
  let ?Q = "\<lambda>(r', b) N. r' = r \<and>
       (case r of
          Inl msg \<Rightarrow> N = M
        | Inr (k, buf, cap) \<Rightarrow> released k use_mmap cap (length buf) \<and> 0 < b \<and> N = add_mset (b, cap) M)"
  have "triple L (add_mset (b, first_cap sz) M)
      (hbind (h_read_loop w u 0 b (first_cap sz) [] data) (\<lambda>(x, q). hret (?r x, q))) ?Q"
    if "0 < b" "w_alloc w (first_cap sz)" for b
  proof (rule triple_bind, rule triple_conseq [OF h_read_loop_ok [OF that(1)]])
    fix x N
    let ?l = "read_loop w u 0 (first_cap sz) [] data"
    assume "(\<lambda>(r, q) N. r = ?l \<and>
       (case r of Read_done buf' cap' \<Rightarrow> 0 < q \<and> N = add_mset (q, cap') M | _ \<Rightarrow> N = M)) x N"
    then obtain q where "x = (?l, q)"
      "case ?l of Read_done buf' cap' \<Rightarrow> 0 < q \<and> N = add_mset (q, cap') M | _ \<Rightarrow> N = M" by (cases x) auto
    then show "triple L N (case x of (x, q) \<Rightarrow> hret (?r x, q)) ?Q"
      using v that(2) room by (cases ?l) (auto simp: released_def intro!: triple_ret)
  qed
  then show ?thesis
    unfolding eq using v by (intro triple_bind triple_zalloc) (auto intro: triple_ret)
qed

text \<open>After a success nothing is left; after a failure the path is, unless there was none.\<close>

lemma h_readfile_ok:
  assumes "readfile_view unmetafy path use_mmap w = Some r"
  shows "triple L {#} (h_readfile h_free unmetafy path use_mmap w)
    (\<lambda>r' N. r' = r \<and>
       (case (r, zp_unmetafy_zalloc unmetafy w (Some path)) of
          (Inl msg, Some (u, n)) \<Rightarrow> \<exists>p. N = {#(p, n + 1)#}
        | _ \<Rightarrow> N = {#}))"
  unfolding h_readfile_def
proof (rule triple_unmetafy)
  let ?Q = "\<lambda>r' N. r' = r \<and>
       (case (r, zp_unmetafy_zalloc unmetafy w (Some path)) of
          (Inl msg, Some (u, n)) \<Rightarrow> \<exists>p. N = {#(p, n + 1)#}
        | _ \<Rightarrow> N = {#})"
  fix q :: nat and u
  assume u: "zp_unmetafy_zalloc unmetafy w (Some path) = Some (u, length u)" "0 < q"
  let ?fin = "\<lambda>fd. \<lambda>(x, b). hseq (h_close_fd fd)
       (case x of
          Inl msg \<Rightarrow> hret (Inl msg)
        | Inr (k, buf, cap) \<Rightarrow>
            hseq (h_zfree q (length u + 1))
              (hseq (h_release k use_mmap cap (length buf) b) (hret (Inr (k, buf, cap)))))"
  have fin: "triple L N (?fin fd (x, b)) ?Q"
    if "x = r" "0 < fd" "case r of
          Inl msg \<Rightarrow> N = {#(fd, 0), (q, length u + 1)#}
        | Inr (k, buf, cap) \<Rightarrow> released k use_mmap cap (length buf) \<and> 0 < b \<and>
            N = add_mset (b, cap) {#(fd, 0), (q, length u + 1)#}" for N fd b x
  proof (cases r)
    case (Inl msg)
    with that u show ?thesis by (auto intro!: triple_seq triple_close_fd triple_ret)
  next
    case (Inr kbc)
    obtain k buf cap where k: "r = Inr (k, buf, cap)" using Inr by (cases kbc) auto
    have N: "N = add_mset (fd, 0) (add_mset (q, length u + 1) {#(b, cap)#})"
      using that(3) k by (simp add: add_mset_commute)
    have "triple L {#(b, cap)#} (hseq (h_release k use_mmap cap (length buf) b) (hret (Inr (k, buf, cap)))) ?Q"
      using that(3) k u by (auto simp: h_release_def intro!: triple_seq triple_zfree triple_ret)
    then show ?thesis
      unfolding N using that(1,2) u(2) k
      by (auto intro!: triple_seq triple_close_fd triple_zfree [where n = "Suc _"])
  qed
  show "triple L {#(q, length u + 1)#}
     (case Some (q, u) of None \<Rightarrow> hret (Inl ''oom'')
      | Some (upath, u) \<Rightarrow>
          (case w_data w (cstr u) of
             Inl e \<Rightarrow> hret (Inl (path @ '': '' @ w_strerror w e))
           | Inr data \<Rightarrow>
               hbind h_open (\<lambda>fd.
                 case w_stat w (cstr u) of
                   Inl e \<Rightarrow> hseq (h_close_fd fd) (hret (Inl (path @ '': '' @ w_strerror w e)))
                 | Inr st \<Rightarrow>
                     hbind (h_get_bytes path (cstr u) use_mmap data (st_size st) w) (\<lambda>(r, b).
                       hseq (h_close_fd fd)
                         (case r of
                            Inl msg \<Rightarrow> hret (Inl msg)
                          | Inr (k, buf, cap) \<Rightarrow>
                              hseq (h_zfree upath (length u + 1))
                                (hseq (h_release k use_mmap cap (length buf) b) (hret (Inr (k, buf, cap)))))))))
     ?Q"
  proof (cases "w_data w (cstr u)")
    case (Inl e)
    with assms u show ?thesis by (auto simp: readfile_view_def intro!: triple_ret)
  next
    case (Inr data)
    show ?thesis
    proof (cases "w_stat w (cstr u)")
      case (Inl e)
      with assms u Inr show ?thesis
        by (auto simp: readfile_view_def intro!: triple_bind triple_fd triple_seq triple_close_fd triple_ret)
    next
      case st: (Inr st)
      have "bytes_view path (cstr u) use_mmap data (st_size st) w = Some r"
        using assms u Inr st by (simp add: readfile_view_def)
      note g = h_get_bytes_ok [OF this]
      have "triple L {#(fd, 0), (q, length u + 1)#}
          (hbind (h_get_bytes path (cstr u) use_mmap data (st_size st) w) (?fin fd)) ?Q" if "0 < fd" for fd
      proof (rule triple_bind, rule triple_conseq [OF g])
        fix x N
        assume x: "(\<lambda>(r', b) N. r' = r \<and>
            (case r of
               Inl msg \<Rightarrow> N = {#(fd, 0), (q, length u + 1)#}
             | Inr (k, buf, cap) \<Rightarrow> released k use_mmap cap (length buf) \<and> 0 < b \<and>
                 N = add_mset (b, cap) {#(fd, 0), (q, length u + 1)#})) x N"
        obtain b where "x = (r, b)" using x by (cases x) auto
        with x fin [OF refl that, of N b] show "triple L N (?fin fd x) ?Q" by simp
      qed
      then show ?thesis
        unfolding Inr st option.case sum.case prod.case by (rule triple_bind [OF triple_fd])
    qed
  qed
qed (use assms in \<open>auto simp: readfile_view_def intro: triple_ret\<close>)

lemma holds_single: "holds L {#(p, n)#} h \<Longrightarrow> L p = None \<and> hp_live h = L(p \<mapsto> n) \<and> heap_ok h"
proof -
  assume h: "holds L {#(p, n)#} h"
  then obtain B where "mset B = {#(p, n)#}" "fst ` set B \<inter> dom L = {}" "hp_live h = L ++ map_of B"
    by (auto simp: holds_def)
  moreover from this have "B = [(p, n)]" by simp
  moreover have "heap_ok h" using h by (auto simp: holds_def heap_ok_def)
  ultimately show ?thesis by auto
qed

text \<open>path-stat and dir-list release everything on every path that is not a fault.\<close>

lemma fs_commands_balanced:
  assumes "heap_ok h"
  shows "zp_dirlist_core metafy unmetafy nam outname dir inc_all only_dirs only_files w = (rc, w') \<Longrightarrow>
      \<exists>h'. h_dirlist h_free unmetafy w dir h = Some (rc, h') \<and> hp_live h' = hp_live h \<and> heap_ok h'"
    and "pathstat_loop metafy unmetafy nam outname follow flds idx ps w = Some (rc, w') \<Longrightarrow>
      \<exists>h'. h_pathstat_loop h_free unmetafy follow flds w ps h = Some (rc, h') \<and> hp_live h' = hp_live h \<and> heap_ok h'"
  by (rule balanced [OF dirlist_balanced assms], assumption)
    (rule balanced [OF pathstat_loop_balanced assms], assumption)

section \<open>Properties\<close>

text \<open>
  C19: The memory of read-file.  Whenever the command does not fault, its buffer is released with the
  matching call and its true size, the descriptor is closed, nothing is released twice, and a
  success leaves the heap as it was; its answer is that of the model.  But every failure after the
  path was unmetafied leaves exactly one block behind, the copy of the path.  And the duplicate that
  unmetafying works on is always released with a size one too small: an allocator that relies on
  the size given to \<open>zfree\<close> faults.
\<close>

theorem readfile_memory_exact:
  assumes "heap_ok h" "readfile_view unmetafy path use_mmap w = Some r"
  shows "(\<exists>h'. h_readfile h_free unmetafy path use_mmap w h = Some (r, h') \<and> heap_ok h' \<and>
      (case (r, zp_unmetafy_zalloc unmetafy w (Some path)) of
         (Inl msg, Some (u, n)) \<Rightarrow> \<exists>p. hp_live h p = None \<and> hp_live h' = (hp_live h)(p \<mapsto> n + 1)
       | _ \<Rightarrow> hp_live h' = hp_live h)) \<and>
    zp_readfile_core metafy unmetafy nam outname path use_mmap split delim w =
      (case r of
         Inl msg \<Rightarrow> Some (1, zwarnnam nam msg w)
       | Inr (k, buf, cap) \<Rightarrow> finish_read metafy outname use_mmap split delim k buf cap w) \<and>
    h_readfile h_zfree unmetafy path use_mmap w h = None"
proof (intro conjI)
  have "holds (hp_live h) {#} h" using assms(1) by (simp add: holds_empty)
  from tripleD [OF h_readfile_ok [OF assms(2)] this] obtain h' M where
    run: "h_readfile h_free unmetafy path use_mmap w h = Some (r, h')" and M: "holds (hp_live h) M h'"
    and c: "case (r, zp_unmetafy_zalloc unmetafy w (Some path)) of
         (Inl msg, Some (u, n)) \<Rightarrow> \<exists>p. M = {#(p, n + 1)#} | _ \<Rightarrow> M = {#}" by blast
  have "heap_ok h' \<and> (case (r, zp_unmetafy_zalloc unmetafy w (Some path)) of
         (Inl msg, Some (u, n)) \<Rightarrow> \<exists>p. hp_live h p = None \<and> hp_live h' = (hp_live h)(p \<mapsto> n + 1)
       | _ \<Rightarrow> hp_live h' = hp_live h)"
    using M c holds_single [of "hp_live h" _ _ h'] holds_empty [of "hp_live h" h']
    by (auto split: sum.splits option.splits)
  with run show "\<exists>h'. h_readfile h_free unmetafy path use_mmap w h = Some (r, h') \<and> heap_ok h' \<and>
      (case (r, zp_unmetafy_zalloc unmetafy w (Some path)) of
         (Inl msg, Some (u, n)) \<Rightarrow> \<exists>p. hp_live h p = None \<and> hp_live h' = (hp_live h)(p \<mapsto> n + 1)
       | _ \<Rightarrow> hp_live h' = hp_live h)" by blast
next
  show "zp_readfile_core metafy unmetafy nam outname path use_mmap split delim w =
      (case r of
         Inl msg \<Rightarrow> Some (1, zwarnnam nam msg w)
       | Inr (k, buf, cap) \<Rightarrow> finish_read metafy outname use_mmap split delim k buf cap w)"
    unfolding readfile_core_view assms(2) by simp
next
  show "h_readfile h_zfree unmetafy path use_mmap w h = None"
    using unmetafy_short_size [of h unmetafy w path] assms(1) by (simp add: h_readfile_def hbind_def heap_ok_def)
qed

text \<open>A file that is not there, and one that is read.\<close>

theorem readfile_memory_exact_witness:
  "(\<exists>h' p. h_readfile h_free id ''f'' False world0 heap0 = Some (Inl ''f: error'', h') \<and>
      hp_live h' = [p \<mapsto> 2]) \<and>
   (\<exists>h' buf cap. h_readfile h_free id ''/t'' False world_text heap0 = Some (Inr (Heap, buf, cap), h') \<and>
      hp_live h' = Map.empty)"
proof
  have v: "readfile_view id ''f'' False world0 = Some (Inl ''f: error'')" by code_simp
  have z: "zp_unmetafy_zalloc id world0 (Some ''f'') = Some (''f'', 1)" by code_simp
  show "\<exists>h' p. h_readfile h_free id ''f'' False world0 heap0 = Some (Inl ''f: error'', h') \<and> hp_live h' = [p \<mapsto> 2]"
    using readfile_memory_exact [OF heap_ok_heap0 v, where metafy = id and nam = "[]" and outname = "[]"
        and split = False and delim = 0] z
    by (auto simp: heap0_def numeral_2_eq_2)
next
  have "map_option (map_sum length (\<lambda>(k, buf, cap). k = Heap)) (readfile_view id ''/t'' False world_text) = Some (Inr True)"
    by code_simp
  then obtain z where z: "readfile_view id ''/t'' False world_text = Some z"
      "map_sum length (\<lambda>(k, buf, cap). k = Heap) z = (Inr True :: nat + bool)"
    by (auto simp: map_option_eq_Some)
  obtain buf cap where "z = Inr (Heap, buf, cap)" using z(2) by (cases z) auto
  with z have v: "readfile_view id ''/t'' False world_text = Some (Inr (Heap, buf, cap))" by simp
  show "\<exists>h' buf cap. h_readfile h_free id ''/t'' False world_text heap0 = Some (Inr (Heap, buf, cap), h') \<and>
      hp_live h' = Map.empty"
    using readfile_memory_exact [OF heap_ok_heap0 v, where metafy = id and nam = "[]" and outname = "[]"
        and split = False and delim = 0]
    by (auto simp: heap0_def)
qed

end
