(* ===== verification/Spec2Isabelle.thy ===== *)
theory Spec2Isabelle
  imports Zp_Session Zp_Module Zp_Dump Zp_Bundle_Success Zp_Reports Zp_Compaudit_Rerun
    Zp_Memory Zp_Bundle_Memory Zp_Profile_Memory Zp_Fs_Memory
begin

text \<open>
  A verification library for zpmod, a loadable module of zsh (C sources under \<open>src/src/\<close>).

  The program.  On loading, the module installs its own handler for the builtins \<open>.\<close> and
  \<open>source\<close> (\<open>module/module.c\<close>, \<open>core/source.c\<close>).  The handler compiles scripts ahead of
  time, runs the compiled form when it is current, and records one event per sourced script in an
  event table.  The builtin \<open>zpmod\<close> (\<open>builtins/zpmod_builtin.c\<close>) dispatches subcommands that
  report those events (\<open>source-study\<close>), compile the slowest scripts (\<open>source-hot\<close>), cache
  security verdicts of completion directories (\<open>compaudit-cache\<close>), compare \<open>PATH\<close> with a
  snapshot (\<open>rehash-diff\<close>), index function directories (\<open>fpath-index\<close>), concatenate scripts
  into a bundle (\<open>bundle-build\<close>) and give fast file system access (\<open>dir-list\<close>,
  \<open>path-stat\<close>, \<open>read-file\<close>, \<open>path-warmup\<close>).  The last ones, and \<open>zpreadarray\<close>, are builtins
  of their own too.

  Theories.  Each opens with what it holds, and its definitions come in the order of the code.
  \<^item> \<open>Zp_Prelude\<close>: machine integers (LP64), C strings, printing and parsing of numbers;
    \<open>Zp_Clib\<close>: \<open>strtol\<close>, \<open>strtok_r\<close>, \<open>fgets\<close>.
  \<^item> \<open>Zp_World\<close>: the process as the module sees it, one record: the file system as the answers
    of its calls, shell parameters, the allocator, error numbers, and what was written, warned,
    assigned to parameters and handed to zsh for execution.  Every component works on a world of
    any extension, \<open>'w world_scheme\<close>.
  \<^item> \<open>Zp_Shell\<close>: that record extended by the shell globals \<open>source.c\<close> saves and restores,
    the mapped dumps and the static profile of the module.
  \<^item> \<open>Zp_Utils\<close> (\<open>utils.c\<close>), \<open>Zp_Options\<close> (\<open>compat/options.c\<close>), \<open>Zp_Emoji\<close>
    (\<open>emoji.c\<close>), \<open>Zp_Clock\<close> (\<open>zpmod_clock.h\<close>): the helpers.
  \<^item> \<open>Zp_Zwc\<close>, \<open>Zp_Profile\<close>, \<open>Zp_Source\<close> (\<open>source.c\<close>): compiled dumps; the event table
    with its report and the overrides; sourcing itself.  \<open>Zp_Dump\<close>: what a well-formed dump gives.
  \<^item> \<open>Zp_Vec\<close>: the growable arrays of three files and the locale \<open>growable\<close> of their push;
    \<open>Zp_Cache\<close>: the locale \<open>line_format\<close> of the two text caches; \<open>Zp_Sort\<close>: \<open>qsort\<close> and the
    locale \<open>comparator\<close> of the functions two sources give it.
  \<^item> \<open>Zp_Compaudit\<close> (\<open>compaudit_cache.c\<close>), \<open>Zp_Rehash\<close> (\<open>rehash_diff.c\<close>), \<open>Zp_Bundle\<close>
    (\<open>bundle_build.c\<close>, with \<open>Zp_Bundle_Success\<close> on when it answers 0), \<open>Zp_Fpath\<close> (\<open>fpath.c\<close>), \<open>Zp_Hot\<close> (\<open>source_hot.c\<close>), \<open>Zp_Fs\<close> and
    \<open>Zp_Readfile\<close> (\<open>fs.c\<close>): the subcommands.
  \<^item> \<open>Zp_Readarray\<close> (\<open>zpreadarray.c\<close>), \<open>Zp_Commands\<close> (\<open>fs_builtins.c\<close> and the argument
    parsers of \<open>zpmod_builtin.c\<close>), \<open>Zp_Zpmod\<close> (usage and dispatch), \<open>Zp_Module\<close>
    (\<open>module.c\<close> and the builtin tables).
  \<^item> \<open>Zp_Session\<close>: the commands of a session as a step relation over all of it.
  \<^item> \<open>Zp_Nesting\<close>: trees of scripts that source each other, and the profile they leave.
  \<^item> \<open>Zp_Json\<close>: a reader of JSON, written for the proofs; \<open>Zp_Reports\<close>: what the reports of
    \<open>source-study\<close> and \<open>compaudit-cache\<close> say when they are read back with it.
  \<^item> \<open>Zp_Compaudit_Rerun\<close>: \<open>compaudit-cache\<close> run twice.
  \<^item> \<open>Zp_Heap\<close>: memory as the live blocks with their sizes, with triples for the programs that
    take and release them.  \<open>Zp_Memory\<close> (\<open>compaudit_cache.c\<close>, \<open>rehash_diff.c\<close>),
    \<open>Zp_Bundle_Memory\<close> (\<open>bundle_build.c\<close>), \<open>Zp_Dump_Memory\<close> and \<open>Zp_Profile_Memory\<close> (\<open>source.c\<close>) and
    \<open>Zp_Fs_Memory\<close> (\<open>fs.c\<close>, \<open>utils.c\<close>) run the commands again over it: a definition \<open>h_f\<close> makes
    the allocations, releases and pointer moves of the C function \<open>f\<close> on every path.

  Conventions.  A C function that changes state takes the world last and returns it; an error code
  of the operating system is the left side of a sum; \<^const>\<open>None\<close> as the result of a command is a
  fault of the C program (an access outside an object, a signed overflow, a division by zero, the
  release of memory with the wrong call) or, in the search of a dump, a loop that never ends.
  \<open>struct stat\<close> fields keep their widths; a size is a natural number and a time an integer, with
  \<open>times_fit\<close> or \<open>stat_fits\<close> where a proof needs their range.  Memory the source leaves uninitialised
  reads as the world's \<open>w_garbage\<close>.  zsh's \<open>zalloc\<close> can be refused through
  \<open>w_alloc\<close> where the source tests for it.

  Interfaces.  \<open>growable\<close> (a push keeps the vector well formed and appends) is interpreted on the
  three pushes; \<open>line_format\<close> (a printed entry is parsed back, on one line) on the two cache
  formats; \<open>comparator\<close> (a total preorder on the sets where it is one) on the comparisons of the
  bundle and of the hot scripts; \<open>allocator\<close> (which sizes are granted, and the blocks live after)
  on \<open>zalloc\<close> and on the calls whose result is not tested; \<open>dump_search\<close> and
  \<open>bookkeeping\<close> (an observation of the shell that looking for a compiled form, or recording, does
  not change) on the profile, the saved variables and the stacks.

  What the lemmas show.
  \<^item> Sourcing: the caller's state is given back at any nesting depth, each source records
    exactly one event of its own after those of its script, the table stays gap-free, a stale compiled form is never used, the compiler runs only
    when wanted; sourcing a script with a current, well-formed dump executes exactly the code it
    holds, mapped or read; a mapping is whole pages with zero bytes
    after the end of the file; the dump search runs forever exactly when it comes to a header of
    length zero and another name.
  \<^item> Sessions and the module's life: the step relations of \<open>Zp_Session\<close> and \<open>Zp_Module\<close>, with
    invariants by rule induction.  The frame lemmas (collections \<open>frame\<close> and \<open>framed\<close>) say that
    no other command touches the shell's own state.
  \<^item> Caches: printing and loading are inverse, verdicts are those the policy gives now, the counts
    of the comparison are exact also for directories that are named twice, a second run is quiet
    (that of \<open>rehash-diff\<close> when \<open>PATH\<close> names no directory twice).
  \<^item> Bundles: what is collected is an inductive relation over the file system; publication is
    atomic; the content is the sorted sections within the limit; a second build is quiet; a tree
    that can be read is always built.
  \<^item> Index: reuse holds exactly when search path and times are unchanged; preloading prefers the
    first directory.  Hot scripts: exact sums, decreasing order.
  \<^item> File system commands: results against specifications of their own (the fields a record
    reads back to, the executables of a directory), which step's error \<open>read-file\<close> reports, the
    buffer of \<open>path-stat\<close> (safe up to 354 bytes of path, overrun from 508 on), the ring of the directory cache as a bounded queue,
    agreement of the two readers of \<open>zpreadarray\<close>, which lend zsh their line buffer
    (\<open>Lend_scalar\<close>), and of the subcommands with the builtins.
  \<^item> Reports: the JSON texts are UTF-8 documents, and read back they hold the data of the model.
  \<^item> Memory: on every path each block is released once and with its own size, but for the
    releases named below, and what is still
    live at the end is exactly what the program keeps: nothing, the four blocks of each recorded
    event and the two of each mapped dump, or, after a failed \<open>read-file\<close>, the path it forgets.
  \<^item> \<open>zpmod\<close> as a whole: exit codes 0 and 1; the version and the help only print.

  Bounds and fuel.  \<open>bb_collect\<close> recurses over the number of directory levels left,
  \<open>bb_depth\<close> = 65, which is the source's own limit (depth 0 to 64, then \<open>ELOOP\<close>).  The dump
  search is a partial function into option, so that not ending is a value; every other loop is
  structural or has a measure.  \<open>PATH_MAX\<close> is 4096, the line buffers are 2048 (index) and 4096
  bytes (caches), the record buffer has 512 bytes and an indexed name 256.

  Configuration.  The model is that of a build with source profiling, a monotonic clock, \<open>mmap\<close>
  and \<open>O_NOFOLLOW\<close>; \<open>HAVE_GETLINE\<close> is an argument.

  Not modelled.
  \<^item> zsh: compiling, parsing, executing, metafying, feature tables and parameters are arguments or
    recorded calls, with their documented behaviour as hypotheses (\<open>well_behaved\<close>,
    \<open>bookkeeping_callbacks\<close>, \<open>session_callbacks\<close>).  What a command line handed to
    \<open>execstring\<close> does is not followed, nor is a parameter read again after it was assigned.
  \<^item> The blocks zsh owns (parameters, programs, tables of builtins), the streams of text files and
    their flushing.  Some releases are told a size smaller than that of the block, which the
    default \<open>zfree\<close> ignores (\<open>h_free\<close>): those of \<open>zp_unmetafy_zalloc\<close>, of \<open>file_dup\<close> and of the
    block of a dump that is too short.  They are modelled so, with lemmas that an exact \<open>zfree\<close> would
    fault.  The sizes of zsh's own structures and its \<open>freeeprog\<close> are a parameter, \<open>zsh_memory\<close>.
  \<^item> Other processes that change the file system during a command, except between collecting and
    copying the files of a bundle, where the later file system is an argument of its own.
  \<^item> Headers with declarations only, completion scripts, build files and tests.
\<close>

end
